(* ===== verification/Go_Prelude.thy ===== *)
theory Go_Prelude
  imports Complex_Main "HOL-Library.Word" "HOL-Library.Multiset" "HOL-Library.FSet"
begin

text \<open>
  Shared vocabulary of the development: Go results, the pull-iterator protocol of
  \<^verbatim>\<open>sql/row.go\<close> and generic list and map facts.

  A Go call that returns \<^verbatim>\<open>(T, error)\<close> is a value of \<open>'a res\<close>: the value, an error of one
  of the kinds the source declares, or a run-time panic (an out-of-range index, a failed type
  assertion, an integer division by zero, a comparison of uncomparable interface values).
  Arguments that only format an error's message are dropped, names and counts are kept.
\<close>

unbundle bit_operations_syntax

named_theorems res_simps
named_theorems iter_intros

section \<open>Errors and results\<close>

text \<open>Error kinds, grouped by the package that declares them.\<close>

datatype (plugins only: code size) sql_error =
    ErrUnexpectedRowLength nat nat
  | ErrInvalidType
  | ErrUnexpectedType nat
  | ErrTableAlreadyExists string
  | ErrTableNotFound string
  | ErrDeleteRowNotFound
  | ErrDatabaseNotFound string
  | ErrAsOfNotSupported string
  | ErrOutOfRange
  | ErrConvertToSQL
  | ErrLengthBeyondLimit
  | ErrValueNotNil
  | ErrNotTuple
  | ErrInvalidColumnNumber nat nat
  | ErrInvalidChildrenNumber nat nat

datatype (plugins only: code size) reg_error =
    ErrNoMemoryAvailable
  | ErrKeyNotFound "64 word"
  | ErrPidAlreadyUsed "64 word"
  | ErrExistingView string string
  | ErrNonExistingView string string
  | ErrFunctionAlreadyRegistered string
  | ErrFunctionNotFound string
  | ErrInvalidArgumentNumber string nat nat

datatype (plugins only: code size) expr_error =
    ErrNilOperand
  | ErrInvalidOperandColumns nat nat
  | ErrUnsupportedInOperand
  | ErrIndexOutOfBounds int nat
  | ErrCannotSetField
  | ErrUnableToCast
  | ErrUnableToEval

datatype (plugins only: code size) plan_error =
    ErrInsertIntoNotSupported
  | ErrReplaceIntoNotSupported
  | ErrInsertIntoMismatchValueCount
  | ErrInsertIntoUnsupportedValues
  | ErrInsertIntoDuplicateColumn string
  | ErrInsertIntoNonexistentColumn string
  | ErrInsertIntoNonNullableDefaultNullColumn string
  | ErrInsertIntoNonNullableProvidedNull string
  | ErrInsertIntoIncompatibleTypes
  | ErrUpdateNotSupported
  | ErrUpdateUnexpectedSetResult
  | ErrDeleteFromNotSupported
  | ErrTableNotLockable string
  | ErrCreateTableNotSupported string
  | ErrDropTableNotSupported string
  | ErrRenameTableNotSupported string
  | ErrAlterTableNotSupported string string
  | ErrTableColumnNotFound string string
  | ErrNullDefault
  | ErrIncompatibleDefaultType

datatype (plugins only: code size) mem_error =
    ErrColumnNotFound string
  | ErrPartitionNotFound string

datatype (plugins only: code size) auth_error =
    ErrNoPermission "64 word"
  | ErrDuplicateUser string
  | ErrUnknownPermission string

datatype (plugins only: code size) index_error =
    ErrIndexIDAlreadyRegistered string
  | ErrIndexExpressionAlreadyRegistered "string list"
  | ErrIndexNotFound string
  | ErrIndexDeleteInvalidStatus string

datatype (plugins only: code size) analyzer_error =
    ErrInvalidInRightEvaluation
  | ErrFieldMissing string

datatype (plugins only: code size) type_error =
    ErrConvertingToEnum
  | ErrConvertingToSet
  | ErrDuplicateEntrySet string
  | ErrInvalidSetValue
  | ErrConvertingToYear
  | ErrCharacterSetNotSupported string
  | ErrCollationNotSupported string

datatype (plugins only: code size) parse_error =
    ErrUnexpectedSyntax
  | ErrInvalidIndexExpression
  | ErrInvalidIndex string int

datatype (plugins only: code size) function_error =
    ErrNegativeRepeatCount
  | ErrDivisionByZero
  | ErrUnsupportedType
  | ErrUintOverflow
  | ErrConcatArrayWithOthers

text \<open>
  \<open>EOF\<close> is \<^verbatim>\<open>io.EOF\<close>, \<open>Canceled\<close> is \<^verbatim>\<open>context.Canceled\<close>. \<open>ErrOther\<close> is an error of
  \<^verbatim>\<open>fmt.Errorf\<close> or of a third-party package, with its text.
\<close>

datatype (plugins only: code size) gerror =
    EOF
  | Canceled
  | SqlErr sql_error
  | RegErr reg_error
  | ExprErr expr_error
  | PlanErr plan_error
  | MemErr mem_error
  | AuthErr auth_error
  | IndexErr index_error
  | AnalyzerErr analyzer_error
  | TypeErr type_error
  | ParseErr parse_error
  | FuncErr function_error
  | ErrUnableSort gerror
  | ErrConvertExpression gerror
  | ErrUnlockTables "32 word" "gerror list"
  | ErrMaxAnalysisIters nat
  | ErrOther string

datatype 'a res = Ok 'a | Err gerror | Panic

fun rbind :: "'a res \<Rightarrow> ('a \<Rightarrow> 'b res) \<Rightarrow> 'b res" where
  "rbind (Ok x) f = f x"
| "rbind (Err e) f = Err e"
| "rbind Panic f = Panic"

fun is_Ok :: "'a res \<Rightarrow> bool" where
  "is_Ok (Ok x) = True"
| "is_Ok (Err e) = False"
| "is_Ok Panic = False"

lemma rbind_cong [fundef_cong]:
  "m = m' \<Longrightarrow> (\<And>x. m' = Ok x \<Longrightarrow> f x = f' x) \<Longrightarrow> rbind m f = rbind m' f'"
  by (cases m) auto

lemma rbind_eq_Ok [res_simps]: "rbind m f = Ok y \<longleftrightarrow> (\<exists>x. m = Ok x \<and> f x = Ok y)"
  by (cases m) auto

lemma rbind_Ok_right [simp]: "rbind m Ok = m"
  by (cases m) auto

lemma rbind_assoc: "rbind (rbind m f) g = rbind m (\<lambda>x. rbind (f x) g)"
  by (cases m) auto

lemma is_Ok_iff: "is_Ok m \<longleftrightarrow> (\<exists>x. m = Ok x)"
  by (cases m) auto

text \<open>A Go \<^verbatim>\<open>for\<close> loop that stops at the first error of its body.\<close>

fun rmap :: "('a \<Rightarrow> 'b res) \<Rightarrow> 'a list \<Rightarrow> 'b list res" where
  "rmap f [] = Ok []"
| "rmap f (x # xs) = rbind (f x) (\<lambda>y. rbind (rmap f xs) (\<lambda>ys. Ok (y # ys)))"

lemma rmap_cong [fundef_cong]:
  "xs = ys \<Longrightarrow> (\<And>x. x \<in> set ys \<Longrightarrow> f x = g x) \<Longrightarrow> rmap f xs = rmap g ys"
  by (induction xs arbitrary: ys) (auto intro: rbind_cong)

lemma rmap_length: "rmap f xs = Ok ys \<Longrightarrow> length ys = length xs"
  by (induction xs arbitrary: ys) (auto simp: res_simps)

lemma rmap_Ok_iff: "rmap f xs = Ok ys \<longleftrightarrow> list_all2 (\<lambda>x y. f x = Ok y) xs ys"
  by (induction xs arbitrary: ys) (auto simp: res_simps list_all2_Cons1)

lemma rmap_Ok_map: "(\<And>x. x \<in> set xs \<Longrightarrow> f x = Ok (g x)) \<Longrightarrow> rmap f xs = Ok (map g xs)"
  by (induction xs) auto

section \<open>Slices\<close>

text \<open>Reading a slice at an index panics out of range.\<close>

definition slice_at :: "'a list \<Rightarrow> nat \<Rightarrow> 'a res" where
  "slice_at xs i = (if i < length xs then Ok (xs ! i) else Panic)"

lemma slice_at_Ok [simp]: "i < length xs \<Longrightarrow> slice_at xs i = Ok (xs ! i)"
  by (simp add: slice_at_def)

definition slice_set :: "'a list \<Rightarrow> nat \<Rightarrow> 'a \<Rightarrow> 'a list res" where
  "slice_set xs i v = (if i < length xs then Ok (xs[i := v]) else Panic)"

lemma slice_set_Ok [simp]: "i < length xs \<Longrightarrow> slice_set xs i v = Ok (xs[i := v])"
  by (simp add: slice_set_def)

lemma drop_ConsD: "drop n xs = y # ys \<Longrightarrow> n < length xs \<and> xs ! n = y \<and> drop (Suc n) xs = ys"
  by (metis drop_Suc drop_eq_Nil leI list.distinct(1) list.sel(3) nth_via_drop tl_drop)

section \<open>Strings\<close>

text \<open>
  Go strings are byte sequences, as HOL's \<open>string\<close> is.
  \<^verbatim>\<open>strings.ToLower\<close> is modelled on its ASCII range: identifiers outside ASCII are left unchanged.
\<close>

definition lower_char :: "char \<Rightarrow> char" where
  "lower_char c = (let n = of_char c :: nat in
     if 65 \<le> n \<and> n \<le> 90 then char_of (n + 32) else c)"

definition ToLower :: "string \<Rightarrow> string" where
  "ToLower s = map lower_char s"

lemma lower_char_idem [simp]: "lower_char (lower_char c) = lower_char c"
proof -
  show ?thesis
    by (auto simp: lower_char_def Let_def take_bit_eq_mod)
qed

lemma ToLower_idem [simp]: "ToLower (ToLower s) = ToLower s"
  by (simp add: ToLower_def)

lemma ToLower_Nil [simp]: "ToLower [] = []"
  by (simp add: ToLower_def)

section \<open>Pull iterators\<close>

text \<open>
  \<^verbatim>\<open>sql.RowIter\<close> and its relatives (\<^verbatim>\<open>PartitionIter\<close>, index value iterators) are objects with a
  \<^verbatim>\<open>Next\<close> method that mutates the object and returns an element or an error, \<^verbatim>\<open>io.EOF\<close> being the
  regular end. A model of \<^verbatim>\<open>Next\<close> maps the state to the next state and the result; \<open>None\<close> means
  that the call does not return.
\<close>

type_synonym ('s, 'a) nextfn = "'s \<Rightarrow> ('s \<times> 'a res) option"

text \<open>
  \<open>yields nx s xs r t\<close>: pulling from state \<open>s\<close> returns the elements \<open>xs\<close> one by one and then the
  failure \<open>r\<close> (\<open>Err EOF\<close> at a regular end), leaving the state \<open>t\<close>.
\<close>

inductive yields :: "('s, 'a) nextfn \<Rightarrow> 's \<Rightarrow> 'a list \<Rightarrow> 'a res \<Rightarrow> 's \<Rightarrow> bool" for nx where
  stop: "nx s = Some (t, r) \<Longrightarrow> \<not> is_Ok r \<Longrightarrow> yields nx s [] r t"
| step: "nx s = Some (s', Ok x) \<Longrightarrow> yields nx s' xs r t \<Longrightarrow> yields nx s (x # xs) r t"

inductive_cases yields_NilE: "yields nx s [] r t"
inductive_cases yields_ConsE: "yields nx s (x # xs) r t"

lemmas yields_intros [iter_intros] = yields.intros

lemma yields_not_Ok: "yields nx s xs r t \<Longrightarrow> \<not> is_Ok r"
  by (induction rule: yields.induct) auto

lemma yields_deterministic:
  "yields nx s xs r t \<Longrightarrow> yields nx s ys r' t' \<Longrightarrow> xs = ys \<and> r = r' \<and> t = t'"
proof (induction arbitrary: ys r' t' rule: yields.induct)
  case (stop s t r)
  from stop.prems show ?case
    by (cases rule: yields.cases) (use stop.hyps in auto)
next
  case (step s s' x xs r t)
  from step.prems show ?case
  proof (cases rule: yields.cases)
    case stop
    with step.hyps(1) show ?thesis by simp
  next
    case (step u y zs)
    with \<open>nx s = Some (s', Ok x)\<close> have "u = s'" "y = x" by simp_all
    with step step.IH [of zs r' t'] show ?thesis by simp
  qed
qed

lemma yields_coincide:
  assumes "yields nx s xs r t" and "\<And>u. nx u = nx' u"
  shows "yields nx' s xs r t"
  using assms by (induction rule: yields.induct) (auto intro: yields.intros)

text \<open>
  A \<^verbatim>\<open>for { ... }\<close> loop around a body that either continues with a new state or returns a result.
\<close>

partial_function (option) go_loop :: "('s \<Rightarrow> ('s \<times> 'a res option) option) \<Rightarrow> ('s, 'a) nextfn" where
  "go_loop body s =
     (case body s of
        None \<Rightarrow> None
      | Some (s', None) \<Rightarrow> go_loop body s'
      | Some (s', Some r) \<Rightarrow> Some (s', r))"

lemma go_loop_continue: "body s = Some (s', None) \<Longrightarrow> go_loop body s = go_loop body s'"
  by (simp add: go_loop.simps [of body s])

lemma go_loop_return: "body s = Some (s', Some r) \<Longrightarrow> go_loop body s = Some (s', r)"
  by (simp add: go_loop.simps [of body s])

text \<open>A body that leaves the state as it was loops for ever, and so does collecting a row that repeats.\<close>

lemma go_loop_stuck:
  assumes "body s = Some (s, None)"
  shows "go_loop body s = None"
proof (rule ccontr)
  assume "go_loop body s \<noteq> None"
  then obtain y where "go_loop body s = Some y" by auto
  then have "body s \<noteq> Some (s, None)"
  proof (rule go_loop.raw_induct [of "\<lambda>body s y. body s \<noteq> Some (s, None)", rotated], intro notI)
    fix f body s y
    assume "\<And>body s y. f body s = Some y \<Longrightarrow> body s \<noteq> Some (s, None)" "body s = Some (s, None)"
      "(case body s of None \<Rightarrow> None | Some (s', None) \<Rightarrow> f body s' | Some (s', Some r) \<Rightarrow> Some (s', r)) = Some y"
    then show False by auto
  qed
  with assms show False by simp
qed

text \<open>A state whose next call behaves as another state's yields the same.\<close>

lemma yields_same_next: "nx s = nx s' \<Longrightarrow> yields nx s' xs r t \<Longrightarrow> yields nx s xs r t"
  by (erule yields.cases) (auto intro: yields.intros)

text \<open>
  \<^verbatim>\<open>RowIterToRows\<close> (\<^verbatim>\<open>sql/row.go\<close>): pull until \<^verbatim>\<open>io.EOF\<close>, collecting the rows. The loop may
  not end, so it is a partial function.
\<close>

partial_function (option) drain :: "('s, 'a) nextfn \<Rightarrow> 's \<Rightarrow> 'a list \<Rightarrow> ('s \<times> 'a list res) option"
where
  "drain nx s acc =
     (case nx s of None \<Rightarrow> None | Some (s', r) \<Rightarrow>
       (case r of Ok x \<Rightarrow> drain nx s' (acc @ [x])
        | Err e \<Rightarrow> Some (s', if e = EOF then Ok acc else Err e)
        | Panic \<Rightarrow> Some (s', Panic)))"

lemma drain_yields:
  "yields nx s xs r t \<Longrightarrow>
   drain nx s acc = Some (t, case r of Err e \<Rightarrow> if e = EOF then Ok (acc @ xs) else Err e | _ \<Rightarrow> Panic)"
proof (induction arbitrary: acc rule: yields.induct)
  case (stop s t r)
  then show ?case by (cases r) (auto simp: drain.simps [of nx s])
next
  case (step s s' x xs r t)
  then show ?case by (auto simp: drain.simps [of nx s] split: res.splits)
qed

lemma drain_stuck:
  assumes "nx s = Some (s, Ok x)"
  shows "drain nx s acc = None"
proof (rule ccontr)
  assume "drain nx s acc \<noteq> None"
  then obtain y where "drain nx s acc = Some y" by auto
  then have "nx s \<noteq> Some (s, Ok x)"
  proof (rule drain.raw_induct [of "\<lambda>nx s acc y. nx s \<noteq> Some (s, Ok x)", rotated], intro notI)
    fix f nx s acc y
    assume "\<And>nx s acc y. f nx s acc = Some y \<Longrightarrow> nx s \<noteq> Some (s, Ok x)" "nx s = Some (s, Ok x)"
      "(case nx s of None \<Rightarrow> None | Some (s', Ok x) \<Rightarrow> f nx s' (acc @ [x])
        | Some (s', Err e) \<Rightarrow> Some (s', if e = EOF then Ok acc else Err e)
        | Some (s', Panic) \<Rightarrow> Some (s', Panic)) = Some y"
    then show False by auto
  qed
  with assms show False by simp
qed

lemma drain_None: "nx s = None \<Longrightarrow> drain nx s acc = None"
  by (simp add: drain.simps [of nx s])

lemma drain_same_next: "nx s = nx s' \<Longrightarrow> drain nx s acc = drain nx s' acc"
  by (simp add: drain.simps [of nx s] drain.simps [of nx s'])

text \<open>
  The contract of a well-behaved iterator: a state stands for the rows still to come, and a call of
  \<^verbatim>\<open>Next\<close> returns the first of them, or \<^verbatim>\<open>io.EOF\<close> when there is none.
\<close>

locale row_iter =
  fixes nx :: "('s, 'a) nextfn"
    and ok :: "'s \<Rightarrow> bool"
    and pending :: "'s \<Rightarrow> 'a list"
  assumes at_end: "ok s \<Longrightarrow> pending s = [] \<Longrightarrow> \<exists>t. nx s = Some (t, Err EOF) \<and> ok t \<and> pending t = []"
    and at_row: "ok s \<Longrightarrow> pending s = x # xs \<Longrightarrow> \<exists>t. nx s = Some (t, Ok x) \<and> ok t \<and> pending t = xs"
begin

lemma yields_pending: "ok s \<Longrightarrow> \<exists>t. yields nx s (pending s) (Err EOF) t \<and> ok t \<and> pending t = []"
proof (induction "pending s" arbitrary: s)
  case Nil
  then obtain t where "nx s = Some (t, Err EOF)" "ok t" "pending t = []"
    using at_end [of s] by auto
  then show ?case using Nil by (auto intro!: exI [of _ t] yields.stop)
next
  case (Cons x xs)
  then obtain u where u: "nx s = Some (u, Ok x)" "ok u" "pending u = xs"
    using at_row [of s x xs] by auto
  with Cons.hyps(1) [of u] obtain t where "yields nx u xs (Err EOF) t" "ok t" "pending t = []"
    by auto
  with u Cons.hyps(2) show ?case by (metis yields.step)
qed

lemma drain_pending: "ok s \<Longrightarrow> \<exists>t. drain nx s [] = Some (t, Ok (pending s))"
  using yields_pending [of s] by (auto simp: drain_yields)

end

end
