(* ===== verification/Go_Values.thy ===== *)
theory Go_Values
  imports Go_Prelude "HOL-Library.Log_Nat"
begin

text \<open>
  The dynamically typed values (\<^verbatim>\<open>interface{}\<close>) that rows hold, Go's floating-point numbers and
  the part of \<^verbatim>\<open>strconv\<close> the engine relies on, and the two coercions of a value to a truth value:
  \<^verbatim>\<open>sql.ConvertToBool\<close> (\<^verbatim>\<open>sql/type.go\<close>) and \<^verbatim>\<open>sql.EvaluateCondition\<close> (\<^verbatim>\<open>sql/core.go\<close>).
\<close>

section \<open>IEEE 754 numbers\<close>

text \<open>
  A \<^verbatim>\<open>float64\<close> is its bit pattern. Without the sign bit the patterns are ordered as the numbers
  they stand for, so comparison works on a signed integer key. Arithmetic is the exact rational
  result rounded to nearest, ties to even. All NaNs are produced as one quiet NaN.
\<close>

definition f64_mag :: "64 word \<Rightarrow> int" where
  "f64_mag b = uint (take_bit 63 b)"

definition f64_sign :: "64 word \<Rightarrow> bool" where
  "f64_sign b = bit b 63"

definition f64_inf_mag :: int where
  "f64_inf_mag = 2047 * 2 ^ 52"

definition f64_nan :: "64 word \<Rightarrow> bool" where
  "f64_nan b = (f64_inf_mag < f64_mag b)"

definition f64_inf :: "64 word \<Rightarrow> bool" where
  "f64_inf b = (f64_mag b = f64_inf_mag)"

definition f64_key :: "64 word \<Rightarrow> int" where
  "f64_key b = (if f64_sign b then - f64_mag b else f64_mag b)"

definition f64_eq :: "64 word \<Rightarrow> 64 word \<Rightarrow> bool" where
  "f64_eq a b = (\<not> f64_nan a \<and> \<not> f64_nan b \<and> f64_key a = f64_key b)"

definition f64_lt :: "64 word \<Rightarrow> 64 word \<Rightarrow> bool" where
  "f64_lt a b = (\<not> f64_nan a \<and> \<not> f64_nan b \<and> f64_key a < f64_key b)"

definition f64_make :: "bool \<Rightarrow> int \<Rightarrow> 64 word" where
  "f64_make s m = (if s then set_bit 63 (word_of_int m) else word_of_int m)"

definition f64_NaN :: "64 word" where
  "f64_NaN = 0x7FF8000000000001"

definition round_half_even :: "rat \<Rightarrow> int" where
  "round_half_even q = (let n = \<lfloor>q\<rfloor>; r = q - of_int n in
     if r < 1 / 2 then n else if 1 / 2 < r then n + 1 else if even n then n else n + 1)"

text \<open>
  \<open>fl_mag mb emin a\<close> is the magnitude pattern of the positive rational \<open>a\<close> in a format with \<open>mb\<close>
  stored mantissa bits and least exponent \<open>emin\<close>; overflow gives a pattern of at least infinity.
\<close>

definition fl_mag :: "nat \<Rightarrow> int \<Rightarrow> rat \<Rightarrow> int" where
  "fl_mag mb emin a =
     (if a = 0 then 0 else
      (let (n, d) = quotient_of a; e0 = bitlen n - bitlen d;
           e = (if a < power_int 2 e0 then e0 - 1 else e0);
           u = max (e - int mb) emin;
           m = round_half_even (a / power_int 2 u)
       in (u - emin) * 2 ^ mb + m))"

definition f64_of_rat :: "rat \<Rightarrow> 64 word" where
  "f64_of_rat q = f64_make (q < 0) (min f64_inf_mag (fl_mag 52 (-1074) \<bar>q\<bar>))"

definition f64_to_rat :: "64 word \<Rightarrow> rat" where
  "f64_to_rat b = (let m = f64_mag b; e = m div 2 ^ 52; f = m mod 2 ^ 52;
     a = (if e = 0 then of_int f * power_int 2 (-1074)
          else of_int (2 ^ 52 + f) * power_int 2 (e - 1075))
     in if f64_sign b then - a else a)"

definition f64_neg :: "64 word \<Rightarrow> 64 word" where
  "f64_neg b = flip_bit 63 b"

definition f64_add :: "64 word \<Rightarrow> 64 word \<Rightarrow> 64 word" where
  "f64_add a b =
     (if f64_nan a \<or> f64_nan b then f64_NaN
      else if f64_inf a then (if f64_inf b \<and> f64_sign a \<noteq> f64_sign b then f64_NaN else a)
      else if f64_inf b then b
      else let q = f64_to_rat a + f64_to_rat b in
        if q = 0 then f64_make (f64_sign a \<and> f64_sign b) 0 else f64_of_rat q)"

definition f64_sub :: "64 word \<Rightarrow> 64 word \<Rightarrow> 64 word" where
  "f64_sub a b = (if f64_nan b then f64_NaN else f64_add a (f64_neg b))"

definition f64_mul :: "64 word \<Rightarrow> 64 word \<Rightarrow> 64 word" where
  "f64_mul a b = (let s = (f64_sign a \<noteq> f64_sign b) in
     if f64_nan a \<or> f64_nan b then f64_NaN
     else if f64_inf a \<or> f64_inf b then
       (if f64_mag a = 0 \<or> f64_mag b = 0 then f64_NaN else f64_make s f64_inf_mag)
     else f64_make s (min f64_inf_mag (fl_mag 52 (-1074) \<bar>f64_to_rat a * f64_to_rat b\<bar>)))"

definition f64_div :: "64 word \<Rightarrow> 64 word \<Rightarrow> 64 word" where
  "f64_div a b = (let s = (f64_sign a \<noteq> f64_sign b) in
     if f64_nan a \<or> f64_nan b then f64_NaN
     else if f64_inf a then (if f64_inf b then f64_NaN else f64_make s f64_inf_mag)
     else if f64_inf b then f64_make s 0
     else if f64_mag b = 0 then (if f64_mag a = 0 then f64_NaN else f64_make s f64_inf_mag)
     else f64_make s (min f64_inf_mag (fl_mag 52 (-1074) \<bar>f64_to_rat a / f64_to_rat b\<bar>)))"

text \<open>
  \<^verbatim>\<open>int(f)\<close> truncates; outside the range of int64 (and for NaN) Go leaves the result to the
  implementation, here the value amd64 gives. \<^verbatim>\<open>math.Round\<close> rounds half away from zero.
\<close>

definition int64_min :: "64 word" where
  "int64_min = 0x8000000000000000"

definition int_of_rat_go :: "int \<Rightarrow> 64 word" where
  "int_of_rat_go i = (if - (2 ^ 63) \<le> i \<and> i < 2 ^ 63 then word_of_int i else int64_min)"

definition f64_trunc_int :: "64 word \<Rightarrow> 64 word" where
  "f64_trunc_int b =
     (if f64_nan b \<or> f64_inf b then int64_min
      else let q = f64_to_rat b in int_of_rat_go (if q < 0 then - \<lfloor>- q\<rfloor> else \<lfloor>q\<rfloor>))"

definition f64_round_int :: "64 word \<Rightarrow> 64 word" where
  "f64_round_int b =
     (if f64_nan b \<or> f64_inf b then int64_min
      else let q = f64_to_rat b in
        int_of_rat_go (if q < 0 then - \<lfloor>- q + 1 / 2\<rfloor> else \<lfloor>q + 1 / 2\<rfloor>))"

text \<open>\<^verbatim>\<open>float32\<close> values only occur inside wider computations: widening is exact.\<close>

definition f64_of_f32 :: "32 word \<Rightarrow> 64 word" where
  "f64_of_f32 w = (let m = uint (take_bit 31 w); e = m div 2 ^ 23; f = m mod 2 ^ 23; s = bit w 31 in
     if e = 255 then (if f = 0 then f64_make s f64_inf_mag else f64_NaN)
     else f64_make s (fl_mag 52 (-1074)
       (if e = 0 then of_int f * power_int 2 (-149)
        else of_int (2 ^ 23 + f) * power_int 2 (e - 150))))"

definition f32_of_f64 :: "64 word \<Rightarrow> 32 word" where
  "f32_of_f64 b =
     (let m = (if f64_nan b then 0x7FC00001
               else if f64_inf b then 255 * 2 ^ 23
               else min (255 * 2 ^ 23) (fl_mag 23 (-149) \<bar>f64_to_rat b\<bar>))
      in if f64_sign b \<and> \<not> f64_nan b then set_bit 31 (word_of_int m) else word_of_int m)"

subsection \<open>Comparison of floats\<close>

lemma f64_key_eq_0 [simp]: "f64_key b = 0 \<longleftrightarrow> f64_mag b = 0"
  by (auto simp: f64_key_def)

lemma f64_trichotomy:
  "\<not> f64_nan a \<Longrightarrow> \<not> f64_nan b \<Longrightarrow> \<not> f64_eq a b \<Longrightarrow> \<not> f64_lt a b \<Longrightarrow> f64_lt b a"
  by (auto simp: f64_eq_def f64_lt_def)

section \<open>Parsing numbers: strconv\<close>

definition is_digit :: "char \<Rightarrow> bool" where
  "is_digit c = (let n = of_char c :: nat in 48 \<le> n \<and> n \<le> 57)"

definition hex_val :: "char \<Rightarrow> nat option" where
  "hex_val c = (let n = of_char (lower_char c) :: nat in
     if 48 \<le> n \<and> n \<le> 57 then Some (n - 48)
     else if 97 \<le> n \<and> n \<le> 102 then Some (n - 87) else None)"

definition digit_val :: "nat \<Rightarrow> char \<Rightarrow> nat option" where
  "digit_val base c = (case hex_val c of None \<Rightarrow> None | Some d \<Rightarrow> if d < base then Some d else None)"

definition strip_sign :: "string \<Rightarrow> bool \<times> string" where
  "strip_sign s = (case s of [] \<Rightarrow> (False, s)
     | c # cs \<Rightarrow> if c = CHR ''-'' then (True, cs) else if c = CHR ''+'' then (False, cs) else (False, s))"

text \<open>\<^verbatim>\<open>underscoreOK\<close>: an underscore separates digits (or a base prefix and a digit).\<close>

datatype (plugins only: code size) uscore = UBegin | UDigit | UUnder | UOther

fun underscore_scan :: "bool \<Rightarrow> uscore \<Rightarrow> string \<Rightarrow> bool" where
  "underscore_scan hex saw [] = (saw \<noteq> UUnder)"
| "underscore_scan hex saw (c # cs) =
     (if is_digit c \<or> hex \<and> hex_val c \<noteq> None then underscore_scan hex UDigit cs
      else if c = CHR ''_'' then (saw = UDigit \<and> underscore_scan hex UUnder cs)
      else saw \<noteq> UUnder \<and> underscore_scan hex UOther cs)"

definition underscoreOK :: "string \<Rightarrow> bool" where
  "underscoreOK s0 = (let s = snd (strip_sign s0) in
     case s of a # b # cs \<Rightarrow>
       (if a = CHR ''0'' \<and> lower_char b \<in> set ''box''
        then underscore_scan (lower_char b = CHR ''x'') UDigit cs
        else underscore_scan False UBegin s)
     | _ \<Rightarrow> underscore_scan False UBegin s)"

text \<open>
  The mantissa loop of \<^verbatim>\<open>readFloat\<close>: value, digits after the point, whether a point and whether a
  digit was seen, whether an underscore was skipped, and the rest of the input.
\<close>

fun read_mantissa :: "nat \<Rightarrow> int \<Rightarrow> nat \<Rightarrow> bool \<Rightarrow> bool \<Rightarrow> string \<Rightarrow> (int \<times> nat \<times> bool \<times> string) option" where
  "read_mantissa base m fd dot dig [] = (if dig then Some (m, fd, dot, []) else None)"
| "read_mantissa base m fd dot dig (c # cs) =
     (if c = CHR ''_'' then read_mantissa base m fd dot dig cs
      else if c = CHR ''.'' then
        (if dot then (if dig then Some (m, fd, dot, c # cs) else None)
         else read_mantissa base m fd True dig cs)
      else case digit_val base c of
        Some d \<Rightarrow> read_mantissa base (m * int base + int d) (if dot then Suc fd else fd) dot True cs
      | None \<Rightarrow> if dig then Some (m, fd, dot, c # cs) else None)"

fun read_exponent :: "int \<Rightarrow> string \<Rightarrow> int option" where
  "read_exponent e [] = Some e"
| "read_exponent e (c # cs) =
     (if c = CHR ''_'' then read_exponent e cs
      else if is_digit c
      then read_exponent (if e < 10000 then e * 10 + (of_char c - 48) else e) cs
      else None)"

definition signed_exponent :: "string \<Rightarrow> int option" where
  "signed_exponent s = (let (neg, ds) = strip_sign s in
     case ds of [] \<Rightarrow> None
     | d # _ \<Rightarrow> if is_digit d then map_option (\<lambda>e. if neg then - e else e) (read_exponent 0 ds)
                else None)"

definition float_value :: "bool \<Rightarrow> rat \<Rightarrow> (64 word) option" where
  "float_value neg q = (let m = fl_mag 52 (-1074) q in
     if f64_inf_mag \<le> m then None else Some (f64_make neg m))"

text \<open>
  \<^verbatim>\<open>strconv.ParseFloat(s, 64)\<close>; \<open>None\<close> is an error, of syntax or of range.
\<close>

definition ParseFloat64 :: "string \<Rightarrow> (64 word) option" where
  "ParseFloat64 s0 =
     (let (neg, s) = strip_sign s0; l = ToLower s in
      if l = ''inf'' \<or> l = ''infinity'' then Some (f64_make neg f64_inf_mag)
      else if ToLower s0 = ''nan'' then Some f64_NaN
      else let hex = (3 \<le> length s \<and> take 2 l = ''0x'');
               body = (if hex then drop 2 s else s);
               base = (if hex then 16 else 10)
        in case read_mantissa base 0 0 False False body of
             None \<Rightarrow> None
           | Some (m, fd, _, rest) \<Rightarrow>
               (let scale = (\<lambda>e. if hex then power_int 2 (e - 4 * int fd)
                                 else power_int 10 (e - int fd));
                    ok = (CHR ''_'' \<in> set s0 \<longrightarrow> underscoreOK s0)
                in case rest of
                     [] \<Rightarrow> if hex \<or> \<not> ok then None else float_value neg (of_int m * scale 0)
                   | c # cs \<Rightarrow>
                       if lower_char c = (if hex then CHR ''p'' else CHR ''e'') \<and> ok
                       then (case signed_exponent cs of
                               None \<Rightarrow> None
                             | Some e \<Rightarrow> float_value neg (of_int m * scale e))
                       else None))"

section \<open>Interface values\<close>

text \<open>
  The dynamic types the engine switches on. \<open>GNil\<close> is the nil interface (SQL's NULL). \<^verbatim>\<open>int\<close> and
  \<^verbatim>\<open>uint\<close> have 64 bits. \<open>GBytes\<close> is \<^verbatim>\<open>[]byte\<close>, \<open>GSlice\<close> is \<^verbatim>\<open>[]interface{}\<close>, \<open>GRow\<close> is
  \<^verbatim>\<open>sql.Row\<close>, \<open>GHashSet\<close> is \<^verbatim>\<open>map[uint64]struct{}\<close>. \<open>GTime ns tag\<close> is a \<^verbatim>\<open>time.Time\<close>: nanoseconds
  since the epoch and the rest of its representation (location, monotonic reading), which only
  matters to \<^verbatim>\<open>==\<close>. \<open>GOther t i\<close> is a comparable value of any other dynamic type \<open>t\<close>.
\<close>

datatype (plugins only: code size) gval =
    GNil
  | GBool bool
  | GInt "64 word" | GInt8 "8 word" | GInt16 "16 word" | GInt32 "32 word" | GInt64 "64 word"
  | GUint "64 word" | GUint8 "8 word" | GUint16 "16 word" | GUint32 "32 word" | GUint64 "64 word"
  | GFloat32 "32 word" | GFloat64 "64 word"
  | GString string | GBytes string
  | GTime int nat | GDuration "64 word"
  | GSlice "gval list" | GRow "gval list"
  | GHashSet "64 word fset"
  | GOther nat nat

type_synonym row = "gval list"

text \<open>
  \<^verbatim>\<open>a == b\<close> on interface values: different dynamic types are unequal, two values of the same
  uncomparable type (slices and maps) panic, floats follow IEEE equality.
\<close>

definition both_uncomparable :: "gval \<Rightarrow> gval \<Rightarrow> bool" where
  "both_uncomparable v w =
     (case v of GBytes _ \<Rightarrow> (case w of GBytes _ \<Rightarrow> True | _ \<Rightarrow> False)
      | GSlice _ \<Rightarrow> (case w of GSlice _ \<Rightarrow> True | _ \<Rightarrow> False)
      | GRow _ \<Rightarrow> (case w of GRow _ \<Rightarrow> True | _ \<Rightarrow> False)
      | GHashSet _ \<Rightarrow> (case w of GHashSet _ \<Rightarrow> True | _ \<Rightarrow> False)
      | _ \<Rightarrow> False)"

definition iface_eq :: "gval \<Rightarrow> gval \<Rightarrow> bool res" where
  "iface_eq v w =
     (if both_uncomparable v w then Panic
      else case v of
        GFloat64 a \<Rightarrow> (case w of GFloat64 b \<Rightarrow> Ok (f64_eq a b) | _ \<Rightarrow> Ok False)
      | GFloat32 a \<Rightarrow> (case w of GFloat32 b \<Rightarrow> Ok (f64_eq (f64_of_f32 a) (f64_of_f32 b)) | _ \<Rightarrow> Ok False)
      | _ \<Rightarrow> Ok (v = w))"

text \<open>Values on which Go's \<^verbatim>\<open>==\<close> is defined and is plain equality: no slice, no map, no float.\<close>

definition plain :: "gval \<Rightarrow> bool" where
  "plain v = (case v of GBytes _ \<Rightarrow> False | GSlice _ \<Rightarrow> False | GRow _ \<Rightarrow> False | GHashSet _ \<Rightarrow> False
     | GFloat32 _ \<Rightarrow> False | GFloat64 _ \<Rightarrow> False | _ \<Rightarrow> True)"

lemma iface_eq_plain [simp]: "plain v \<Longrightarrow> iface_eq v w = Ok (v = w)"
  by (cases v) (auto simp: plain_def iface_eq_def both_uncomparable_def)

section \<open>Truth values\<close>

text \<open>\<^verbatim>\<open>ConvertToBool\<close> of \<^verbatim>\<open>sql/type.go\<close>.\<close>

definition f64_nonzero :: "64 word \<Rightarrow> bool" where
  "f64_nonzero b = (\<not> f64_eq b 0)"

definition UnixNano :: "int \<Rightarrow> 64 word" where
  "UnixNano ns = word_of_int ns"

definition ConvertToBool :: "gval \<Rightarrow> bool res" where
  "ConvertToBool v =
     (case v of
        GBool b \<Rightarrow> Ok b
      | GInt w \<Rightarrow> Ok (w \<noteq> 0) | GInt64 w \<Rightarrow> Ok (w \<noteq> 0)
      | GInt32 w \<Rightarrow> Ok (w \<noteq> 0) | GInt16 w \<Rightarrow> Ok (w \<noteq> 0) | GInt8 w \<Rightarrow> Ok (w \<noteq> 0)
      | GUint w \<Rightarrow> Ok (w \<noteq> 0) | GUint64 w \<Rightarrow> Ok (w \<noteq> 0)
      | GUint32 w \<Rightarrow> Ok (w \<noteq> 0) | GUint16 w \<Rightarrow> Ok (w \<noteq> 0) | GUint8 w \<Rightarrow> Ok (w \<noteq> 0)
      | GDuration w \<Rightarrow> Ok (w \<noteq> 0)
      | GTime ns _ \<Rightarrow> Ok (UnixNano ns \<noteq> 0)
      | GFloat32 f \<Rightarrow> Ok (f64_nonzero (f64_of_f32 f))
      | GFloat64 f \<Rightarrow> Ok (f64_nonzero f)
      | GString s \<Rightarrow> Ok (case ParseFloat64 s of None \<Rightarrow> False | Some f \<Rightarrow> f64_nonzero f)
      | GNil \<Rightarrow> Err (ErrOther ''unable to cast nil to bool'')
      | _ \<Rightarrow> Err (ErrOther ''unable to cast to bool''))"

text \<open>
  The coercion \<^verbatim>\<open>EvaluateCondition\<close> applies to the value of a condition (\<^verbatim>\<open>sql/core.go\<close>): floats are
  rounded to an integer first, strings are truncated, NULL and other values are false.
\<close>

definition condition_value :: "gval \<Rightarrow> bool" where
  "condition_value v =
     (case v of
        GBool b \<Rightarrow> b
      | GInt w \<Rightarrow> w \<noteq> 0 | GInt64 w \<Rightarrow> w \<noteq> 0
      | GInt32 w \<Rightarrow> w \<noteq> 0 | GInt16 w \<Rightarrow> w \<noteq> 0 | GInt8 w \<Rightarrow> w \<noteq> 0
      | GUint w \<Rightarrow> w \<noteq> 0 | GUint64 w \<Rightarrow> w \<noteq> 0
      | GUint32 w \<Rightarrow> w \<noteq> 0 | GUint16 w \<Rightarrow> w \<noteq> 0 | GUint8 w \<Rightarrow> w \<noteq> 0
      | GDuration w \<Rightarrow> w \<noteq> 0
      | GTime ns _ \<Rightarrow> UnixNano ns \<noteq> 0
      | GFloat64 f \<Rightarrow> f64_round_int f \<noteq> 0
      | GFloat32 f \<Rightarrow> f64_round_int (f64_of_f32 f) \<noteq> 0
      | GString s \<Rightarrow> (case ParseFloat64 s of None \<Rightarrow> False | Some f \<Rightarrow> f64_trunc_int f \<noteq> 0)
      | _ \<Rightarrow> False)"

text \<open>
  Values on which the two coercions are meant to agree: everything but floats and strings, where
  one tests for zero and the other rounds.
\<close>

definition integral :: "gval \<Rightarrow> bool" where
  "integral v = (case v of GFloat32 _ \<Rightarrow> False | GFloat64 _ \<Rightarrow> False | GString _ \<Rightarrow> False | _ \<Rightarrow> True)"

lemma ConvertToBool_no_panic [simp]: "ConvertToBool v \<noteq> Panic"
  by (cases v) (auto simp: ConvertToBool_def)

lemma ConvertToBool_integral:
  "integral v \<Longrightarrow> ConvertToBool v = Ok b \<Longrightarrow> condition_value v = b"
  by (cases v) (auto simp: integral_def ConvertToBool_def condition_value_def)

lemma ConvertToBool_integral_Err:
  "integral v \<Longrightarrow> ConvertToBool v = Err e \<Longrightarrow> condition_value v = False"
  by (cases v) (auto simp: integral_def ConvertToBool_def condition_value_def)

lemma condition_value_simps [simp]:
  "condition_value GNil = False" "condition_value (GBool b) = b"
  by (simp_all add: condition_value_def)

lemma ConvertToBool_simps [simp]:
  "ConvertToBool (GBool b) = Ok b"
  "ConvertToBool GNil = Err (ErrOther ''unable to cast nil to bool'')"
  by (simp_all add: ConvertToBool_def)

end
