(* ===== verification/Sql_Types.thy ===== *)
theory Sql_Types
  imports Go_Values "HOL-Library.List_Lexorder" "HOL-Library.Option_ord"
begin

text \<open>
  SQL types (\<^verbatim>\<open>sql/type.go\<close>, \<^verbatim>\<open>sql/numbertype.go\<close>, \<^verbatim>\<open>sql/stringtype.go\<close>, \<^verbatim>\<open>sql/nulltype.go\<close>,
  \<^verbatim>\<open>sql/tupletype.go\<close>): comparison, conversion and promotion of values.

  Conversions between dynamic types go through the third-party package \<^verbatim>\<open>spf13/cast\<close>; its functions
  are fields of the environment \<open>genv\<close>, and what the code relies on is stated by \<open>cast_laws\<close>. The
  remaining implementations of the \<^verbatim>\<open>sql.Type\<close> interface (temporal types, JSON, decimal, bit, enum, set,
  arrays) are reached through the interface only: their methods are fields of \<open>genv\<close> too, as are
  \<^verbatim>\<open>time.Time.Format\<close> with the engine's layout and the verdict of \<^verbatim>\<open>json.Unmarshal\<close> on a text.
\<close>

section \<open>Types\<close>

datatype (plugins only: code size) btype =
    Int8T | Uint8T | Int16T | Uint16T | Int24T | Uint24T
  | Int32T | Uint32T | Int64T | Uint64T | Float32T | Float64T

datatype (plugins only: code size) sbase = CharT | VarCharT | TextT | BinaryT | VarBinaryT | BlobT

text \<open>A collation is its name with the maximum length of a character of its character set.\<close>

datatype (plugins only: code size) collation = Collation string int

datatype (plugins only: code size) otype =
  DateO | DatetimeO | TimestampO | TimeO | YearO | JSONO | DecimalO nat nat | ExtO nat

datatype (plugins only: code size) stype =
    NumberT btype
  | StringT sbase int collation
  | NullT
  | TupleT "stype list"
  | OtherT otype

record genv =
  castInt64 :: "gval \<Rightarrow> 64 word res"
  castUint64 :: "gval \<Rightarrow> 64 word res"
  castFloat64 :: "gval \<Rightarrow> 64 word res"
  castString :: "gval \<Rightarrow> string res"
  formatTime :: "int \<Rightarrow> nat \<Rightarrow> string"
  jsonError :: "string \<Rightarrow> gerror option"
  othCompare :: "otype \<Rightarrow> gval \<Rightarrow> gval \<Rightarrow> int res"
  othConvert :: "otype \<Rightarrow> gval \<Rightarrow> gval res"
  othPromote :: "otype \<Rightarrow> stype"
  othZero :: "otype \<Rightarrow> gval"
  othEval :: "nat \<Rightarrow> gval list \<Rightarrow> gval res"

abbreviation Boolean :: stype where "Boolean \<equiv> NumberT Int8T"
abbreviation Int64 :: stype where "Int64 \<equiv> NumberT Int64T"
abbreviation Uint64 :: stype where "Uint64 \<equiv> NumberT Uint64T"
abbreviation Float64 :: stype where "Float64 \<equiv> NumberT Float64T"

subsection \<open>Type predicates\<close>

definition IsFloat :: "stype \<Rightarrow> bool" where
  "IsFloat t = (t = NumberT Float32T \<or> t = NumberT Float64T)"

definition IsSigned :: "stype \<Rightarrow> bool" where
  "IsSigned t = (t = NumberT Int8T \<or> t = NumberT Int16T \<or> t = NumberT Int32T \<or> t = NumberT Int64T)"

definition IsUnsigned :: "stype \<Rightarrow> bool" where
  "IsUnsigned t = (t = NumberT Uint8T \<or> t = NumberT Uint16T \<or> t = NumberT Uint32T \<or> t = NumberT Uint64T)"

definition IsInteger :: "stype \<Rightarrow> bool" where
  "IsInteger t = (IsSigned t \<or> IsUnsigned t)"

definition IsNumber :: "stype \<Rightarrow> bool" where
  "IsNumber t = (case t of NumberT _ \<Rightarrow> True | _ \<Rightarrow> False)"

definition IsText :: "stype \<Rightarrow> bool" where
  "IsText t = (case t of StringT _ _ _ \<Rightarrow> True | OtherT JSONO \<Rightarrow> True | _ \<Rightarrow> False)"

definition IsTime :: "stype \<Rightarrow> bool" where
  "IsTime t = (t = OtherT DateO \<or> t = OtherT DatetimeO \<or> t = OtherT TimestampO)"

definition IsTuple :: "stype \<Rightarrow> bool" where
  "IsTuple t = (case t of TupleT ts \<Rightarrow> 1 < length ts | _ \<Rightarrow> False)"

definition NumColumns :: "stype \<Rightarrow> nat" where
  "NumColumns t = (case t of TupleT ts \<Rightarrow> length ts | _ \<Rightarrow> 1)"

section \<open>String types\<close>

definition charBinaryMax :: int where "charBinaryMax = 255"
definition varcharVarbinaryMax :: int where "varcharVarbinaryMax = 65535"
definition mediumTextBlobMax :: int where "mediumTextBlobMax = 16777215"
definition longTextBlobMax :: int where "longTextBlobMax = 4294967295"

definition Collation_Default :: collation where
  "Collation_Default = Collation ''utf8mb4_0900_ai_ci'' 4"

definition Collation_binary :: collation where
  "Collation_binary = Collation ''binary'' 1"

definition coll_maxlen :: "collation \<Rightarrow> int" where
  "coll_maxlen c = (case c of Collation _ n \<Rightarrow> n)"

text \<open>Products of lengths are computed in \<^verbatim>\<open>int64\<close> and wrap around.\<close>

definition wrap64 :: "int \<Rightarrow> int" where
  "wrap64 i = sint (word_of_int i :: 64 word)"

definition binary_base :: "sbase \<Rightarrow> sbase" where
  "binary_base b = (case b of CharT \<Rightarrow> BinaryT | VarCharT \<Rightarrow> VarBinaryT | TextT \<Rightarrow> BlobT | _ \<Rightarrow> b)"

definition CreateString :: "sbase \<Rightarrow> int \<Rightarrow> collation \<Rightarrow> stype res" where
  "CreateString base0 len coll =
     (if len < 0 then Err (ErrOther ''length is less than the minimum of 0'')
      else if base0 \<in> {BinaryT, VarBinaryT, BlobT} \<and> coll \<noteq> Collation_binary
      then Err (ErrOther ''binary types must have the binary collation'')
      else let base = (if coll = Collation_binary then binary_base base0 else base0);
               ml = coll_maxlen coll; byteLength = wrap64 (len * ml) in
        if base \<in> {CharT, BinaryT} then
          (if len > charBinaryMax then Err (ErrOther ''length too large'')
           else Ok (StringT base len coll))
        else if base \<in> {VarCharT, VarBinaryT} then
          (if byteLength > varcharVarbinaryMax then Err (ErrOther ''length too large'')
           else Ok (StringT base len coll))
        else if len > longTextBlobMax then Err (ErrOther ''length too large'')
        else Ok (StringT base
               (if byteLength \<le> charBinaryMax then charBinaryMax div ml
                else if byteLength \<le> varcharVarbinaryMax then varcharVarbinaryMax div ml
                else if byteLength \<le> mediumTextBlobMax then mediumTextBlobMax div ml
                else longTextBlobMax) coll))"

definition LongText :: stype where
  "LongText = StringT TextT longTextBlobMax Collation_Default"

definition LongBlob :: stype where
  "LongBlob = StringT BlobT longTextBlobMax Collation_binary"

definition MaxByteLength :: "int \<Rightarrow> collation \<Rightarrow> int" where
  "MaxByteLength charLength coll = wrap64 (charLength * coll_maxlen coll)"

definition string_convert :: "genv \<Rightarrow> sbase \<Rightarrow> int \<Rightarrow> collation \<Rightarrow> gval \<Rightarrow> gval res" where
  "string_convert env base n coll v0 =
     (if v0 = GNil then Ok GNil
      else let v = (case v0 of GTime ns tag \<Rightarrow> GString (formatTime env ns tag) | _ \<Rightarrow> v0) in
        case castString env v of
          Panic \<Rightarrow> Panic
        | Err _ \<Rightarrow> Err (SqlErr ErrConvertToSQL)
        | Ok s \<Rightarrow>
            if base = TextT \<and> int (length s) > MaxByteLength n coll
               \<or> base \<noteq> TextT \<and> int (length s) > n
            then Err (SqlErr ErrLengthBeyondLimit)
            else Ok (GString (if base = BinaryT
                   then s @ replicate (nat n - length s) (char_of (0 :: nat)) else s)))"

text \<open>\<^verbatim>\<open>strings.Compare\<close>: bytewise lexicographic order.\<close>

fun strings_Compare :: "string \<Rightarrow> string \<Rightarrow> int" where
  "strings_Compare [] [] = 0"
| "strings_Compare [] (y # ys) = -1"
| "strings_Compare (x # xs) [] = 1"
| "strings_Compare (x # xs) (y # ys) =
     (if (of_char x :: nat) < of_char y then -1
      else if (of_char y :: nat) < of_char x then 1
      else strings_Compare xs ys)"

section \<open>Comparison and conversion\<close>

text \<open>\<^verbatim>\<open>compareNulls\<close>: NULLs come first.\<close>

definition compareNulls :: "gval \<Rightarrow> gval \<Rightarrow> int option" where
  "compareNulls a b =
     (if a = GNil \<and> b = GNil then Some 0
      else if a = GNil then Some (-1)
      else if b = GNil then Some 1
      else None)"

definition cmp_int :: "int \<Rightarrow> int \<Rightarrow> int" where
  "cmp_int a b = (if a = b then 0 else if a < b then -1 else 1)"

definition compareSignedInts :: "genv \<Rightarrow> gval \<Rightarrow> gval \<Rightarrow> int res" where
  "compareSignedInts env a b =
     (case compareNulls a b of Some r \<Rightarrow> Ok r | None \<Rightarrow>
        rbind (castInt64 env a) (\<lambda>ca. rbind (castInt64 env b) (\<lambda>cb. Ok (cmp_int (sint ca) (sint cb)))))"

definition compareUnsignedInts :: "genv \<Rightarrow> gval \<Rightarrow> gval \<Rightarrow> int res" where
  "compareUnsignedInts env a b =
     (case compareNulls a b of Some r \<Rightarrow> Ok r | None \<Rightarrow>
        rbind (castUint64 env a) (\<lambda>ca. rbind (castUint64 env b) (\<lambda>cb. Ok (cmp_int (uint ca) (uint cb)))))"

definition compareFloats :: "genv \<Rightarrow> gval \<Rightarrow> gval \<Rightarrow> int res" where
  "compareFloats env a b =
     (case compareNulls a b of Some r \<Rightarrow> Ok r | None \<Rightarrow>
        rbind (castFloat64 env a) (\<lambda>ca. rbind (castFloat64 env b) (\<lambda>cb.
          Ok (if f64_eq ca cb then 0 else if f64_lt ca cb then -1 else 1))))"

definition number_compare :: "genv \<Rightarrow> btype \<Rightarrow> gval \<Rightarrow> gval \<Rightarrow> int res" where
  "number_compare env bt a b =
     (case bt of
        Uint8T \<Rightarrow> compareUnsignedInts env a b | Uint16T \<Rightarrow> compareUnsignedInts env a b
      | Uint24T \<Rightarrow> compareUnsignedInts env a b | Uint32T \<Rightarrow> compareUnsignedInts env a b
      | Uint64T \<Rightarrow> compareUnsignedInts env a b
      | Float32T \<Rightarrow> compareFloats env a b | Float64T \<Rightarrow> compareFloats env a b
      | _ \<Rightarrow> compareSignedInts env a b)"

definition signed_in :: "int \<Rightarrow> int \<Rightarrow> (64 word \<Rightarrow> gval) \<Rightarrow> 64 word res \<Rightarrow> gval res" where
  "signed_in lo hi mk r = rbind r (\<lambda>num.
     if sint num > hi \<or> sint num < lo then Err (SqlErr ErrOutOfRange) else Ok (mk num))"

definition unsigned_in :: "int \<Rightarrow> (64 word \<Rightarrow> gval) \<Rightarrow> 64 word res \<Rightarrow> gval res" where
  "unsigned_in hi mk r = rbind r (\<lambda>num.
     if uint num > hi then Err (SqlErr ErrOutOfRange) else Ok (mk num))"

definition f64_MaxFloat32 :: "64 word" where
  "f64_MaxFloat32 = 0x47EFFFFFE0000000"

definition number_convert :: "genv \<Rightarrow> btype \<Rightarrow> gval \<Rightarrow> gval res" where
  "number_convert env bt v0 =
     (if v0 = GNil then Ok GNil
      else let v = (case v0 of GTime ns _ \<Rightarrow> GInt64 (word_of_int (ns div 1000000000)) | _ \<Rightarrow> v0) in
        case bt of
          Int8T \<Rightarrow> signed_in (-128) 127 (\<lambda>w. GInt8 (ucast w)) (castInt64 env v)
        | Uint8T \<Rightarrow> unsigned_in 255 (\<lambda>w. GUint8 (ucast w)) (castUint64 env v)
        | Int16T \<Rightarrow> signed_in (-32768) 32767 (\<lambda>w. GInt16 (ucast w)) (castInt64 env v)
        | Uint16T \<Rightarrow> unsigned_in 65535 (\<lambda>w. GUint16 (ucast w)) (castUint64 env v)
        | Int24T \<Rightarrow> signed_in (-8388608) 8388607 (\<lambda>w. GInt32 (ucast w)) (castInt64 env v)
        | Uint24T \<Rightarrow> unsigned_in 16777215 (\<lambda>w. GUint32 (ucast w)) (castUint64 env v)
        | Int32T \<Rightarrow> signed_in (-2147483648) 2147483647 (\<lambda>w. GInt32 (ucast w)) (castInt64 env v)
        | Uint32T \<Rightarrow> unsigned_in 4294967295 (\<lambda>w. GUint32 (ucast w)) (castUint64 env v)
        | Int64T \<Rightarrow> (case v of
              GUint64 u \<Rightarrow> if uint u > 9223372036854775807 then Err (SqlErr ErrOutOfRange)
                           else rbind (castInt64 env v) (\<lambda>n. Ok (GInt64 n))
            | _ \<Rightarrow> rbind (castInt64 env v) (\<lambda>n. Ok (GInt64 n)))
        | Uint64T \<Rightarrow> rbind (castUint64 env v) (\<lambda>n. Ok (GUint64 n))
        | Float32T \<Rightarrow> rbind (castFloat64 env v) (\<lambda>x.
              if f64_lt f64_MaxFloat32 x \<or> f64_lt x (f64_neg f64_MaxFloat32)
              then Err (SqlErr ErrOutOfRange) else Ok (GFloat32 (f32_of_f64 x)))
        | Float64T \<Rightarrow> rbind (castFloat64 env v) (\<lambda>x. Ok (GFloat64 x)))"

definition number_promote :: "btype \<Rightarrow> stype" where
  "number_promote bt =
     (if bt \<in> {Int8T, Int16T, Int24T, Int32T, Int64T} then NumberT Int64T
      else if bt \<in> {Uint8T, Uint16T, Uint24T, Uint32T, Uint64T} then NumberT Uint64T
      else NumberT Float64T)"

definition number_zero :: "btype \<Rightarrow> gval" where
  "number_zero bt = (case bt of
     Int8T \<Rightarrow> GInt8 0 | Uint8T \<Rightarrow> GUint8 0 | Int16T \<Rightarrow> GInt16 0 | Uint16T \<Rightarrow> GUint16 0
   | Int24T \<Rightarrow> GInt32 0 | Uint24T \<Rightarrow> GUint32 0 | Int32T \<Rightarrow> GInt32 0 | Uint32T \<Rightarrow> GUint32 0
   | Int64T \<Rightarrow> GInt64 0 | Uint64T \<Rightarrow> GUint64 0 | Float32T \<Rightarrow> GFloat32 0 | Float64T \<Rightarrow> GFloat64 0)"

definition string_compare :: "genv \<Rightarrow> sbase \<Rightarrow> int \<Rightarrow> collation \<Rightarrow> gval \<Rightarrow> gval \<Rightarrow> int res" where
  "string_compare env base n coll a b =
     (case compareNulls a b of Some r \<Rightarrow> Ok r | None \<Rightarrow>
        (let conv = (\<lambda>v. case v of GString s \<Rightarrow> Ok s
                | _ \<Rightarrow> rbind (string_convert env base n coll v) (\<lambda>w.
                        case w of GString s \<Rightarrow> Ok s | _ \<Rightarrow> Panic))
         in rbind (conv a) (\<lambda>as. rbind (conv b) (\<lambda>bs. Ok (strings_Compare as bs)))))"

fun sql_convert :: "genv \<Rightarrow> stype \<Rightarrow> gval \<Rightarrow> gval res"
and convert_elems :: "genv \<Rightarrow> stype list \<Rightarrow> gval list \<Rightarrow> gval list res"
where
  "sql_convert env (NumberT bt) v = number_convert env bt v"
| "sql_convert env (StringT base n coll) v = string_convert env base n coll v"
| "sql_convert env NullT v = (if v \<noteq> GNil then Err (SqlErr ErrValueNotNil) else Ok GNil)"
| "sql_convert env (TupleT ts) v =
     (case v of
        GSlice vals \<Rightarrow>
          if length vals \<noteq> length ts
          then Err (SqlErr (ErrInvalidColumnNumber (length ts) (length vals)))
          else rbind (convert_elems env ts vals) (\<lambda>rs. Ok (GSlice rs))
      | _ \<Rightarrow> Err (SqlErr ErrNotTuple))"
| "sql_convert env (OtherT x) v = othConvert env x v"
| "convert_elems env [] vs = Ok []"
| "convert_elems env (t # ts) [] = Panic"
| "convert_elems env (t # ts) (v # vs) =
     rbind (sql_convert env t v) (\<lambda>r. rbind (convert_elems env ts vs) (\<lambda>rs. Ok (r # rs)))"

fun sql_compare :: "genv \<Rightarrow> stype \<Rightarrow> gval \<Rightarrow> gval \<Rightarrow> int res"
and compare_elems :: "genv \<Rightarrow> stype list \<Rightarrow> gval list \<Rightarrow> gval list \<Rightarrow> int res"
where
  "sql_compare env (NumberT bt) a b = number_compare env bt a b"
| "sql_compare env (StringT base n coll) a b = string_compare env base n coll a b"
| "sql_compare env NullT a b = Ok 0"
| "sql_compare env (TupleT ts) a b =
     rbind (sql_convert env (TupleT ts) a) (\<lambda>ca. rbind (sql_convert env (TupleT ts) b) (\<lambda>cb.
       case ca of GSlice l \<Rightarrow> (case cb of GSlice r \<Rightarrow> compare_elems env ts l r | _ \<Rightarrow> Panic)
       | _ \<Rightarrow> Panic))"
| "sql_compare env (OtherT x) a b = othCompare env x a b"
| "compare_elems env ts [] rs = Ok 0"
| "compare_elems env (t # ts) (l # ls) (r # rs) =
     rbind (sql_compare env t l r) (\<lambda>c. if c \<noteq> 0 then Ok c else compare_elems env ts ls rs)"
| "compare_elems env _ _ _ = Panic"

definition sql_promote :: "genv \<Rightarrow> stype \<Rightarrow> stype res" where
  "sql_promote env t = (case t of
     NumberT bt \<Rightarrow> Ok (number_promote bt)
   | StringT base n coll \<Rightarrow>
       if base \<in> {CharT, VarCharT, TextT} then
         (case CreateString TextT longTextBlobMax coll of Ok s \<Rightarrow> Ok s | _ \<Rightarrow> Panic)
       else Ok LongBlob
   | NullT \<Rightarrow> Ok NullT
   | TupleT ts \<Rightarrow> Ok (TupleT ts)
   | OtherT x \<Rightarrow> Ok (othPromote env x))"

fun sql_zero :: "genv \<Rightarrow> stype \<Rightarrow> gval" where
  "sql_zero env (NumberT bt) = number_zero bt"
| "sql_zero env (StringT base n coll) = GString []"
| "sql_zero env NullT = GNil"
| "sql_zero env (TupleT ts) = GSlice (map (sql_zero env) ts)"
| "sql_zero env (OtherT x) = othZero env x"

section \<open>Documented behaviour of spf13/cast\<close>

definition int_val :: "gval \<Rightarrow> int option" where
  "int_val v = (case v of
     GInt w \<Rightarrow> Some (sint w) | GInt8 w \<Rightarrow> Some (sint w) | GInt16 w \<Rightarrow> Some (sint w)
   | GInt32 w \<Rightarrow> Some (sint w) | GInt64 w \<Rightarrow> Some (sint w)
   | GUint w \<Rightarrow> Some (uint w) | GUint8 w \<Rightarrow> Some (uint w) | GUint16 w \<Rightarrow> Some (uint w)
   | GUint32 w \<Rightarrow> Some (uint w) | GUint64 w \<Rightarrow> Some (uint w)
   | _ \<Rightarrow> None)"

text \<open>
  \<^verbatim>\<open>ToInt64E\<close> converts between integer types as Go does (wrapping), \<^verbatim>\<open>ToUint64E\<close> refuses negative
  integers, \<^verbatim>\<open>ToFloat64E\<close> leaves a float64 alone, \<^verbatim>\<open>ToStringE\<close> a string.
\<close>

definition cast_laws :: "genv \<Rightarrow> bool" where
  "cast_laws env \<longleftrightarrow>
     (\<forall>v i. int_val v = Some i \<longrightarrow> castInt64 env v = Ok (word_of_int i)) \<and>
     (\<forall>v i. int_val v = Some i \<and> 0 \<le> i \<longrightarrow> castUint64 env v = Ok (word_of_int i)) \<and>
     (\<forall>v i. int_val v = Some i \<and> i < 0 \<longrightarrow>
        castUint64 env v = Err (ErrOther ''unable to cast negative value'')) \<and>
     (\<forall>b. castFloat64 env (GFloat64 b) = Ok b) \<and>
     (\<forall>s. castString env (GString s) = Ok s)"

lemma cast_lawsD:
  assumes "cast_laws env"
  shows "int_val v = Some i \<Longrightarrow> castInt64 env v = Ok (word_of_int i)"
    and "int_val v = Some i \<Longrightarrow> 0 \<le> i \<Longrightarrow> castUint64 env v = Ok (word_of_int i)"
    and "int_val v = Some i \<Longrightarrow> i < 0 \<Longrightarrow>
           castUint64 env v = Err (ErrOther ''unable to cast negative value'')"
    and "castFloat64 env (GFloat64 b) = Ok b"
    and "castString env (GString s) = Ok s"
  using assms by (simp_all add: cast_laws_def)

text \<open>An environment that satisfies the laws: the cast functions restricted to what they document.\<close>

definition cast_env :: genv where
  "cast_env = \<lparr>
     castInt64 = (\<lambda>v. case int_val v of Some i \<Rightarrow> Ok (word_of_int i)
       | None \<Rightarrow> Err (ErrOther ''unable to cast to int64'')),
     castUint64 = (\<lambda>v. case int_val v of
         Some i \<Rightarrow> if i < 0 then Err (ErrOther ''unable to cast negative value'') else Ok (word_of_int i)
       | None \<Rightarrow> Err (ErrOther ''unable to cast to uint64'')),
     castFloat64 = (\<lambda>v. case v of GFloat64 b \<Rightarrow> Ok b
       | _ \<Rightarrow> (case int_val v of Some i \<Rightarrow> Ok (f64_of_rat (of_int i))
               | None \<Rightarrow> Err (ErrOther ''unable to cast to float64''))),
     castString = (\<lambda>v. case v of GString s \<Rightarrow> Ok s | GBytes s \<Rightarrow> Ok s
       | _ \<Rightarrow> Err (ErrOther ''unable to cast to string'')),
     formatTime = (\<lambda>_ _. []), jsonError = (\<lambda>_. None),
     othCompare = (\<lambda>_ _ _. Err (ErrOther ''type'')),
     othConvert = (\<lambda>_ _. Err (ErrOther ''type'')),
     othPromote = OtherT, othZero = (\<lambda>_. GNil),
     othEval = (\<lambda>_ _. Err (ErrOther ''expression'')) \<rparr>"

lemma cast_env_laws: "cast_laws cast_env"
  by (simp add: cast_laws_def cast_env_def)

section \<open>Comparison as a total preorder\<close>

text \<open>
  What \<^verbatim>\<open>sql.Type\<close> promises of \<^verbatim>\<open>Compare\<close>: on the values of the type it returns -1, 0 or 1, and
  these answers order the values.
\<close>

locale comparer =
  fixes cmp :: "'v \<Rightarrow> 'v \<Rightarrow> int res"
    and D :: "'v \<Rightarrow> bool"
  assumes cmp_total: "D a \<Longrightarrow> D b \<Longrightarrow> \<exists>c. cmp a b = Ok c \<and> c \<in> {-1, 0, 1}"
    and cmp_swap: "D a \<Longrightarrow> D b \<Longrightarrow> cmp a b = Ok x \<Longrightarrow> cmp b a = Ok (- x)"
    and cmp_trans: "D a \<Longrightarrow> D b \<Longrightarrow> D c \<Longrightarrow> cmp a b = Ok x \<Longrightarrow> x \<le> 0 \<Longrightarrow>
          cmp b c = Ok y \<Longrightarrow> y \<le> 0 \<Longrightarrow> \<exists>z. cmp a c = Ok z \<and> z \<le> 0 \<and> (z = 0 \<longrightarrow> x = 0 \<and> y = 0)"
begin

lemma cmp_refl: "D a \<Longrightarrow> cmp a a = Ok 0"
  using cmp_total [of a a] cmp_swap [of a a] by auto

lemma cmp_cases:
  assumes "D a" "D b"
  obtains "cmp a b = Ok (-1)" "cmp b a = Ok 1" | "cmp a b = Ok 0" "cmp b a = Ok 0"
    | "cmp a b = Ok 1" "cmp b a = Ok (-1)"
  using cmp_total [OF assms] cmp_swap [OF assms] by fastforce

end

definition cmp_lin :: "'k::linorder \<Rightarrow> 'k \<Rightarrow> int" where
  "cmp_lin a b = (if a = b then 0 else if a < b then -1 else 1)"

text \<open>A comparison that reads a key of a linearly ordered type off each value.\<close>

locale keyed_comparer =
  fixes cmp :: "'v \<Rightarrow> 'v \<Rightarrow> int res"
    and D :: "'v \<Rightarrow> bool"
    and key :: "'v \<Rightarrow> 'k::linorder"
  assumes cmp_key: "D a \<Longrightarrow> D b \<Longrightarrow> cmp a b = Ok (cmp_lin (key a) (key b))"

sublocale keyed_comparer \<subseteq> comparer cmp D
proof unfold_locales
  fix a b assume "D a" "D b"
  then show "\<exists>c. cmp a b = Ok c \<and> c \<in> {-1, 0, 1}"
    by (auto simp: cmp_key cmp_lin_def)
next
  fix a b x assume "D a" "D b" "cmp a b = Ok x"
  then show "cmp b a = Ok (- x)"
    by (auto simp: cmp_key cmp_lin_def split: if_splits)
next
  fix a b c x y
  assume "D a" "D b" "D c" "cmp a b = Ok x" "x \<le> 0" "cmp b c = Ok y" "y \<le> 0"
  then show "\<exists>z. cmp a c = Ok z \<and> z \<le> 0 \<and> (z = 0 \<longrightarrow> x = 0 \<and> y = 0)"
    by (auto simp: cmp_key cmp_lin_def split: if_splits)
qed

context keyed_comparer
begin

lemma is_comparer: "comparer cmp D"
  by (rule comparer_axioms)

lemma preorder:
  assumes "D a" "D b" "D c"
  shows "(\<exists>x. cmp a b = Ok x \<and> x \<in> {-1, 0, 1} \<and> cmp b a = Ok (- x)) \<and> cmp a a = Ok 0
    \<and> (\<forall>x y. cmp a b = Ok x \<and> x \<le> 0 \<and> cmp b c = Ok y \<and> y \<le> 0
         \<longrightarrow> (\<exists>z. cmp a c = Ok z \<and> z \<le> 0 \<and> (z = 0 \<longrightarrow> x = 0 \<and> y = 0)))"
  using cmp_total [OF assms(1,2)] cmp_swap [OF assms(1,2)] cmp_refl [OF assms(1)] cmp_trans [OF assms]
  by blast

end

subsection \<open>Strings\<close>

definition str_key :: "gval \<Rightarrow> nat list option" where
  "str_key v = (case v of GString s \<Rightarrow> Some (map of_char s) | _ \<Rightarrow> None)"

definition str_dom :: "gval \<Rightarrow> bool" where
  "str_dom v = (case v of GString _ \<Rightarrow> True | GNil \<Rightarrow> True | _ \<Rightarrow> False)"

lemma strings_Compare_key: "strings_Compare a b = cmp_lin (map of_char a :: nat list) (map of_char b)"
  by (induction a b rule: strings_Compare.induct) (auto simp: cmp_lin_def)

lemma str_dom_cases: "str_dom v \<Longrightarrow> v = GNil \<or> (\<exists>s. v = GString s)"
  by (cases v) (simp_all add: str_dom_def)

lemma string_compare_key:
  "str_dom a \<Longrightarrow> str_dom b \<Longrightarrow>
   string_compare env base n coll a b = Ok (cmp_lin (str_key a) (str_key b))"
  by (auto dest!: str_dom_cases simp: str_key_def string_compare_def compareNulls_def
        strings_Compare_key cmp_lin_def)

interpretation string_type: keyed_comparer "sql_compare env (StringT base n coll)" str_dom str_key
  for env base n coll
  by unfold_locales (simp add: string_compare_key)

subsection \<open>Numbers\<close>

definition number_key :: "btype \<Rightarrow> gval \<Rightarrow> int option" where
  "number_key bt v =
     (if bt \<in> {Float32T, Float64T} then (case v of GFloat64 b \<Rightarrow> Some (f64_key b) | _ \<Rightarrow> None)
      else if bt \<in> {Uint8T, Uint16T, Uint24T, Uint32T, Uint64T} then int_val v
      else map_option wrap64 (int_val v))"

definition number_dom :: "btype \<Rightarrow> gval \<Rightarrow> bool" where
  "number_dom bt v = (v = GNil \<or>
     (if bt \<in> {Float32T, Float64T} then (case v of GFloat64 b \<Rightarrow> \<not> f64_nan b | _ \<Rightarrow> False)
      else if bt \<in> {Uint8T, Uint16T, Uint24T, Uint32T, Uint64T}
      then (case int_val v of Some i \<Rightarrow> 0 \<le> i | None \<Rightarrow> False)
      else int_val v \<noteq> None))"

lemma int_val_GNil [simp]: "int_val GNil = None"
  by (simp add: int_val_def)

lemma uint_upper: "uint (w :: 'a::len word) < 2 ^ LENGTH('a)"
  by (rule uint_bounded)

lemma int_val_less: "int_val v = Some i \<Longrightarrow> i < 2 ^ 64"
proof (cases v)
  case (GInt w) assume "int_val v = Some i" with GInt show ?thesis
    using sint_lt [of w] by (simp add: int_val_def)
next
  case (GInt8 w) assume "int_val v = Some i" with GInt8 show ?thesis
    using sint_lt [of w] by (simp add: int_val_def)
next
  case (GInt16 w) assume "int_val v = Some i" with GInt16 show ?thesis
    using sint_lt [of w] by (simp add: int_val_def)
next
  case (GInt32 w) assume "int_val v = Some i" with GInt32 show ?thesis
    using sint_lt [of w] by (simp add: int_val_def)
next
  case (GInt64 w) assume "int_val v = Some i" with GInt64 show ?thesis
    using sint_lt [of w] by (simp add: int_val_def)
next
  case (GUint w) assume "int_val v = Some i" with GUint show ?thesis
    using uint_upper [of w] by (simp add: int_val_def)
next
  case (GUint8 w) assume "int_val v = Some i" with GUint8 show ?thesis
    using uint_upper [of w] by (simp add: int_val_def)
next
  case (GUint16 w) assume "int_val v = Some i" with GUint16 show ?thesis
    using uint_upper [of w] by (simp add: int_val_def)
next
  case (GUint32 w) assume "int_val v = Some i" with GUint32 show ?thesis
    using uint_upper [of w] by (simp add: int_val_def)
next
  case (GUint64 w) assume "int_val v = Some i" with GUint64 show ?thesis
    using uint_upper [of w] by (simp add: int_val_def)
qed (simp_all add: int_val_def)

lemma uint_word_of_int_val:
  "int_val v = Some i \<Longrightarrow> 0 \<le> i \<Longrightarrow> uint (word_of_int i :: 64 word) = i"
  using int_val_less [of v i] by (simp add: uint_word_of_int_eq take_bit_int_eq_self)

lemma compareSignedInts_key:
  assumes "cast_laws env" and "a = GNil \<or> int_val a \<noteq> None" and "b = GNil \<or> int_val b \<noteq> None"
  shows "compareSignedInts env a b =
    Ok (cmp_lin (map_option wrap64 (int_val a)) (map_option wrap64 (int_val b)))"
  using assms
  by (auto simp: compareSignedInts_def compareNulls_def cast_lawsD cmp_int_def cmp_lin_def wrap64_def)

lemma compareUnsignedInts_key:
  assumes "cast_laws env" and "a = GNil \<or> (\<exists>i\<ge>0. int_val a = Some i)"
    and "b = GNil \<or> (\<exists>i\<ge>0. int_val b = Some i)"
  shows "compareUnsignedInts env a b = Ok (cmp_lin (int_val a) (int_val b))"
  using assms
  by (auto simp: compareUnsignedInts_def compareNulls_def cast_lawsD cmp_int_def cmp_lin_def
      uint_word_of_int_val)

lemma compareFloats_key:
  assumes "cast_laws env" and "a = GNil \<or> (\<exists>x. a = GFloat64 x \<and> \<not> f64_nan x)"
    and "b = GNil \<or> (\<exists>x. b = GFloat64 x \<and> \<not> f64_nan x)"
  shows "compareFloats env a b =
    Ok (cmp_lin (case a of GFloat64 x \<Rightarrow> Some (f64_key x) | _ \<Rightarrow> None)
                (case b of GFloat64 x \<Rightarrow> Some (f64_key x) | _ \<Rightarrow> None))"
  using assms
  by (auto simp: compareFloats_def compareNulls_def cast_lawsD cmp_lin_def f64_eq_def f64_lt_def)

lemma number_dom_cases:
  "number_dom bt v \<Longrightarrow> bt \<in> {Float32T, Float64T} \<Longrightarrow> v = GNil \<or> (\<exists>x. v = GFloat64 x \<and> \<not> f64_nan x)"
  "number_dom bt v \<Longrightarrow> bt \<in> {Uint8T, Uint16T, Uint24T, Uint32T, Uint64T} \<Longrightarrow>
     v = GNil \<or> (\<exists>i\<ge>0. int_val v = Some i)"
  "number_dom bt v \<Longrightarrow> bt \<in> {Int8T, Int16T, Int24T, Int32T, Int64T} \<Longrightarrow>
     v = GNil \<or> int_val v \<noteq> None"
  by (auto simp: number_dom_def split: gval.splits option.splits)

lemma number_compare_key:
  assumes "cast_laws env" "number_dom bt a" "number_dom bt b"
  shows "number_compare env bt a b = Ok (cmp_lin (number_key bt a) (number_key bt b))"
proof -
  consider "bt \<in> {Float32T, Float64T}" | "bt \<in> {Uint8T, Uint16T, Uint24T, Uint32T, Uint64T}"
    | "bt \<in> {Int8T, Int16T, Int24T, Int32T, Int64T}"
    by (cases bt) auto
  then show ?thesis
  proof cases
    case 1
    with compareFloats_key [OF assms(1) number_dom_cases(1) [OF assms(2)] number_dom_cases(1) [OF assms(3)]]
    show ?thesis by (auto simp: number_compare_def number_key_def)
  next
    case 2
    with compareUnsignedInts_key [OF assms(1) number_dom_cases(2) [OF assms(2)] number_dom_cases(2) [OF assms(3)]]
    show ?thesis by (auto simp: number_compare_def number_key_def)
  next
    case 3
    with compareSignedInts_key [OF assms(1) number_dom_cases(3) [OF assms(2)] number_dom_cases(3) [OF assms(3)]]
    show ?thesis by (auto simp: number_compare_def number_key_def)
  qed
qed

lemma number_comparer:
  "cast_laws env \<Longrightarrow> keyed_comparer (sql_compare env (NumberT bt)) (number_dom bt) (number_key bt)"
  by unfold_locales (simp add: number_compare_key)

lemma number_key_GNil [simp]: "number_key bt GNil = None"
  by (simp add: number_key_def)

lemma number_compare_nil:
  assumes "cast_laws env" "number_dom bt a"
  shows "a \<noteq> GNil \<longrightarrow> number_compare env bt GNil a = Ok (-1)"
proof
  assume "a \<noteq> GNil"
  then have "compareNulls GNil a = Some (-1)" by (simp add: compareNulls_def)
  then show "number_compare env bt GNil a = Ok (-1)"
    by (cases bt) (simp_all add: number_compare_def compareSignedInts_def compareUnsignedInts_def
        compareFloats_def)
qed

section \<open>Conversions between integer types\<close>

lemma sint_word_of_int_in_range:
  "- (2 ^ (LENGTH('a) - 1)) \<le> i \<Longrightarrow> i < 2 ^ (LENGTH('a) - 1) \<Longrightarrow> sint (word_of_int i :: 'a::len word) = i"
  by (simp add: signed_of_int signed_take_bit_int_eq_self)

lemma ucast_word_of_int_down:
  "LENGTH('b) \<le> LENGTH('a) \<Longrightarrow> ucast (word_of_int i :: 'a::len word) = (word_of_int i :: 'b::len word)"
  by (rule bit_word_eqI) (auto simp: bit_simps)

definition int_range :: "btype \<Rightarrow> (int \<times> int) option" where
  "int_range bt = (case bt of
     Int8T \<Rightarrow> Some (-128, 127) | Uint8T \<Rightarrow> Some (0, 255)
   | Int16T \<Rightarrow> Some (-32768, 32767) | Uint16T \<Rightarrow> Some (0, 65535)
   | Int24T \<Rightarrow> Some (-8388608, 8388607) | Uint24T \<Rightarrow> Some (0, 16777215)
   | Int32T \<Rightarrow> Some (-2147483648, 2147483647) | Uint32T \<Rightarrow> Some (0, 4294967295)
   | Int64T \<Rightarrow> Some (-9223372036854775808, 9223372036854775807)
   | Uint64T \<Rightarrow> Some (0, 18446744073709551615)
   | _ \<Rightarrow> None)"

lemma int_val_simps [simp]:
  "int_val (GInt8 a) = Some (sint a)" "int_val (GInt16 b) = Some (sint b)"
  "int_val (GInt32 c) = Some (sint c)" "int_val (GInt64 d) = Some (sint d)"
  "int_val (GUint8 a) = Some (uint a)" "int_val (GUint16 b) = Some (uint b)"
  "int_val (GUint32 c) = Some (uint c)" "int_val (GUint64 d) = Some (uint d)"
  by (simp_all add: int_val_def)

lemma int_val_greater: "int_val v = Some i \<Longrightarrow> - (2 ^ 63) \<le> i"
proof -
  have u: "- 9223372036854775808 \<le> uint (w :: 'a::len word)" for w
    by (rule order.trans [of _ 0]) simp_all
  show "int_val v = Some i \<Longrightarrow> - (2 ^ 63) \<le> i"
    by (cases v) (auto simp: int_val_def u intro: order.trans [OF _ sint_ge])
qed

lemma int_val_not_time:
  "int_val v = Some i \<Longrightarrow> v \<noteq> GNil"
  "int_val v = Some i \<Longrightarrow> (case v of GTime ns _ \<Rightarrow> f ns | _ \<Rightarrow> v) = v"
  by (cases v; simp add: int_val_def)+

lemma number_convert_Int64:
  assumes "cast_laws env" "int_val v = Some i" "i < 2 ^ 63"
  shows "number_convert env Int64T v = Ok (GInt64 (word_of_int i))"
proof (cases "\<exists>u. v = GUint64 u")
  case True
  with assms show ?thesis by (auto simp: number_convert_def cast_lawsD)
next
  case False
  then have "(case v of GUint64 u \<Rightarrow> A u | _ \<Rightarrow> B) = B" for A and B :: "gval res" by (cases v) auto
  with assms int_val_not_time [OF assms(2)] show ?thesis
    by (simp add: number_convert_def cast_lawsD)
qed

lemma number_convert_signed:
  assumes "cast_laws env" "int_val v = Some i" "i < 2 ^ 63"
    and bt: "bt \<in> {Int8T, Int16T, Int24T, Int32T, Int64T}" "int_range bt = Some (lo, hi)"
  shows "if lo \<le> i \<and> i \<le> hi then \<exists>w. number_convert env bt v = Ok w \<and> int_val w = Some i
         else number_convert env bt v = Err (SqlErr ErrOutOfRange)"
proof -
  have g: "- (2 ^ 63) \<le> i" by (rule int_val_greater [OF assms(2)])
  have s: "sint (word_of_int i :: 64 word) = i"
    using g assms(3) by (simp add: sint_word_of_int_in_range)
  have c: "castInt64 env v = Ok (word_of_int i)"
    using assms by (simp add: cast_lawsD)
  show ?thesis
    using bt g s c int_val_not_time [OF assms(2)] number_convert_Int64 [OF assms(1-3)] assms(3)
    by (auto simp: number_convert_def signed_in_def int_range_def ucast_word_of_int_down
          sint_word_of_int_in_range)
qed

lemma number_convert_unsigned:
  assumes "cast_laws env" "int_val v = Some i"
    and bt: "bt \<in> {Uint8T, Uint16T, Uint24T, Uint32T, Uint64T}" "int_range bt = Some (lo, hi)"
  shows "if lo \<le> i \<and> i \<le> hi then \<exists>w. number_convert env bt v = Ok w \<and> int_val w = Some i
         else \<exists>e. number_convert env bt v = Err e"
proof (cases "0 \<le> i")
  case True
  have s: "uint (word_of_int i :: 64 word) = i"
    using True by (rule uint_word_of_int_val [OF assms(2)])
  have c: "castUint64 env v = Ok (word_of_int i)"
    using assms True by (simp add: cast_lawsD)
  show ?thesis
    using bt True s c int_val_not_time [OF assms(2)] int_val_less [OF assms(2)]
    by (auto simp: number_convert_def unsigned_in_def int_range_def ucast_word_of_int_down
          uint_word_of_int_eq take_bit_int_eq_self)
next
  case False
  with assms int_val_not_time [OF assms(2)] show ?thesis
    by (auto simp: number_convert_def unsigned_in_def int_range_def cast_lawsD)
qed

lemma number_convert_int:
  assumes "cast_laws env" "int_val v = Some i" "int_range bt = Some (lo, hi)" "i < 2 ^ 63"
  shows "if lo \<le> i \<and> i \<le> hi then \<exists>w. number_convert env bt v = Ok w \<and> int_val w = Some i
         else \<exists>e. number_convert env bt v = Err e"
proof (cases "bt \<in> {Uint8T, Uint16T, Uint24T, Uint32T, Uint64T}")
  case True
  then show ?thesis using number_convert_unsigned assms by blast
next
  case False
  then have "bt \<in> {Int8T, Int16T, Int24T, Int32T, Int64T}"
    using assms(3) by (cases bt) (auto simp: int_range_def)
  from number_convert_signed [OF assms(1,2,4) this assms(3)] show ?thesis by (auto split: if_splits)
qed

section \<open>Properties\<close>



text \<open>The bound of the previous property is needed: only the conversion to BIGINT guards against
  \<^verbatim>\<open>uint64\<close> values beyond the signed range. Converted to TINYINT, the largest \<^verbatim>\<open>uint64\<close> wraps to -1 inside
  the cast and passes the range check, so an out-of-range value is stored as -1 instead of refused.\<close>

lemma number_convert_uint64_wraps:
  assumes "cast_laws env"
  shows "sql_convert env (NumberT Int8T) (GUint64 18446744073709551615) = Ok (GInt8 (-1))
    \<and> sql_convert env (NumberT Int64T) (GUint64 18446744073709551615) = Err (SqlErr ErrOutOfRange)"
  using cast_lawsD(1) [OF assms, of "GUint64 18446744073709551615" 18446744073709551615]
  by (simp add: number_convert_def signed_in_def)

theorem number_convert_uint64_wraps_witness:
  "sql_convert cast_env (NumberT Int8T) (GUint64 18446744073709551615) = Ok (GInt8 (-1))"
  using number_convert_uint64_wraps [OF cast_env_laws] by simp



text \<open>The VARCHAR limit of 65535 bytes is checked on a product computed in \<^verbatim>\<open>int64\<close>: for a length of
  2^62 characters of a four-byte character set the product wraps to 0 and the type is created.\<close>

lemma CreateString_overflow:
  "CreateString VarCharT (2 ^ 62) Collation_Default = Ok (StringT VarCharT (2 ^ 62) Collation_Default)
   \<and> CreateString VarCharT 16384 Collation_Default = Err (ErrOther ''length too large'')"
  by (simp add: CreateString_def Collation_Default_def Collation_binary_def coll_maxlen_def
      wrap64_def varcharVarbinaryMax_def)

end
