(* ===== verification/Rows.thy ===== *)
theory Rows
  imports Sql_Types
begin

text \<open>
  Rows, columns and schemas (\<^verbatim>\<open>sql/row.go\<close>, \<^verbatim>\<open>sql/column.go\<close>, \<^verbatim>\<open>sql/schema.go\<close>), the slice iterator, the loop
  that collects the rows of an iterator, and the iterator over the partitions of a table
  (\<^verbatim>\<open>sql/table_iter.go\<close>).
\<close>

section \<open>Columns and schemas\<close>

record column =
  col_Name :: string
  col_Type :: stype
  col_Default :: gval
  col_Nullable :: bool
  col_Source :: string
  col_PrimaryKey :: bool
  col_Comment :: string

type_synonym schema = "column list"

text \<open>\<^verbatim>\<open>reflect.DeepEqual\<close> on values: floats by \<^verbatim>\<open>==\<close>, slices element by element.\<close>

fun deep_eq :: "gval \<Rightarrow> gval \<Rightarrow> bool"
and deep_eqs :: "gval list \<Rightarrow> gval list \<Rightarrow> bool"
where
  "deep_eq (GFloat64 a) w = (case w of GFloat64 b \<Rightarrow> f64_eq a b | _ \<Rightarrow> False)"
| "deep_eq (GFloat32 a) w = (case w of GFloat32 b \<Rightarrow> f64_eq (f64_of_f32 a) (f64_of_f32 b) | _ \<Rightarrow> False)"
| "deep_eq (GSlice vs) w = (case w of GSlice ws \<Rightarrow> deep_eqs vs ws | _ \<Rightarrow> False)"
| "deep_eq (GRow vs) w = (case w of GRow ws \<Rightarrow> deep_eqs vs ws | _ \<Rightarrow> False)"
| "deep_eq v w = (v = w)"
| "deep_eqs [] ws = (ws = [])"
| "deep_eqs (v # vs) ws = (case ws of [] \<Rightarrow> False | w # ws' \<Rightarrow> deep_eq v w \<and> deep_eqs vs ws')"

definition Column_Check :: "genv \<Rightarrow> column \<Rightarrow> gval \<Rightarrow> bool res" where
  "Column_Check env c v =
     (if v = GNil then Ok (col_Nullable c)
      else case sql_convert env (col_Type c) v of Ok _ \<Rightarrow> Ok True | Err _ \<Rightarrow> Ok False | Panic \<Rightarrow> Panic)"

definition Column_Equals :: "column \<Rightarrow> column \<Rightarrow> bool" where
  "Column_Equals c c2 \<longleftrightarrow> col_Name c = col_Name c2 \<and> col_Source c = col_Source c2
     \<and> col_Nullable c = col_Nullable c2 \<and> deep_eq (col_Default c) (col_Default c2)
     \<and> col_Type c = col_Type c2"

text \<open>
  \<^verbatim>\<open>CheckRow\<close>. A failing value is reported with \<^verbatim>\<open>reflect.TypeOf(v).String()\<close>, which is a call on a nil interface
  when the value is nil.
\<close>

fun check_fields :: "genv \<Rightarrow> nat \<Rightarrow> schema \<Rightarrow> row \<Rightarrow> unit res" where
  "check_fields env idx [] r = Ok ()"
| "check_fields env idx (f # fs) [] = Panic"
| "check_fields env idx (f # fs) (v # vs) = rbind (Column_Check env f v) (\<lambda>ok.
     if ok then check_fields env (Suc idx) fs vs
     else if v = GNil then Panic
     else Err (SqlErr (ErrUnexpectedType idx)))"

definition CheckRow :: "genv \<Rightarrow> schema \<Rightarrow> row \<Rightarrow> unit res" where
  "CheckRow env s r =
     (if length s \<noteq> length r then Err (SqlErr (ErrUnexpectedRowLength (length s) (length r)))
      else check_fields env 0 s r)"

fun index_from :: "nat \<Rightarrow> string \<Rightarrow> string \<Rightarrow> schema \<Rightarrow> int" where
  "index_from i column source [] = -1"
| "index_from i column source (c # cs) =
     (if ToLower (col_Name c) = column \<and> ToLower (col_Source c) = source then int i
      else index_from (Suc i) column source cs)"

definition IndexOf :: "schema \<Rightarrow> string \<Rightarrow> string \<Rightarrow> int" where
  "IndexOf s column source = index_from 0 (ToLower column) (ToLower source) s"

definition Contains :: "schema \<Rightarrow> string \<Rightarrow> string \<Rightarrow> bool" where
  "Contains s column source = (IndexOf s column source \<ge> 0)"

definition Schema_Equals :: "schema \<Rightarrow> schema \<Rightarrow> bool" where
  "Schema_Equals s s2 = (length s = length s2 \<and> list_all2 Column_Equals s s2)"

section \<open>Rows\<close>

fun equals_fields :: "genv \<Rightarrow> row \<Rightarrow> row \<Rightarrow> schema \<Rightarrow> bool res" where
  "equals_fields env (l # ls) (r # rs) (c # cs) = rbind (sql_compare env (col_Type c) l r) (\<lambda>cmp.
     if cmp \<noteq> 0 then Ok False else equals_fields env ls rs cs)"
| "equals_fields env _ _ _ = Ok True"

definition Row_Equals :: "genv \<Rightarrow> row \<Rightarrow> row \<Rightarrow> schema \<Rightarrow> bool res" where
  "Row_Equals env r r2 s =
     (if length r2 \<noteq> length r \<or> length r2 \<noteq> length s then Ok False else equals_fields env r r2 s)"

section \<open>The slice iterator\<close>

record slice_iter =
  si_rows :: "row list"
  si_idx :: nat

definition RowsToRowIter :: "row list \<Rightarrow> slice_iter" where
  "RowsToRowIter rows = \<lparr> si_rows = rows, si_idx = 0 \<rparr>"

definition slice_Next :: "(slice_iter, row) nextfn" where
  "slice_Next i =
     (if si_idx i \<ge> length (si_rows i) then Some (i, Err EOF)
      else Some (i \<lparr> si_idx := Suc (si_idx i) \<rparr>, Ok (si_rows i ! si_idx i)))"

definition slice_Close :: "slice_iter \<Rightarrow> slice_iter" where
  "slice_Close i = i \<lparr> si_rows := [] \<rparr>"

text \<open>\<^verbatim>\<open>RowIterToRows\<close>: drain the iterator, then close it; \<open>close\<close> is the error of \<^verbatim>\<open>Close\<close>, if any.\<close>

definition RowIterToRows ::
  "('s, row) nextfn \<Rightarrow> ('s \<Rightarrow> gerror option) \<Rightarrow> 's \<Rightarrow> row list res option" where
  "RowIterToRows nx close s =
     (case drain nx s [] of
        None \<Rightarrow> None
      | Some (t, r) \<Rightarrow> Some (rbind r (\<lambda>rows. case close t of None \<Rightarrow> Ok rows | Some e \<Rightarrow> Err e)))"

section \<open>The iterator over partitions\<close>

text \<open>
  \<open>done\<close> is whether the context is cancelled, \<open>pnx\<close> and \<open>pclose\<close> are the partition iterator's methods, \<open>prows\<close> is
  \<^verbatim>\<open>table.PartitionRows\<close>, \<open>nx\<close> and \<open>close\<close> the methods of the row iterator it returns.
\<close>

record ('p, 'q, 'r) table_iter =
  ti_partitions :: 'p
  ti_partition :: "'q option"
  ti_rows :: "'r option"

definition open_partition ::
  "('p, 'q) nextfn \<Rightarrow> ('p \<Rightarrow> gerror option) \<Rightarrow> ('q \<Rightarrow> 'r res) \<Rightarrow> ('p, 'q, 'r) table_iter \<Rightarrow>
     (('p, 'q, 'r) table_iter \<times> 'r res) option" where
  "open_partition pnx pclose prows i =
     (case (case ti_partition i of
              Some q \<Rightarrow> Some (i, Ok q)
            | None \<Rightarrow> (case pnx (ti_partitions i) of
                None \<Rightarrow> None
              | Some (p', Ok q) \<Rightarrow> Some (i \<lparr> ti_partitions := p', ti_partition := Some q \<rparr>, Ok q)
              | Some (p', Err e) \<Rightarrow> Some (i \<lparr> ti_partitions := p' \<rparr>,
                  if e = EOF then (case pclose p' of Some ce \<Rightarrow> Err ce | None \<Rightarrow> Err e) else Err e)
              | Some (p', Panic) \<Rightarrow> Some (i \<lparr> ti_partitions := p' \<rparr>, Panic))) of
        None \<Rightarrow> None
      | Some (i', Err e) \<Rightarrow> Some (i', Err e)
      | Some (i', Panic) \<Rightarrow> Some (i', Panic)
      | Some (i', Ok q) \<Rightarrow>
          (case ti_rows i' of
             Some r \<Rightarrow> Some (i', Ok r)
           | None \<Rightarrow> (case prows q of
               Ok r \<Rightarrow> Some (i' \<lparr> ti_rows := Some r \<rparr>, Ok r)
             | Err e \<Rightarrow> Some (i', Err e)
             | Panic \<Rightarrow> Some (i', Panic))))"

partial_function (option) TableRowIter_Next ::
  "bool \<Rightarrow> ('p, 'q) nextfn \<Rightarrow> ('p \<Rightarrow> gerror option) \<Rightarrow> ('q \<Rightarrow> 'r res) \<Rightarrow> ('r, row) nextfn \<Rightarrow>
   ('r \<Rightarrow> gerror option) \<Rightarrow> ('p, 'q, 'r) table_iter \<Rightarrow> (('p, 'q, 'r) table_iter \<times> row res) option"
where
  "TableRowIter_Next canceled pnx pclose prows nx close i =
     (if canceled then Some (i, Err Canceled)
      else case open_partition pnx pclose prows i of
        None \<Rightarrow> None
      | Some (i', Err e) \<Rightarrow> Some (i', Err e)
      | Some (i', Panic) \<Rightarrow> Some (i', Panic)
      | Some (i', Ok r) \<Rightarrow>
          (case nx r of
             None \<Rightarrow> None
           | Some (r', res) \<Rightarrow>
               if res = Err EOF then
                 (case close r' of
                    Some e \<Rightarrow> Some (i' \<lparr> ti_rows := Some r' \<rparr>, Err e)
                  | None \<Rightarrow> TableRowIter_Next canceled pnx pclose prows nx close
                              (i' \<lparr> ti_partition := None, ti_rows := None \<rparr>))
               else Some (i' \<lparr> ti_rows := Some r' \<rparr>, res)))"

section \<open>Properties\<close>

interpretation slice: row_iter slice_Next "\<lambda>_. True" "\<lambda>i. drop (si_idx i) (si_rows i)"
proof unfold_locales
  fix s :: slice_iter and x xs assume "drop (si_idx s) (si_rows s) = x # xs"
  from drop_ConsD [OF this] show "\<exists>t. slice_Next s = Some (t, Ok x) \<and> True \<and> drop (si_idx t) (si_rows t) = xs"
    by (simp add: slice_Next_def)
qed (simp add: slice_Next_def)

lemma slice_yields: "\<exists>t. yields slice_Next (RowsToRowIter rows) rows (Err EOF) t"
  using slice.yields_pending [of "RowsToRowIter rows"] by (auto simp: RowsToRowIter_def)

lemma check_fields_Ok:
  "length s = length r \<Longrightarrow>
   check_fields env n s r = Ok () \<longleftrightarrow> list_all2 (\<lambda>c v. Column_Check env c v = Ok True) s r"
proof (induction env n s r rule: check_fields.induct)
  case (3 env idx f fs v vs)
  then show ?case by (cases "Column_Check env f v") auto
qed auto

text \<open>Collecting the rows of the iterator over a slice returns the slice.\<close>

lemma RowIterToRows_RowsToRowIter:
  "RowIterToRows slice_Next (\<lambda>_. None) (RowsToRowIter rows) = Some (Ok rows)"
  using slice_yields [of rows] by (auto simp: RowIterToRows_def drain_yields)

lemma check_fields_null:
  "length s = length r \<Longrightarrow> i < length s \<Longrightarrow> r ! i = GNil \<Longrightarrow> \<not> col_Nullable (s ! i) \<Longrightarrow>
   \<forall>j < i. Column_Check env (s ! j) (r ! j) = Ok True \<Longrightarrow> check_fields env n s r = Panic"
proof (induction env n s r arbitrary: i rule: check_fields.induct)
  case (3 env idx f fs v vs)
  show ?case
  proof (cases i)
    case 0
    with 3 show ?thesis by (simp add: Column_Check_def)
  next
    case (Suc k)
    with "3.prems" have "Column_Check env f v = Ok True" "\<forall>j < k. Column_Check env (fs ! j) (vs ! j) = Ok True"
      by (auto simp: All_less_Suc2 less_Suc_eq_0_disj)
    with Suc 3 show ?thesis by simp
  qed
qed auto

text \<open>A row passes \<^verbatim>\<open>CheckRow\<close> exactly when it has one acceptable value per column. A NULL in a NOT NULL
  column is not reported as an error: the first such value panics while its type is formatted.\<close>

lemma CheckRow_spec:
  "(CheckRow env s r = Ok () \<longleftrightarrow> length s = length r \<and> list_all2 (\<lambda>c v. Column_Check env c v = Ok True) s r)
   \<and> (length s = length r \<and> i < length s \<and> r ! i = GNil \<and> \<not> col_Nullable (s ! i)
      \<and> (\<forall>j < i. Column_Check env (s ! j) (r ! j) = Ok True) \<longrightarrow> CheckRow env s r = Panic)"
  using check_fields_Ok [of s r env 0] check_fields_null [of s r i env 0] by (auto simp: CheckRow_def)

definition not_null_column :: column where
  "not_null_column = \<lparr> col_Name = ''a'', col_Type = Int64, col_Default = GNil, col_Nullable = False,
     col_Source = ''t'', col_PrimaryKey = False, col_Comment = [] \<rparr>"

theorem CheckRow_spec_witness: "CheckRow cast_env [not_null_column] [GNil] = Panic"
  using CheckRow_spec [of cast_env "[not_null_column]" "[GNil]" 0] by (simp add: not_null_column_def)

lemma index_from_cases:
  "(index_from n c s cols = -1 \<and> (\<forall>x \<in> set cols. \<not> (ToLower (col_Name x) = c \<and> ToLower (col_Source x) = s)))
   \<or> (\<exists>k < length cols. index_from n c s cols = int (n + k)
        \<and> ToLower (col_Name (cols ! k)) = c \<and> ToLower (col_Source (cols ! k)) = s
        \<and> (\<forall>j < k. \<not> (ToLower (col_Name (cols ! j)) = c \<and> ToLower (col_Source (cols ! j)) = s)))"
proof (induction cols arbitrary: n)
  case (Cons x cols)
  show ?case
  proof (cases "ToLower (col_Name x) = c \<and> ToLower (col_Source x) = s")
    case False
    then have "index_from n c s (x # cols) = index_from (Suc n) c s cols" by auto
    with Cons.IH [of "Suc n"] False show ?thesis
      by (elim disjE exE conjE, simp, intro disjI2) (rule_tac x = "Suc k" in exI, simp add: All_less_Suc2)
  qed auto
qed simp

lemma IndexOf_first:
  assumes "IndexOf s column source = int k"
  shows "k < length s \<and> ToLower (col_Name (s ! k)) = ToLower column \<and> ToLower (col_Source (s ! k)) = ToLower source"
  using index_from_cases [of 0 "ToLower column" "ToLower source" s] assms by (auto simp: IndexOf_def)

lemma Contains_iff:
  "Contains s column source \<longleftrightarrow>
   (\<exists>c \<in> set s. ToLower (col_Name c) = ToLower column \<and> ToLower (col_Source c) = ToLower source)"
  using index_from_cases [of 0 "ToLower column" "ToLower source" s]
  by (fastforce simp: Contains_def IndexOf_def in_set_conv_nth)

section \<open>Rows of a partitioned table\<close>

lemmas TableRowIter_unfold = TableRowIter_Next.simps [of False] open_partition_def

lemma TableRowIter_open:
  assumes "yields nx r xs e r'" "e = Err EOF" "close r' = None" "ti_rows i = Some r" "ti_partition i = Some q"
    and "yields (TableRowIter_Next False pnx pclose prows nx close)
           (i \<lparr> ti_partition := None, ti_rows := None \<rparr>) ys f u"
  shows "yields (TableRowIter_Next False pnx pclose prows nx close) i (xs @ ys) f u"
  using assms
proof (induction arbitrary: i rule: yields.induct)
  case (stop s t r)
  then have "TableRowIter_Next False pnx pclose prows nx close i =
      TableRowIter_Next False pnx pclose prows nx close (i \<lparr> ti_partition := None, ti_rows := None \<rparr>)"
    by (subst TableRowIter_unfold) (simp add: open_partition_def)
  with stop show ?case by (auto intro: yields_same_next)
next
  case (step s s' x xs r t)
  then have "TableRowIter_Next False pnx pclose prows nx close i = Some (i \<lparr> ti_rows := Some s' \<rparr>, Ok x)"
    by (subst TableRowIter_unfold) (simp add: open_partition_def)
  moreover have "yields (TableRowIter_Next False pnx pclose prows nx close) (i \<lparr> ti_rows := Some s' \<rparr>) (xs @ ys) f u"
    using step.IH [of "i \<lparr> ti_rows := Some s' \<rparr>"] step.prems by simp
  ultimately show ?case by (auto intro: yields.step)
qed

lemma TableRowIter_partitions:
  assumes "yields pnx p qs e p'" "e = Err EOF" "pclose p' = None" "ti_partitions i = p"
    "ti_partition i = None" "ti_rows i = None"
    and "\<forall>q \<in> set qs. \<exists>r r'. prows q = Ok r \<and> yields nx r (rows q) (Err EOF) r' \<and> close r' = None"
  shows "\<exists>t. yields (TableRowIter_Next False pnx pclose prows nx close) i (concat (map rows qs)) (Err EOF) t"
  using assms
proof (induction arbitrary: i rule: yields.induct)
  case (stop s t r)
  then have "TableRowIter_Next False pnx pclose prows nx close i = Some (i \<lparr> ti_partitions := t \<rparr>, Err EOF)"
    by (subst TableRowIter_unfold) (simp add: open_partition_def)
  then show ?case by (auto intro!: exI yields.stop)
next
  case (step s s' q qs r t)
  let ?N = "TableRowIter_Next False pnx pclose prows nx close"
  let ?i = "i \<lparr> ti_partitions := s', ti_partition := Some q \<rparr>"
  from step.prems obtain r0 r' where r0: "prows q = Ok r0" "yields nx r0 (rows q) (Err EOF) r'" "close r' = None"
    by auto
  from step.IH [of "i \<lparr> ti_partitions := s' \<rparr>"] step.prems obtain u where
    "yields ?N (i \<lparr> ti_partitions := s' \<rparr>) (concat (map rows qs)) (Err EOF) u" by auto
  moreover have "?i \<lparr> ti_rows := Some r0 \<rparr> \<lparr> ti_partition := None, ti_rows := None \<rparr> = i \<lparr> ti_partitions := s' \<rparr>"
    using step.prems by (cases i) simp
  ultimately have "yields ?N (?i \<lparr> ti_rows := Some r0 \<rparr>) (rows q @ concat (map rows qs)) (Err EOF) u"
    using TableRowIter_open [OF r0(2), of close "?i \<lparr> ti_rows := Some r0 \<rparr>" q] r0(3) by simp
  moreover have "?N i = ?N (?i \<lparr> ti_rows := Some r0 \<rparr>)"
    using step.hyps step.prems r0(1) by (simp add: TableRowIter_Next.simps [of False] open_partition_def)
  ultimately show ?case by (auto intro: yields_same_next)
qed

text \<open>The iterator over a table returns the rows of its partitions one partition after the other and ends, when
  no partition fails; on a cancelled context every call returns the cancellation error.\<close>

lemma TableRowIter_rows:
  assumes "yields pnx p qs (Err EOF) p'" "pclose p' = None"
    and "\<forall>q \<in> set qs. \<exists>r r'. prows q = Ok r \<and> yields nx r (rows q) (Err EOF) r' \<and> close r' = None"
  shows "(\<exists>t. drain (TableRowIter_Next False pnx pclose prows nx close)
            \<lparr> ti_partitions = p, ti_partition = None, ti_rows = None \<rparr> [] = Some (t, Ok (concat (map rows qs))))
    \<and> TableRowIter_Next True pnx pclose prows nx close i = Some (i, Err Canceled)"
proof -
  obtain t where "yields (TableRowIter_Next False pnx pclose prows nx close)
      \<lparr> ti_partitions = p, ti_partition = None, ti_rows = None \<rparr> (concat (map rows qs)) (Err EOF) t"
    using TableRowIter_partitions [of pnx p qs "Err EOF" p' pclose
        "\<lparr> ti_partitions = p, ti_partition = None, ti_rows = None \<rparr>" prows nx rows close] assms by auto
  then show ?thesis by (simp add: drain_yields TableRowIter_Next.simps [of True])
qed

lemma partition_list_yields:
  "yields (\<lambda>s. case s of [] \<Rightarrow> Some ([], Err EOF) | q # qs \<Rightarrow> Some (qs, Ok q)) qs qs (Err EOF) []"
  by (induction qs) (auto intro: yields.intros)

theorem TableRowIter_rows_witness:
  "\<exists>t. drain (TableRowIter_Next False (\<lambda>s. case s of [] \<Rightarrow> Some ([], Err EOF) | q # qs \<Rightarrow> Some (qs, Ok q))
          (\<lambda>_. None) (\<lambda>q. Ok (RowsToRowIter q)) slice_Next (\<lambda>_. None))
          \<lparr> ti_partitions = [[[GInt64 1]], [], [[GInt64 2]]], ti_partition = None, ti_rows = None \<rparr> []
        = Some (t, Ok [[GInt64 1], [GInt64 2]])"
proof -
  have "\<exists>r r'. Ok (RowsToRowIter q) = Ok r \<and> yields slice_Next r q (Err EOF) r' \<and> None = None" for q
    using slice_yields [of q] by auto
  then show ?thesis
    using TableRowIter_rows [OF partition_list_yields [of "[[[GInt64 1]], [], [[GInt64 2]]]"], of "\<lambda>_. None"
      "\<lambda>q. Ok (RowsToRowIter q)" slice_Next "\<lambda>q. q" "\<lambda>_. None"] by simp
qed

end
