(* ===== verification/Expressions.thy ===== *)
theory Expressions
  imports Sql_Types
begin

text \<open>
  Expressions (\<^verbatim>\<open>sql/expression/*.go\<close>, parts of \<^verbatim>\<open>sql/expression/function\<close>): the tree, its static methods
  (\<^verbatim>\<open>Type\<close>, \<^verbatim>\<open>IsNullable\<close>, \<^verbatim>\<open>Children\<close>, \<^verbatim>\<open>WithChildren\<close>), \<^verbatim>\<open>Eval\<close> for every constructor, the traversals
  \<^verbatim>\<open>Inspect\<close> and \<^verbatim>\<open>TransformUp\<close>, and \<^verbatim>\<open>sql.EvaluateCondition\<close>.

  The tree has no \<^verbatim>\<open>Interval\<close>, \<^verbatim>\<open>Subquery\<close>, \<^verbatim>\<open>Regexp\<close> or \<^verbatim>\<open>Like\<close> node; a leaf of another kind (a
  user-defined expression) is an \<open>OtherExpr\<close>, whose \<^verbatim>\<open>Eval\<close> is a field of the environment.

  Each \<^verbatim>\<open>Eval\<close> method is a definition of its own, \<open>And_Eval\<close>, \<open>In_Eval\<close>, ..., that takes the results the
  children's \<^verbatim>\<open>Eval\<close> and \<^verbatim>\<open>Type\<close> calls return; \<open>eval\<close> ties the knot. A result that a method does not
  look at (the right side of a short-circuited AND) stands for a call that is not made.
\<close>

section \<open>Integer parsing for CAST\<close>

fun parse_digits :: "nat \<Rightarrow> int \<Rightarrow> string \<Rightarrow> int option" where
  "parse_digits base acc [] = Some acc"
| "parse_digits base acc (c # cs) =
     (if c = CHR ''_'' then parse_digits base acc cs
      else case digit_val base c of
        None \<Rightarrow> None
      | Some d \<Rightarrow> parse_digits base (acc * int base + int d) cs)"

text \<open>\<^verbatim>\<open>strconv.ParseInt(s, 0, 64)\<close>; \<open>None\<close> is an error.\<close>

definition ParseInt64 :: "string \<Rightarrow> (64 word) option" where
  "ParseInt64 s0 =
     (let (neg, s) = strip_sign s0; l = ToLower s;
          (base, ds) = (if s = [] then (10, s)
             else if hd s \<noteq> CHR ''0'' then (10, s)
             else if 3 \<le> length s \<and> l ! 1 = CHR ''b'' then (2, drop 2 s)
             else if 3 \<le> length s \<and> l ! 1 = CHR ''o'' then (8, drop 2 s)
             else if 3 \<le> length s \<and> l ! 1 = CHR ''x'' then (16, drop 2 s)
             else (8, drop 1 s))
      in if s = [] \<or> (CHR ''_'' \<in> set s \<and> \<not> underscoreOK s) then None
         else case parse_digits base 0 ds of
           None \<Rightarrow> None
         | Some n \<Rightarrow> if neg \<and> n \<le> 2 ^ 63 then Some (word_of_int (- n))
                     else if \<not> neg \<and> n < 2 ^ 63 then Some (word_of_int n)
                     else None)"

section \<open>The tree\<close>

datatype (plugins only: code size) arith_op =
    OpPlus | OpMinus | OpMult | OpDiv | OpShiftLeft | OpShiftRight
  | OpBitAnd | OpBitOr | OpBitXor | OpIntDiv | OpMod | OpUnknown string

datatype (plugins only: code size) expr =
    Literal gval stype
  | GetField int stype string string bool
  | GetSessionField string stype gval
  | And expr expr
  | Or expr expr
  | Not expr
  | IsNull expr
  | IsTrue expr bool
  | Equals expr expr
  | GreaterThan expr expr
  | LessThan expr expr
  | GreaterThanOrEqual expr expr
  | LessThanOrEqual expr expr
  | In expr expr
  | NotIn expr expr
  | Between expr expr expr
  | Case "expr option" "(expr \<times> expr) list" "expr option"
  | Arithmetic expr expr arith_op
  | UnaryMinus expr
  | Tuple "expr list"
  | Alias expr string
  | SetField expr expr
  | Convert expr string
  | Star string
  | Coalesce "expr list"
  | IfFn expr expr expr
  | IfNull expr expr
  | NullIf expr expr
  | OtherExpr nat stype bool

text \<open>
  Argument order: \<open>GetField index type table name nullable\<close>, \<open>IsTrue child invert\<close>,
  \<open>Case expr branches else\<close>.
\<close>

section \<open>Conversion of values: CAST\<close>

definition err_text :: "gerror \<Rightarrow> string" where
  "err_text e = (case e of ErrOther s \<Rightarrow> s | _ \<Rightarrow> [])"

fun contains_str :: "string \<Rightarrow> string \<Rightarrow> bool" where
  "contains_str [] sub = (sub = [])"
| "contains_str (c # cs) sub = (take (length sub) (c # cs) = sub \<or> contains_str cs sub)"

definition castSignedToUnsigned :: "gval \<Rightarrow> 64 word" where
  "castSignedToUnsigned v = (case v of
     GInt w \<Rightarrow> w | GInt8 w \<Rightarrow> scast w | GInt16 w \<Rightarrow> scast w | GInt32 w \<Rightarrow> scast w | GInt64 w \<Rightarrow> w
   | _ \<Rightarrow> 0)"

definition handleUnsignedErrors :: "gerror \<Rightarrow> gval \<Rightarrow> 64 word res" where
  "handleUnsignedErrors e v =
     (if err_text e = ''unable to cast negative value'' then Ok (castSignedToUnsigned v)
      else if contains_str (err_text e) ''strconv.ParseUint'' then
        (case v of GString s \<Rightarrow>
            (case ParseInt64 s of None \<Rightarrow> Ok 0 | Some n \<Rightarrow> Ok (castSignedToUnsigned (GInt64 n)))
         | _ \<Rightarrow> Panic)
      else Ok 0)"

definition or_nil :: "gval res \<Rightarrow> gval res" where
  "or_nil r = (case r of Err _ \<Rightarrow> Ok GNil | _ \<Rightarrow> r)"

definition or_zero :: "gval \<Rightarrow> gval res \<Rightarrow> gval res" where
  "or_zero z r = (case r of Err _ \<Rightarrow> Ok z | _ \<Rightarrow> r)"

definition is_time_or_string :: "gval \<Rightarrow> bool" where
  "is_time_or_string v = (case v of GTime _ _ \<Rightarrow> True | GString _ \<Rightarrow> True | _ \<Rightarrow> False)"

text \<open>\<^verbatim>\<open>convertValue\<close> of \<^verbatim>\<open>sql/expression/convert.go\<close>.\<close>

definition convertValue :: "genv \<Rightarrow> gval \<Rightarrow> string \<Rightarrow> gval res" where
  "convertValue env v castTo =
     (if castTo = ''binary'' then or_nil (sql_convert env LongBlob v)
      else if castTo = ''char'' \<or> castTo = ''nchar'' then or_nil (sql_convert env LongText v)
      else if castTo = ''date'' then
        (if is_time_or_string v then or_nil (sql_convert env (OtherT DateO) v) else Ok GNil)
      else if castTo = ''datetime'' then
        (if is_time_or_string v then or_nil (sql_convert env (OtherT DatetimeO) v) else Ok GNil)
      else if castTo = ''decimal'' then
        or_zero (sql_zero env (OtherT (DecimalO 65 10))) (sql_convert env (OtherT (DecimalO 65 10)) v)
      else if castTo = ''double'' \<or> castTo = ''real'' then
        or_zero (GFloat64 0) (sql_convert env Float64 v)
      else if castTo = ''json'' then
        rbind (castString env v) (\<lambda>s. case jsonError env s of Some e \<Rightarrow> Err e | None \<Rightarrow> Ok (GBytes s))
      else if castTo = ''signed'' then or_zero (GInt64 0) (sql_convert env Int64 v)
      else if castTo = ''time'' then or_nil (sql_convert env (OtherT TimeO) v)
      else if castTo = ''unsigned'' then
        (case sql_convert env Uint64 v of
           Err e \<Rightarrow> rbind (handleUnsignedErrors e v) (\<lambda>w. Ok (GUint64 w))
         | r \<Rightarrow> r)
      else Ok GNil)"

definition Convert_Type :: "string \<Rightarrow> stype" where
  "Convert_Type castTo =
     (if castTo = ''binary'' then LongBlob
      else if castTo = ''char'' \<or> castTo = ''nchar'' then LongText
      else if castTo = ''date'' then OtherT DateO
      else if castTo = ''datetime'' then OtherT DatetimeO
      else if castTo = ''decimal'' then OtherT (DecimalO 65 10)
      else if castTo = ''double'' \<or> castTo = ''real'' then Float64
      else if castTo = ''json'' then OtherT JSONO
      else if castTo = ''signed'' then Int64
      else if castTo = ''time'' then OtherT TimeO
      else if castTo = ''unsigned'' then Uint64
      else NullT)"

section \<open>Static methods\<close>

definition arith_type :: "arith_op \<Rightarrow> stype \<Rightarrow> stype \<Rightarrow> stype" where
  "arith_type opr l r =
     (if opr \<in> {OpPlus, OpMinus, OpMult, OpDiv} then
        (if IsTime l \<and> IsTime r then Int64
         else if IsInteger l \<and> IsInteger r then
           (if IsUnsigned l \<and> IsUnsigned r then Uint64 else Int64)
         else Float64)
      else if opr \<in> {OpShiftLeft, OpShiftRight} then Uint64
      else if opr \<in> {OpBitAnd, OpBitOr, OpBitXor, OpIntDiv, OpMod} then
        (if IsUnsigned l \<and> IsUnsigned r then Uint64 else Int64)
      else Float64)"

definition Arithmetic_Type :: "arith_op \<Rightarrow> stype res \<Rightarrow> stype res \<Rightarrow> stype res" where
  "Arithmetic_Type opr rl rr = rbind rl (\<lambda>l. rbind rr (\<lambda>r. Ok (arith_type opr l r)))"

definition UnaryMinus_Type :: "stype res \<Rightarrow> stype res" where
  "UnaryMinus_Type rt = rbind rt (\<lambda>t. Ok (if \<not> IsNumber t then Float64
      else if t = NumberT Uint32T then NumberT Int32T
      else if t = NumberT Uint64T then NumberT Int64T
      else t))"

definition Case_Type :: "stype res list \<Rightarrow> stype res option \<Rightarrow> stype res" where
  "Case_Type ts els = foldr (\<lambda>rt d. rbind rt (\<lambda>t. if t \<noteq> NullT then Ok t else d)) ts
     (case els of None \<Rightarrow> Panic | Some t \<Rightarrow> t)"

definition Tuple_Type :: "stype res list \<Rightarrow> stype res" where
  "Tuple_Type rs = (case rs of [r] \<Rightarrow> r | _ \<Rightarrow> rbind (rmap id rs) (\<lambda>ts. Ok (TupleT ts)))"

text \<open>
  A \<^verbatim>\<open>Case\<close> whose branches all have type NULL and that has no ELSE panics: \<^verbatim>\<open>c.Else.Type()\<close> is a call on a
  nil interface. \<^verbatim>\<open>NewCoalesce\<close> refuses an empty argument list, so \<open>Coalesce []\<close> is not a tree of the program.
\<close>

fun etype :: "expr \<Rightarrow> stype res" where
  "etype (Literal v t) = Ok t"
| "etype (GetField i t tbl nm nl) = Ok t"
| "etype (GetSessionField nm t v) = Ok t"
| "etype (And l r) = Ok Boolean"
| "etype (Or l r) = Ok Boolean"
| "etype (Not e) = Ok Boolean"
| "etype (IsNull e) = Ok Boolean"
| "etype (IsTrue e neg) = Ok Boolean"
| "etype (Equals l r) = Ok Boolean"
| "etype (GreaterThan l r) = Ok Boolean"
| "etype (LessThan l r) = Ok Boolean"
| "etype (GreaterThanOrEqual l r) = Ok Boolean"
| "etype (LessThanOrEqual l r) = Ok Boolean"
| "etype (In l r) = Ok Boolean"
| "etype (NotIn l r) = Ok Boolean"
| "etype (Between v l u) = Ok Boolean"
| "etype (Case e bs els) = Case_Type (map (\<lambda>(c, v). etype v) bs) (map_option etype els)"
| "etype (Arithmetic l r opr) = Arithmetic_Type opr (etype l) (etype r)"
| "etype (UnaryMinus e) = UnaryMinus_Type (etype e)"
| "etype (Tuple es) = Tuple_Type (map etype es)"
| "etype (Alias e nm) = etype e"
| "etype (SetField l r) = etype l"
| "etype (Convert e castTo) = Ok (Convert_Type castTo)"
| "etype (Star tbl) = Panic"
| "etype (Coalesce es) = (case map etype es of [] \<Rightarrow> Panic | t # _ \<Rightarrow> t)"
| "etype (IfFn c t f) = etype t"
| "etype (IfNull l r) = rbind (etype l) (\<lambda>t. if t = NullT then etype r else Ok t)"
| "etype (NullIf l r) = etype l"
| "etype (OtherExpr i t nl) = Ok t"

text \<open>\<^verbatim>\<open>IsNullable\<close>; \<open>ror\<close> is Go's short-circuit \<^verbatim>\<open>||\<close>.\<close>

definition ror :: "bool res \<Rightarrow> bool res \<Rightarrow> bool res" where
  "ror a b = rbind a (\<lambda>x. if x then Ok True else b)"

definition Arithmetic_IsNullable :: "stype res \<Rightarrow> bool res \<Rightarrow> bool res \<Rightarrow> bool res" where
  "Arithmetic_IsNullable rt l r = rbind rt (\<lambda>t.
     if t = OtherT TimestampO \<or> t = OtherT DatetimeO then Ok True else ror l r)"

definition IfNull_IsNullable :: "stype res \<Rightarrow> stype res \<Rightarrow> bool res \<Rightarrow> bool res \<Rightarrow> bool res" where
  "IfNull_IsNullable lt rgt l r = rbind lt (\<lambda>t1. if t1 = NullT
     then rbind rgt (\<lambda>t2. if t2 = NullT then Ok True else r)
     else l)"

fun is_nullable :: "expr \<Rightarrow> bool res" where
  "is_nullable (Literal v t) = Ok (v = GNil)"
| "is_nullable (GetField i t tbl nm nl) = Ok nl"
| "is_nullable (GetSessionField nm t v) = Ok (v = GNil)"
| "is_nullable (And l r) = ror (is_nullable l) (is_nullable r)"
| "is_nullable (Or l r) = ror (is_nullable l) (is_nullable r)"
| "is_nullable (Not e) = is_nullable e"
| "is_nullable (IsNull e) = Ok False"
| "is_nullable (IsTrue e neg) = Ok False"
| "is_nullable (Equals l r) = ror (is_nullable l) (is_nullable r)"
| "is_nullable (GreaterThan l r) = ror (is_nullable l) (is_nullable r)"
| "is_nullable (LessThan l r) = ror (is_nullable l) (is_nullable r)"
| "is_nullable (GreaterThanOrEqual l r) = ror (is_nullable l) (is_nullable r)"
| "is_nullable (LessThanOrEqual l r) = ror (is_nullable l) (is_nullable r)"
| "is_nullable (In l r) = ror (is_nullable l) (is_nullable r)"
| "is_nullable (NotIn l r) = ror (is_nullable l) (is_nullable r)"
| "is_nullable (Between v l u) = ror (is_nullable v) (ror (is_nullable l) (is_nullable u))"
| "is_nullable (Case e bs els) = foldr ror (map (\<lambda>(c, v). is_nullable v) bs)
     (case map_option is_nullable els of None \<Rightarrow> Ok True | Some b \<Rightarrow> b)"
| "is_nullable (Arithmetic l r opr) =
     Arithmetic_IsNullable (etype (Arithmetic l r opr)) (is_nullable l) (is_nullable r)"
| "is_nullable (UnaryMinus e) = is_nullable e"
| "is_nullable (Tuple es) = (case map is_nullable es of [b] \<Rightarrow> b | _ \<Rightarrow> Ok False)"
| "is_nullable (Alias e nm) = is_nullable e"
| "is_nullable (SetField l r) = ror (is_nullable l) (is_nullable r)"
| "is_nullable (Convert e castTo) =
     (if castTo = ''date'' \<or> castTo = ''datetime'' then Ok True else is_nullable e)"
| "is_nullable (Star tbl) = Panic"
| "is_nullable (Coalesce es) = (case map is_nullable es of [] \<Rightarrow> Ok True | b # _ \<Rightarrow> b)"
| "is_nullable (IfFn c t f) = is_nullable t"
| "is_nullable (IfNull l r) = IfNull_IsNullable (etype l) (etype r) (is_nullable l) (is_nullable r)"
| "is_nullable (NullIf l r) = Ok True"
| "is_nullable (OtherExpr i t nl) = Ok nl"

fun branch_exprs :: "(expr \<times> expr) list \<Rightarrow> expr list" where
  "branch_exprs [] = []"
| "branch_exprs ((c, v) # bs) = c # v # branch_exprs bs"

fun children :: "expr \<Rightarrow> expr list" where
  "children (And l r) = [l, r]"
| "children (Or l r) = [l, r]"
| "children (Not e) = [e]"
| "children (IsNull e) = [e]"
| "children (IsTrue e neg) = [e]"
| "children (Equals l r) = [l, r]"
| "children (GreaterThan l r) = [l, r]"
| "children (LessThan l r) = [l, r]"
| "children (GreaterThanOrEqual l r) = [l, r]"
| "children (LessThanOrEqual l r) = [l, r]"
| "children (In l r) = [l, r]"
| "children (NotIn l r) = [l, r]"
| "children (Between v l u) = [v, l, u]"
| "children (Case e bs els) =
     (case e of None \<Rightarrow> [] | Some x \<Rightarrow> [x]) @ branch_exprs bs @ (case els of None \<Rightarrow> [] | Some x \<Rightarrow> [x])"
| "children (Arithmetic l r opr) = [l, r]"
| "children (UnaryMinus e) = [e]"
| "children (Tuple es) = es"
| "children (Alias e nm) = [e]"
| "children (SetField l r) = [l, r]"
| "children (Convert e castTo) = [e]"
| "children (Coalesce es) = es"
| "children (IfFn c t f) = [c, t, f]"
| "children (IfNull l r) = [l, r]"
| "children (NullIf l r) = [l, r]"
| "children (Literal v t) = []"
| "children (GetField i t tbl nm nl) = []"
| "children (GetSessionField nm t v) = []"
| "children (Star tbl) = []"
| "children (OtherExpr i t nl) = []"

fun pair_up :: "'a list \<Rightarrow> ('a \<times> 'a) list" where
  "pair_up (x # y # zs) = (x, y) # pair_up zs"
| "pair_up _ = []"

definition children_number :: "nat \<Rightarrow> expr list \<Rightarrow> expr \<Rightarrow> expr res" where
  "children_number n cs e =
     (if length cs \<noteq> n then Err (SqlErr (ErrInvalidChildrenNumber (length cs) n)) else Ok e)"

text \<open>\<^verbatim>\<open>WithChildren\<close>: the same node over new children, or an error when their number is wrong.\<close>

definition with_children :: "expr \<Rightarrow> expr list \<Rightarrow> expr res" where
  "with_children e cs =
     (case e of
        And l r \<Rightarrow> children_number 2 cs (And (cs ! 0) (cs ! 1))
      | Or l r \<Rightarrow> children_number 2 cs (Or (cs ! 0) (cs ! 1))
      | Not x \<Rightarrow> children_number 1 cs (Not (cs ! 0))
      | IsNull x \<Rightarrow> children_number 1 cs (IsNull (cs ! 0))
      | IsTrue x neg \<Rightarrow>
          (if length cs \<noteq> 1 then Err (ErrOther ''incorrect number of children'')
           else Ok (IsTrue (cs ! 0) neg))
      | Equals l r \<Rightarrow> children_number 2 cs (Equals (cs ! 0) (cs ! 1))
      | GreaterThan l r \<Rightarrow> children_number 2 cs (GreaterThan (cs ! 0) (cs ! 1))
      | LessThan l r \<Rightarrow> children_number 2 cs (LessThan (cs ! 0) (cs ! 1))
      | GreaterThanOrEqual l r \<Rightarrow> children_number 2 cs (GreaterThanOrEqual (cs ! 0) (cs ! 1))
      | LessThanOrEqual l r \<Rightarrow> children_number 2 cs (LessThanOrEqual (cs ! 0) (cs ! 1))
      | In l r \<Rightarrow> children_number 2 cs (In (cs ! 0) (cs ! 1))
      | NotIn l r \<Rightarrow> children_number 2 cs (NotIn (cs ! 0) (cs ! 1))
      | Between v l u \<Rightarrow> children_number 3 cs (Between (cs ! 0) (cs ! 1) (cs ! 2))
      | Case x bs els \<Rightarrow>
          (let expected = 2 * length bs + (if x = None then 0 else 1) + (if els = None then 0 else 1) in
           if length cs \<noteq> expected
           then Err (SqlErr (ErrInvalidChildrenNumber (length cs) expected))
           else let cs1 = (if x = None then cs else drop 1 cs);
                    cs2 = (if els = None then cs1 else butlast cs1)
             in Ok (Case (if x = None then None else Some (hd cs)) (pair_up cs2)
                         (if els = None then None else Some (last cs1))))
      | Arithmetic l r opr \<Rightarrow> children_number 2 cs (Arithmetic (cs ! 0) (cs ! 1) opr)
      | UnaryMinus x \<Rightarrow> children_number 1 cs (UnaryMinus (cs ! 0))
      | Tuple es \<Rightarrow> children_number (length es) cs (Tuple cs)
      | Alias x nm \<Rightarrow> children_number 1 cs (Alias (cs ! 0) nm)
      | SetField l r \<Rightarrow> children_number 2 cs (SetField (cs ! 0) (cs ! 1))
      | Convert x castTo \<Rightarrow> children_number 1 cs (Convert (cs ! 0) castTo)
      | Coalesce es \<Rightarrow>
          (if cs = [] then Err (RegErr (ErrInvalidArgumentNumber ''COALESCE'' 1 0)) else Ok (Coalesce cs))
      | IfFn c t f \<Rightarrow> children_number 3 cs (IfFn (cs ! 0) (cs ! 1) (cs ! 2))
      | IfNull l r \<Rightarrow> children_number 2 cs (IfNull (cs ! 0) (cs ! 1))
      | NullIf l r \<Rightarrow> children_number 2 cs (NullIf (cs ! 0) (cs ! 1))
      | _ \<Rightarrow> children_number 0 cs e)"

lemma branch_exprs_size:
  "x \<in> set (branch_exprs bs) \<Longrightarrow> size x < Suc (size_list (size_prod size size) bs)"
  by (induction bs rule: branch_exprs.induct) (auto simp: less_Suc_eq_le)

lemma mem_size: "x \<in> set xs \<Longrightarrow> size x < Suc (size_list size xs)"
  by (simp add: less_Suc_eq_le size_list_estimation')

lemma children_size: "c \<in> set (children e) \<Longrightarrow> size c < size e"
  by (cases e) (auto split: option.splits dest!: branch_exprs_size intro: mem_size)

text \<open>
  \<^verbatim>\<open>sql.Inspect\<close> with a visitor that never stops visits the nodes in depth-first order; a visitor that
  answers false prunes the subtree.
\<close>

function inspect :: "(expr \<Rightarrow> bool) \<Rightarrow> expr \<Rightarrow> expr list" where
  "inspect f e = e # (if f e then concat (map (inspect f) (children e)) else [])"
  by pat_completeness auto
termination
  by (relation "measure (\<lambda>(f, e). size e)") (auto simp: children_size)

text \<open>\<^verbatim>\<open>expression.TransformUp\<close>.\<close>

function transform_up :: "(expr \<Rightarrow> expr res) \<Rightarrow> expr \<Rightarrow> expr res" where
  "transform_up f e =
     (if children e = [] then f e
      else rbind (rmap (transform_up f) (children e)) (\<lambda>cs. rbind (with_children e cs) f))"
  by pat_completeness auto
termination
  by (relation "measure (\<lambda>(f, e). size e)") (auto simp: children_size)

declare inspect.simps [simp del] transform_up.simps [simp del]

section \<open>Comparison\<close>

text \<open>
  Go's \<^verbatim>\<open>==\<close> on two \<^verbatim>\<open>sql.Type\<close> values: a tuple type is a slice, and comparing two slices is a run-time
  panic. Other types of the same kind and parameters are taken to be the same object.
\<close>

definition type_eq :: "stype \<Rightarrow> stype \<Rightarrow> bool res" where
  "type_eq t1 t2 = (case (t1, t2) of (TupleT _, TupleT _) \<Rightarrow> Panic | _ \<Rightarrow> Ok (t1 = t2))"

definition convertLeftAndRight :: "genv \<Rightarrow> gval \<Rightarrow> gval \<Rightarrow> string \<Rightarrow> (gval \<times> gval) res" where
  "convertLeftAndRight env l r castTo = rbind (convertValue env l castTo) (\<lambda>l'.
     rbind (convertValue env r castTo) (\<lambda>r'. Ok (l', r')))"

text \<open>\<^verbatim>\<open>castLeftAndRight\<close> also returns the \<^verbatim>\<open>compareType\<close> it stores in the node.\<close>

definition castLeftAndRight :: "genv \<Rightarrow> stype \<Rightarrow> stype \<Rightarrow> gval \<Rightarrow> gval \<Rightarrow> (stype \<times> gval \<times> gval) res" where
  "castLeftAndRight env t1 t2 l r =
     (if IsNumber t1 \<or> IsNumber t2 then
        (if IsFloat t1 \<or> IsFloat t2
         then rbind (convertLeftAndRight env l r ''double'') (\<lambda>p. Ok (Float64, p))
         else if IsSigned t1 \<or> IsSigned t2
         then rbind (convertLeftAndRight env l r ''signed'') (\<lambda>p. Ok (Int64, p))
         else rbind (convertLeftAndRight env l r ''unsigned'') (\<lambda>p. Ok (Uint64, p)))
      else rbind (convertLeftAndRight env l r ''char'') (\<lambda>p. Ok (LongText, p)))"

text \<open>
  \<^verbatim>\<open>comparison.Compare\<close>: the left type decides when the types are the same, otherwise both values are
  cast to a common type first.
\<close>

definition compare_values :: "genv \<Rightarrow> stype \<Rightarrow> stype \<Rightarrow> gval \<Rightarrow> gval \<Rightarrow> int res" where
  "compare_values env t1 t2 l r = rbind (type_eq t1 t2) (\<lambda>same.
     if same then sql_compare env t1 l r
     else rbind (castLeftAndRight env t1 t2 l r) (\<lambda>(t, l', r'). sql_compare env t l' r'))"

definition comparison_Compare ::
  "genv \<Rightarrow> stype res \<Rightarrow> stype res \<Rightarrow> gval res \<Rightarrow> gval res \<Rightarrow> int res" where
  "comparison_Compare env lt rgt lv rv = rbind lv (\<lambda>l. rbind rv (\<lambda>r.
     if l = GNil \<or> r = GNil then Err (ExprErr ErrNilOperand)
     else rbind lt (\<lambda>t1. rbind rgt (\<lambda>t2. compare_values env t1 t2 l r))))"

text \<open>The common shape of the comparison operators' \<^verbatim>\<open>Eval\<close>: NULL for a NULL operand.\<close>

definition compare_result :: "(int \<Rightarrow> bool) \<Rightarrow> int res \<Rightarrow> gval res" where
  "compare_result p r = (case r of
     Ok c \<Rightarrow> Ok (GBool (p c))
   | Err e \<Rightarrow> if e = ExprErr ErrNilOperand then Ok GNil else Err e
   | Panic \<Rightarrow> Panic)"

type_synonym comparison_eval = "genv \<Rightarrow> stype res \<Rightarrow> stype res \<Rightarrow> gval res \<Rightarrow> gval res \<Rightarrow> gval res"

definition Equals_Eval :: comparison_eval where
  "Equals_Eval env t1 t2 lv rv = compare_result (\<lambda>c. c = 0) (comparison_Compare env t1 t2 lv rv)"

definition GreaterThan_Eval :: comparison_eval where
  "GreaterThan_Eval env t1 t2 lv rv = compare_result (\<lambda>c. c = 1) (comparison_Compare env t1 t2 lv rv)"

definition LessThan_Eval :: comparison_eval where
  "LessThan_Eval env t1 t2 lv rv = compare_result (\<lambda>c. c = -1) (comparison_Compare env t1 t2 lv rv)"

definition GreaterThanOrEqual_Eval :: comparison_eval where
  "GreaterThanOrEqual_Eval env t1 t2 lv rv =
     compare_result (\<lambda>c. c > -1) (comparison_Compare env t1 t2 lv rv)"

definition LessThanOrEqual_Eval :: comparison_eval where
  "LessThanOrEqual_Eval env t1 t2 lv rv =
     compare_result (\<lambda>c. c < 1) (comparison_Compare env t1 t2 lv rv)"

text \<open>
  \<^verbatim>\<open>In.Eval\<close> and \<^verbatim>\<open>NotIn.Eval\<close>. The right operand is the list of its elements' types and values when it is a
  \<^verbatim>\<open>Tuple\<close>; a \<^verbatim>\<open>Subquery\<close> operand is not modelled.
\<close>

fun in_columns :: "nat \<Rightarrow> stype res list \<Rightarrow> unit res" where
  "in_columns n [] = Ok ()"
| "in_columns n (rt # rts) = rbind rt (\<lambda>t.
     if NumColumns t \<noteq> n then Err (ExprErr (ErrInvalidOperandColumns n (NumColumns t)))
     else in_columns n rts)"

fun in_loop :: "genv \<Rightarrow> stype \<Rightarrow> gval \<Rightarrow> gval res list \<Rightarrow> bool res" where
  "in_loop env t v [] = Ok False"
| "in_loop env t v (rw # rws) = rbind rw (\<lambda>w0. rbind (sql_convert env t w0) (\<lambda>w.
     rbind (sql_compare env t v w) (\<lambda>c. if c = 0 then Ok True else in_loop env t v rws)))"

definition In_Eval :: "genv \<Rightarrow> stype res \<Rightarrow> gval res \<Rightarrow> (stype res \<times> gval res) list option \<Rightarrow> gval res" where
  "In_Eval env rt lv els = rbind rt (\<lambda>t0. rbind (sql_promote env t0) (\<lambda>t.
     rbind lv (\<lambda>v0. if v0 = GNil then Ok GNil
       else rbind (sql_convert env t v0) (\<lambda>v.
         case els of
           Some rs \<Rightarrow> rbind (in_columns (NumColumns t) (map fst rs)) (\<lambda>_.
             rbind (in_loop env t v (map snd rs)) (\<lambda>found. Ok (GBool found)))
         | None \<Rightarrow> Err (ExprErr ErrUnsupportedInOperand)))))"

definition NotIn_Eval :: "genv \<Rightarrow> stype res \<Rightarrow> gval res \<Rightarrow> (stype res \<times> gval res) list option \<Rightarrow> gval res" where
  "NotIn_Eval env rt lv els = rbind rt (\<lambda>t0. rbind (sql_promote env t0) (\<lambda>t.
     rbind lv (\<lambda>v0. if v0 = GNil then Ok GNil
       else rbind (sql_convert env t v0) (\<lambda>v.
         case els of
           Some rs \<Rightarrow> rbind (in_columns (NumColumns t) (map fst rs)) (\<lambda>_.
             rbind (in_loop env t v (map snd rs)) (\<lambda>found. Ok (GBool (\<not> found))))
         | None \<Rightarrow> Err (ExprErr ErrUnsupportedInOperand)))))"

definition Between_Eval :: "genv \<Rightarrow> stype res \<Rightarrow> gval res \<Rightarrow> gval res \<Rightarrow> gval res \<Rightarrow> gval res" where
  "Between_Eval env rt xv lv uv = rbind rt (\<lambda>t0. rbind (sql_promote env t0) (\<lambda>t.
     rbind xv (\<lambda>x0. if x0 = GNil then Ok GNil else rbind (sql_convert env t x0) (\<lambda>x.
     rbind lv (\<lambda>l0. if l0 = GNil then Ok GNil else rbind (sql_convert env t l0) (\<lambda>l.
     rbind uv (\<lambda>u0. if u0 = GNil then Ok GNil else rbind (sql_convert env t u0) (\<lambda>u.
     rbind (sql_compare env t x l) (\<lambda>cl. rbind (sql_compare env t x u) (\<lambda>cu.
       Ok (GBool (0 \<le> cl \<and> cu \<le> 0))))))))))))"

section \<open>Arithmetic\<close>

definition trunc_div :: "int \<Rightarrow> int \<Rightarrow> int" where
  "trunc_div a b = sgn a * sgn b * (\<bar>a\<bar> div \<bar>b\<bar>)"

definition int64_div :: "64 word \<Rightarrow> 64 word \<Rightarrow> 64 word" where
  "int64_div a b = word_of_int (trunc_div (sint a) (sint b))"

definition int64_mod :: "64 word \<Rightarrow> 64 word \<Rightarrow> 64 word" where
  "int64_mod a b = word_of_int (sint a - sint b * trunc_div (sint a) (sint b))"

definition unix_sec :: "int \<Rightarrow> 64 word" where
  "unix_sec ns = word_of_int (ns div 1000000000)"

text \<open>
  The operators of \<^verbatim>\<open>sql/expression/arithmetic.go\<close> on converted operands. Integer division by zero is a
  run-time panic.
\<close>

definition binop :: "(64 word \<Rightarrow> 64 word \<Rightarrow> gval res) \<Rightarrow> (64 word \<Rightarrow> 64 word \<Rightarrow> gval res) \<Rightarrow>
    (64 word \<Rightarrow> 64 word \<Rightarrow> gval res) \<Rightarrow> (int \<Rightarrow> int \<Rightarrow> gval res) \<Rightarrow> gval \<Rightarrow> gval \<Rightarrow> gval res" where
  "binop u i f t l r =
     (let bad = Err (ExprErr ErrUnableToCast) in case l of
        GUint64 a \<Rightarrow> (case r of GUint64 b \<Rightarrow> u a b | _ \<Rightarrow> bad)
      | GInt64 a \<Rightarrow> (case r of GInt64 b \<Rightarrow> i a b | _ \<Rightarrow> bad)
      | GFloat64 a \<Rightarrow> (case r of GFloat64 b \<Rightarrow> f a b | _ \<Rightarrow> bad)
      | GTime a _ \<Rightarrow> (case r of GTime b _ \<Rightarrow> t a b | _ \<Rightarrow> bad)
      | _ \<Rightarrow> bad)"

abbreviation bad_types :: "'a \<Rightarrow> 'a \<Rightarrow> gval res" where
  "bad_types \<equiv> \<lambda>_ _. Err (ExprErr ErrUnableToCast)"

definition plus_op :: "gval \<Rightarrow> gval \<Rightarrow> gval res" where
  "plus_op = binop (\<lambda>a b. Ok (GUint64 (a + b))) (\<lambda>a b. Ok (GInt64 (a + b)))
     (\<lambda>a b. Ok (GFloat64 (f64_add a b))) (\<lambda>a b. Ok (GInt64 (unix_sec a + unix_sec b)))"

definition minus_op :: "gval \<Rightarrow> gval \<Rightarrow> gval res" where
  "minus_op = binop (\<lambda>a b. Ok (GUint64 (a - b))) (\<lambda>a b. Ok (GInt64 (a - b)))
     (\<lambda>a b. Ok (GFloat64 (f64_sub a b))) (\<lambda>a b. Ok (GInt64 (unix_sec a - unix_sec b)))"

definition mult_op :: "gval \<Rightarrow> gval \<Rightarrow> gval res" where
  "mult_op = binop (\<lambda>a b. Ok (GUint64 (a * b))) (\<lambda>a b. Ok (GInt64 (a * b)))
     (\<lambda>a b. Ok (GFloat64 (f64_mul a b))) bad_types"

definition div_op :: "gval \<Rightarrow> gval \<Rightarrow> gval res" where
  "div_op = binop (\<lambda>a b. if b = 0 then Panic else Ok (GUint64 (a div b)))
     (\<lambda>a b. if b = 0 then Panic else Ok (GInt64 (int64_div a b)))
     (\<lambda>a b. Ok (GFloat64 (f64_div a b))) bad_types"

definition bitAnd_op :: "gval \<Rightarrow> gval \<Rightarrow> gval res" where
  "bitAnd_op = binop (\<lambda>a b. Ok (GUint64 (a AND b))) (\<lambda>a b. Ok (GInt64 (a AND b))) bad_types bad_types"

definition bitOr_op :: "gval \<Rightarrow> gval \<Rightarrow> gval res" where
  "bitOr_op = binop (\<lambda>a b. Ok (GUint64 (a OR b))) (\<lambda>a b. Ok (GInt64 (a OR b))) bad_types bad_types"

definition bitXor_op :: "gval \<Rightarrow> gval \<Rightarrow> gval res" where
  "bitXor_op = binop (\<lambda>a b. Ok (GUint64 (a XOR b))) (\<lambda>a b. Ok (GInt64 (a XOR b))) bad_types bad_types"

definition shiftLeft_op :: "gval \<Rightarrow> gval \<Rightarrow> gval res" where
  "shiftLeft_op = binop (\<lambda>a b. Ok (GUint64 (if uint b < 64 then push_bit (unat b) a else 0)))
     bad_types bad_types bad_types"

definition shiftRight_op :: "gval \<Rightarrow> gval \<Rightarrow> gval res" where
  "shiftRight_op = binop (\<lambda>a b. Ok (GUint64 (if uint b < 64 then drop_bit (unat b) a else 0)))
     bad_types bad_types bad_types"

definition intDiv_op :: "gval \<Rightarrow> gval \<Rightarrow> gval res" where
  "intDiv_op = binop (\<lambda>a b. if b = 0 then Panic else Ok (GUint64 (a div b)))
     (\<lambda>a b. if b = 0 then Panic else Ok (GInt64 (int64_div a b))) bad_types bad_types"

definition mod_op :: "gval \<Rightarrow> gval \<Rightarrow> gval res" where
  "mod_op = binop (\<lambda>a b. if b = 0 then Panic else Ok (GUint64 (a mod b)))
     (\<lambda>a b. if b = 0 then Panic else Ok (GInt64 (int64_mod a b))) bad_types bad_types"

definition apply_op :: "arith_op \<Rightarrow> gval \<Rightarrow> gval \<Rightarrow> gval res" where
  "apply_op opr l r = (case opr of
     OpPlus \<Rightarrow> plus_op l r | OpMinus \<Rightarrow> minus_op l r | OpMult \<Rightarrow> mult_op l r | OpDiv \<Rightarrow> div_op l r
   | OpBitAnd \<Rightarrow> bitAnd_op l r | OpBitOr \<Rightarrow> bitOr_op l r | OpBitXor \<Rightarrow> bitXor_op l r
   | OpShiftLeft \<Rightarrow> shiftLeft_op l r | OpShiftRight \<Rightarrow> shiftRight_op l r
   | OpIntDiv \<Rightarrow> intDiv_op l r | OpMod \<Rightarrow> mod_op l r
   | OpUnknown _ \<Rightarrow> Err (ExprErr ErrUnableToEval))"

text \<open>\<^verbatim>\<open>Arithmetic.Eval\<close>: NULL propagates, then both operands are converted to the result type.\<close>

definition convertLeftRight :: "genv \<Rightarrow> stype \<Rightarrow> gval \<Rightarrow> gval \<Rightarrow> (gval \<times> gval) res" where
  "convertLeftRight env t l r = rbind (sql_convert env t l) (\<lambda>l'. rbind (sql_convert env t r) (\<lambda>r'. Ok (l', r')))"

definition Arithmetic_Eval :: "genv \<Rightarrow> arith_op \<Rightarrow> stype res \<Rightarrow> gval res \<Rightarrow> gval res \<Rightarrow> gval res" where
  "Arithmetic_Eval env opr rt lv rv = rbind lv (\<lambda>l. rbind rv (\<lambda>r.
     if l = GNil \<or> r = GNil then Ok GNil
     else rbind rt (\<lambda>t. rbind (convertLeftRight env t l r) (\<lambda>(l', r'). apply_op opr l' r'))))"

definition negate_value :: "gval \<Rightarrow> gval res" where
  "negate_value v = (case v of
     GFloat64 w \<Rightarrow> Ok (GFloat64 (f64_neg w))
   | GFloat32 w \<Rightarrow> Ok (GFloat32 (flip_bit 31 w))
   | GInt w \<Rightarrow> Ok (GInt (- w)) | GInt8 w \<Rightarrow> Ok (GInt8 (- w)) | GInt16 w \<Rightarrow> Ok (GInt16 (- w))
   | GInt32 w \<Rightarrow> Ok (GInt32 (- w)) | GInt64 w \<Rightarrow> Ok (GInt64 (- w))
   | GUint w \<Rightarrow> Ok (GInt (- w)) | GUint8 w \<Rightarrow> Ok (GInt8 (- w)) | GUint16 w \<Rightarrow> Ok (GInt16 (- w))
   | GUint32 w \<Rightarrow> Ok (GInt32 (- w)) | GUint64 w \<Rightarrow> Ok (GInt64 (- w))
   | _ \<Rightarrow> Err (SqlErr ErrInvalidType))"

definition UnaryMinus_Eval :: "genv \<Rightarrow> stype res \<Rightarrow> gval res \<Rightarrow> gval res" where
  "UnaryMinus_Eval env rt cv = rbind cv (\<lambda>v.
     if v = GNil then Ok GNil
     else rbind rt (\<lambda>t.
       rbind (if IsNumber t then Ok v else or_zero (GFloat64 0) (sql_convert env Float64 v)) negate_value))"

section \<open>Evaluation\<close>

text \<open>\<^verbatim>\<open>err == nil && b == want\<close> after \<^verbatim>\<open>ConvertToBool\<close> of a value that is not NULL.\<close>

definition truth_is :: "bool \<Rightarrow> gval \<Rightarrow> bool" where
  "truth_is want v = (v \<noteq> GNil \<and> ConvertToBool v = Ok want)"

definition And_Eval :: "gval res \<Rightarrow> gval res \<Rightarrow> gval res" where
  "And_Eval lv rv = rbind lv (\<lambda>lval.
     if truth_is False lval then Ok (GBool False)
     else rbind rv (\<lambda>rval.
       if truth_is False rval then Ok (GBool False)
       else if lval = GNil \<or> rval = GNil then Ok GNil
       else Ok (GBool True)))"

definition Or_Eval :: "gval res \<Rightarrow> gval res \<Rightarrow> gval res" where
  "Or_Eval lv rv = rbind lv (\<lambda>lval.
     if truth_is True lval then Ok (GBool True)
     else if lval = GBool True then Ok (GBool True)
     else rbind rv (\<lambda>rval.
       if truth_is True rval then Ok (GBool True)
       else if lval = GNil \<and> rval = GNil then Ok GNil
       else Ok (GBool (rval = GBool True))))"

definition Not_Eval :: "gval res \<Rightarrow> gval res" where
  "Not_Eval cv = rbind cv (\<lambda>v. if v = GNil then Ok GNil
     else case v of GBool b \<Rightarrow> Ok (GBool (\<not> b))
       | _ \<Rightarrow> rbind (ConvertToBool v) (\<lambda>b. Ok (GBool (\<not> b))))"

definition IsNull_Eval :: "gval res \<Rightarrow> gval res" where
  "IsNull_Eval cv = rbind cv (\<lambda>v. Ok (GBool (v = GNil)))"

definition IsTrue_Eval :: "bool \<Rightarrow> gval res \<Rightarrow> gval res" where
  "IsTrue_Eval invert cv = rbind cv (\<lambda>v. if v = GNil then Ok (GBool False)
     else rbind (ConvertToBool v) (\<lambda>b. Ok (GBool (if invert then \<not> b else b))))"

definition GetField_Eval :: "int \<Rightarrow> row \<Rightarrow> gval res" where
  "GetField_Eval i r =
     (if i < 0 \<or> int (length r) \<le> i then Err (ExprErr (ErrIndexOutOfBounds i (length r)))
      else Ok (r ! nat i))"

definition Tuple_Eval :: "gval res list \<Rightarrow> gval res" where
  "Tuple_Eval rs = (case rs of [r] \<Rightarrow> r | _ \<Rightarrow> rbind (rmap id rs) (\<lambda>vs. Ok (GSlice vs)))"

text \<open>\<^verbatim>\<open>SetField.Eval\<close> returns the whole updated row.\<close>

definition set_field_target :: "expr \<Rightarrow> (int \<times> stype) option" where
  "set_field_target l = (case l of
     Convert (GetField i t _ _ _) _ \<Rightarrow> Some (i, t)
   | GetField i t _ _ _ \<Rightarrow> Some (i, t)
   | _ \<Rightarrow> None)"

definition SetField_Eval :: "genv \<Rightarrow> expr \<Rightarrow> gval res \<Rightarrow> row \<Rightarrow> gval res" where
  "SetField_Eval env l rv r =
     (case set_field_target l of
        None \<Rightarrow> Err (ExprErr ErrCannotSetField)
      | Some (i, t) \<Rightarrow>
          if i < 0 \<or> int (length r) \<le> i then Err (ExprErr (ErrIndexOutOfBounds i (length r)))
          else rbind rv (\<lambda>v0.
            rbind (if v0 = GNil then Ok GNil else sql_convert env t v0) (\<lambda>v.
              Ok (GRow (r[nat i := v])))))"

definition Convert_Eval :: "genv \<Rightarrow> string \<Rightarrow> gval res \<Rightarrow> gval res" where
  "Convert_Eval env castTo cv = rbind cv (\<lambda>v.
     if v = GNil then Ok GNil
     else case convertValue env v castTo of Err er \<Rightarrow> Err (ErrConvertExpression er) | x \<Rightarrow> x)"

text \<open>
  \<^verbatim>\<open>Case.Eval\<close>: with an operand that is not NULL each branch condition is compared with it by a fresh
  \<^verbatim>\<open>Equals\<close> node; \<open>brs\<close> holds the type and value of the condition and the value of the result of each branch.
\<close>

fun case_branches ::
  "genv \<Rightarrow> gval \<Rightarrow> stype res \<Rightarrow> (stype res \<times> gval res \<times> gval res) list \<Rightarrow> gval res \<Rightarrow> gval res" where
  "case_branches env v tv [] els = els"
| "case_branches env v tv ((tc, cv, xv) # brs) els =
     rbind (if v \<noteq> GNil then Equals_Eval env tv tc (Ok v) cv else cv) (\<lambda>q.
       if condition_value q then xv else case_branches env v tv brs els)"

definition Case_Eval ::
  "genv \<Rightarrow> (stype res \<times> gval res) option \<Rightarrow> (stype res \<times> gval res \<times> gval res) list \<Rightarrow> gval res option \<Rightarrow> gval res"
where
  "Case_Eval env e brs els =
     rbind (case e of None \<Rightarrow> Ok GNil | Some (t, v) \<Rightarrow> v) (\<lambda>v.
       case_branches env v (case e of None \<Rightarrow> Panic | Some (t, _) \<Rightarrow> t) brs
         (case els of None \<Rightarrow> Ok GNil | Some w \<Rightarrow> w))"

fun Coalesce_Eval :: "gval res list \<Rightarrow> gval res" where
  "Coalesce_Eval [] = Ok GNil"
| "Coalesce_Eval (r # rs) = rbind r (\<lambda>v. if v = GNil then Coalesce_Eval rs else Ok v)"

definition If_Eval :: "gval res \<Rightarrow> gval res \<Rightarrow> gval res \<Rightarrow> gval res" where
  "If_Eval cv tv fv = rbind cv (\<lambda>v.
     rbind (if v = GNil then Ok False else ConvertToBool v) (\<lambda>b. if b then tv else fv))"

definition IfNull_Eval :: "gval res \<Rightarrow> gval res \<Rightarrow> gval res" where
  "IfNull_Eval lv rv = rbind lv (\<lambda>v. if v \<noteq> GNil then Ok v else rv)"

text \<open>The value \<^verbatim>\<open>sql.Null\<close>, the type object that \<^verbatim>\<open>NullIf\<close> returns.\<close>

definition sql_Null_object :: gval where
  "sql_Null_object = GOther 0 0"

definition NullIf_Eval :: comparison_eval where
  "NullIf_Eval env lt rgt lv rv = rbind lt (\<lambda>t1.
     rbind (if t1 = NullT then rbind rgt (\<lambda>t2. Ok (t2 = NullT)) else Ok False) (\<lambda>both.
       if both then Ok sql_Null_object
       else rbind (Equals_Eval env lt rgt lv rv) (\<lambda>q.
         if q = GBool True then Ok sql_Null_object else lv)))"

fun eval :: "genv \<Rightarrow> expr \<Rightarrow> row \<Rightarrow> gval res" where
  "eval env (Literal v t) row = Ok v"
| "eval env (GetField i t tbl nm nl) row = GetField_Eval i row"
| "eval env (GetSessionField nm t v) row = Ok v"
| "eval env (And l r) row = And_Eval (eval env l row) (eval env r row)"
| "eval env (Or l r) row = Or_Eval (eval env l row) (eval env r row)"
| "eval env (Not e) row = Not_Eval (eval env e row)"
| "eval env (IsNull e) row = IsNull_Eval (eval env e row)"
| "eval env (IsTrue e invert) row = IsTrue_Eval invert (eval env e row)"
| "eval env (Equals l r) row = Equals_Eval env (etype l) (etype r) (eval env l row) (eval env r row)"
| "eval env (GreaterThan l r) row =
     GreaterThan_Eval env (etype l) (etype r) (eval env l row) (eval env r row)"
| "eval env (LessThan l r) row = LessThan_Eval env (etype l) (etype r) (eval env l row) (eval env r row)"
| "eval env (GreaterThanOrEqual l r) row =
     GreaterThanOrEqual_Eval env (etype l) (etype r) (eval env l row) (eval env r row)"
| "eval env (LessThanOrEqual l r) row =
     LessThanOrEqual_Eval env (etype l) (etype r) (eval env l row) (eval env r row)"
| "eval env (In l r) row = In_Eval env (etype l) (eval env l row)
     (case r of Tuple es \<Rightarrow> Some (map (\<lambda>e. (etype e, eval env e row)) es) | _ \<Rightarrow> None)"
| "eval env (NotIn l r) row = NotIn_Eval env (etype l) (eval env l row)
     (case r of Tuple es \<Rightarrow> Some (map (\<lambda>e. (etype e, eval env e row)) es) | _ \<Rightarrow> None)"
| "eval env (Between x lo hi) row =
     Between_Eval env (etype x) (eval env x row) (eval env lo row) (eval env hi row)"
| "eval env (Case e bs els) row =
     Case_Eval env (map_option (\<lambda>x. (etype x, eval env x row)) e)
       (map (\<lambda>(c, x). (etype c, eval env c row, eval env x row)) bs)
       (map_option (\<lambda>x. eval env x row) els)"
| "eval env (Arithmetic l r opr) row =
     Arithmetic_Eval env opr (etype (Arithmetic l r opr)) (eval env l row) (eval env r row)"
| "eval env (UnaryMinus e) row = UnaryMinus_Eval env (etype e) (eval env e row)"
| "eval env (Tuple es) row = Tuple_Eval (map (\<lambda>e. eval env e row) es)"
| "eval env (Alias e nm) row = eval env e row"
| "eval env (SetField l r) row = SetField_Eval env l (eval env r row) row"
| "eval env (Convert e castTo) row = Convert_Eval env castTo (eval env e row)"
| "eval env (Star tbl) row = Panic"
| "eval env (Coalesce es) row = Coalesce_Eval (map (\<lambda>e. eval env e row) es)"
| "eval env (IfFn c t f) row = If_Eval (eval env c row) (eval env t row) (eval env f row)"
| "eval env (IfNull l r) row = IfNull_Eval (eval env l row) (eval env r row)"
| "eval env (NullIf l r) row = NullIf_Eval env (etype l) (etype r) (eval env l row) (eval env r row)"
| "eval env (OtherExpr i t nl) row = othEval env i row"

text \<open>\<^verbatim>\<open>sql.EvaluateCondition\<close> of \<^verbatim>\<open>sql/core.go\<close>.\<close>

definition EvaluateCondition :: "genv \<Rightarrow> expr \<Rightarrow> row \<Rightarrow> bool res" where
  "EvaluateCondition env cond row = rbind (eval env cond row) (\<lambda>v. Ok (condition_value v))"

section \<open>Children and traversals\<close>

lemma length_branch_exprs [simp]: "length (branch_exprs bs) = 2 * length bs"
  by (induction bs rule: branch_exprs.induct) auto

lemma pair_up_branch_exprs [simp]: "pair_up (branch_exprs bs) = bs"
  by (induction bs rule: branch_exprs.induct) auto

lemma branch_exprs_pair_up: "even (length cs) \<Longrightarrow> branch_exprs (pair_up cs) = cs"
  by (induction cs rule: pair_up.induct) auto

lemma with_children_children:
  "e \<noteq> Coalesce [] \<Longrightarrow> with_children e (children e) = Ok e"
  by (cases e) (auto simp: with_children_def children_number_def Let_def butlast_append split: option.splits)

lemma children_with_children:
  assumes "with_children e cs = Ok e'"
  shows "children e' = cs"
proof (cases e)
  case (Case x bs els)
  let ?cs1 = "if x = None then cs else drop 1 cs"
  from assms Case have len: "length cs = 2 * length bs + (if x = None then 0 else 1) + (if els = None then 0 else 1)"
    and e': "e' = Expressions.Case (if x = None then None else Some (hd cs))
       (pair_up (if els = None then ?cs1 else butlast ?cs1)) (if els = None then None else Some (last ?cs1))"
    by (auto simp: with_children_def Let_def split: if_splits)
  have "even (length (if els = None then ?cs1 else butlast ?cs1))" using len by auto
  moreover have "x \<noteq> None \<Longrightarrow> cs \<noteq> []" "els \<noteq> None \<Longrightarrow> ?cs1 \<noteq> []" using len by (auto split: if_splits)
  ultimately show ?thesis unfolding e' by (auto simp: branch_exprs_pair_up drop_Suc)
qed (use assms in \<open>auto simp: with_children_def children_number_def length_Suc_conv numeral_2_eq_2 numeral_3_eq_3 split: if_splits\<close>)

lemma with_children_arity:
  "with_children e cs = Ok e' \<Longrightarrow> length cs \<noteq> length (children e) \<Longrightarrow> \<exists>es. e = Coalesce es"
  by (cases e) (auto simp: with_children_def children_number_def Let_def split: option.splits if_splits)

lemma inspect_self: "e \<in> set (inspect f e)"
  by (subst inspect.simps) simp

lemma transform_up_Ok_id:
  "\<forall>x \<in> set (inspect (\<lambda>_. True) e). x \<noteq> Coalesce [] \<Longrightarrow> transform_up Ok e = Ok e"
proof (induction e rule: measure_induct_rule [of size])
  case (less e)
  have "rmap (transform_up Ok) (children e) = Ok (map id (children e))"
  proof (rule rmap_Ok_map)
    fix c assume c: "c \<in> set (children e)"
    then show "transform_up Ok c = Ok (id c)"
      using less.IH [OF children_size [OF c]] less.prems
      by (auto simp: inspect.simps [of _ e])
  qed
  moreover have "e \<noteq> Coalesce []" using less.prems by (auto simp: inspect.simps [of _ e])
  ultimately show ?case
    by (simp add: transform_up.simps [of _ e] with_children_children)
qed

text \<open>Rebuilding is faithful: \<^verbatim>\<open>TransformUp\<close> with the identity returns the same tree, \<^verbatim>\<open>WithChildren\<close> of a
  node's own \<^verbatim>\<open>Children\<close> returns the node, and the children of a rebuilt node are the ones that were passed.\<close>

lemma transform_up_identity:
  "\<forall>x \<in> set (inspect (\<lambda>_. True) e). x \<noteq> Coalesce [] \<Longrightarrow>
   transform_up Ok e = Ok e \<and> with_children e (children e) = Ok e
   \<and> (\<forall>cs e'. with_children e cs = Ok e' \<longrightarrow> children e' = cs)"
  using transform_up_Ok_id [of e] with_children_children [of e] children_with_children [of e] inspect_self [of e]
  by blast

theorem transform_up_identity_witness:
  "transform_up Ok (Not (Case None [(Literal (GBool True) Boolean, Star ''t'')] None)) =
   Ok (Not (Case None [(Literal (GBool True) Boolean, Star ''t'')] None))"
  using transform_up_identity [of "Not (Case None [(Literal (GBool True) Boolean, Star ''t'')] None)"]
  by (simp add: inspect.simps [of _ "Not _"] inspect.simps [of _ "Case _ _ _"] inspect.simps [of _ "Literal _ _"]
    inspect.simps [of _ "Star _"])

section \<open>Three-valued logic\<close>

text \<open>
  The abstract reading of a condition value: NULL is unknown, anything else is what \<^verbatim>\<open>ConvertToBool\<close> says.
\<close>

definition truth :: "gval \<Rightarrow> bool option" where
  "truth v = (if v = GNil then None else case ConvertToBool v of Ok b \<Rightarrow> Some b | _ \<Rightarrow> None)"

definition boolish :: "gval \<Rightarrow> bool" where
  "boolish v \<longleftrightarrow> v = GNil \<or> is_Ok (ConvertToBool v)"

fun of_truth :: "bool option \<Rightarrow> gval" where
  "of_truth None = GNil"
| "of_truth (Some b) = GBool b"

fun kleene_and :: "bool option \<Rightarrow> bool option \<Rightarrow> bool option" where
  "kleene_and (Some False) b = Some False"
| "kleene_and a (Some False) = Some False"
| "kleene_and (Some True) b = b"
| "kleene_and a (Some True) = a"
| "kleene_and None None = None"

lemma kleene_and_False [simp]: "kleene_and a (Some False) = Some False"
  by (cases "(a, Some False)" rule: kleene_and.cases) auto

definition kleene_not :: "bool option \<Rightarrow> bool option" where
  "kleene_not a = map_option HOL.Not a"

definition kleene_or :: "bool option \<Rightarrow> bool option \<Rightarrow> bool option" where
  "kleene_or a b = kleene_not (kleene_and (kleene_not a) (kleene_not b))"

lemma boolish_cases:
  assumes "boolish v"
  obtains "v = GNil" "truth v = None" "\<not> truth_is b v"
  | c where "v \<noteq> GNil" "truth v = Some c" "ConvertToBool v = Ok c" "truth_is b v \<longleftrightarrow> c = b"
  using assms by (cases "ConvertToBool v") (auto simp: boolish_def truth_def truth_is_def)

lemma Not_Eval_value: "Not_Eval (Ok v) = (if v = GNil then Ok GNil else rbind (ConvertToBool v) (\<lambda>b. Ok (GBool (\<not> b))))"
  by (cases v) (auto simp: Not_Eval_def)

text \<open>AND and NOT compute three-valued conjunction and negation of their operands' truth values.\<close>

lemma and_not_kleene:
  assumes "boolish l" "boolish r"
  shows "And_Eval (Ok l) (Ok r) = Ok (of_truth (kleene_and (truth l) (truth r)))
    \<and> Not_Eval (Ok l) = Ok (of_truth (kleene_not (truth l)))"
  using assms by (auto elim!: boolish_cases [of _ False] simp: And_Eval_def Not_Eval_value kleene_not_def)

theorem and_not_kleene_witness:
  "And_Eval (Ok (GInt64 7)) (Ok GNil) = Ok GNil \<and> Not_Eval (Ok (GInt64 7)) = Ok (GBool False)"
  using and_not_kleene [of "GInt64 7" GNil] by (simp add: boolish_def truth_def kleene_not_def ConvertToBool_def)

lemma truth_is_GBool: "\<not> truth_is True v \<Longrightarrow> v \<noteq> GBool True"
  by (auto simp: truth_is_def)

text \<open>OR computes three-valued disjunction, except that FALSE OR NULL and NULL OR FALSE are FALSE where
  SQL has NULL: only two NULL operands give NULL.\<close>

lemma Or_Eval_kleene:
  assumes "boolish l" "boolish r"
  shows "Or_Eval (Ok l) (Ok r) = Ok (if (l = GNil) \<noteq> (r = GNil) \<and> kleene_or (truth l) (truth r) = None
           then GBool False else of_truth (kleene_or (truth l) (truth r)))"
proof -
  have *: "Or_Eval (Ok l) (Ok r) = Ok (if truth_is True l \<or> truth_is True r then GBool True
      else if l = GNil \<and> r = GNil then GNil else GBool False)"
    using truth_is_GBool [of l] truth_is_GBool [of r] by (simp add: Or_Eval_def)
  show ?thesis unfolding *
    by (rule boolish_cases [OF assms(1), of True]; rule boolish_cases [OF assms(2), of True])
       (auto simp: kleene_or_def kleene_not_def)
qed

theorem Or_Eval_kleene_witness:
  "Or_Eval (Ok (GBool False)) (Ok GNil) = Ok (GBool False) \<and> kleene_or (Some False) None = None"
  using Or_Eval_kleene [of "GBool False" GNil] by (simp add: boolish_def truth_def kleene_or_def kleene_not_def)

section \<open>Comparison operators\<close>

definition sign_result :: "int res \<Rightarrow> bool" where
  "sign_result r \<longleftrightarrow> (\<forall>c. r = Ok c \<longrightarrow> c \<in> {-1, 0, 1})"

lemma compare_result_complement:
  assumes "sign_result r" "\<And>c. c \<in> {-1, 0, 1} \<Longrightarrow> q c = (\<not> p c)"
  shows "compare_result q r = Not_Eval (compare_result p r)"
  using assms by (cases r) (auto simp: compare_result_def Not_Eval_def sign_result_def)

lemma sign_result_rbind: "(\<And>x. m = Ok x \<Longrightarrow> sign_result (f x)) \<Longrightarrow> sign_result (rbind m f)"
  by (cases m) (auto simp: sign_result_def)

lemma sign_result_Ok [simp]: "sign_result (Ok c) \<longleftrightarrow> c \<in> {-1, 0, 1}" 
  and sign_result_fail [simp]: "sign_result (Err e)" "sign_result Panic"
  by (auto simp: sign_result_def)

lemma strings_Compare_sign: "strings_Compare a b \<in> {-1, 0, 1}"
  by (induction a b rule: strings_Compare.induct) auto

lemma compareNulls_sign: "compareNulls a b = Some c \<Longrightarrow> c \<in> {-1, 0, 1}"
  by (auto simp: compareNulls_def split: if_splits)

lemma cmp_int_sign: "cmp_int a b \<in> {-1, 0, 1}"
  by (simp add: cmp_int_def)

lemmas sign_intros = sign_result_rbind sign_result_Ok [THEN iffD2]

lemma number_compare_sign: "sign_result (number_compare env bt a b)"
proof -
  have f: "(if f64_eq x y then 0 else if f64_lt x y then - 1 else 1) \<in> {-1, 0, 1 :: int}" for x y
    by simp
  have "sign_result (compareSignedInts env a b)" "sign_result (compareUnsignedInts env a b)"
    "sign_result (compareFloats env a b)"
    unfolding compareSignedInts_def compareUnsignedInts_def compareFloats_def
    using compareNulls_sign [of a b]
    by (cases "compareNulls a b"; simp del: sign_result_Ok; intro sign_intros cmp_int_sign f; simp)+
  then show ?thesis by (cases bt) (simp_all add: number_compare_def)
qed

lemma string_compare_sign: "sign_result (string_compare env base n coll a b)"
  using compareNulls_sign [of a b] strings_Compare_sign
  by (auto simp: string_compare_def Let_def simp del: sign_result_Ok split: option.splits intro!: sign_result_rbind sign_result_Ok [THEN iffD2])

definition oth_signs :: "genv \<Rightarrow> bool" where
  "oth_signs env \<longleftrightarrow> (\<forall>x a b. sign_result (othCompare env x a b))"

lemma sql_compare_sign:
  "oth_signs env \<Longrightarrow> sign_result (sql_compare env t a b)"
  "oth_signs env \<Longrightarrow> sign_result (compare_elems env ts ls rs)"
proof (induction env t a b and env ts ls rs rule: sql_compare_compare_elems.induct)
  case (4 env ts a b)
  then show ?case by (auto intro!: sign_result_rbind split: gval.split)
next
  case (7 env t ts l ls r rs)
  then show ?case by (auto intro!: sign_result_rbind)
qed (simp_all add: number_compare_sign string_compare_sign oth_signs_def)


lemma comparison_Compare_sign: "oth_signs env \<Longrightarrow> sign_result (comparison_Compare env t1 t2 lv rv)"
  by (auto simp: comparison_Compare_def compare_values_def split: prod.splits
      intro!: sign_result_rbind sql_compare_sign)

lemma In_NotIn_complement: "NotIn_Eval env rt lv els = Not_Eval (In_Eval env rt lv els)"
  by (cases rt; cases lv)
     (auto simp: In_Eval_def NotIn_Eval_def Not_Eval_def rbind_assoc split: option.splits intro!: rbind_cong)

text \<open>The comparison operators are consistent: GTE and LTE are the negations of LT and GT, NOT IN of IN, and of
  two comparable operands exactly one of EQ, LT and GT holds. The hypothesis says that \<^verbatim>\<open>Compare\<close> of a type outside the
  model returns -1, 0 or 1.\<close>

lemma comparison_complements:
  assumes "oth_signs env"
  shows "eval env (GreaterThanOrEqual l r) row = Not_Eval (eval env (LessThan l r) row)
    \<and> eval env (LessThanOrEqual l r) row = Not_Eval (eval env (GreaterThan l r) row)
    \<and> eval env (NotIn l r) row = Not_Eval (eval env (In l r) row)
    \<and> (eval env (Equals l r) row = Ok (GBool b) \<longrightarrow>
         (\<exists>c \<in> {-1, 0, 1 :: int}. b = (c = 0) \<and> eval env (LessThan l r) row = Ok (GBool (c = -1))
            \<and> eval env (GreaterThan l r) row = Ok (GBool (c = 1))))"
proof -
  let ?c = "comparison_Compare env (etype l) (etype r) (eval env l row) (eval env r row)"
  note sg = comparison_Compare_sign [OF assms, of "etype l" "etype r" "eval env l row" "eval env r row"]
  have "eval env (Equals l r) row = Ok (GBool b) \<longrightarrow>
         (\<exists>c \<in> {-1, 0, 1 :: int}. b = (c = 0) \<and> eval env (LessThan l r) row = Ok (GBool (c = -1))
            \<and> eval env (GreaterThan l r) row = Ok (GBool (c = 1)))"
    using sg by (cases ?c) (simp_all add: Equals_Eval_def LessThan_Eval_def GreaterThan_Eval_def
       compare_result_def split: if_splits, fastforce)
  moreover have "eval env (GreaterThanOrEqual l r) row = Not_Eval (eval env (LessThan l r) row)"
    "eval env (LessThanOrEqual l r) row = Not_Eval (eval env (GreaterThan l r) row)"
    by (simp_all add: GreaterThanOrEqual_Eval_def LessThan_Eval_def LessThanOrEqual_Eval_def GreaterThan_Eval_def,
        (rule compare_result_complement [OF sg], fastforce)+)
  ultimately show ?thesis by (simp add: In_NotIn_complement)
qed

theorem comparison_complements_witness:
  "eval cast_env (GreaterThanOrEqual (Literal (GString ''b'') LongText) (Literal (GString ''a'') LongText)) [] =
   Not_Eval (eval cast_env (LessThan (Literal (GString ''b'') LongText) (Literal (GString ''a'') LongText)) [])"
  using comparison_complements [of cast_env "Literal (GString ''b'') LongText" "Literal (GString ''a'') LongText" "[]"]
  by (simp add: oth_signs_def cast_env_def)

lemma int64_promote: "sql_promote env Int64 = Ok Int64"
  by (simp add: sql_promote_def number_promote_def)

lemma in_loop_int64:
  assumes "cast_laws env" "\<forall>r \<in> set rs. r = Ok GNil \<or> (\<exists>b. r = Ok (GInt64 b))"
  shows "in_loop env Int64 (GInt64 a) rs = Ok (Ok (GInt64 a) \<in> set rs)"
  using assms(2)
proof (induction rs)
  case (Cons r rs)
  then show ?case
    using assms(1) by (auto simp: number_convert_def number_compare_def compareSignedInts_def compareNulls_def
      cast_lawsD [OF assms(1)] cmp_int_def dest: signed_word_eqI)
qed simp

text \<open>Comparing two tuples of more than one column with \<^verbatim>\<open>=\<close> panics: \<^verbatim>\<open>comparison.Compare\<close> compares the two type
  objects with Go's \<^verbatim>\<open>==\<close>, and a tuple type is a slice.\<close>

lemma tuple_comparison_panics:
  assumes "length ls \<noteq> 1" "length rs \<noteq> 1" "is_Ok (eval env (Tuple ls) row)" "is_Ok (eval env (Tuple rs) row)"
    "is_Ok (etype (Tuple ls))" "is_Ok (etype (Tuple rs))"
  shows "eval env (Equals (Tuple ls) (Tuple rs)) row = Panic"
  using assms by (auto simp: is_Ok_iff Equals_Eval_def comparison_Compare_def compare_result_def Tuple_Type_def
     Tuple_Eval_def compare_values_def type_eq_def res_simps split: list.splits)

theorem tuple_comparison_panics_witness:
  "eval cast_env (Equals (Tuple [Literal (GInt64 1) Int64, Literal (GInt64 2) Int64])
                         (Tuple [Literal (GInt64 1) Int64, Literal (GInt64 2) Int64])) [] = Panic"
  by (rule tuple_comparison_panics) (simp_all add: Tuple_Eval_def Tuple_Type_def)

section \<open>Integer arithmetic\<close>

lemma arith_convert_int64:
  assumes "cast_laws env"
  shows "convertLeftRight env Int64 (GInt64 a) (GInt64 b) = Ok (GInt64 a, GInt64 b)"
  by (simp add: convertLeftRight_def number_convert_def cast_lawsD [OF assms])

lemma trunc_div_mod:
  assumes "b \<noteq> 0"
  shows "\<bar>a - b * trunc_div a b\<bar> < \<bar>b\<bar>" "0 \<le> a \<Longrightarrow> 0 \<le> a - b * trunc_div a b" "a \<le> 0 \<Longrightarrow> a - b * trunc_div a b \<le> 0"
proof -
  define q where "q = \<bar>a\<bar> div \<bar>b\<bar>"
  have "b * trunc_div a b = sgn a * ((b * sgn b) * q)" by (simp add: trunc_div_def q_def ac_simps)
  moreover have "b * sgn b = \<bar>b\<bar>" by (simp add: abs_sgn)
  moreover have "a = sgn a * \<bar>a\<bar>" by (simp add: sgn_mult_abs)
  moreover have "\<bar>a\<bar> = \<bar>b\<bar> * q + \<bar>a\<bar> mod \<bar>b\<bar>" by (simp add: q_def)
  ultimately have *: "a - b * trunc_div a b = sgn a * (\<bar>a\<bar> mod \<bar>b\<bar>)" 
    by (metis add_diff_cancel_left' right_diff_distrib')
  show "\<bar>a - b * trunc_div a b\<bar> < \<bar>b\<bar>" unfolding * using assms by (auto simp: abs_mult abs_sgn_eq)
  show "0 \<le> a \<Longrightarrow> 0 \<le> a - b * trunc_div a b" "a \<le> 0 \<Longrightarrow> a - b * trunc_div a b \<le> 0" 
   unfolding * using assms by (auto simp: sgn_if)
qed

lemma trunc_div_bound: "\<bar>trunc_div a b\<bar> \<le> \<bar>a\<bar>"
proof (cases "b = 0")
  case False
  then have "\<bar>a\<bar> div \<bar>b\<bar> \<le> \<bar>a\<bar> div 1" by (intro zdiv_mono2) auto
  then show ?thesis using False by (auto simp: trunc_div_def abs_mult abs_sgn_eq pos_imp_zdiv_nonneg_iff)
qed (simp add: trunc_div_def)


lemma sint_word_of_int64: "- (2 ^ 63) \<le> i \<Longrightarrow> i < 2 ^ 63 \<Longrightarrow> sint (word_of_int i :: 64 word) = i"
  by (simp add: signed_take_bit_int_eq_self sint_sbintrunc')

lemma sint64_bounds: "- (2 ^ 63) \<le> sint (a :: 64 word)" "sint a < 2 ^ 63"
  using sint_ge [of a] sint_lt [of a] by simp_all

lemma sint_eq_iff [simp]: "sint (b :: 64 word) = 0 \<longleftrightarrow> b = 0" "sint b = -1 \<longleftrightarrow> b = -1"
  using signed_word_eqI [of b 0] signed_word_eqI [of b "-1"] by auto

lemma sint_int64_mod: "b \<noteq> 0 \<Longrightarrow> sint (int64_mod a b) = sint a - sint b * trunc_div (sint a) (sint b)"
proof -
  assume "b \<noteq> 0"
  then have "sint b \<noteq> 0" by simp
  from trunc_div_mod(1) [OF this, of "sint a"] sint64_bounds [of b]
  show ?thesis unfolding int64_mod_def by (intro sint_word_of_int64) auto
qed

lemma sint_int64_div:
  assumes "b \<noteq> 0" "\<not> (sint a = - (2 ^ 63) \<and> b = -1)"
  shows "sint (int64_div a b) = trunc_div (sint a) (sint b)"
proof -
  have "trunc_div (sint a) (sint b) < 2 ^ 63" 
  proof (cases "sint a = - (2 ^ 63)")
    case False
    then show ?thesis using trunc_div_bound [of "sint a" "sint b"] sint64_bounds [of a] by linarith
  next
    case True
    have "sint b \<noteq> 0" "sint b \<noteq> -1" using assms True by auto
    then consider "0 < sint b" | "sint b \<le> -2" by linarith
    then show ?thesis
    proof cases
      case 1
      with True show ?thesis by (simp add: trunc_div_def pos_imp_zdiv_nonneg_iff) (smt (verit) pos_imp_zdiv_nonneg_iff)
    next
      case 2
      then have "(2 ^ 63 :: int) div \<bar>sint b\<bar> \<le> 2 ^ 63 div 2" by (intro zdiv_mono2) auto
      with 2 True show ?thesis by (simp add: trunc_div_def)
    qed
  qed
  moreover have "- (2 ^ 63) \<le> trunc_div (sint a) (sint b)"
    using trunc_div_bound [of "sint a" "sint b"] sint64_bounds [of a] by linarith
  ultimately show ?thesis unfolding int64_div_def by (intro sint_word_of_int64)
qed

lemma Arithmetic_Eval_int64:
  assumes "cast_laws env" "etype l = Ok Int64" "etype r = Ok Int64"
    "eval env l row = Ok (GInt64 a)" "eval env r row = Ok (GInt64 b)" "opr \<in> {OpPlus, OpMinus, OpMult, OpDiv, OpIntDiv, OpMod}"
  shows "eval env (Arithmetic l r opr) row = apply_op opr (GInt64 a) (GInt64 b)"
  using assms by (auto simp: Arithmetic_Eval_def Arithmetic_Type_def arith_type_def arith_convert_int64 IsTime_def IsInteger_def IsUnsigned_def IsSigned_def)

text \<open>Integer DIV and MOD truncate towards zero: the remainder is smaller than the divisor and has the sign of
  the dividend, and dividend = quotient * divisor + remainder, except that the smallest integer divided by -1 wraps to
  itself. A zero divisor is a run-time panic, for \<^verbatim>\<open>/\<close> too.\<close>

lemma integer_division:
  assumes "cast_laws env" "etype l = Ok Int64" "etype r = Ok Int64"
    "eval env l row = Ok (GInt64 a)" "eval env r row = Ok (GInt64 b)"
  shows "if b = 0 then \<forall>opr \<in> {OpDiv, OpIntDiv, OpMod}. eval env (Arithmetic l r opr) row = Panic
     else \<exists>q m. eval env (Arithmetic l r OpIntDiv) row = Ok (GInt64 q)
       \<and> eval env (Arithmetic l r OpMod) row = Ok (GInt64 m)
       \<and> \<bar>sint m\<bar> < \<bar>sint b\<bar> \<and> (sint m = 0 \<or> (sint m < 0 \<longleftrightarrow> sint a < 0))
       \<and> (if sint a = - (2 ^ 63) \<and> b = -1 then q = a else sint a = sint q * sint b + sint m)"
proof (cases "b = 0")
  case True
  then show ?thesis using Arithmetic_Eval_int64 [OF assms]
    by (auto simp: apply_op_def div_op_def intDiv_op_def mod_op_def binop_def)
next
  case False
  then have "sint b \<noteq> 0" by simp
  note tm = trunc_div_mod [OF this, of "sint a"]
  have "eval env (Arithmetic l r OpIntDiv) row = Ok (GInt64 (int64_div a b))"
    "eval env (Arithmetic l r OpMod) row = Ok (GInt64 (int64_mod a b))"
    using Arithmetic_Eval_int64 [OF assms, of OpIntDiv] Arithmetic_Eval_int64 [OF assms, of OpMod] False
    by (simp_all add: apply_op_def intDiv_op_def mod_op_def binop_def)
  moreover have "sint a = - (2 ^ 63) \<Longrightarrow> b = -1 \<Longrightarrow> int64_div a b = a"
    by (rule signed_word_eqI) (simp add: int64_div_def trunc_div_def)
  moreover have "\<bar>sint (int64_mod a b)\<bar> < \<bar>sint b\<bar>"
    "sint (int64_mod a b) = 0 \<or> (sint (int64_mod a b) < 0 \<longleftrightarrow> sint a < 0)"
    using tm unfolding sint_int64_mod [OF False] by linarith+
  moreover have "\<not> (sint a = - (2 ^ 63) \<and> b = -1) \<Longrightarrow>
      sint a = sint (int64_div a b) * sint b + sint (int64_mod a b)"
    using sint_int64_mod [OF False, of a] sint_int64_div [OF False, of a] by (simp add: mult.commute)
  ultimately show ?thesis using False by (auto simp del: eval.simps intro!: exI)
qed


theorem integer_division_witness:
  "\<exists>q m. eval cast_env (Arithmetic (Literal (GInt64 (-7)) Int64) (Literal (GInt64 2) Int64) OpIntDiv) [] = Ok (GInt64 q)
     \<and> eval cast_env (Arithmetic (Literal (GInt64 (-7)) Int64) (Literal (GInt64 2) Int64) OpMod) [] = Ok (GInt64 m)
     \<and> \<bar>sint m\<bar> < 2 \<and> (sint m = 0 \<or> sint m < 0) \<and> -7 = sint q * 2 + sint m"
  using integer_division [OF cast_env_laws, of "Literal (GInt64 (-7)) Int64" "Literal (GInt64 2) Int64" "[]" "-7" 2]
  by simp

section \<open>Nullability\<close>

text \<open>
  \<open>nil_free\<close>: the library functions never return the comparison's own error kind \<^verbatim>\<open>ErrNilOperand\<close>, which the
  comparison operators take as a NULL operand. \<open>clean\<close> says the same of one result.
\<close>

abbreviation nil_operand :: gerror where
  "nil_operand \<equiv> ExprErr ErrNilOperand"

definition nil_free :: "genv \<Rightarrow> bool" where
  "nil_free env \<longleftrightarrow> (\<forall>v. castInt64 env v \<noteq> Err nil_operand \<and> castUint64 env v \<noteq> Err nil_operand
     \<and> castFloat64 env v \<noteq> Err nil_operand \<and> castString env v \<noteq> Err nil_operand)
   \<and> (\<forall>s. jsonError env s \<noteq> Some nil_operand)
   \<and> (\<forall>x a b. othCompare env x a b \<noteq> Err nil_operand) \<and> (\<forall>x v. othConvert env x v \<noteq> Err nil_operand)
   \<and> (\<forall>i r. othEval env i r \<noteq> Err nil_operand)"

definition clean :: "'a res \<Rightarrow> bool" where
  "clean r \<longleftrightarrow> r \<noteq> Err nil_operand"

lemma clean_simps [simp]: "clean (Ok x)" "clean Panic" "clean (Err e) \<longleftrightarrow> e \<noteq> nil_operand"
  by (auto simp: clean_def)

lemma clean_rbind: "clean m \<Longrightarrow> (\<And>x. m = Ok x \<Longrightarrow> clean (f x)) \<Longrightarrow> clean (rbind m f)"
  by (cases m) auto

lemma clean_if: "(b \<Longrightarrow> clean x) \<Longrightarrow> (\<not> b \<Longrightarrow> clean y) \<Longrightarrow> clean (if b then x else y)"
  by simp

lemma clean_case_GUint64:
  "(\<And>u. clean (f u)) \<Longrightarrow> clean g \<Longrightarrow> clean (case v of GUint64 u \<Rightarrow> f u | _ \<Rightarrow> g)"
  by (cases v) simp_all

lemma clean_case_prod: "(\<And>x y. clean (f x y)) \<Longrightarrow> clean (case p of (x, y) \<Rightarrow> f x y)"
  by (cases p) simp

lemma clean_case_res:
  "(\<And>x. clean (f x)) \<Longrightarrow> (\<And>e. clean (g e)) \<Longrightarrow> clean h \<Longrightarrow> clean (case r of Ok x \<Rightarrow> f x | Err e \<Rightarrow> g e | Panic \<Rightarrow> h)"
  by (cases r) auto

lemma clean_case_option: "clean x \<Longrightarrow> (\<And>a. clean (f a)) \<Longrightarrow> clean (case z of None \<Rightarrow> x | Some a \<Rightarrow> f a)"
  by (cases z) auto

lemmas clean_intros = clean_rbind clean_if clean_case_GUint64 clean_case_prod clean_case_res clean_case_option

lemma nil_freeD:
  assumes "nil_free env"
  shows "clean (castInt64 env v)" "clean (castUint64 env v)" "clean (castFloat64 env v)" "clean (castString env v)"
    "clean (othCompare env x a b)" "clean (othConvert env x v)" "clean (othEval env i r)"
    "jsonError env s \<noteq> Some nil_operand"
  using assms by (auto simp: nil_free_def clean_def)

lemma number_convert_clean: "nil_free env \<Longrightarrow> clean (number_convert env bt v)"
  unfolding number_convert_def Let_def signed_in_def unsigned_in_def
  by (rule clean_if, simp, cases bt; simp; intro clean_intros nil_freeD; simp)

lemma string_convert_clean: "nil_free env \<Longrightarrow> clean (string_convert env base n coll v)"
  unfolding string_convert_def Let_def by (intro clean_intros; simp add: nil_freeD)

lemma convert_clean:
  "nil_free env \<Longrightarrow> clean (sql_convert env t v)"
  "nil_free env \<Longrightarrow> clean (convert_elems env ts vs)"
proof (induction env t v and env ts vs rule: sql_convert_convert_elems.induct)
  case (4 env ts v)
  then show ?case by (cases v) (auto intro: clean_rbind)
qed (auto simp: number_convert_clean string_convert_clean nil_freeD intro!: clean_rbind)

lemma number_compare_clean: "nil_free env \<Longrightarrow> clean (number_compare env bt a b)"
  unfolding number_compare_def compareSignedInts_def compareUnsignedInts_def compareFloats_def
  by (cases bt; simp; intro clean_intros nil_freeD; simp)

lemma string_compare_clean: "nil_free env \<Longrightarrow> clean (string_compare env base n coll a b)"
proof -
  assume "nil_free env"
  then have "clean (case v of GString s \<Rightarrow> Ok s | _ \<Rightarrow> rbind (string_convert env base n coll v) (\<lambda>w.
                        case w of GString s \<Rightarrow> Ok s | _ \<Rightarrow> Panic))" for v
    by (cases v) (auto intro!: clean_rbind string_convert_clean split: gval.split)
  then show ?thesis unfolding string_compare_def Let_def by (intro clean_intros) auto
qed

lemma compare_clean:
  "nil_free env \<Longrightarrow> clean (sql_compare env t a b)"
  "nil_free env \<Longrightarrow> clean (compare_elems env ts ls rs)"
proof (induction env t a b and env ts ls rs rule: sql_compare_compare_elems.induct)
  case (4 env ts a b)
  then show ?case 
    by (auto intro!: clean_rbind convert_clean simp del: sql_convert.simps split: gval.split)
qed (auto simp: number_compare_clean string_compare_clean nil_freeD intro!: clean_rbind)

lemma promote_clean: "clean (sql_promote env t)"
  by (cases t) (auto simp: sql_promote_def split: res.split)

lemma or_nil_clean: "clean r \<Longrightarrow> clean (or_nil r)" and or_zero_clean: "clean r \<Longrightarrow> clean (or_zero z r)"
  by (cases r; simp add: or_nil_def or_zero_def)+

lemma handleUnsignedErrors_clean: "clean (handleUnsignedErrors e v)"
  unfolding handleUnsignedErrors_def by (cases v) (auto split: option.split)

lemma convertValue_clean: "nil_free env \<Longrightarrow> clean (convertValue env v castTo)"
proof -
  assume e: "nil_free env"
  then have "clean (case jsonError env s of Some e \<Rightarrow> Err e | None \<Rightarrow> Ok (GBytes s))" for s
    using nil_freeD(8) [OF e, of s] by (cases "jsonError env s") auto
  then show ?thesis unfolding convertValue_def
    by (intro clean_if or_nil_clean or_zero_clean clean_rbind clean_case_res handleUnsignedErrors_clean convert_clean nil_freeD e; simp add: convert_clean [OF e] del: sql_convert.simps)
qed

lemma compare_values_clean: "nil_free env \<Longrightarrow> clean (compare_values env t1 t2 l r)"
  unfolding compare_values_def castLeftAndRight_def convertLeftAndRight_def type_eq_def
  by (intro clean_intros convertValue_clean compare_clean; simp split: stype.split)

lemma Compare_not_nil:
  "nil_free env \<Longrightarrow> clean lv \<Longrightarrow> clean rv \<Longrightarrow> clean t1 \<Longrightarrow> clean t2 \<Longrightarrow> lv \<noteq> Ok GNil \<Longrightarrow> rv \<noteq> Ok GNil \<Longrightarrow>
   clean (comparison_Compare env t1 t2 lv rv)"
  unfolding comparison_Compare_def by (intro clean_rbind clean_if compare_values_clean) auto

lemma compare_result_clean: "clean (compare_result p r)"
  by (cases r) (auto simp: compare_result_def)

lemma compare_result_not_nil: "clean r \<Longrightarrow> compare_result p r \<noteq> Ok GNil"
  by (cases r) (auto simp: compare_result_def)

lemmas comparison_Eval_defs = Equals_Eval_def LessThan_Eval_def GreaterThan_Eval_def
  LessThanOrEqual_Eval_def GreaterThanOrEqual_Eval_def

lemma clean_rmap: "(\<And>x. x \<in> set xs \<Longrightarrow> clean (f x)) \<Longrightarrow> clean (rmap f xs)"
  by (induction xs) (auto intro!: clean_rbind)

lemma Case_Type_clean:
  "\<forall>t \<in> set ts. clean t \<Longrightarrow> (\<And>t. els = Some t \<Longrightarrow> clean t) \<Longrightarrow> clean (Case_Type ts els)"
  unfolding Case_Type_def by (induction ts) (auto intro!: clean_rbind split: option.split)

lemma etype_clean: "clean (etype e)"
proof (induction e rule: etype.induct)
  case (17 e bs els)
  then show ?case by (auto intro!: Case_Type_clean)
next
  case (20 es)
  then show ?case
    by (auto simp: Tuple_Type_def split: list.split intro!: clean_rbind clean_rmap)
qed (auto simp: Arithmetic_Type_def UnaryMinus_Type_def intro!: clean_rbind split: list.split)

lemma in_columns_clean: "\<forall>t \<in> set ts. clean t \<Longrightarrow> clean (in_columns n ts)"
  by (induction n ts rule: in_columns.induct) (auto intro!: clean_rbind)

lemma in_loop_clean: "nil_free env \<Longrightarrow> \<forall>r \<in> set rs. clean r \<Longrightarrow> clean (in_loop env t v rs)"
  by (induction env t v rs rule: in_loop.induct) (auto intro!: clean_rbind convert_clean compare_clean)

lemma binop_value:
  assumes "\<And>a b. clean (u a b) \<and> u a b \<noteq> Ok GNil" "\<And>a b. clean (i a b) \<and> i a b \<noteq> Ok GNil"
    "\<And>a b. clean (f a b) \<and> f a b \<noteq> Ok GNil" "\<And>a b. clean (t a b) \<and> t a b \<noteq> Ok GNil"
  shows "clean (binop u i f t l r) \<and> binop u i f t l r \<noteq> Ok GNil"
proof -
  have "clean bad \<Longrightarrow> bad \<noteq> Ok GNil \<Longrightarrow> clean (case r of GUint64 b \<Rightarrow> u a b | _ \<Rightarrow> bad) \<and> (case r of GUint64 b \<Rightarrow> u a b | _ \<Rightarrow> bad) \<noteq> Ok GNil"
    "clean bad \<Longrightarrow> bad \<noteq> Ok GNil \<Longrightarrow> clean (case r of GInt64 b \<Rightarrow> i a b | _ \<Rightarrow> bad) \<and> (case r of GInt64 b \<Rightarrow> i a b | _ \<Rightarrow> bad) \<noteq> Ok GNil"
    "clean bad \<Longrightarrow> bad \<noteq> Ok GNil \<Longrightarrow> clean (case r of GFloat64 b \<Rightarrow> f a b | _ \<Rightarrow> bad) \<and> (case r of GFloat64 b \<Rightarrow> f a b | _ \<Rightarrow> bad) \<noteq> Ok GNil"
    "clean bad \<Longrightarrow> bad \<noteq> Ok GNil \<Longrightarrow> clean (case r of GTime b z \<Rightarrow> t k b | _ \<Rightarrow> bad) \<and> (case r of GTime b z \<Rightarrow> t k b | _ \<Rightarrow> bad) \<noteq> Ok GNil" for a k bad
    using assms by (cases r; simp)+
  then show ?thesis by (cases l) (simp_all add: binop_def Let_def)
qed

lemma apply_op_value: "clean (apply_op opr l r) \<and> apply_op opr l r \<noteq> Ok GNil"
  by (cases opr) (simp_all only: apply_op_def arith_op.case plus_op_def minus_op_def mult_op_def div_op_def bitAnd_op_def bitOr_op_def
     bitXor_op_def shiftLeft_op_def shiftRight_op_def intDiv_op_def mod_op_def; (rule binop_value)?; simp)+

lemma negate_value_value: "clean (negate_value v) \<and> negate_value v \<noteq> Ok GNil"
  by (cases v) (simp_all add: negate_value_def)

lemma ConvertToBool_clean: "clean (ConvertToBool v)"
  by (cases v) (simp_all add: ConvertToBool_def)

lemma Not_Eval_rbind: "Not_Eval cv = rbind cv (\<lambda>v. if v = GNil then Ok GNil else rbind (ConvertToBool v) (\<lambda>b. Ok (GBool (\<not> b))))"
proof (cases cv)
  case (Ok v) then show ?thesis by (cases v) (simp_all add: Not_Eval_def)
qed (simp_all add: Not_Eval_def)

lemma case_branches_clean:
  "nil_free env \<Longrightarrow> clean tv \<Longrightarrow> \<forall>(t, c, x) \<in> set brs. clean t \<and> clean c \<and> clean x \<Longrightarrow> clean els \<Longrightarrow>
   clean (case_branches env v tv brs els)"
  by (induction env v tv brs els rule: case_branches.induct)
     (auto simp: Equals_Eval_def compare_result_clean intro!: clean_rbind)

lemma Coalesce_clean: "\<forall>r \<in> set rs. clean r \<Longrightarrow> clean (Coalesce_Eval rs)"
  by (induction rs rule: Coalesce_Eval.induct) (auto intro!: clean_rbind)

lemma eval_clean: "nil_free env \<Longrightarrow> clean (eval env e row)"
proof (induction env e row rule: eval.induct)
  case (4 env l r row)
  then show ?case by (auto simp: And_Eval_def intro!: clean_rbind)
next
  case (5 env l r row)
  then show ?case by (auto simp: Or_Eval_def intro!: clean_rbind)
next
  case (14 env l r row)
  then show ?case
    by (auto simp: In_Eval_def in_columns_clean in_loop_clean etype_clean promote_clean convert_clean split: expr.split
     simp del: sql_convert.simps intro!: clean_rbind in_columns_clean in_loop_clean)
next
  case (15 env l r row)
  then show ?case
    by (auto simp: NotIn_Eval_def in_columns_clean in_loop_clean etype_clean promote_clean convert_clean split: expr.split
     simp del: sql_convert.simps intro!: clean_rbind in_columns_clean in_loop_clean)
next
  case (16 env x lo hi row)
  then show ?case unfolding Between_Eval_def eval.simps
    by (intro clean_rbind clean_if promote_clean etype_clean convert_clean compare_clean) auto
next
  case (17 env e bs els row)
  then show ?case unfolding Case_Eval_def eval.simps
    by (intro clean_rbind case_branches_clean) (auto simp: etype_clean split: option.split)
next
  case (18 env l r opr row)
  then show ?case unfolding Arithmetic_Eval_def eval.simps convertLeftRight_def
    by (intro clean_rbind clean_if clean_case_prod) (auto simp: etype_clean convert_clean apply_op_value simp del: etype.simps)
next
  case (19 env e row)
  then show ?case unfolding UnaryMinus_Eval_def eval.simps
    by (intro clean_rbind clean_if or_zero_clean) (auto simp: etype_clean convert_clean negate_value_value simp del: sql_convert.simps)
next
  case (20 env es row)
  then show ?case by (auto simp: Tuple_Eval_def split: list.split intro!: clean_rbind clean_rmap)
next
  case (22 env l r row)
  then show ?case unfolding SetField_Eval_def eval.simps
    by (intro clean_rbind clean_if clean_case_option clean_case_prod) (auto simp: convert_clean)
next
  case (23 env e castTo row)
  then show ?case by (auto simp: Convert_Eval_def split: res.split intro!: clean_rbind)
next
  case (28 env l r row)
  then show ?case unfolding NullIf_Eval_def eval.simps
    by (intro clean_rbind clean_if) (auto simp: etype_clean Equals_Eval_def compare_result_clean)
qed (auto simp: GetField_Eval_def Not_Eval_rbind IsNull_Eval_def IsTrue_Eval_def If_Eval_def IfNull_Eval_def ConvertToBool_clean
      comparison_Eval_defs compare_result_clean nil_freeD intro!: clean_rbind Coalesce_clean)


text \<open>
  The expressions \<^verbatim>\<open>IsNullable\<close> is right about, over rows that hold no NULL in a column declared NOT NULL:
  an IF must not hide a nullable ELSE, a cast must be to a type whose conversion always has a result.
\<close>

function null_frag :: "row \<Rightarrow> expr \<Rightarrow> bool" where
  "null_frag r e \<longleftrightarrow> (\<forall>c \<in> set (children e). null_frag r c) \<and>
     (case e of
        GetField i t tbl nm nl \<Rightarrow> nl \<or> (0 \<le> i \<and> i < int (length r) \<longrightarrow> r ! nat i \<noteq> GNil)
      | Convert x castTo \<Rightarrow> castTo \<in> {''signed'', ''unsigned'', ''double'', ''real'', ''json''}
      | IfFn c t f \<Rightarrow> is_nullable t = Ok False \<longrightarrow> is_nullable f = Ok False
      | OtherExpr i t nl \<Rightarrow> nl
      | _ \<Rightarrow> True)"
  by pat_completeness auto
termination
  by (relation "measure (\<lambda>(r, e). size e)") (auto simp: children_size)

declare null_frag.simps [simp del]

lemma null_frag_children: "null_frag r e \<Longrightarrow> c \<in> set (children e) \<Longrightarrow> null_frag r c"
  by (simp add: null_frag.simps [of r e])

lemma ror_False: "ror a b = Ok False \<longleftrightarrow> a = Ok False \<and> b = Ok False"
  by (cases a) (auto simp: ror_def)

lemma foldr_ror_False: "foldr ror bs d = Ok False \<longleftrightarrow> (\<forall>b \<in> set bs. b = Ok False) \<and> d = Ok False"
  by (induction bs) (auto simp: ror_False)

lemma rbind_not_nil: "(\<And>x. m = Ok x \<Longrightarrow> f x \<noteq> Ok v) \<Longrightarrow> rbind m f \<noteq> Ok v"
  by (cases m) auto

lemma number_convert_not_nil: "v \<noteq> GNil \<Longrightarrow> number_convert env bt v \<noteq> Ok GNil"
proof -
  assume "v \<noteq> GNil"
  have *: "\<exists>w. w \<noteq> GNil \<and> r = Ok w \<or> \<not> is_Ok r \<Longrightarrow> r \<noteq> Ok GNil" for r by auto
  have "(case w of GUint64 u \<Rightarrow> f u | _ \<Rightarrow> g) \<noteq> Ok GNil" 
    if "\<And>u. f u \<noteq> Ok GNil" "g \<noteq> Ok GNil" for f :: "64 word \<Rightarrow> gval res" and g w
    using that by (cases w) simp_all
  with \<open>v \<noteq> GNil\<close> show ?thesis
    unfolding number_convert_def Let_def signed_in_def unsigned_in_def
    by (simp only: if_False, cases bt; simp only: btype.case; intro rbind_not_nil notI; simp add: res_simps split: if_splits)
qed

lemma or_zero_not_nil: "r \<noteq> Ok GNil \<Longrightarrow> z \<noteq> GNil \<Longrightarrow> or_zero z r \<noteq> Ok GNil"
  by (cases r) (auto simp: or_zero_def)

lemma convertValue_not_nil:
  assumes "v \<noteq> GNil" "castTo \<in> {''signed'', ''unsigned'', ''double'', ''real'', ''json''}"
  shows "convertValue env v castTo \<noteq> Ok GNil"
proof -
  note n = number_convert_not_nil [OF assms(1)]
  have "(case number_convert env Uint64T v of Err e \<Rightarrow> rbind (handleUnsignedErrors e v) (\<lambda>w. Ok (GUint64 w)) | r \<Rightarrow> r) \<noteq> Ok GNil"
    using n [of env Uint64T] by (cases "number_convert env Uint64T v") (auto intro!: rbind_not_nil)
  moreover have "rbind (castString env v) (\<lambda>s. case jsonError env s of Some e \<Rightarrow> Err e | None \<Rightarrow> Ok (GBytes s)) \<noteq> Ok GNil"
    by (intro rbind_not_nil) (simp split: option.split)
  moreover have "or_zero (GFloat64 0) (number_convert env Float64T v) \<noteq> Ok GNil"
    "or_zero (GInt64 0) (number_convert env Int64T v) \<noteq> Ok GNil"
    by (rule or_zero_not_nil [OF n]; simp)+
  ultimately show ?thesis
    using assms(2) unfolding insert_iff empty_iff by (elim disjE FalseE; simp add: convertValue_def)
qed

lemma Convert_Eval_not_nil:
  assumes "castTo \<in> {''signed'', ''unsigned'', ''double'', ''real'', ''json''}" "cv \<noteq> Ok GNil"
  shows "Convert_Eval env castTo cv \<noteq> Ok GNil"
proof (cases cv)
  case (Ok v)
  with assms have "convertValue env v castTo \<noteq> Ok GNil" by (intro convertValue_not_nil) auto
  with Ok assms(2) show ?thesis by (cases "convertValue env v castTo") (auto simp: Convert_Eval_def)
qed (simp_all add: Convert_Eval_def)

lemma In_Eval_not_nil: "lv \<noteq> Ok GNil \<Longrightarrow> In_Eval env rt lv els \<noteq> Ok GNil"
  by (auto simp: In_Eval_def res_simps split: option.splits if_splits)

lemma Not_Eval_not_nil: "cv \<noteq> Ok GNil \<Longrightarrow> Not_Eval cv \<noteq> Ok GNil"
  by (auto simp: Not_Eval_rbind res_simps split: if_splits)

lemma Arithmetic_Eval_not_nil: "lv \<noteq> Ok GNil \<Longrightarrow> rv \<noteq> Ok GNil \<Longrightarrow> Arithmetic_Eval env opr rt lv rv \<noteq> Ok GNil"
  unfolding Arithmetic_Eval_def using apply_op_value
  by (intro rbind_not_nil) (auto intro!: rbind_not_nil split: prod.split)

lemma case_branches_not_nil:
  "\<forall>(t, c, x) \<in> set brs. x \<noteq> Ok GNil \<Longrightarrow> els \<noteq> Ok GNil \<Longrightarrow> case_branches env v tv brs els \<noteq> Ok GNil"
  by (induction env v tv brs els rule: case_branches.induct) (auto intro!: rbind_not_nil simp: res_simps)




section \<open>Predicates on integers and field update\<close>

lemma int64_compare:
  assumes "cast_laws env"
  shows "sql_compare env Int64 (GInt64 a) (GInt64 b) = Ok (cmp_int (sint a) (sint b))"
    "sql_convert env Int64 (GInt64 a) = Ok (GInt64 a)"
  by (simp_all add: number_compare_def compareSignedInts_def compareNulls_def number_convert_def cast_lawsD [OF assms])

lemma in_columns_int64: "\<forall>t \<in> set ts. t = Ok Int64 \<Longrightarrow> in_columns 1 ts = Ok ()"
  by (induction "1 :: nat" ts rule: in_columns.induct) (auto simp: NumColumns_def)

text \<open>On BIGINT operands the predicates decide the integer relations: LT, EQ and BETWEEN on the values, and IN is
  membership in the list, NULL elements being skipped.\<close>

lemma int64_predicates:
  assumes "cast_laws env" "etype x = Ok Int64" "etype l = Ok Int64" "etype u = Ok Int64"
    "eval env x row = Ok (GInt64 a)" "eval env l row = Ok (GInt64 b)" "eval env u row = Ok (GInt64 c)"
    and "\<forall>e \<in> set es. etype e = Ok Int64 \<and> (eval env e row = Ok GNil \<or> (\<exists>d. eval env e row = Ok (GInt64 d)))"
  shows "eval env (LessThan x l) row = Ok (GBool (sint a < sint b))
    \<and> eval env (Equals x l) row = Ok (GBool (a = b))
    \<and> eval env (Between x l u) row = Ok (GBool (sint b \<le> sint a \<and> sint a \<le> sint c))
    \<and> eval env (In x (Tuple es)) row = Ok (GBool (\<exists>e \<in> set es. eval env e row = Ok (GInt64 a)))"
proof -
  have inj: "sint a = sint b \<longleftrightarrow> a = b" by (auto dest: signed_word_eqI)
  have "in_loop env Int64 (GInt64 a) (map (\<lambda>e. eval env e row) es) = 
     Ok (\<exists>e \<in> set es. eval env e row = Ok (GInt64 a))"
    using assms(8) by (subst in_loop_int64 [OF assms(1)]) (auto simp: image_iff eq_commute)
  moreover have "in_columns 1 (map etype es) = Ok ()" by (rule in_columns_int64) (use assms(8) in auto)
  moreover note int64_compare [OF assms(1)] int64_promote
  ultimately show ?thesis 
    using assms(2-7) inj unfolding eval.simps expr.case
    by (simp add: LessThan_Eval_def Equals_Eval_def Between_Eval_def In_Eval_def comparison_Compare_def compare_values_def
      type_eq_def compare_result_def cmp_int_def NumColumns_def comp_def del: sql_compare.simps sql_convert.simps)
qed

theorem int64_predicates_witness:
  "eval cast_env (Between (Literal (GInt64 3) Int64) (Literal (GInt64 (-1)) Int64) (Literal (GInt64 3) Int64)) []
     = Ok (GBool True)
   \<and> eval cast_env (In (Literal (GInt64 3) Int64) (Tuple [Literal GNil Int64, Literal (GInt64 3) Int64])) [] = Ok (GBool True)"
  using int64_predicates [OF cast_env_laws, of "Literal (GInt64 3) Int64" "Literal (GInt64 (-1)) Int64"
    "Literal (GInt64 3) Int64" "[]" 3 "-1" 3 "[Literal GNil Int64, Literal (GInt64 3) Int64]"]
  by simp

text \<open>SET of a column returns the row with that column alone replaced, and reading the column back gives the
  assigned value converted to the column's type.\<close>

lemma set_field_get_field:
  assumes "eval env (SetField (GetField i t tbl nm nl) e) row = Ok v"
  shows "\<exists>row'. v = GRow row' \<and> length row' = length row \<and> (\<forall>j. j \<noteq> nat i \<longrightarrow> row' ! j = row ! j)
    \<and> eval env (GetField i t tbl nm nl) row' =
        rbind (eval env e row) (\<lambda>x. if x = GNil then Ok GNil else sql_convert env t x)"
proof -
  from assms obtain x y where "0 \<le> i" "i < int (length row)" "eval env e row = Ok x"
    "(if x = GNil then Ok GNil else sql_convert env t x) = Ok y" "v = GRow (row[nat i := y])"
    by (auto simp: SetField_Eval_def set_field_target_def res_simps not_less split: if_splits)
  then show ?thesis by (intro exI [of _ "row[nat i := y]"]) (auto simp: GetField_Eval_def nat_less_iff)
qed

theorem set_field_get_field_witness:
  "\<exists>row'. eval cast_env (SetField (GetField 1 Int64 [] ''b'' False) (Literal (GInt8 4) Boolean)) [GNil, GInt64 0] = Ok (GRow row')
     \<and> row' ! 0 = GNil \<and> eval cast_env (GetField 1 Int64 [] ''b'' False) row' = Ok (GInt64 4)"
  using set_field_get_field [of cast_env 1 Int64 "[]" "''b''" False "Literal (GInt8 4) Boolean" "[GNil, GInt64 0]"
    "GRow [GNil, GInt64 4]"]
  by (simp add: SetField_Eval_def set_field_target_def number_convert_def cast_env_def int_val_def)

end
