(* ===== verification/Row_Iters.thy ===== *)
theory Row_Iters
  imports Rows Expressions
begin

text \<open>
  The row iterators of the plan nodes that read one row at a time: \<^verbatim>\<open>Limit\<close>, \<^verbatim>\<open>Offset\<close>, \<^verbatim>\<open>Filter\<close>, \<^verbatim>\<open>Project\<close>,
  \<^verbatim>\<open>Union\<close>, \<^verbatim>\<open>Distinct\<close>, \<^verbatim>\<open>OrderedDistinct\<close>, \<^verbatim>\<open>CrossJoin\<close> and \<^verbatim>\<open>Values\<close> (\<^verbatim>\<open>sql/plan/*.go\<close>).

  Each \<^verbatim>\<open>Next\<close> takes the \<^verbatim>\<open>Next\<close> of the child as an argument. The tracing span that \<^verbatim>\<open>sql.NewSpanIter\<close> wraps
  around an iterator only observes the calls and is left out. The theorems say what a node yields from what its
  child yields, errors included.
\<close>

section \<open>Limit and Offset\<close>

text \<open>The state of \<^verbatim>\<open>limitIter\<close> is \<^verbatim>\<open>currentPos\<close> and the child; \<^verbatim>\<open>currentPos\<close> never exceeds the limit.\<close>

definition limit_Next :: "int \<Rightarrow> ('s, row) nextfn \<Rightarrow> (int \<times> 's, row) nextfn" where
  "limit_Next limit nx = (\<lambda>(currentPos, s).
     if currentPos \<ge> limit then Some ((currentPos, s), Err EOF)
     else case nx s of
       None \<Rightarrow> None
     | Some (s', r) \<Rightarrow> Some ((currentPos + 1, s'), r))"

function offset_loop :: "('s, row) nextfn \<Rightarrow> int \<Rightarrow> 's \<Rightarrow> ((int \<times> 's) \<times> row res) option" where
  "offset_loop nx skip s =
     (if skip > 0 then
        (case nx s of
           None \<Rightarrow> None
         | Some (s', Ok _) \<Rightarrow> offset_loop nx (skip - 1) s'
         | Some (s', r) \<Rightarrow> Some ((skip, s'), r))
      else (case nx s of None \<Rightarrow> None | Some (s', r) \<Rightarrow> Some ((skip, s'), r)))"
  by pat_completeness auto
termination
  by (relation "measure (\<lambda>(nx, skip, s). nat skip)") auto

declare offset_loop.simps [simp del]

definition offset_Next :: "('s, row) nextfn \<Rightarrow> (int \<times> 's, row) nextfn" where
  "offset_Next nx = (\<lambda>(skip, s). offset_loop nx skip s)"

section \<open>Filter and Project\<close>

partial_function (option) filter_loop ::
  "(row \<Rightarrow> bool res) \<Rightarrow> ('s, row) nextfn \<Rightarrow> 's \<Rightarrow> ('s \<times> row res) option"
where
  "filter_loop cond nx s =
     (case nx s of
        None \<Rightarrow> None
      | Some (s', r) \<Rightarrow>
          (case r of
             Ok row \<Rightarrow>
               (case cond row of
                  Ok ok \<Rightarrow> if ok then Some (s', Ok row) else filter_loop cond nx s'
                | Err e \<Rightarrow> Some (s', Err e)
                | Panic \<Rightarrow> Some (s', Panic))
           | Err e \<Rightarrow> Some (s', Err e)
           | Panic \<Rightarrow> Some (s', Panic)))"

definition filter_Next :: "genv \<Rightarrow> expr \<Rightarrow> ('s, row) nextfn \<Rightarrow> ('s, row) nextfn" where
  "filter_Next env cond nx = filter_loop (EvaluateCondition env cond) nx"

definition projectRow :: "genv \<Rightarrow> expr list \<Rightarrow> row \<Rightarrow> row res" where
  "projectRow env expressions r = rmap (\<lambda>e. eval env e r) expressions"

definition project_Next :: "genv \<Rightarrow> expr list \<Rightarrow> ('s, row) nextfn \<Rightarrow> ('s, row) nextfn" where
  "project_Next env projections nx = (\<lambda>s.
     case nx s of
       None \<Rightarrow> None
     | Some (s', r) \<Rightarrow> Some (s', rbind r (projectRow env projections)))"

section \<open>Union\<close>

text \<open>
  The state is the current iterator, left or right, and whether \<^verbatim>\<open>nextIter\<close> is still set. \<open>closeL\<close> is the error
  of closing the left iterator, \<open>rightIter\<close> the result of the right node's \<^verbatim>\<open>RowIter\<close>. When that fails \<^verbatim>\<open>ui.cur\<close> is a nil
  interface, and a further \<^verbatim>\<open>Next\<close> panics.
\<close>

datatype ('l, 'r) union_cur = LeftIter 'l | RightIter 'r | NilIter

definition union_Next ::
  "('l, row) nextfn \<Rightarrow> ('r, row) nextfn \<Rightarrow> ('l \<Rightarrow> gerror option) \<Rightarrow> 'r res \<Rightarrow>
   (('l, 'r) union_cur \<times> bool, row) nextfn"
where
  "union_Next nxl nxr closeL rightIter = (\<lambda>(cur, nextIter).
     case cur of
       NilIter \<Rightarrow> Some ((NilIter, nextIter), Panic)
     | RightIter r \<Rightarrow> (case nxr r of None \<Rightarrow> None | Some (r', res) \<Rightarrow> Some ((RightIter r', nextIter), res))
     | LeftIter l \<Rightarrow>
         (case nxl l of
            None \<Rightarrow> None
          | Some (l', res) \<Rightarrow>
              if res \<noteq> Err EOF \<or> \<not> nextIter then Some ((LeftIter l', nextIter), res)
              else (case closeL l' of
                 Some e \<Rightarrow> Some ((LeftIter l', nextIter), Err e)
               | None \<Rightarrow>
                   (case rightIter of
                      Err e \<Rightarrow> Some ((NilIter, False), Err e)
                    | Panic \<Rightarrow> Some ((NilIter, False), Panic)
                    | Ok r \<Rightarrow> (case nxr r of
                        None \<Rightarrow> None
                      | Some (r', res') \<Rightarrow> Some ((RightIter r', False), res'))))))"

section \<open>Distinct\<close>

text \<open>
  The cache of \<^verbatim>\<open>distinctIter\<close> is the set of hashes seen so far, \<open>None\<close> once disposed of. \<open>hash\<close> is \<^verbatim>\<open>sql.CacheKey\<close>, a
  checksum of the row's formatted text; \<open>avail\<close> tells whether the memory manager finds memory for one more entry.
\<close>

partial_function (option) distinct_loop ::
  "(64 word set \<Rightarrow> bool) \<Rightarrow> (row \<Rightarrow> 64 word) \<Rightarrow> ('s, row) nextfn \<Rightarrow> 64 word set option \<Rightarrow> 's \<Rightarrow>
   ((64 word set option \<times> 's) \<times> row res) option"
where
  "distinct_loop avail hash nx seen s =
     (case nx s of
        None \<Rightarrow> None
      | Some (s', r) \<Rightarrow>
          (case r of
             Err e \<Rightarrow> Some ((if e = EOF then None else seen, s'), Err e)
           | Panic \<Rightarrow> Some ((seen, s'), Panic)
           | Ok row \<Rightarrow>
               (case seen of
                  None \<Rightarrow> Some ((None, s'), Panic)
                | Some S \<Rightarrow>
                    if hash row \<in> S then distinct_loop avail hash nx seen s'
                    else if \<not> avail S then Some ((seen, s'), Err (RegErr ErrNoMemoryAvailable))
                    else Some ((Some (insert (hash row) S), s'), Ok row))))"

definition distinct_Next ::
  "(64 word set \<Rightarrow> bool) \<Rightarrow> (row \<Rightarrow> 64 word) \<Rightarrow> ('s, row) nextfn \<Rightarrow> (64 word set option \<times> 's, row) nextfn" where
  "distinct_Next avail hash nx = (\<lambda>(seen, s). distinct_loop avail hash nx seen s)"

partial_function (option) ordered_distinct_loop ::
  "genv \<Rightarrow> schema \<Rightarrow> ('s, row) nextfn \<Rightarrow> row option \<Rightarrow> 's \<Rightarrow> ((row option \<times> 's) \<times> row res) option"
where
  "ordered_distinct_loop env sch nx prevRow s =
     (case nx s of
        None \<Rightarrow> None
      | Some (s', r) \<Rightarrow>
          (case r of
             Err e \<Rightarrow> Some ((prevRow, s'), Err e)
           | Panic \<Rightarrow> Some ((prevRow, s'), Panic)
           | Ok row \<Rightarrow>
               (case prevRow of
                  None \<Rightarrow> Some ((Some row, s'), Ok row)
                | Some p \<Rightarrow>
                    (case Row_Equals env p row sch of
                       Err e \<Rightarrow> Some ((prevRow, s'), Err e)
                     | Panic \<Rightarrow> Some ((prevRow, s'), Panic)
                     | Ok ok \<Rightarrow> if ok then ordered_distinct_loop env sch nx prevRow s'
                               else Some ((Some row, s'), Ok row)))))"

definition ordered_distinct_Next ::
  "genv \<Rightarrow> schema \<Rightarrow> ('s, row) nextfn \<Rightarrow> (row option \<times> 's, row) nextfn" where
  "ordered_distinct_Next env sch nx = (\<lambda>(prevRow, s). ordered_distinct_loop env sch nx prevRow s)"

section \<open>CrossJoin\<close>

text \<open>
  \<open>rp\<close> is the result of the right node's \<^verbatim>\<open>RowIter\<close>, called anew for each left row. Rows are not nil slices.
\<close>

record ('l, 'r) cross_iter =
  cj_l :: 'l
  cj_r :: "'r option"
  cj_leftRow :: "row option"

definition cross_left :: "('l, row) nextfn \<Rightarrow> ('l, 'r) cross_iter \<Rightarrow> (('l, 'r) cross_iter \<times> row res) option" where
  "cross_left nxl i =
     (case cj_leftRow i of
        Some row \<Rightarrow> Some (i, Ok row)
      | None \<Rightarrow> (case nxl (cj_l i) of
          None \<Rightarrow> None
        | Some (l', Ok row) \<Rightarrow> Some (i \<lparr> cj_l := l', cj_leftRow := Some row \<rparr>, Ok row)
        | Some (l', Err e) \<Rightarrow> Some (i \<lparr> cj_l := l' \<rparr>, Err e)
        | Some (l', Panic) \<Rightarrow> Some (i \<lparr> cj_l := l' \<rparr>, Panic)))"

partial_function (option) cross_Next ::
  "('l, row) nextfn \<Rightarrow> 'r res \<Rightarrow> ('r, row) nextfn \<Rightarrow> ('l, 'r) cross_iter \<Rightarrow>
   (('l, 'r) cross_iter \<times> row res) option"
where
  "cross_Next nxl rp nxr i =
     (case cross_left nxl i of
        None \<Rightarrow> None
      | Some (i', Err e) \<Rightarrow> Some (i', Err e)
      | Some (i', Panic) \<Rightarrow> Some (i', Panic)
      | Some (i', Ok leftRow) \<Rightarrow>
          (case (case cj_r i' of Some r \<Rightarrow> Ok r | None \<Rightarrow> rp) of
             Err e \<Rightarrow> Some (i', Err e)
           | Panic \<Rightarrow> Some (i', Panic)
           | Ok r \<Rightarrow>
               (case nxr r of
                  None \<Rightarrow> None
                | Some (r', Ok rightRow) \<Rightarrow> Some (i' \<lparr> cj_r := Some r' \<rparr>, Ok (leftRow @ rightRow))
                | Some (r', Err e) \<Rightarrow>
                    if e = EOF then cross_Next nxl rp nxr (i' \<lparr> cj_r := None, cj_leftRow := None \<rparr>)
                    else Some (i' \<lparr> cj_r := Some r' \<rparr>, Err e)
                | Some (r', Panic) \<Rightarrow> Some (i' \<lparr> cj_r := Some r' \<rparr>, Panic))))"

section \<open>Values\<close>

definition Values_RowIter :: "genv \<Rightarrow> expr list list \<Rightarrow> slice_iter res" where
  "Values_RowIter env tuples =
     rbind (rmap (\<lambda>et. rmap (\<lambda>e. eval env e []) et) tuples) (\<lambda>rows. Ok (RowsToRowIter rows))"

definition Union_Schema :: "schema \<Rightarrow> schema \<Rightarrow> schema" where
  "Union_Schema ls rs = map (\<lambda>i. if i < length rs
     then (ls ! i) \<lparr> col_Nullable := col_Nullable (ls ! i) \<or> col_Nullable (rs ! i) \<rparr>
     else ls ! i) [0..<length ls]"

section \<open>What the nodes yield\<close>

text \<open>
  The reference for the nodes that map each row to a row, drop it, or fail: rows up to the first failure, and the
  failure, which is the child's own at the end.
\<close>

fun process :: "(row \<Rightarrow> row option res) \<Rightarrow> row list \<Rightarrow> row res \<Rightarrow> row list \<times> row res" where
  "process f [] r = ([], r)"
| "process f (x # xs) r =
     (case f x of
        Ok None \<Rightarrow> process f xs r
      | Ok (Some y) \<Rightarrow> (y # fst (process f xs r), snd (process f xs r))
      | Err e \<Rightarrow> ([], Err e)
      | Panic \<Rightarrow> ([], Panic))"

text \<open>Two stages in a row are one stage.\<close>

lemma process_process:
  "process g (fst (process f xs r)) (snd (process f xs r)) =
   process (\<lambda>x. rbind (f x) (\<lambda>z. case z of None \<Rightarrow> Ok None | Some y \<Rightarrow> g y)) xs r"
  by (induction xs) (auto split: res.split option.split)

lemma process_total:
  "(\<And>x. x \<in> set xs \<Longrightarrow> f x = Ok (g x)) \<Longrightarrow> process f xs r = (List.map_filter g xs, r)"
  by (induction xs) (auto simp: map_filter_simps split: option.splits)

definition yield_pair :: "('s, row) nextfn \<Rightarrow> 's \<Rightarrow> row list \<times> row res \<Rightarrow> bool" where
  "yield_pair nx s p \<longleftrightarrow> (\<exists>t. yields nx s (fst p) (snd p) t)"

lemma yield_pairI: "yields nx s xs r t \<Longrightarrow> yield_pair nx s (xs, r)"
  by (auto simp: yield_pair_def)

lemma yield_pair_stop: "nx s = Some (t, r) \<Longrightarrow> \<not> is_Ok r \<Longrightarrow> yield_pair nx s ([], r)"
  by (auto simp: yield_pair_def intro: yields.stop)

lemma yield_pair_step:
  "nx s = Some (s', Ok x) \<Longrightarrow> yield_pair nx s' p \<Longrightarrow> yield_pair nx s (x # fst p, snd p)"
  by (auto simp: yield_pair_def intro: yields.step)

lemma yield_pair_same: "nx s = nx s' \<Longrightarrow> yield_pair nx s' p \<Longrightarrow> yield_pair nx s p"
  by (auto simp: yield_pair_def intro: yields_same_next)

text \<open>What \<^verbatim>\<open>RowIterToRows\<close> makes of the rows and the final failure.\<close>

definition finish :: "row list \<times> row res \<Rightarrow> row list res" where
  "finish p = (case snd p of Err e \<Rightarrow> if e = EOF then Ok (fst p) else Err e | _ \<Rightarrow> Panic)"

lemma yield_pair_drain: "yield_pair nx s p \<Longrightarrow> \<exists>t. drain nx s [] = Some (t, finish p)"
  by (auto simp: yield_pair_def finish_def drain_yields split: res.split)

lemma yield_pairE:
  assumes "yield_pair nx s p"
  obtains t where "yields nx s (fst p) (snd p) t"
  using assms by (auto simp: yield_pair_def)

lemma finish_EOF [simp]: "finish (xs, Err EOF) = Ok xs"
  by (simp add: finish_def)

lemma limit_yields:
  "yields nx s xs r t \<Longrightarrow> yield_pair (limit_Next limit nx) (pos, s)
     (take (nat (limit - pos)) xs, if nat (limit - pos) \<le> length xs then Err EOF else r)"
proof (induction arbitrary: pos rule: yields.induct)
  case (stop s t r)
  show ?case
  proof (cases "pos \<ge> limit")
    case False
    with stop show ?thesis by (auto simp: limit_Next_def intro!: yield_pair_stop)
  qed (auto simp: limit_Next_def intro!: yield_pair_stop)
next
  case (step s s' x xs r t)
  show ?case
  proof (cases "pos \<ge> limit")
    case False
    then have n: "nat (limit - pos) = Suc (nat (limit - (pos + 1)))" by simp
    have "limit_Next limit nx (pos, s) = Some ((pos + 1, s'), Ok x)"
      using False step.hyps by (simp add: limit_Next_def)
    from yield_pair_step [of "limit_Next limit nx", OF this step.IH [of "pos + 1"]]
    show ?thesis unfolding n by simp
  qed (auto simp: limit_Next_def intro!: yield_pair_stop)
qed

lemma offset_zero: "skip \<le> 0 \<Longrightarrow> yields nx s xs r t \<Longrightarrow> yield_pair (offset_Next nx) (skip, s) (xs, r)"
proof (rotate_tac, induction rule: yields.induct)
  case (stop s t r)
  then show ?case by (auto simp: offset_Next_def offset_loop.simps [of nx skip s] intro!: yield_pair_stop)
next
  case (step s s' x xs r t)
  then have "offset_Next nx (skip, s) = Some ((skip, s'), Ok x)"
    by (simp add: offset_Next_def offset_loop.simps [of nx skip s])
  from yield_pair_step [of "offset_Next nx", OF this step.IH] step.prems show ?case by simp
qed

lemma offset_yields:
  "yields nx s xs r t \<Longrightarrow> yield_pair (offset_Next nx) (skip, s) (drop (nat skip) xs, r)"
proof (induction arbitrary: skip rule: yields.induct)
  case (stop s t r)
  then have "offset_Next nx (skip, s) = Some ((skip, t), r)"
    by (cases r) (auto simp: offset_Next_def offset_loop.simps [of nx skip s])
  with stop show ?case by (auto intro!: yield_pair_stop)
next
  case (step s s' x xs r t)
  show ?case
  proof (cases "skip > 0")
    case True
    then have n: "nat skip = Suc (nat (skip - 1))" by simp
    have "offset_Next nx (skip, s) = offset_Next nx (skip - 1, s')"
      using True step.hyps by (simp add: offset_Next_def offset_loop.simps [of nx skip s])
    from yield_pair_same [of "offset_Next nx", OF this step.IH [of "skip - 1"]] show ?thesis unfolding n by simp
  next
    case False
    then show ?thesis using offset_zero [of skip nx s "x # xs" r t] step.hyps by (auto intro: yields.step)
  qed
qed

lemma filter_yields:
  "yields nx s xs r t \<Longrightarrow>
   yield_pair (filter_loop cond nx) s (process (\<lambda>x. rbind (cond x) (\<lambda>b. Ok (if b then Some x else None))) xs r)"
proof (induction rule: yields.induct)
  case (stop s t r)
  then show ?case by (cases r) (auto simp: filter_loop.simps [of cond nx s] intro!: yield_pair_stop)
next
  case (step s s' x xs r t)
  have *: "cond x = Ok False \<Longrightarrow> filter_loop cond nx s = filter_loop cond nx s'"
    using step.hyps by (simp add: filter_loop.simps [of cond nx s])
  have "cond x = Ok True \<Longrightarrow> filter_loop cond nx s = Some (s', Ok x)"
    "cond x = Err e \<Longrightarrow> filter_loop cond nx s = Some (s', Err e)"
    "cond x = Panic \<Longrightarrow> filter_loop cond nx s = Some (s', Panic)" for e
    using step.hyps by (simp_all add: filter_loop.simps [of cond nx s])
  with step.IH * show ?case
    by (cases "cond x") (auto intro: yield_pair_step yield_pair_stop yield_pair_same)
qed

lemma project_yields:
  "yields nx s xs r t \<Longrightarrow>
   yield_pair (project_Next env es nx) s (process (\<lambda>x. rbind (projectRow env es x) (\<lambda>y. Ok (Some y))) xs r)"
proof (induction rule: yields.induct)
  case (stop s t r)
  then show ?case by (cases r) (auto simp: project_Next_def intro!: yield_pair_stop)
next
  case (step s s' x xs r t)
  then show ?case
    by (cases "projectRow env es x")
       (auto simp: project_Next_def intro!: yield_pair_step [of "project_Next env es nx", unfolded project_Next_def]
         yield_pair_stop)
qed

lemma union_right:
  "yields nxr r ys q t \<Longrightarrow> yield_pair (union_Next nxl nxr closeL rightIter) (RightIter r, b) (ys, q)"
proof (induction rule: yields.induct)
  case (stop s t r)
  then show ?case by (auto simp: union_Next_def intro!: yield_pair_stop)
next
  case (step s s' x xs r t)
  then have "union_Next nxl nxr closeL rightIter (RightIter s, b) = Some ((RightIter s', b), Ok x)"
    by (simp add: union_Next_def)
  from yield_pair_step [of "union_Next nxl nxr closeL rightIter", OF this step.IH] show ?case by simp
qed

lemma union_yields:
  assumes "yields nxl l xs e l'" "e = Err EOF \<Longrightarrow> closeL l' = None \<and> rightIter = Ok r \<and> yields nxr r ys q t"
  shows "yield_pair (union_Next nxl nxr closeL rightIter) (LeftIter l, True)
           (if e = Err EOF then (xs @ ys, q) else (xs, e))"
  using assms
proof (induction rule: yields.induct)
  case (stop s l' e)
  show ?case
  proof (cases "e = Err EOF")
    case False
    with stop show ?thesis by (auto simp: union_Next_def intro!: yield_pair_stop)
  next
    case True
    then have "union_Next nxl nxr closeL rightIter (LeftIter s, True) =
        union_Next nxl nxr closeL rightIter (RightIter r, False)"
      using stop by (simp add: union_Next_def)
    with True stop.prems show ?thesis
      using yield_pair_same [of "union_Next nxl nxr closeL rightIter"] union_right [of nxr r ys q t] by fastforce
  qed
next
  case (step s s' x xs r t)
  then have "union_Next nxl nxr closeL rightIter (LeftIter s, True) = Some ((LeftIter s', True), Ok x)"
    by (simp add: union_Next_def)
  from yield_pair_step [of "union_Next nxl nxr closeL rightIter", OF this step.IH] step.prems
  show ?case by (auto split: if_splits)
qed

fun first_seen :: "(row \<Rightarrow> 64 word) \<Rightarrow> 64 word set \<Rightarrow> row list \<Rightarrow> row list" where
  "first_seen hash S [] = []"
| "first_seen hash S (x # xs) =
     (if hash x \<in> S then first_seen hash S xs else x # first_seen hash (insert (hash x) S) xs)"

lemma first_seen_hash: "hash ` set (first_seen hash S xs) = hash ` set xs - S"
  by (induction xs arbitrary: S) auto

lemma first_seen_subset: "set (first_seen hash S xs) \<subseteq> set xs"
  by (induction xs arbitrary: S) (auto split: if_splits)

lemma first_seen_distinct: "distinct (map hash (first_seen hash S xs))"
  by (induction xs arbitrary: S) (simp_all add: first_seen_hash)

lemma first_seen_inj:
  assumes "inj_on hash (set xs)"
  shows "set (first_seen hash {} xs) = set xs" "distinct (first_seen hash {} xs)"
proof -
  from first_seen_hash [of hash "{}" xs] first_seen_subset [of hash "{}" xs] first_seen_distinct [of hash "{}" xs]
  have "hash ` set (first_seen hash {} xs) = hash ` set xs"
    "set (first_seen hash {} xs) \<subseteq> set xs" "distinct (map hash (first_seen hash {} xs))" by auto
  with assms show "set (first_seen hash {} xs) = set xs" "distinct (first_seen hash {} xs)"
    by (auto simp: inj_on_image_eq_iff distinct_map)
qed

lemma distinct_yields:
  "yields nx s xs r t \<Longrightarrow>
   yield_pair (distinct_Next (\<lambda>_. True) hash nx) (Some S, s) (first_seen hash S xs, r)"
proof (induction arbitrary: S rule: yields.induct)
  case (stop s t r)
  then show ?case
    by (cases r) (auto simp: distinct_Next_def distinct_loop.simps [of _ hash nx _ s] intro!: yield_pair_stop)
next
  case (step s s' x xs r t)
  let ?N = "distinct_Next (\<lambda>_. True) hash nx"
  show ?case
  proof (cases "hash x \<in> S")
    case True
    then have "?N (Some S, s) = ?N (Some S, s')"
      using step.hyps by (simp add: distinct_Next_def distinct_loop.simps [of _ hash nx _ s])
    from yield_pair_same [of ?N, OF this step.IH] True show ?thesis by simp
  next
    case False
    then have "?N (Some S, s) = Some ((Some (insert (hash x) S), s'), Ok x)"
      using step.hyps by (simp add: distinct_Next_def distinct_loop.simps [of _ hash nx _ s])
    from yield_pair_step [of ?N, OF this step.IH] False show ?thesis by simp
  qed
qed

fun drop_repeats :: "(row \<Rightarrow> row \<Rightarrow> bool) \<Rightarrow> row option \<Rightarrow> row list \<Rightarrow> row list" where
  "drop_repeats eq prev [] = []"
| "drop_repeats eq prev (x # xs) =
     (if (case prev of None \<Rightarrow> False | Some p \<Rightarrow> eq p x) then drop_repeats eq prev xs
      else x # drop_repeats eq (Some x) xs)"

lemma ordered_distinct_yields:
  "yields nx s xs r t \<Longrightarrow>
   (\<And>a b. a \<in> set_option prev \<union> set xs \<Longrightarrow> b \<in> set xs \<Longrightarrow> Row_Equals env a b sch = Ok (eq a b)) \<Longrightarrow>
   yield_pair (ordered_distinct_Next env sch nx) (prev, s) (drop_repeats eq prev xs, r)"
proof (induction arbitrary: prev rule: yields.induct)
  case (stop s t r)
  then show ?case
    by (cases r)
       (auto simp: ordered_distinct_Next_def ordered_distinct_loop.simps [of env sch nx _ s] intro!: yield_pair_stop)
next
  case (step s s' x xs r t)
  let ?N = "ordered_distinct_Next env sch nx"
  show ?case
  proof (cases "case prev of None \<Rightarrow> False | Some p \<Rightarrow> eq p x")
    case True
    then obtain p where p: "prev = Some p" "eq p x" by (auto split: option.splits)
    then have "?N (prev, s) = ?N (prev, s')"
      using step.hyps step.prems [of p x]
      by (simp add: ordered_distinct_Next_def ordered_distinct_loop.simps [of env sch nx _ s])
    from yield_pair_same [of ?N, OF this step.IH] True step.prems show ?thesis by simp
  next
    case False
    then have "?N (prev, s) = Some ((Some x, s'), Ok x)"
      using step.hyps step.prems
      by (auto simp: ordered_distinct_Next_def ordered_distinct_loop.simps [of env sch nx _ s] split: option.splits)
    from yield_pair_step [of ?N, OF this step.IH] False step.prems show ?thesis by auto
  qed
qed

lemma drop_repeats_sorted:
  fixes key :: "row \<Rightarrow> 'k :: linorder"
  assumes "\<And>a b. a \<in> A \<Longrightarrow> b \<in> A \<Longrightarrow> eq a b \<longleftrightarrow> key a = key b"
    and "set_option prev \<union> set xs \<subseteq> A" "sorted (map key xs)" "\<forall>p \<in> set_option prev. \<forall>x \<in> set xs. key p \<le> key x"
  shows "sorted_wrt (<) (map key (drop_repeats eq prev xs))
    \<and> key ` set (drop_repeats eq prev xs) = key ` set xs - key ` set_option prev
    \<and> set (drop_repeats eq prev xs) \<subseteq> set xs"
  using assms(2-4)
proof (induction xs arbitrary: prev)
  case (Cons x xs)
  show ?case
  proof (cases "case prev of None \<Rightarrow> False | Some p \<Rightarrow> eq p x")
    case True
    then obtain p where p: "prev = Some p" "eq p x" by (auto split: option.splits)
    with Cons.prems assms(1) [of p x] have "key p = key x" by auto
    with p Cons.IH [of prev] Cons.prems show ?thesis by auto
  next
    case False
    with Cons.prems assms(1) have *: "\<forall>p \<in> set_option prev. key p < key x"
      by (fastforce split: option.splits simp: order_less_le)
    define ys where "ys = drop_repeats eq (Some x) xs"
    have ys: "sorted_wrt (<) (map key ys)" "key ` set ys = key ` set xs - {key x}" "set ys \<subseteq> set xs"
      using Cons.IH [of "Some x"] Cons.prems unfolding ys_def by auto
    have "\<forall>y \<in> set ys. key x < key y"
    proof
      fix y assume "y \<in> set ys"
      then have "key y \<noteq> key x" "y \<in> set xs" using ys by blast+
      with Cons.prems(2) show "key x < key y" by (simp add: order_less_le)
    qed
    then have "sorted_wrt (<) (map key (x # ys))" using ys(1) by simp
    moreover have "key y \<notin> key ` set_option prev" if "y \<in> set (x # xs)" for y
    proof -
      from that Cons.prems(2) have "key x \<le> key y" by auto
      with * show ?thesis by (auto dest!: bspec)
    qed
    then have "key ` set (x # xs) \<inter> key ` set_option prev = {}" by blast
    then have "key ` set (x # ys) = key ` set (x # xs) - key ` set_option prev" using ys(2) by auto
    moreover have "set (x # ys) \<subseteq> set (x # xs)" using ys(3) by auto
    moreover have "drop_repeats eq prev (x # xs) = x # ys" using False by (simp add: ys_def)
    ultimately show ?thesis by (simp only: simp_thms)
  qed
qed auto

lemma cross_open:
  assumes "yields nxr r ys e r'" "e = Err EOF" "cj_leftRow i = Some x" "cj_r i = Some r"
    and "yield_pair (cross_Next nxl rp nxr) (i \<lparr> cj_r := None, cj_leftRow := None \<rparr>) (zs, q)"
  shows "yield_pair (cross_Next nxl rp nxr) i (map (\<lambda>y. x @ y) ys @ zs, q)"
  using assms
proof (induction arbitrary: i rule: yields.induct)
  case (stop s t r)
  then have "cross_Next nxl rp nxr i = cross_Next nxl rp nxr (i \<lparr> cj_r := None, cj_leftRow := None \<rparr>)"
    by (subst cross_Next.simps) (simp add: cross_left_def)
  with stop show ?case by (auto intro: yield_pair_same)
next
  case (step s s' y ys r t)
  then have n: "cross_Next nxl rp nxr i = Some (i \<lparr> cj_r := Some s' \<rparr>, Ok (x @ y))"
    by (subst cross_Next.simps) (simp add: cross_left_def)
  have "yield_pair (cross_Next nxl rp nxr) (i \<lparr> cj_r := Some s' \<rparr>) (map (\<lambda>y. x @ y) ys @ zs, q)"
    using step.IH [of "i \<lparr> cj_r := Some s' \<rparr>"] step.prems by simp
  from yield_pair_step [of "cross_Next nxl rp nxr", OF n this] show ?case by simp
qed

lemma cross_yields:
  assumes "yields nxl l xs e l'" "rp = Ok r" "yields nxr r ys (Err EOF) r'"
    "cj_l i = l" "cj_r i = None" "cj_leftRow i = None"
  shows "yield_pair (cross_Next nxl rp nxr) i (concat (map (\<lambda>x. map (\<lambda>y. x @ y) ys) xs), e)"
  using assms
proof (induction arbitrary: i rule: yields.induct)
  case (stop s t e)
  then have "cross_Next nxl rp nxr i = Some (i \<lparr> cj_l := t \<rparr>, e)"
    by (subst cross_Next.simps, cases e) (simp_all add: cross_left_def)
  with stop show ?case by (auto intro!: yield_pair_stop)
next
  case (step s s' x xs e l')
  let ?i = "i \<lparr> cj_l := s', cj_leftRow := Some x, cj_r := Some r \<rparr>"
  have "cross_Next nxl rp nxr i = cross_Next nxl rp nxr ?i"
    using step.hyps step.prems
    by (simp add: cross_Next.simps [of nxl "Ok r" nxr i] cross_Next.simps [of nxl "Ok r" nxr ?i] cross_left_def
         split: option.split prod.split res.split)
  moreover have "?i \<lparr> cj_r := None, cj_leftRow := None \<rparr> = i \<lparr> cj_l := s' \<rparr>"
    using step.prems by (cases i) simp
  moreover have "yield_pair (cross_Next nxl rp nxr) (i \<lparr> cj_l := s' \<rparr>) (concat (map (\<lambda>x. map (\<lambda>y. x @ y) ys) xs), e)"
    using step.IH [of "i \<lparr> cj_l := s' \<rparr>"] step.prems by simp
  ultimately show ?case
    using cross_open [OF step.prems(2) refl, of ?i x nxl rp] by (auto intro: yield_pair_same)
qed

section \<open>Properties\<close>

text \<open>LIMIT n OFFSET m returns the n rows after the first m, fewer at the end of the input; a failure of the
  child is returned only when it is reached before the n-th row.\<close>

lemma limit_offset_rows:
  assumes "yields nx s xs r t"
  shows "\<exists>t'. drain (limit_Next n (offset_Next nx)) (0, m, s) [] =
     Some (t', finish (take (nat n) (drop (nat m) xs), if nat n \<le> length xs - nat m then Err EOF else r))"
proof -
  obtain u where "yields (offset_Next nx) (m, s) (drop (nat m) xs) r u"
    using offset_yields [OF assms, of m] by (auto elim: yield_pairE)
  from yield_pair_drain [OF limit_yields [OF this, of n 0]] show ?thesis by simp
qed

theorem limit_offset_rows_witness:
  "\<exists>t'. drain (limit_Next 2 (offset_Next slice_Next))
        (0, 1, RowsToRowIter [[GInt64 1], [GInt64 2], [GInt64 3], [GInt64 4]]) [] = Some (t', Ok [[GInt64 2], [GInt64 3]])"
proof -
  obtain t where "yields slice_Next (RowsToRowIter [[GInt64 1], [GInt64 2], [GInt64 3], [GInt64 4]])
      [[GInt64 1], [GInt64 2], [GInt64 3], [GInt64 4]] (Err EOF) t"
    using slice_yields by blast
  from limit_offset_rows [OF this, of 2 1] show ?thesis by simp
qed


lemma slice_yieldsE:
  obtains t where "yields slice_Next (RowsToRowIter rows) rows (Err EOF) t"
  using slice_yields [of rows] by blast

definition positive :: expr where
  "positive = GreaterThan (GetField 0 Int64 [] ''a'' True) (Literal (GInt64 0) Int64)"

lemma positive_rows:
  "EvaluateCondition cast_env positive [GInt64 w] = Ok (0 < sint w)"
  "EvaluateCondition cast_env positive [GNil] = Ok False"
  by (simp_all add: EvaluateCondition_def positive_def GreaterThan_Eval_def comparison_Compare_def GetField_Eval_def
    compare_values_def type_eq_def int64_compare [OF cast_env_laws] compare_result_def cmp_int_def
    del: sql_compare.simps sint_eq_iff)


text \<open>UNION ALL returns the rows of the left side and then those of the right side; a failure of the left side
  ends it.\<close>

lemma union_rows:
  assumes "yields nxl l xs e l'" "closeL l' = None" "rightIter = Ok r" "yields nxr r ys q t"
  shows "\<exists>t'. drain (union_Next nxl nxr closeL rightIter) (LeftIter l, True) [] =
     Some (t', finish (if e = Err EOF then (xs @ ys, q) else (xs, e)))"
  using yield_pair_drain [OF union_yields [OF assms(1), of closeL rightIter r nxr ys q t]] assms(2-4) by simp

theorem union_rows_witness:
  "\<exists>t'. drain (union_Next slice_Next slice_Next (\<lambda>_. None) (Ok (RowsToRowIter [[GInt64 2]])))
          (LeftIter (RowsToRowIter [[GInt64 1]]), True) [] = Some (t', Ok [[GInt64 1], [GInt64 2]])"
proof -
  obtain t u where "yields slice_Next (RowsToRowIter [[GInt64 1]]) [[GInt64 1]] (Err EOF) t"
    "yields slice_Next (RowsToRowIter [[GInt64 2]]) [[GInt64 2]] (Err EOF) u"
    by (meson slice_yieldsE)
  from union_rows [OF this(1) _ refl this(2), of "\<lambda>_. None"] show ?thesis by simp
qed

text \<open>DISTINCT returns, in order, the first row of each hash value: no two returned rows share a hash and every
  input row's hash is returned. When the hash separates the rows of the input this is the set of its rows, each
  once; rows that collide are lost.\<close>

lemma distinct_rows:
  assumes "yields nx s xs r t"
  shows "\<exists>ys. yield_pair (distinct_Next (\<lambda>_. True) hash nx) (Some {}, s) (ys, r)
     \<and> distinct (map hash ys) \<and> hash ` set ys = hash ` set xs \<and> set ys \<subseteq> set xs
     \<and> (inj_on hash (set xs) \<longrightarrow> distinct ys \<and> set ys = set xs)"
  using distinct_yields [OF assms, of hash "{}"] first_seen_distinct [of hash "{}" xs] first_seen_hash [of hash "{}" xs]
    first_seen_subset [of hash "{}" xs] first_seen_inj [of hash xs]
  by (intro exI [of _ "first_seen hash {} xs"]) simp

theorem distinct_rows_witness:
  "\<exists>ys. yield_pair (distinct_Next (\<lambda>_. True) (\<lambda>x. of_nat (length x)) slice_Next)
       (Some {}, RowsToRowIter [[GNil], [], [GNil]]) (ys, Err EOF) \<and> distinct ys \<and> set ys = {[GNil], []}"
proof -
  obtain t where "yields slice_Next (RowsToRowIter [[GNil], [], [GNil]]) [[GNil], [], [GNil]] (Err EOF) t"
    by (rule slice_yieldsE)
  from distinct_rows [OF this, of "\<lambda>x. of_nat (length x)"] show ?thesis by (auto simp: insert_commute)
qed

text \<open>On rows sorted by a key that decides \<^verbatim>\<open>Row.Equals\<close>, OrderedDistinct returns one row for each key, in
  increasing order: the optimised node agrees with DISTINCT on sorted input.\<close>

lemma ordered_distinct_rows:
  fixes key :: "row \<Rightarrow> 'k :: linorder"
  assumes "yields nx s xs r t" "sorted (map key xs)"
    and "\<forall>a \<in> set xs. \<forall>b \<in> set xs. Row_Equals env a b sch = Ok (key a = key b)"
  shows "\<exists>ys. yield_pair (ordered_distinct_Next env sch nx) (None, s) (ys, r)
     \<and> sorted_wrt (<) (map key ys) \<and> key ` set ys = key ` set xs \<and> set ys \<subseteq> set xs"
proof -
  have "yield_pair (ordered_distinct_Next env sch nx) (None, s) (drop_repeats (\<lambda>a b. key a = key b) None xs, r)"
    by (rule ordered_distinct_yields [OF assms(1)]) (use assms(3) in auto)
  moreover note drop_repeats_sorted [of "set xs" "\<lambda>a b. key a = key b" key None xs] assms(2)
  ultimately show ?thesis by auto
qed

lemma Row_Equals_int64:
  "Row_Equals cast_env [GInt64 a] [GInt64 b] [not_null_column] = Ok (sint a = sint b)"
  by (simp add: Row_Equals_def not_null_column_def int64_compare [OF cast_env_laws] cmp_int_def del: sql_compare.simps)

theorem ordered_distinct_rows_witness:
  "\<exists>ys. yield_pair (ordered_distinct_Next cast_env [not_null_column] slice_Next)
        (None, RowsToRowIter [[GInt64 1], [GInt64 1], [GInt64 4]]) (ys, Err EOF)
     \<and> (\<lambda>x. sint (case hd x of GInt64 w \<Rightarrow> w | _ \<Rightarrow> 0)) ` set ys = {1, 4}"
proof -
  let ?key = "\<lambda>x. sint (case hd x of GInt64 w \<Rightarrow> w | _ \<Rightarrow> 0)"
  obtain t where "yields slice_Next (RowsToRowIter [[GInt64 1], [GInt64 1], [GInt64 4]])
      [[GInt64 1], [GInt64 1], [GInt64 4]] (Err EOF) t"
    by (rule slice_yieldsE)
  from ordered_distinct_rows [OF this, of ?key cast_env "[not_null_column]"]
  show ?thesis by (auto simp: Row_Equals_int64)
qed

text \<open>The cross join pairs every left row with every right row, left-major, and ends as its left side does.\<close>

lemma cross_join_rows:
  assumes "yields nxl l xs e l'" "yields nxr r ys (Err EOF) r'"
  shows "\<exists>t. drain (cross_Next nxl (Ok r) nxr) \<lparr> cj_l = l, cj_r = None, cj_leftRow = None \<rparr> [] =
     Some (t, finish (concat (map (\<lambda>x. map (\<lambda>y. x @ y) ys) xs), e))"
  using yield_pair_drain [OF cross_yields [OF assms(1) refl assms(2),
    of "\<lparr> cj_l = l, cj_r = None, cj_leftRow = None \<rparr>"]] by simp

theorem cross_join_rows_witness:
  "\<exists>t. drain (cross_Next slice_Next (Ok (RowsToRowIter [[GBool True], [GNil]])) slice_Next)
      \<lparr> cj_l = RowsToRowIter [[GInt64 1], [GInt64 2]], cj_r = None, cj_leftRow = None \<rparr> [] =
     Some (t, Ok [[GInt64 1, GBool True], [GInt64 1, GNil], [GInt64 2, GBool True], [GInt64 2, GNil]])"
proof -
  obtain t u where "yields slice_Next (RowsToRowIter [[GInt64 1], [GInt64 2]]) [[GInt64 1], [GInt64 2]] (Err EOF) t"
    "yields slice_Next (RowsToRowIter [[GBool True], [GNil]]) [[GBool True], [GNil]] (Err EOF) u"
    by (meson slice_yieldsE)
  from cross_join_rows [OF this] show ?thesis by simp
qed

lemma Values_rows:
  assumes "Values_RowIter env tuples = Ok it"
  shows "\<exists>rows t. rmap (\<lambda>et. rmap (\<lambda>e. eval env e []) et) tuples = Ok rows \<and> yields slice_Next it rows (Err EOF) t"
  using assms slice_yields by (auto simp: Values_RowIter_def res_simps)

end
