(* ===== verification/Joins.thy ===== *)
theory Joins
  imports Row_Iters
begin

text \<open>
  Inner, left and right joins (\<^verbatim>\<open>joinIter\<close> of \<^verbatim>\<open>sql/plan/join.go\<close>): one iterator for the three join types and for
  three modes. It starts in an unknown mode, caching the secondary side while it reads it for the first time, and then
  joins in memory, or switches to re-reading the secondary side for each primary row when memory runs out.

  \<open>avail n\<close> tells whether the memory manager has memory when the cache holds \<open>n\<close> rows; it stands for both
  \<^verbatim>\<open>Memory.HasAvailable\<close> and the check in \<^verbatim>\<open>rowsCache.Add\<close>. \<open>rp\<close> is the result of the secondary node's \<^verbatim>\<open>RowIter\<close>.
  Rows are not nil slices.
\<close>

section \<open>The iterator\<close>

datatype (plugins only: code size) join_type = JoinTypeInner | JoinTypeLeft | JoinTypeRight

datatype (plugins only: code size) join_mode = UnknownMode | MemoryMode | MultipassMode

record ('p, 'r) join_iter =
  ji_primary :: 'p
  ji_secondary :: "'r option"
  ji_primaryRow :: "row option"
  ji_foundMatch :: bool
  ji_mode :: join_mode
  ji_secondaryRows :: "row list"
  ji_pos :: nat

definition new_joinIter :: "join_mode \<Rightarrow> 'p \<Rightarrow> ('p, 'r) join_iter" where
  "new_joinIter mode primary = \<lparr> ji_primary = primary, ji_secondary = None, ji_primaryRow = None,
     ji_foundMatch = False, ji_mode = mode, ji_secondaryRows = [], ji_pos = 0 \<rparr>"

definition conditionIsTrue :: "genv \<Rightarrow> row \<Rightarrow> expr \<Rightarrow> bool res" where
  "conditionIsTrue env r cond = rbind (eval env cond r) (\<lambda>v. Ok (v = GBool True))"

text \<open>\<^verbatim>\<open>copy(dst, src)\<close> on slices.\<close>

definition go_copy :: "'a list \<Rightarrow> 'a list \<Rightarrow> 'a list" where
  "go_copy dst src = take (length dst) src @ drop (length src) dst"

definition join_buildRow :: "join_type \<Rightarrow> nat \<Rightarrow> row \<Rightarrow> row \<Rightarrow> row res" where
  "join_buildRow typ rowSize primary secondary =
     (let r = replicate rowSize GNil; n = length primary in
      if rowSize < n then Panic
      else if typ = JoinTypeRight then
        (let r1 = go_copy r secondary
         in Ok (take (rowSize - n) r1 @ go_copy (drop (rowSize - n) r1) primary))
      else
        (let r1 = go_copy r primary
         in Ok (take n r1 @ go_copy (drop n r1) secondary)))"

definition loadPrimary :: "('p, row) nextfn \<Rightarrow> ('p, 'r) join_iter \<Rightarrow> (('p, 'r) join_iter \<times> row res) option" where
  "loadPrimary nxp i =
     (case ji_primaryRow i of
        Some r \<Rightarrow> Some (i, Ok r)
      | None \<Rightarrow> (case nxp (ji_primary i) of
          None \<Rightarrow> None
        | Some (p', Ok r) \<Rightarrow> Some (i \<lparr> ji_primary := p', ji_primaryRow := Some r, ji_foundMatch := False \<rparr>, Ok r)
        | Some (p', Err e) \<Rightarrow>
            Some (if e = EOF then i \<lparr> ji_primary := p', ji_secondaryRows := [] \<rparr> else i \<lparr> ji_primary := p' \<rparr>, Err e)
        | Some (p', Panic) \<Rightarrow> Some (i \<lparr> ji_primary := p' \<rparr>, Panic)))"

text \<open>The loop of \<^verbatim>\<open>loadSecondaryInMemory\<close>: the rows in the cache when it ends, and how.\<close>

partial_function (option) load_loop ::
  "(nat \<Rightarrow> bool) \<Rightarrow> ('r, row) nextfn \<Rightarrow> 'r \<Rightarrow> row list \<Rightarrow> (row list \<times> unit res) option"
where
  "load_loop avail nxr r acc =
     (case nxr r of
        None \<Rightarrow> None
      | Some (r', Err e) \<Rightarrow> Some (acc, if e = EOF then Ok () else Err e)
      | Some (r', Panic) \<Rightarrow> Some (acc, Panic)
      | Some (r', Ok row) \<Rightarrow>
          if avail (length acc) then load_loop avail nxr r' (acc @ [row])
          else Some (acc, Err (RegErr ErrNoMemoryAvailable)))"

definition loadSecondaryInMemory ::
  "(nat \<Rightarrow> bool) \<Rightarrow> 'r res \<Rightarrow> ('r, row) nextfn \<Rightarrow> row list \<Rightarrow> (row list \<times> unit res) option" where
  "loadSecondaryInMemory avail rp nxr cached =
     (case rp of
        Err e \<Rightarrow> Some (cached, Err e)
      | Panic \<Rightarrow> Some (cached, Panic)
      | Ok r \<Rightarrow> (case load_loop avail nxr r cached of
          None \<Rightarrow> None
        | Some (rows, res) \<Rightarrow> Some (rows, rbind res (\<lambda>_. if rows = [] then Err EOF else Ok ()))))"

definition memory_row :: "('p, 'r) join_iter \<Rightarrow> ('p, 'r) join_iter \<times> row res" where
  "memory_row i =
     (if ji_pos i \<ge> length (ji_secondaryRows i)
      then (i \<lparr> ji_primaryRow := None, ji_pos := 0 \<rparr>, Err EOF)
      else (i \<lparr> ji_pos := Suc (ji_pos i) \<rparr>, Ok (ji_secondaryRows i ! ji_pos i)))"

definition cache_secondary :: "(nat \<Rightarrow> bool) \<Rightarrow> row \<Rightarrow> ('p, 'r) join_iter \<Rightarrow> ('p, 'r) join_iter" where
  "cache_secondary avail r i =
     (if ji_mode i = UnknownMode then
        (if avail (length (ji_secondaryRows i))
         then i \<lparr> ji_secondaryRows := ji_secondaryRows i @ [r] \<rparr>
         else i \<lparr> ji_secondaryRows := [], ji_mode := MultipassMode \<rparr>)
      else i)"

definition loadSecondary ::
  "(nat \<Rightarrow> bool) \<Rightarrow> 'r res \<Rightarrow> ('r, row) nextfn \<Rightarrow> ('p, 'r) join_iter \<Rightarrow> (('p, 'r) join_iter \<times> row res) option" where
  "loadSecondary avail rp nxr i =
     (if ji_mode i = MemoryMode then
        (if ji_secondaryRows i = [] then
           (case loadSecondaryInMemory avail rp nxr [] of
              None \<Rightarrow> None
            | Some (rows, Ok _) \<Rightarrow> Some (memory_row (i \<lparr> ji_secondaryRows := rows \<rparr>))
            | Some (rows, Err e) \<Rightarrow> Some (i \<lparr> ji_secondaryRows := rows \<rparr>, Err e)
            | Some (rows, Panic) \<Rightarrow> Some (i \<lparr> ji_secondaryRows := rows \<rparr>, Panic))
         else Some (memory_row i))
      else
        (case (case ji_secondary i of Some r \<Rightarrow> Ok r | None \<Rightarrow> rp) of
           Err e \<Rightarrow> Some (i, Err e)
         | Panic \<Rightarrow> Some (i, Panic)
         | Ok r \<Rightarrow>
             (case nxr r of
                None \<Rightarrow> None
              | Some (r', Ok row) \<Rightarrow> Some (cache_secondary avail row (i \<lparr> ji_secondary := Some r' \<rparr>), Ok row)
              | Some (r', Panic) \<Rightarrow> Some (i \<lparr> ji_secondary := Some r' \<rparr>, Panic)
              | Some (r', Err e) \<Rightarrow>
                  if e = EOF then
                    Some (i \<lparr> ji_secondary := None, ji_primaryRow := None,
                              ji_mode := (if ji_mode i = UnknownMode then MemoryMode else ji_mode i) \<rparr>, Err EOF)
                  else Some (i \<lparr> ji_secondary := Some r' \<rparr>, Err e))))"

text \<open>One round of the loop in \<^verbatim>\<open>joinIter.Next\<close>; \<open>None\<close> as its result is \<^verbatim>\<open>continue\<close>.\<close>

definition join_round ::
  "genv \<Rightarrow> expr \<Rightarrow> join_type \<Rightarrow> nat \<Rightarrow> (nat \<Rightarrow> bool) \<Rightarrow> ('p, row) nextfn \<Rightarrow> 'r res \<Rightarrow> ('r, row) nextfn \<Rightarrow>
   ('p, 'r) join_iter \<Rightarrow> (('p, 'r) join_iter \<times> row res option) option"
where
  "join_round env cond typ rowSize avail nxp rp nxr i =
     (case loadPrimary nxp i of
        None \<Rightarrow> None
      | Some (i1, Err e) \<Rightarrow> Some (i1, Some (Err e))
      | Some (i1, Panic) \<Rightarrow> Some (i1, Some Panic)
      | Some (i1, Ok primary) \<Rightarrow>
          (case loadSecondary avail rp nxr i1 of
             None \<Rightarrow> None
           | Some (i2, Panic) \<Rightarrow> Some (i2, Some Panic)
           | Some (i2, Err e) \<Rightarrow>
               if e = EOF then
                 (if \<not> ji_foundMatch i2 \<and> (typ = JoinTypeLeft \<or> typ = JoinTypeRight)
                  then Some (i2, Some (join_buildRow typ rowSize primary []))
                  else Some (i2, None))
               else Some (i2, Some (Err e))
           | Some (i2, Ok secondary) \<Rightarrow>
               (case rbind (join_buildRow typ rowSize primary secondary) (\<lambda>row.
                       rbind (conditionIsTrue env row cond) (\<lambda>matches. Ok (row, matches))) of
                  Err e \<Rightarrow> Some (i2, Some (Err e))
                | Panic \<Rightarrow> Some (i2, Some Panic)
                | Ok (row, matches) \<Rightarrow>
                    if \<not> matches then Some (i2, None)
                    else Some (i2 \<lparr> ji_foundMatch := True \<rparr>, Some (Ok row)))))"

definition join_Next ::
  "genv \<Rightarrow> expr \<Rightarrow> join_type \<Rightarrow> nat \<Rightarrow> (nat \<Rightarrow> bool) \<Rightarrow> ('p, row) nextfn \<Rightarrow> 'r res \<Rightarrow> ('r, row) nextfn \<Rightarrow>
   (('p, 'r) join_iter, row) nextfn"
where
  "join_Next env cond typ rowSize avail nxp rp nxr =
     go_loop (join_round env cond typ rowSize avail nxp rp nxr)"

text \<open>\<^verbatim>\<open>makeNullable\<close>, the schema of the optional side of an outer join.\<close>

definition makeNullable :: "schema \<Rightarrow> schema" where
  "makeNullable cols = map (\<lambda>c. c \<lparr> col_Nullable := True \<rparr>) cols"

section \<open>What a join returns\<close>

definition joined :: "join_type \<Rightarrow> row \<Rightarrow> row \<Rightarrow> row" where
  "joined typ p s = (if typ = JoinTypeRight then s @ p else p @ s)"

lemma join_buildRow_joined:
  "length p + length s = n \<Longrightarrow> join_buildRow typ n p s = Ok (joined typ p s)"
  by (auto simp: join_buildRow_def joined_def go_copy_def Let_def)

lemma join_buildRow_unmatched:
  "length p \<le> n \<Longrightarrow> join_buildRow typ n p [] = Ok (joined typ p (replicate (n - length p) GNil))"
  by (auto simp: join_buildRow_def joined_def go_copy_def Let_def)

text \<open>
  The rows for one primary row: its matches in the order of the secondary side, or the row padded with NULLs when
  there is none and the join is an outer one; \<open>found\<close> is whether a match was returned before.
\<close>

definition row_matches :: "join_type \<Rightarrow> nat \<Rightarrow> (row \<Rightarrow> bool) \<Rightarrow> bool \<Rightarrow> row \<Rightarrow> row list \<Rightarrow> row list" where
  "row_matches typ n holds found p ys =
     (let ms = filter holds (map (joined typ p) ys)
      in if ms = [] \<and> \<not> found \<and> typ \<noteq> JoinTypeInner then [joined typ p (replicate (n - length p) GNil)] else ms)"

definition join_spec :: "join_type \<Rightarrow> nat \<Rightarrow> (row \<Rightarrow> bool) \<Rightarrow> row list \<Rightarrow> row list \<Rightarrow> row list" where
  "join_spec typ n holds xs ys = concat (map (\<lambda>p. row_matches typ n holds False p ys) xs)"

section \<open>Invariant of the three modes\<close>

text \<open>
  \<open>join_inner ... i x m zs\<close>: the iterator works on the primary row \<open>x\<close>, has found a match before or not, and has the
  secondary rows \<open>zs\<close> of \<open>ys\<close> still to read; \<open>join_between\<close>: it is between two primary rows.
\<close>

definition cache_loaded :: "(nat \<Rightarrow> bool) \<Rightarrow> row list \<Rightarrow> ('p, 'r) join_iter \<Rightarrow> bool" where
  "cache_loaded avail ys i \<longleftrightarrow> ji_secondaryRows i = ys \<or> (ji_secondaryRows i = [] \<and> avail = (\<lambda>_. True))"

definition join_inner ::
  "(nat \<Rightarrow> bool) \<Rightarrow> ('r, row) nextfn \<Rightarrow> row list \<Rightarrow> ('p, 'r) join_iter \<Rightarrow> row \<Rightarrow> bool \<Rightarrow> row list \<Rightarrow> bool"
where
  "join_inner avail nxr ys i x m zs \<longleftrightarrow> ji_primaryRow i = Some x \<and> ji_foundMatch i = m \<and>
     (case ji_mode i of
        MemoryMode \<Rightarrow> ji_secondary i = None \<and> cache_loaded avail ys i \<and> zs = drop (ji_pos i) ys
          \<and> (ji_secondaryRows i = [] \<longrightarrow> ji_pos i = 0)
      | UnknownMode \<Rightarrow> ji_pos i = 0 \<and> ((ji_secondary i = None \<and> ji_secondaryRows i = [] \<and> zs = ys)
          \<or> (\<exists>r r'. ji_secondary i = Some r \<and> yields nxr r zs (Err EOF) r' \<and> ji_secondaryRows i @ zs = ys))
      | MultipassMode \<Rightarrow> ji_pos i = 0 \<and> ((ji_secondary i = None \<and> zs = ys)
          \<or> (\<exists>r r'. ji_secondary i = Some r \<and> yields nxr r zs (Err EOF) r')))"

definition join_between ::
  "(nat \<Rightarrow> bool) \<Rightarrow> row list \<Rightarrow> ('p, 'r) join_iter \<Rightarrow> bool" where
  "join_between avail ys i \<longleftrightarrow> ji_primaryRow i = None \<and> ji_secondary i = None \<and> ji_pos i = 0 \<and>
     (ji_mode i = MemoryMode \<longrightarrow> cache_loaded avail ys i) \<and>
     (ji_mode i = UnknownMode \<longrightarrow> ji_secondaryRows i = [])"

lemma load_loop_yields:
  "yields nxr r zs e r' \<Longrightarrow> e = Err EOF \<Longrightarrow> load_loop (\<lambda>_. True) nxr r acc = Some (acc @ zs, Ok ())"
proof (induction arbitrary: acc rule: yields.induct)
  case (stop s t r)
  then show ?case by (simp add: load_loop.simps [of _ nxr s])
next
  case (step s s' x xs r t)
  then show ?case by (simp add: load_loop.simps [of _ nxr s])
qed

lemma join_inner_new:
  "join_between avail ys i \<Longrightarrow>
   join_inner avail nxr ys (i \<lparr> ji_primary := p, ji_primaryRow := Some x, ji_foundMatch := False \<rparr>) x False ys"
  by (auto simp: join_between_def join_inner_def cache_loaded_def split: join_mode.split)

lemma loadSecondary_memory:
  assumes "join_inner avail nxr ys i x m zs" "ji_mode i = MemoryMode" "yields nxr r ys (Err EOF) r'" "ys \<noteq> []"
  shows "loadSecondary avail (Ok r) nxr i = Some (memory_row (i \<lparr> ji_secondaryRows := ys \<rparr>))"
proof (cases "ji_secondaryRows i = []")
  case True
  with assms have "avail = (\<lambda>_. True)" by (auto simp: join_inner_def cache_loaded_def)
  then show ?thesis using True assms load_loop_yields [OF assms(3) refl, of "[]"]
    by (simp add: loadSecondary_def loadSecondaryInMemory_def)
next
  case False
  with assms have "ji_secondaryRows i = ys" by (auto simp: join_inner_def cache_loaded_def)
  then have "i \<lparr> ji_secondaryRows := ys \<rparr> = i" by (cases i) simp
  with False assms(2) show ?thesis by (simp add: loadSecondary_def)
qed

lemma join_inner_reader:
  assumes "join_inner avail nxr ys i x m zs" "ji_mode i \<noteq> MemoryMode" "yields nxr r ys (Err EOF) r'"
  obtains r0 u where "(case ji_secondary i of Some q \<Rightarrow> Ok q | None \<Rightarrow> Ok r) = Ok r0" "yields nxr r0 zs (Err EOF) u"
    "ji_mode i = UnknownMode \<longrightarrow> ji_secondaryRows i @ zs = ys" "ji_pos i = 0" "ji_primaryRow i = Some x"
    "ji_foundMatch i = m"
  using assms by (cases "ji_mode i") (auto simp: join_inner_def)

lemma loadSecondary_row:
  assumes "join_inner avail nxr ys i x m (z # zs)" "yields nxr r ys (Err EOF) r'" "ys \<noteq> []"
  shows "\<exists>i'. loadSecondary avail (Ok r) nxr i = Some (i', Ok z) \<and> join_inner avail nxr ys i' x m zs
    \<and> ji_primary i' = ji_primary i"
proof (cases "ji_mode i = MemoryMode")
  case True
  have *: "ji_primaryRow i = Some x" "ji_foundMatch i = m" "ji_secondary i = None" "z # zs = drop (ji_pos i) ys"
    using assms(1) True by (auto simp: join_inner_def)
  then have "ji_pos i < length ys" by (metis drop_all linorder_not_le list.distinct(1))
  moreover have "ys ! ji_pos i = z" by (metis "*"(4) nth_via_drop)
  moreover have "drop (Suc (ji_pos i)) ys = zs" by (metis "*"(4) drop_Suc list.sel(3) tl_drop)
  ultimately show ?thesis using * True loadSecondary_memory [OF assms(1) True assms(2,3)] assms(3)
    by (simp add: memory_row_def join_inner_def cache_loaded_def)
next
  case False
  from join_inner_reader [OF assms(1) False assms(2)] obtain r0 u where
    r0: "(case ji_secondary i of Some q \<Rightarrow> Ok q | None \<Rightarrow> Ok r) = Ok r0" "yields nxr r0 (z # zs) (Err EOF) u"
    "ji_mode i = UnknownMode \<longrightarrow> ji_secondaryRows i @ z # zs = ys" "ji_pos i = 0" "ji_primaryRow i = Some x"
    "ji_foundMatch i = m" by blast
  from r0(2) obtain r1 where "nxr r0 = Some (r1, Ok z)" "yields nxr r1 zs (Err EOF) u" by (elim yields_ConsE) auto
  with r0 False show ?thesis
    by (cases "ji_mode i") (auto simp: loadSecondary_def cache_secondary_def join_inner_def)
qed

lemma loadSecondary_end:
  assumes "join_inner avail nxr ys i x m []" "yields nxr r ys (Err EOF) r'" "ys \<noteq> []"
  shows "\<exists>i'. loadSecondary avail (Ok r) nxr i = Some (i', Err EOF) \<and> join_between avail ys i'
    \<and> ji_foundMatch i' = m \<and> ji_primary i' = ji_primary i"
proof (cases "ji_mode i = MemoryMode")
  case True
  then have "length ys \<le> ji_pos i" "ji_foundMatch i = m" "ji_secondary i = None"
    using assms(1) by (auto simp: join_inner_def)
  with True loadSecondary_memory [OF assms(1) True assms(2,3)] show ?thesis
    by (simp add: memory_row_def join_between_def cache_loaded_def)
next
  case False
  from join_inner_reader [OF assms(1) False assms(2)] obtain r0 u where
    r0: "(case ji_secondary i of Some q \<Rightarrow> Ok q | None \<Rightarrow> Ok r) = Ok r0" "yields nxr r0 [] (Err EOF) u"
    "ji_mode i = UnknownMode \<longrightarrow> ji_secondaryRows i @ [] = ys" "ji_pos i = 0" "ji_primaryRow i = Some x"
    "ji_foundMatch i = m" by blast
  from r0(2) have "nxr r0 = Some (u, Err EOF)" by (elim yields_NilE) auto
  with r0 False show ?thesis
    by (cases "ji_mode i") (auto simp: loadSecondary_def join_between_def cache_loaded_def)
qed

section \<open>Correctness of the join\<close>

text \<open>The condition evaluates on every pair of rows, and the rows have the widths of the schemas.\<close>

definition join_total :: "genv \<Rightarrow> expr \<Rightarrow> join_type \<Rightarrow> nat \<Rightarrow> (row \<Rightarrow> bool) \<Rightarrow> row list \<Rightarrow> row list \<Rightarrow> bool" where
  "join_total env cond typ n holds xs ys \<longleftrightarrow> (\<forall>x \<in> set xs. length x \<le> n \<and> (\<forall>y \<in> set ys. length x + length y = n
     \<and> conditionIsTrue env (joined typ x y) cond = Ok (holds (joined typ x y))))"

lemma join_inner_yields:
  assumes "join_total env cond typ n holds [x] ys" "yields nxr r ys (Err EOF) r'" "ys \<noteq> []"
    and "join_inner avail nxr ys i x m zs" "set zs \<subseteq> set ys"
    and rest: "\<And>j. join_between avail ys j \<Longrightarrow> ji_primary j = ji_primary i \<Longrightarrow>
      yield_pair (join_Next env cond typ n avail nxp (Ok r) nxr) j (ws, q)"
  shows "yield_pair (join_Next env cond typ n avail nxp (Ok r) nxr) i (row_matches typ n holds m x zs @ ws, q)"
  using assms(4-)
proof (induction zs arbitrary: i m)
  case Nil
  let ?N = "join_Next env cond typ n avail nxp (Ok r) nxr"
  from loadSecondary_end [OF Nil.prems(1) assms(2,3)] obtain i' where
    i': "loadSecondary avail (Ok r) nxr i = Some (i', Err EOF)" "join_between avail ys i'" "ji_foundMatch i' = m"
    "ji_primary i' = ji_primary i" by auto
  have lp: "loadPrimary nxp i = Some (i, Ok x)" using Nil.prems(1) by (simp add: loadPrimary_def join_inner_def)
  note rest' = Nil.prems(3) [OF i'(2,4)]
  show ?case
  proof (cases "\<not> m \<and> typ \<noteq> JoinTypeInner")
    case True
    then have "?N i = Some (i', Ok (joined typ x (replicate (n - length x) GNil)))"
      using i' lp assms(1) unfolding join_Next_def
      by (intro go_loop_return) (cases "typ"; auto simp: join_round_def join_buildRow_unmatched join_total_def)
    from yield_pair_step [of ?N, OF this rest'] True show ?thesis by (simp add: row_matches_def)
  next
    case False
    then have "?N i = ?N i'"
      using i' lp unfolding join_Next_def by (intro go_loop_continue) (cases "typ"; auto simp: join_round_def)
    from yield_pair_same [of ?N, OF this rest'] False show ?thesis by (auto simp: row_matches_def)
  qed
next
  case (Cons z zs)
  let ?N = "join_Next env cond typ n avail nxp (Ok r) nxr"
  from loadSecondary_row [OF Cons.prems(1) assms(2,3)] obtain i' where
    i': "loadSecondary avail (Ok r) nxr i = Some (i', Ok z)" "join_inner avail nxr ys i' x m zs"
    "ji_primary i' = ji_primary i" by auto
  have lp: "loadPrimary nxp i = Some (i, Ok x)" using Cons.prems(1) by (simp add: loadPrimary_def join_inner_def)
  have b: "join_buildRow typ n x z = Ok (joined typ x z)"
    "conditionIsTrue env (joined typ x z) cond = Ok (holds (joined typ x z))"
    using assms(1) Cons.prems(2) by (auto simp: join_total_def join_buildRow_joined)
  show ?case
  proof (cases "holds (joined typ x z)")
    case True
    let ?i = "i' \<lparr> ji_foundMatch := True \<rparr>"
    have n: "?N i = Some (?i, Ok (joined typ x z))"
      using i' lp b True unfolding join_Next_def by (intro go_loop_return) (simp add: join_round_def)
    have "join_inner avail nxr ys ?i x True zs"
      using i'(2) by (auto simp: join_inner_def cache_loaded_def split: join_mode.split)
    from yield_pair_step [of ?N, OF n Cons.IH [OF this]] True Cons.prems i'(3)
    show ?thesis by (auto simp: row_matches_def)
  next
    case False
    then have n: "?N i = ?N i'"
      using i' lp b unfolding join_Next_def by (intro go_loop_continue) (simp add: join_round_def)
    from yield_pair_same [of ?N, OF n Cons.IH [OF i'(2)]] False Cons.prems i'(3)
    show ?thesis by (auto simp: row_matches_def)
  qed
qed

lemma join_Next_same:
  "loadPrimary nxp i = loadPrimary nxp j \<Longrightarrow>
   join_Next env cond t n avail nxp rp nxr i = join_Next env cond t n avail nxp rp nxr j"
  by (simp add: join_Next_def go_loop.simps [of _ i] go_loop.simps [of _ j] join_round_def)

lemma join_total_Cons:
  "join_total env cond t n holds (x # xs) ys \<longleftrightarrow>
   join_total env cond t n holds [x] ys \<and> join_total env cond t n holds xs ys"
  by (auto simp: join_total_def)

lemma join_yields:
  assumes "yields nxp p xs e p'" "yields nxr r ys (Err EOF) r'" "ys \<noteq> []"
    and "join_total env cond t n holds xs ys" "join_between avail ys i" "ji_primary i = p"
  shows "yield_pair (join_Next env cond t n avail nxp (Ok r) nxr) i (join_spec t n holds xs ys, e)"
  using assms(1,4-)
proof (induction arbitrary: i rule: yields.induct)
  case (stop s p' e)
  then have "\<exists>j. join_Next env cond t n avail nxp (Ok r) nxr i = Some (j, e)"
    by (cases e) (auto simp: join_Next_def join_round_def go_loop.simps [of _ i] loadPrimary_def join_between_def)
  with stop show ?case by (auto simp: join_spec_def intro: yield_pair_stop)
next
  case (step s s' x xs e p')
  let ?N = "join_Next env cond t n avail nxp (Ok r) nxr"
  let ?i = "i \<lparr> ji_primary := s', ji_primaryRow := Some x, ji_foundMatch := False \<rparr>"
  have n: "?N i = ?N ?i"
    by (rule join_Next_same) (use step in \<open>simp add: loadPrimary_def join_between_def\<close>)
  have "yield_pair ?N ?i (row_matches t n holds False x ys @ join_spec t n holds xs ys, e)"
    by (rule join_inner_yields [OF _ assms(2,3) join_inner_new [OF step.prems(2)] subset_refl])
       (use step in \<open>simp_all add: join_total_Cons [of _ _ _ _ _ x xs]\<close>)
  from yield_pair_same [of ?N, OF n this] show ?case by (simp add: join_spec_def)
qed



section \<open>Empty secondary side\<close>

lemma join_memory_empty:
  assumes "nxr r = Some (r', Err EOF)" "ji_mode i = MemoryMode" "ji_secondaryRows i = []"
  shows "loadSecondary avail (Ok r) nxr i = Some (i, Err EOF)"
  using assms by (cases i) (simp add: loadSecondary_def loadSecondaryInMemory_def load_loop.simps)

definition join_stuck :: "row \<Rightarrow> ('p, 'r) join_iter \<Rightarrow> bool" where
  "join_stuck x i \<longleftrightarrow>
     ji_mode i = MemoryMode \<and> ji_secondaryRows i = [] \<and> ji_primaryRow i = Some x \<and> \<not> ji_foundMatch i"

lemma join_round_stuck:
  assumes "nxr r = Some (r', Err EOF)" "join_stuck x i"
  shows "join_round env cond t n avail nxp (Ok r) nxr i =
    Some (i, if t = JoinTypeInner then None else Some (join_buildRow t n x []))"
proof -
  have "loadPrimary nxp i = Some (i, Ok x)" "loadSecondary avail (Ok r) nxr i = Some (i, Err EOF)"
    using join_memory_empty [of nxr r r' i avail] assms by (auto simp: join_stuck_def loadPrimary_def)
  then show ?thesis using assms(2) by (cases t) (auto simp: join_round_def join_stuck_def)
qed

lemma join_stuck_drain:
  assumes "nxr r = Some (r', Err EOF)" "join_stuck x i" "length x \<le> n"
  shows "drain (join_Next env cond t n avail nxp (Ok r) nxr) i acc = None"
proof (cases "t = JoinTypeInner")
  case True
  then show ?thesis using join_round_stuck [of nxr r r' x i env cond t n avail nxp] assms
    by (simp add: join_Next_def drain_None go_loop_stuck)
next
  case False
  then show ?thesis
    using join_round_stuck [of nxr r r' x i env cond t n avail nxp] join_buildRow_unmatched [OF assms(3), of t] assms
    by (auto simp: join_Next_def intro!: drain_stuck go_loop_return)
qed

text \<open>(C35) When the secondary side is empty the in-memory join never resets the primary row: an inner join loops for ever
  on its first primary row, and an outer join returns the same padded row for ever, so that collecting its rows never
  ends.\<close>

theorem join_empty_secondary:
  assumes "nxp p = Some (p', Ok x)" "nxr r = Some (r', Err EOF)" "length x \<le> n"
  shows "drain (join_Next env cond t n avail nxp (Ok r) nxr) (new_joinIter MemoryMode p) [] = None"
proof -
  let ?i = "(new_joinIter MemoryMode p) \<lparr> ji_primary := p', ji_primaryRow := Some x \<rparr>"
  let ?N = "join_Next env cond t n avail nxp (Ok r) nxr"
  have "loadPrimary nxp (new_joinIter MemoryMode p) = loadPrimary nxp ?i"
    using assms(1) by (simp add: loadPrimary_def new_joinIter_def)
  then have "drain ?N (new_joinIter MemoryMode p) [] = drain ?N ?i []"
    by (intro drain_same_next join_Next_same)
  moreover have "join_stuck x ?i" by (simp add: join_stuck_def new_joinIter_def)
  ultimately show ?thesis using join_stuck_drain [of nxr r r' x ?i n] assms(2,3) by metis
qed

theorem join_empty_secondary_witness:
  "drain (join_Next cast_env (Literal (GBool True) Boolean) JoinTypeInner 2 (\<lambda>_. True) slice_Next
      (Ok (RowsToRowIter [])) slice_Next) (new_joinIter MemoryMode (RowsToRowIter [[GInt64 1]])) [] = None"
  by (rule join_empty_secondary [where x = "[GInt64 1]"]) (simp_all add: slice_Next_def RowsToRowIter_def)

end
