(* ===== verification/Aggregation.thy ===== *)
theory Aggregation
  imports Expressions
begin

text \<open>
  The aggregation functions of \<^verbatim>\<open>sql/expression/function/aggregation\<close>: COUNT, COUNT(DISTINCT), MIN, MAX, SUM, AVG,
  FIRST and LAST. An aggregation keeps its state in a buffer, a row it creates with \<^verbatim>\<open>NewBuffer\<close>, mutates with
  \<^verbatim>\<open>Update\<close> and \<^verbatim>\<open>Merge\<close> and reads with \<^verbatim>\<open>Eval\<close>. A mutating method is a function to the new buffer and the
  returned error. \<open>hash\<close> is \<^verbatim>\<open>hashstructure.Hash\<close>, code of a third-party package.

  The locale \<open>aggregation\<close> states what a client may rely on: after any sequence of updates the buffer evaluates
  to the aggregate of the values seen.
\<close>

section \<open>Buffers\<close>

datatype (plugins only: code size) agg_fn = Count | CountDistinct | Min | Max | Sum | Avg | First | Last

text \<open>Type assertions on the elements of a buffer.\<close>

definition as_int64 :: "gval \<Rightarrow> 64 word res" where
  "as_int64 v = (case v of GInt64 w \<Rightarrow> Ok w | _ \<Rightarrow> Panic)"

definition as_float64 :: "gval \<Rightarrow> 64 word res" where
  "as_float64 v = (case v of GFloat64 w \<Rightarrow> Ok w | _ \<Rightarrow> Panic)"

definition as_bool :: "gval \<Rightarrow> bool res" where
  "as_bool v = (case v of GBool b \<Rightarrow> Ok b | _ \<Rightarrow> Panic)"

definition as_hashes :: "gval \<Rightarrow> 64 word fset res" where
  "as_hashes v = (case v of GHashSet S \<Rightarrow> Ok S | _ \<Rightarrow> Panic)"

definition buf_get :: "(gval \<Rightarrow> 'a res) \<Rightarrow> row \<Rightarrow> nat \<Rightarrow> 'a res" where
  "buf_get as buffer i = rbind (slice_at buffer i) as"

text \<open>Return from a mutating method with the buffer as it is, unless the call before succeeded.\<close>

fun bail :: "row \<Rightarrow> 'a res \<Rightarrow> ('a \<Rightarrow> row \<times> unit res) \<Rightarrow> row \<times> unit res" where
  "bail buffer (Ok x) f = f x"
| "bail buffer (Err e) f = (buffer, Err e)"
| "bail buffer Panic f = (buffer, Panic)"

definition store :: "row \<Rightarrow> gval \<Rightarrow> row \<times> unit res" where
  "store buffer v = bail buffer (slice_set buffer 0 v) (\<lambda>b. (b, Ok ()))"

section \<open>COUNT\<close>

definition is_Star :: "expr \<Rightarrow> bool" where
  "is_Star e = (case e of Star _ \<Rightarrow> True | _ \<Rightarrow> False)"

definition Count_NewBuffer :: row where
  "Count_NewBuffer = [GInt64 0]"

definition Count_Update :: "genv \<Rightarrow> expr \<Rightarrow> row \<Rightarrow> row \<Rightarrow> row \<times> unit res" where
  "Count_Update env child buffer row =
     bail buffer (if is_Star child then Ok True else rbind (eval env child row) (\<lambda>v. Ok (v \<noteq> GNil))) (\<lambda>inc.
       if inc then bail buffer (buf_get as_int64 buffer 0) (\<lambda>n. store buffer (GInt64 (n + 1)))
       else (buffer, Ok ()))"

definition Count_Merge :: "row \<Rightarrow> row \<Rightarrow> row \<times> unit res" where
  "Count_Merge buffer partial =
     bail buffer (buf_get as_int64 buffer 0) (\<lambda>n. bail buffer (buf_get as_int64 partial 0) (\<lambda>m.
       store buffer (GInt64 (n + m))))"

definition CountDistinct_NewBuffer :: row where
  "CountDistinct_NewBuffer = [GHashSet {||}]"

text \<open>
  The value is tested for nil before the error is: an expression that fails returns nil, so its error is dropped.
\<close>

definition CountDistinct_Update :: "(gval \<Rightarrow> 64 word res) \<Rightarrow> genv \<Rightarrow> expr \<Rightarrow> row \<Rightarrow> row \<Rightarrow> row \<times> unit res" where
  "CountDistinct_Update hash env child buffer row =
     bail buffer (buf_get as_hashes buffer 0) (\<lambda>seen.
       (let add = (\<lambda>value. case hash value of
                Ok h \<Rightarrow> store buffer (GHashSet (finsert h seen))
              | Err e \<Rightarrow> (buffer, Err (ErrOther ''count distinct unable to hash value''))
              | Panic \<Rightarrow> (buffer, Panic))
        in if is_Star child then add (GRow row)
           else case eval env child row of
               Ok v \<Rightarrow> if v = GNil then (buffer, Ok ()) else add v
             | Err e \<Rightarrow> (buffer, Ok ())
             | Panic \<Rightarrow> (buffer, Panic)))"

definition CountDistinct_Merge :: "row \<Rightarrow> row \<Rightarrow> row \<times> unit res" where
  "CountDistinct_Merge buffer partial =
     bail buffer (buf_get as_hashes buffer 0) (\<lambda>seen. bail buffer (buf_get as_hashes partial 0) (\<lambda>other.
       store buffer (GHashSet (seen |\<union>| other))))"

definition CountDistinct_Eval :: "row \<Rightarrow> gval res" where
  "CountDistinct_Eval buffer = rbind (buf_get as_hashes buffer 0) (\<lambda>seen. Ok (GInt64 (word_of_nat (fcard seen))))"

section \<open>MIN and MAX\<close>

definition extremum_Update :: "int \<Rightarrow> genv \<Rightarrow> expr \<Rightarrow> row \<Rightarrow> row \<Rightarrow> row \<times> unit res" where
  "extremum_Update sign env child buffer row =
     bail buffer (eval env child row) (\<lambda>v.
       if v = GNil then (buffer, Ok ())
       else bail buffer (slice_at buffer 0) (\<lambda>b.
         (let buffer' = (if b = GNil then buffer[0 := v] else buffer) in
            bail buffer' (rbind (etype child) (\<lambda>t. sql_compare env t v (buffer' ! 0))) (\<lambda>cmp.
              if cmp = sign then store buffer' v else (buffer', Ok ())))))"

definition Min_Update :: "genv \<Rightarrow> expr \<Rightarrow> row \<Rightarrow> row \<Rightarrow> row \<times> unit res" where
  "Min_Update = extremum_Update (-1)"

definition Max_Update :: "genv \<Rightarrow> expr \<Rightarrow> row \<Rightarrow> row \<Rightarrow> row \<times> unit res" where
  "Max_Update = extremum_Update 1"

section \<open>SUM and AVG\<close>

text \<open>A value that does not convert to a float64 counts as 0.\<close>

definition to_float :: "genv \<Rightarrow> gval \<Rightarrow> 64 word res" where
  "to_float env v = (case sql_convert env Float64 v of Ok x \<Rightarrow> as_float64 x | Err e \<Rightarrow> Ok 0 | Panic \<Rightarrow> Panic)"

definition Sum_Update :: "genv \<Rightarrow> expr \<Rightarrow> row \<Rightarrow> row \<Rightarrow> row \<times> unit res" where
  "Sum_Update env child buffer row =
     bail buffer (eval env child row) (\<lambda>v.
       if v = GNil then (buffer, Ok ())
       else bail buffer (to_float env v) (\<lambda>val. bail buffer (slice_at buffer 0) (\<lambda>b.
         (let buffer' = (if b = GNil then buffer[0 := GFloat64 0] else buffer) in
            bail buffer' (as_float64 (buffer' ! 0)) (\<lambda>sum. store buffer' (GFloat64 (f64_add sum val)))))))"

definition Avg_NewBuffer :: row where
  "Avg_NewBuffer = [GFloat64 0, GInt64 0, GBool False]"

definition Avg_Update :: "genv \<Rightarrow> expr \<Rightarrow> row \<Rightarrow> row \<Rightarrow> row \<times> unit res" where
  "Avg_Update env child buffer row =
     bail buffer (buf_get as_bool buffer 2) (\<lambda>nulls.
       if nulls then (buffer, Ok ())
       else bail buffer (eval env child row) (\<lambda>v.
         if v = GNil then (buffer[2 := GBool True], Ok ())
         else bail buffer (to_float env v) (\<lambda>x. bail buffer (buf_get as_float64 buffer 0) (\<lambda>sum.
           (let buffer' = buffer[0 := GFloat64 (f64_add sum x)] in
              bail buffer' (buf_get as_int64 buffer' 1) (\<lambda>n. (buffer'[1 := GInt64 (n + 1)], Ok ())))))))"

text \<open>\<^verbatim>\<open>Merge\<close> reads the third element of \<^verbatim>\<open>buffer\<close> twice and never that of \<^verbatim>\<open>partial\<close>.\<close>

definition Avg_Merge :: "row \<Rightarrow> row \<Rightarrow> row \<times> unit res" where
  "Avg_Merge buffer partial =
     bail buffer (buf_get as_float64 buffer 0) (\<lambda>bsum. bail buffer (buf_get as_int64 buffer 1) (\<lambda>brows.
     bail buffer (buf_get as_bool buffer 2) (\<lambda>bnulls. bail buffer (buf_get as_float64 partial 0) (\<lambda>psum.
     bail buffer (buf_get as_int64 partial 1) (\<lambda>prows. bail buffer (buf_get as_bool buffer 2) (\<lambda>pnulls.
       (buffer[0 := GFloat64 (f64_add bsum psum), 1 := GInt64 (brows + prows), 2 := GBool (bnulls \<or> pnulls)],
        Ok ())))))))"

definition f64_of_int64 :: "64 word \<Rightarrow> 64 word" where
  "f64_of_int64 n = f64_of_rat (of_int (sint n))"

definition Avg_Eval :: "row \<Rightarrow> gval res" where
  "Avg_Eval buffer = rbind (buf_get as_bool buffer 2) (\<lambda>nulls.
     if nulls then Ok GNil
     else rbind (buf_get as_float64 buffer 0) (\<lambda>sum. rbind (buf_get as_int64 buffer 1) (\<lambda>rows.
       if rows = 0 then Ok (GFloat64 0) else Ok (GFloat64 (f64_div sum (f64_of_int64 rows))))))"

section \<open>FIRST and LAST\<close>

definition First_Update :: "genv \<Rightarrow> expr \<Rightarrow> row \<Rightarrow> row \<Rightarrow> row \<times> unit res" where
  "First_Update env child buffer row =
     bail buffer (slice_at buffer 0) (\<lambda>b.
       if b \<noteq> GNil then (buffer, Ok ())
       else bail buffer (eval env child row) (\<lambda>v. if v = GNil then (buffer, Ok ()) else store buffer v))"

definition First_Merge :: "row \<Rightarrow> row \<Rightarrow> row \<times> unit res" where
  "First_Merge buffer partial = (buffer, Ok ())"

definition Last_Update :: "genv \<Rightarrow> expr \<Rightarrow> row \<Rightarrow> row \<Rightarrow> row \<times> unit res" where
  "Last_Update env child buffer row =
     bail buffer (eval env child row) (\<lambda>v. if v = GNil then (buffer, Ok ()) else store buffer v)"

definition Last_Merge :: "row \<Rightarrow> row \<Rightarrow> row \<times> unit res" where
  "Last_Merge buffer partial = bail buffer (slice_at partial 0) (\<lambda>v. store buffer v)"

section \<open>The aggregation interface\<close>

text \<open>\<^verbatim>\<open>sql.Aggregation\<close>: dispatch on the function. \<^verbatim>\<open>Merge\<close> of MIN, MAX and SUM is \<^verbatim>\<open>Update\<close> on the partial buffer.\<close>

definition NewBuffer :: "agg_fn \<Rightarrow> row" where
  "NewBuffer f = (case f of Count \<Rightarrow> Count_NewBuffer | CountDistinct \<Rightarrow> CountDistinct_NewBuffer
     | Avg \<Rightarrow> Avg_NewBuffer | _ \<Rightarrow> [GNil])"

definition agg_Update :: "(gval \<Rightarrow> 64 word res) \<Rightarrow> genv \<Rightarrow> agg_fn \<Rightarrow> expr \<Rightarrow> row \<Rightarrow> row \<Rightarrow> row \<times> unit res" where
  "agg_Update hash env f child = (case f of
       Count \<Rightarrow> Count_Update env child
     | CountDistinct \<Rightarrow> CountDistinct_Update hash env child
     | Min \<Rightarrow> Min_Update env child
     | Max \<Rightarrow> Max_Update env child
     | Sum \<Rightarrow> Sum_Update env child
     | Avg \<Rightarrow> Avg_Update env child
     | First \<Rightarrow> First_Update env child
     | Last \<Rightarrow> Last_Update env child)"

definition agg_Merge :: "(gval \<Rightarrow> 64 word res) \<Rightarrow> genv \<Rightarrow> agg_fn \<Rightarrow> expr \<Rightarrow> row \<Rightarrow> row \<Rightarrow> row \<times> unit res" where
  "agg_Merge hash env f child = (case f of
       Count \<Rightarrow> Count_Merge
     | CountDistinct \<Rightarrow> CountDistinct_Merge
     | Avg \<Rightarrow> Avg_Merge
     | First \<Rightarrow> First_Merge
     | Last \<Rightarrow> Last_Merge
     | _ \<Rightarrow> agg_Update hash env f child)"

definition agg_Eval :: "agg_fn \<Rightarrow> row \<Rightarrow> gval res" where
  "agg_Eval f buffer = (case f of
       CountDistinct \<Rightarrow> CountDistinct_Eval buffer
     | Avg \<Rightarrow> Avg_Eval buffer
     | _ \<Rightarrow> slice_at buffer 0)"

definition agg_IsNullable :: "agg_fn \<Rightarrow> expr \<Rightarrow> bool res" where
  "agg_IsNullable f child = (case f of
       Count \<Rightarrow> Ok False | CountDistinct \<Rightarrow> Ok False | Max \<Rightarrow> Ok False
     | Min \<Rightarrow> Ok True | Avg \<Rightarrow> Ok True
     | _ \<Rightarrow> is_nullable child)"

section \<open>The contract\<close>

text \<open>A loop of mutating calls that stops at the first failure.\<close>

fun update_all :: "('b \<Rightarrow> 'r \<Rightarrow> 'b \<times> unit res) \<Rightarrow> 'b \<Rightarrow> 'r list \<Rightarrow> 'b \<times> unit res" where
  "update_all upd b [] = (b, Ok ())"
| "update_all upd b (r # rs) = (case upd b r of (b', Ok _) \<Rightarrow> update_all upd b' rs | p \<Rightarrow> p)"

lemma update_all_snoc:
  "update_all upd b (rs @ [r]) = (case update_all upd b rs of (b', Ok _) \<Rightarrow> upd b' r | p \<Rightarrow> p)"
  by (induction rs arbitrary: b) (auto split: prod.splits res.splits)

text \<open>
  \<open>arg\<close> is the value aggregated for a row, \<open>dom\<close> the values the function can take in, \<open>post vs v\<close> the meaning of the
  aggregate \<open>v\<close> of the values \<open>vs\<close>, \<open>repr vs b\<close> that the buffer \<open>b\<close> has seen the values \<open>vs\<close>.
\<close>

locale aggregation =
  fixes new :: row
    and update :: "row \<Rightarrow> row \<Rightarrow> row \<times> unit res"
    and ev :: "row \<Rightarrow> gval res"
    and arg :: "row \<Rightarrow> gval res"
    and dom :: "gval \<Rightarrow> bool"
    and post :: "gval list \<Rightarrow> gval \<Rightarrow> bool"
    and repr :: "gval list \<Rightarrow> row \<Rightarrow> bool"
  assumes repr_new: "repr [] new"
    and repr_update: "repr vs b \<Longrightarrow> arg row = Ok v \<Longrightarrow> dom v \<Longrightarrow>
          \<exists>b'. update b row = (b', Ok ()) \<and> repr (vs @ [v]) b'"
    and repr_eval: "repr vs b \<Longrightarrow> \<exists>v. ev b = Ok v \<and> post vs v"
begin

lemma update_all_repr:
  "repr us b \<Longrightarrow> rmap arg rows = Ok vs \<Longrightarrow> \<forall>v \<in> set vs. dom v \<Longrightarrow>
   \<exists>b'. update_all update b rows = (b', Ok ()) \<and> repr (us @ vs) b'"
proof (induction rows arbitrary: us b vs)
  case (Cons r rows)
  then obtain v ws where *: "vs = v # ws" "arg r = Ok v" "rmap arg rows = Ok ws" "dom v"
    by (auto simp: res_simps)
  with repr_update [OF Cons.prems(1), of r v] obtain b1 where
    b1: "update b r = (b1, Ok ())" "repr (us @ [v]) b1" by auto
  from Cons.IH [OF this(2) *(3)] Cons.prems(3) * b1 show ?case by simp
qed simp

lemma aggregates:
  assumes "rmap arg rows = Ok vs" "\<forall>v \<in> set vs. dom v"
  shows "\<exists>b v. update_all update new rows = (b, Ok ()) \<and> ev b = Ok v \<and> post vs v"
  using update_all_repr [OF repr_new assms] repr_eval by fastforce

end

text \<open>An aggregation whose buffers over two parts of the rows combine into the buffer over all of them.\<close>

locale mergeable_aggregation = aggregation +
  fixes merge :: "row \<Rightarrow> row \<Rightarrow> row \<times> unit res"
  assumes repr_merge: "repr vs b \<Longrightarrow> repr ws b' \<Longrightarrow> \<exists>c. merge b b' = (c, Ok ()) \<and> repr (vs @ ws) c"
begin

lemma merges:
  assumes "rmap arg xs = Ok vs" "\<forall>v \<in> set vs. dom v" "rmap arg ys = Ok ws" "\<forall>v \<in> set ws. dom v"
  shows "\<exists>b b' c v. update_all update new xs = (b, Ok ()) \<and> update_all update new ys = (b', Ok ())
    \<and> merge b b' = (c, Ok ()) \<and> ev c = Ok v \<and> post (vs @ ws) v"
proof -
  from update_all_repr [OF repr_new assms(1,2)] update_all_repr [OF repr_new assms(3,4)]
  obtain b b' where b: "update_all update new xs = (b, Ok ())" "repr vs b"
    "update_all update new ys = (b', Ok ())" "repr ws b'" by auto
  with repr_merge [OF b(2,4)] repr_eval show ?thesis by meson
qed

end

section \<open>What each function computes\<close>

abbreviation nonnull :: "gval list \<Rightarrow> gval list" where
  "nonnull vs \<equiv> filter (\<lambda>v. v \<noteq> GNil) vs"

definition agg_arg :: "genv \<Rightarrow> expr \<Rightarrow> row \<Rightarrow> gval res" where
  "agg_arg env child row = (if is_Star child then Ok (GRow row) else eval env child row)"

definition the_Ok :: "'a \<Rightarrow> 'a res \<Rightarrow> 'a" where
  "the_Ok d r = (case r of Ok x \<Rightarrow> x | _ \<Rightarrow> d)"

definition float_sum :: "genv \<Rightarrow> gval list \<Rightarrow> 64 word" where
  "float_sum env vs = foldl (\<lambda>s v. f64_add s (the_Ok 0 (to_float env v))) 0 vs"

definition agg_post :: "(gval \<Rightarrow> 64 word res) \<Rightarrow> genv \<Rightarrow> agg_fn \<Rightarrow> stype \<Rightarrow> gval list \<Rightarrow> gval \<Rightarrow> bool" where
  "agg_post hash env f t vs v = (case f of
       Count \<Rightarrow> v = GInt64 (word_of_nat (length (nonnull vs)))
     | CountDistinct \<Rightarrow> v = GInt64 (word_of_nat (card (hash ` set (nonnull vs))))
     | Min \<Rightarrow> if nonnull vs = [] then v = GNil
              else v \<in> set (nonnull vs) \<and> (\<forall>w \<in> set (nonnull vs). \<exists>c. sql_compare env t v w = Ok c \<and> c \<le> 0)
     | Max \<Rightarrow> if nonnull vs = [] then v = GNil
              else v \<in> set (nonnull vs) \<and> (\<forall>w \<in> set (nonnull vs). \<exists>c. sql_compare env t v w = Ok c \<and> c \<ge> 0)
     | Sum \<Rightarrow> v = (if nonnull vs = [] then GNil else GFloat64 (float_sum env (nonnull vs)))
     | Avg \<Rightarrow> v = (if GNil \<in> set vs then GNil
                   else if (word_of_nat (length vs) :: 64 word) = 0 then GFloat64 0
                   else GFloat64 (f64_div (float_sum env vs) (f64_of_int64 (word_of_nat (length vs)))))
     | First \<Rightarrow> v = (if nonnull vs = [] then GNil else hd (nonnull vs))
     | Last \<Rightarrow> v = (if nonnull vs = [] then GNil else last (nonnull vs)))"

text \<open>The values a function takes in: \<open>D\<close> are the values its argument's type compares.\<close>

definition agg_dom :: "(gval \<Rightarrow> 64 word res) \<Rightarrow> genv \<Rightarrow> agg_fn \<Rightarrow> (gval \<Rightarrow> bool) \<Rightarrow> gval \<Rightarrow> bool" where
  "agg_dom hash env f D v = (v = GNil \<or> (case f of
       CountDistinct \<Rightarrow> is_Ok (hash v)
     | Min \<Rightarrow> D v | Max \<Rightarrow> D v
     | Sum \<Rightarrow> is_Ok (to_float env v) | Avg \<Rightarrow> is_Ok (to_float env v)
     | _ \<Rightarrow> True))"

lemmas agg_defs = agg_arg_def store_def buf_get_def as_int64_def as_float64_def as_bool_def as_hashes_def
  NewBuffer_def agg_Update_def agg_Eval_def agg_post_def agg_dom_def

interpretation count: mergeable_aggregation "NewBuffer Count" "agg_Update hash env Count child" "agg_Eval Count"
  "agg_arg env child" "agg_dom hash env Count D" "agg_post hash env Count t"
  "\<lambda>vs b. b = [GInt64 (word_of_nat (length (nonnull vs)))]" "agg_Merge hash env Count child"
  for hash env child D t
  by unfold_locales
    (auto simp: agg_defs Count_NewBuffer_def Count_Update_def agg_Merge_def Count_Merge_def)

interpretation count_distinct: mergeable_aggregation "NewBuffer CountDistinct" "agg_Update hash env CountDistinct child"
  "agg_Eval CountDistinct" "agg_arg env child" "agg_dom hash env CountDistinct D" "agg_post hash env CountDistinct t"
  "\<lambda>vs b. \<exists>S. b = [GHashSet S] \<and> Ok ` fset S = hash ` set (nonnull vs)" "agg_Merge hash env CountDistinct child"
  for hash env child D t
proof unfold_locales
  fix vs b assume "\<exists>S. b = [GHashSet S] \<and> Ok ` fset S = hash ` set (nonnull vs)"
  then obtain S where S: "b = [GHashSet S]" "Ok ` fset S = hash ` set (nonnull vs)" by blast
  have "card (Ok ` fset S) = fcard S" by (simp add: card_image inj_on_def fcard.rep_eq)
  with S show "\<exists>v. agg_Eval CountDistinct b = Ok v \<and> agg_post hash env CountDistinct t vs v"
    by (simp add: agg_defs CountDistinct_Eval_def)
next
  fix vs b row v
  assume *: "\<exists>S. b = [GHashSet S] \<and> Ok ` fset S = hash ` set (nonnull vs)"
    "agg_arg env child row = Ok v" "agg_dom hash env CountDistinct D v"
  then obtain S where S: "b = [GHashSet S]" "Ok ` fset S = hash ` set (nonnull vs)" by blast
  show "\<exists>b'. agg_Update hash env CountDistinct child b row = (b', Ok ())
      \<and> (\<exists>S. b' = [GHashSet S] \<and> Ok ` fset S = hash ` set (nonnull (vs @ [v])))"
  proof (cases "v = GNil")
    case True
    with * S show ?thesis by (auto simp: agg_defs CountDistinct_Update_def split: if_splits)
  next
    case False
    with * obtain h where "hash v = Ok h" by (auto simp: agg_dom_def is_Ok_iff)
    with * S False show ?thesis
      by (auto simp: agg_defs CountDistinct_Update_def split: if_splits)
  qed
next
  fix vs ws b b'
  assume "\<exists>S. b = [GHashSet S] \<and> Ok ` fset S = hash ` set (nonnull vs)"
    "\<exists>S. b' = [GHashSet S] \<and> Ok ` fset S = hash ` set (nonnull ws)"
  then show "\<exists>c. agg_Merge hash env CountDistinct child b b' = (c, Ok ())
      \<and> (\<exists>S. c = [GHashSet S] \<and> Ok ` fset S = hash ` set (nonnull (vs @ ws)))"
    by (auto simp: agg_Merge_def CountDistinct_Merge_def agg_defs image_Un)
qed (auto simp: agg_defs CountDistinct_NewBuffer_def)

interpretation first: aggregation "NewBuffer First" "agg_Update hash env First child" "agg_Eval First"
  "eval env child" "agg_dom hash env First D" "agg_post hash env First t"
  "\<lambda>vs b. b = [if nonnull vs = [] then GNil else hd (nonnull vs)]"
  for hash env child D t
proof unfold_locales
  fix vs b row v
  assume b: "b = [if nonnull vs = [] then GNil else hd (nonnull vs)]" and "eval env child row = Ok v"
  moreover have "nonnull vs \<noteq> [] \<Longrightarrow> hd (nonnull vs) \<noteq> GNil"
    using hd_in_set [of "nonnull vs"] by auto
  ultimately show "\<exists>b'. agg_Update hash env First child b row = (b', Ok ())
      \<and> b' = [if nonnull (vs @ [v]) = [] then GNil else hd (nonnull (vs @ [v]))]"
    by (cases "nonnull vs = []") (auto simp: agg_defs First_Update_def hd_append)
qed (auto simp: agg_defs)

interpretation last: aggregation "NewBuffer Last" "agg_Update hash env Last child" "agg_Eval Last"
  "eval env child" "agg_dom hash env Last D" "agg_post hash env Last t"
  "\<lambda>vs b. b = [if nonnull vs = [] then GNil else last (nonnull vs)]"
  for hash env child D t
  by unfold_locales (auto simp: agg_defs Last_Update_def)

lemma float_sum_Nil [simp]: "float_sum env [] = 0"
  by (simp add: float_sum_def)

lemma float_sum_single [simp]: "float_sum env [v] = f64_add 0 (the_Ok 0 (to_float env v))"
  by (simp add: float_sum_def)

lemma float_sum_snoc [simp]: "float_sum env (vs @ [v]) = f64_add (float_sum env vs) (the_Ok 0 (to_float env v))"
  by (simp add: float_sum_def)

interpretation sum: aggregation "NewBuffer Sum" "agg_Update hash env Sum child" "agg_Eval Sum"
  "eval env child" "agg_dom hash env Sum D" "agg_post hash env Sum t"
  "\<lambda>vs b. b = [if nonnull vs = [] then GNil else GFloat64 (float_sum env (nonnull vs))]"
  for hash env child D t
proof unfold_locales
  fix vs b row v
  assume "b = [if nonnull vs = [] then GNil else GFloat64 (float_sum env (nonnull vs))]"
    "eval env child row = Ok v" "agg_dom hash env Sum D v"
  then show "\<exists>b'. agg_Update hash env Sum child b row = (b', Ok ())
      \<and> b' = [if nonnull (vs @ [v]) = [] then GNil else GFloat64 (float_sum env (nonnull (vs @ [v])))]"
    by (cases "nonnull vs = []") (auto simp: agg_defs Sum_Update_def is_Ok_iff the_Ok_def)
qed (auto simp: agg_defs)

interpretation avg: aggregation "NewBuffer Avg" "agg_Update hash env Avg child" "agg_Eval Avg"
  "eval env child" "agg_dom hash env Avg D" "agg_post hash env Avg t"
  "\<lambda>vs b. \<exists>s n. b = [GFloat64 s, GInt64 n, GBool (GNil \<in> set vs)]
      \<and> (GNil \<notin> set vs \<longrightarrow> s = float_sum env vs \<and> n = word_of_nat (length vs))"
  for hash env child D t
proof unfold_locales
  fix vs b row v
  assume "\<exists>s n. b = [GFloat64 s, GInt64 n, GBool (GNil \<in> set vs)]
      \<and> (GNil \<notin> set vs \<longrightarrow> s = float_sum env vs \<and> n = word_of_nat (length vs))"
    "eval env child row = Ok v" "agg_dom hash env Avg D v"
  then show "\<exists>b'. agg_Update hash env Avg child b row = (b', Ok ())
      \<and> (\<exists>s n. b' = [GFloat64 s, GInt64 n, GBool (GNil \<in> set (vs @ [v]))]
        \<and> (GNil \<notin> set (vs @ [v]) \<longrightarrow> s = float_sum env (vs @ [v]) \<and> n = word_of_nat (length (vs @ [v]))))"
    by (cases "GNil \<in> set vs") (auto simp: agg_defs Avg_Update_def is_Ok_iff the_Ok_def)
qed (auto simp: agg_defs Avg_NewBuffer_def Avg_Eval_def)

text \<open>MIN and MAX keep a least (greatest) value, when the comparison of the argument's type orders the values.\<close>

definition extreme :: "int \<Rightarrow> (gval \<Rightarrow> gval \<Rightarrow> int res) \<Rightarrow> gval list \<Rightarrow> gval \<Rightarrow> bool" where
  "extreme sign cmp vs v =
     (v \<in> set vs \<and> (\<forall>w \<in> set vs. \<exists>c. cmp v w = Ok c \<and> 0 \<le> sign * c))"

lemma extreme_snoc:
  assumes "comparer cmp D" "sign \<in> {-1, 1}" "extreme sign cmp vs m" "\<forall>w \<in> set vs. D w" "D v"
  shows "\<exists>c. cmp v m = Ok c \<and> extreme sign cmp (vs @ [v]) (if c = sign then v else m)"
proof -
  from assms(3,4) have m: "D m" "m \<in> set vs" by (auto simp: extreme_def)
  obtain c where c: "cmp v m = Ok c" "cmp m v = Ok (- c)" "c \<in> {-1, 0, 1}"
    using comparer.cmp_total [OF assms(1,5) m(1)] comparer.cmp_swap [OF assms(1,5) m(1)] by blast
  have refl: "cmp v v = Ok 0" using comparer.cmp_refl [OF assms(1,5)] .
  have "\<exists>d. cmp v w = Ok d \<and> 0 \<le> sign * d" if "w \<in> set vs" "c = sign" for w
  proof -
    have w: "D w" using assms(4) that by blast
    obtain d where d: "cmp m w = Ok d" "0 \<le> sign * d" using assms(3) \<open>w \<in> set vs\<close> by (auto simp: extreme_def)
    show ?thesis
    proof (cases "sign = 1")
      case True
      with d comparer.cmp_swap [OF assms(1) m(1) w d(1)] have "cmp w m = Ok (- d)" "- d \<le> 0" by simp_all
      from comparer.cmp_trans [OF assms(1) w m(1) assms(5) this c(2)] True that obtain z where
        "cmp w v = Ok z" "z \<le> 0" by auto
      with comparer.cmp_swap [OF assms(1) w assms(5)] True show ?thesis by auto
    next
      case False
      with assms(2) have "sign = -1" by simp
      with comparer.cmp_trans [OF assms(1) assms(5) m(1) w c(1) _ d(1)] d that show ?thesis by auto
    qed
  qed
  moreover have "\<exists>d. cmp m w = Ok d \<and> 0 \<le> sign * d" if "w \<in> set (vs @ [v])" "c \<noteq> sign" for w
    using assms(2,3) c that by (cases "w = v") (auto simp: extreme_def)
  ultimately show ?thesis
    using c(1) refl m(2) by (cases "c = sign") (auto simp: extreme_def)
qed

definition extreme_repr :: "int \<Rightarrow> (gval \<Rightarrow> gval \<Rightarrow> int res) \<Rightarrow> (gval \<Rightarrow> bool) \<Rightarrow> gval list \<Rightarrow> row \<Rightarrow> bool" where
  "extreme_repr sign cmp D vs b = (\<exists>m. b = [m] \<and> (\<forall>w \<in> set (nonnull vs). D w)
     \<and> (if nonnull vs = [] then m = GNil else extreme sign cmp (nonnull vs) m))"

lemma extremum_Update_repr:
  assumes "comparer (sql_compare env t) D" "etype child = Ok t" "sign \<in> {-1, 1}"
    and "extreme_repr sign (sql_compare env t) D vs b" "eval env child row = Ok v" "v = GNil \<or> D v"
  shows "\<exists>b'. extremum_Update sign env child b row = (b', Ok ())
    \<and> extreme_repr sign (sql_compare env t) D (vs @ [v]) b'"
proof (cases "v = GNil")
  case True
  with assms show ?thesis by (auto simp: extremum_Update_def extreme_repr_def)
next
  case v: False
  with assms have D: "D v" by simp
  show ?thesis
  proof (cases "nonnull vs = []")
    case True
    with assms v D comparer.cmp_refl [OF assms(1) D] show ?thesis
      by (auto simp: extremum_Update_def extreme_repr_def extreme_def store_def)
  next
    case False
    with assms(4) obtain m where m: "b = [m]" "extreme sign (sql_compare env t) (nonnull vs) m" "m \<noteq> GNil"
      "\<forall>w \<in> set (nonnull vs). D w"
      by (auto simp: extreme_repr_def extreme_def)
    with extreme_snoc [OF assms(1,3) m(2,4) D] v D assms(2,5) show ?thesis
      by (fastforce simp: extremum_Update_def extreme_repr_def store_def Let_def)
  qed
qed

lemma min_aggregation:
  assumes "comparer (sql_compare env t) D" "etype child = Ok t"
  shows "aggregation (NewBuffer Min) (agg_Update hash env Min child) (agg_Eval Min) (eval env child)
    (agg_dom hash env Min D) (agg_post hash env Min t) (extreme_repr (-1) (sql_compare env t) D)"
  using extremum_Update_repr [OF assms]
  by unfold_locales (auto simp: agg_defs Min_Update_def extreme_repr_def extreme_def)

lemma max_aggregation:
  assumes "comparer (sql_compare env t) D" "etype child = Ok t"
  shows "aggregation (NewBuffer Max) (agg_Update hash env Max child) (agg_Eval Max) (eval env child)
    (agg_dom hash env Max D) (agg_post hash env Max t) (extreme_repr 1 (sql_compare env t) D)"
  using extremum_Update_repr [OF assms]
  by unfold_locales (auto simp: agg_defs Max_Update_def extreme_repr_def extreme_def)

section \<open>Properties\<close>

definition agg_ready :: "genv \<Rightarrow> agg_fn \<Rightarrow> expr \<Rightarrow> stype \<Rightarrow> (gval \<Rightarrow> bool) \<Rightarrow> bool" where
  "agg_ready env f child t D \<longleftrightarrow>
     (is_Star child \<longrightarrow> f \<in> {Count, CountDistinct})
     \<and> (f \<in> {Min, Max} \<longrightarrow> etype child = Ok t \<and> comparer (sql_compare env t) D)"

lemma agg_result:
  assumes "agg_ready env f child t D"
    and "rmap (agg_arg env child) rows = Ok vs" and "\<forall>v \<in> set vs. agg_dom hash env f D v"
  shows "\<exists>b v. update_all (agg_Update hash env f child) (NewBuffer f) rows = (b, Ok ())
    \<and> agg_Eval f b = Ok v \<and> agg_post hash env f t vs v"
proof -
  have ev: "rmap (eval env child) rows = Ok vs" if "f \<notin> {Count, CountDistinct}"
    using assms(1,2) that by (simp add: agg_ready_def agg_arg_def [abs_def])
  show ?thesis
  proof (cases f)
    case Count
    then show ?thesis using assms(2,3) count.aggregates by blast
  next
    case CountDistinct
    then show ?thesis using assms(2,3) count_distinct.aggregates by blast
  next
    case Min
    with ev assms(1,3) show ?thesis
      using aggregation.aggregates [OF min_aggregation [of env t D child hash]] by (simp add: agg_ready_def)
  next
    case Max
    with ev assms(1,3) show ?thesis
      using aggregation.aggregates [OF max_aggregation [of env t D child hash]] by (simp add: agg_ready_def)
  next
    case Sum
    with ev assms(3) show ?thesis using sum.aggregates by simp
  next
    case Avg
    with ev assms(3) show ?thesis using avg.aggregates by simp
  next
    case First
    with ev assms(3) show ?thesis using first.aggregates by simp
  next
    case Last
    with ev assms(3) show ?thesis using last.aggregates by simp
  qed
qed


definition field0 :: expr where
  "field0 = GetField 0 Int64 [] ''a'' True"


text \<open>COUNT and COUNT(DISTINCT) can be computed in parts: merging the buffers of two parts of the rows gives the
  aggregate of all of them.\<close>

lemma count_merge:
  assumes "f \<in> {Count, CountDistinct}"
    and "rmap (agg_arg env child) xs = Ok vs" "\<forall>v \<in> set vs. agg_dom hash env f D v"
    and "rmap (agg_arg env child) ys = Ok ws" "\<forall>v \<in> set ws. agg_dom hash env f D v"
  shows "\<exists>b b' c v. update_all (agg_Update hash env f child) (NewBuffer f) xs = (b, Ok ())
    \<and> update_all (agg_Update hash env f child) (NewBuffer f) ys = (b', Ok ())
    \<and> agg_Merge hash env f child b b' = (c, Ok ()) \<and> agg_Eval f c = Ok v \<and> agg_post hash env f t (vs @ ws) v"
  using assms(1) count.merges [OF assms(2) _ assms(4), of hash D t]
    count_distinct.merges [OF assms(2) _ assms(4), of hash D t] assms(3,5) by blast

theorem count_merge_witness:
  "\<exists>b b' c v. update_all (agg_Update (\<lambda>_. Ok 0) cast_env Count field0) (NewBuffer Count) [[GInt64 7], [GNil]] = (b, Ok ())
    \<and> update_all (agg_Update (\<lambda>_. Ok 0) cast_env Count field0) (NewBuffer Count) [[GInt64 5]] = (b', Ok ())
    \<and> agg_Merge (\<lambda>_. Ok 0) cast_env Count field0 b b' = (c, Ok ()) \<and> agg_Eval Count c = Ok v
    \<and> agg_post (\<lambda>_. Ok 0) cast_env Count Int64 ([GInt64 7, GNil] @ [GInt64 5]) v"
  by (rule count_merge [where D = "\<lambda>_. True"])
    (simp_all add: agg_arg_def is_Star_def field0_def GetField_Eval_def agg_dom_def)

text \<open>The other functions do not merge: AVG forgets that the second part held a NULL, FIRST drops the second part
  even when the first is empty, LAST lets an empty second part erase the first.\<close>

lemma merge_defects:
  "agg_Merge hash env Avg child [GFloat64 s, GInt64 n, GBool False] [GFloat64 s', GInt64 n', GBool True]
     = ([GFloat64 (f64_add s s'), GInt64 (n + n'), GBool False], Ok ())
   \<and> agg_Merge hash env First child (NewBuffer First) [v] = (NewBuffer First, Ok ())
   \<and> agg_Merge hash env Last child [v] (NewBuffer Last) = ([GNil], Ok ())"
  by (simp add: agg_defs agg_Merge_def Avg_Merge_def First_Merge_def Last_Merge_def)

text \<open>MAX reports that it is never NULL, and SUM of an argument that is never NULL does too; over no rows both are
  NULL.\<close>

lemma empty_aggregate_nullable:
  assumes "f \<in> {Max, Sum}" "is_nullable child = Ok False"
  shows "agg_IsNullable f child = Ok False
    \<and> update_all (agg_Update hash env f child) (NewBuffer f) [] = (NewBuffer f, Ok ())
    \<and> agg_Eval f (NewBuffer f) = Ok GNil"
  using assms by (auto simp: agg_defs agg_IsNullable_def)

theorem empty_aggregate_nullable_witness:
  "agg_IsNullable Max (Literal (GInt64 1) Int64) = Ok False \<and> agg_Eval Max (NewBuffer Max) = Ok GNil"
  using empty_aggregate_nullable [of Max "Literal (GInt64 1) Int64" "\<lambda>_. Ok 0" cast_env] by simp

end
