(* ===== verification/Group_By.thy ===== *)
theory Group_By
  imports Aggregation Row_Iters
begin

text \<open>
  GROUP BY (\<^verbatim>\<open>sql/plan/group_by.go\<close>): the iterator without grouping expressions, which aggregates all rows into one,
  and the iterator with them, which keeps one list of buffers per key in a history cache. \<open>sharp\<close> is the text
  \<^verbatim>\<open>fmt.Sprintf\<close> gives a value under the verb \<^verbatim>\<open>%#v\<close>, \<open>avail n\<close> tells whether the cache finds memory for a new entry
  when it holds \<open>n\<close>.
\<close>

section \<open>The key of a group\<close>

text \<open>\<^verbatim>\<open>hash/crc64\<close> with the ISO polynomial: the table entry of a byte, and the checksum of a byte string.\<close>

definition crc64_iso :: "64 word" where
  "crc64_iso = 0xD800000000000000"

primrec crc64_entry :: "nat \<Rightarrow> 64 word \<Rightarrow> 64 word" where
  "crc64_entry 0 crc = crc"
| "crc64_entry (Suc n) crc =
     crc64_entry n (if crc AND 1 = 1 then (drop_bit 1 crc) XOR crc64_iso else drop_bit 1 crc)"

definition crc64_update :: "64 word \<Rightarrow> char \<Rightarrow> 64 word" where
  "crc64_update crc c = crc64_entry 8 ((crc XOR of_char c) AND 0xFF) XOR drop_bit 8 crc"

definition crc64_Checksum :: "string \<Rightarrow> 64 word" where
  "crc64_Checksum s = NOT (foldl crc64_update (NOT 0) s)"

fun strings_Join :: "string list \<Rightarrow> string \<Rightarrow> string" where
  "strings_Join [] sep = []"
| "strings_Join [s] sep = s"
| "strings_Join (s # t # ss) sep = s @ sep @ strings_Join (t # ss) sep"

definition groupingKey :: "(gval \<Rightarrow> string) \<Rightarrow> genv \<Rightarrow> expr list \<Rightarrow> row \<Rightarrow> 64 word res" where
  "groupingKey sharp env exprs row =
     rbind (rmap (\<lambda>e. eval env e row) exprs) (\<lambda>vs. Ok (crc64_Checksum (strings_Join (map sharp vs) '','')))"

section \<open>Buffers of the selected expressions\<close>

text \<open>A selected expression: an aggregation, an alias, or any other expression.\<close>

datatype (plugins only: code size) select_expr =
    Agg agg_fn expr | AliasOf select_expr string | Plain expr

fun fillBuffer :: "select_expr \<Rightarrow> row" where
  "fillBuffer (Agg f child) = NewBuffer f"
| "fillBuffer (AliasOf e nm) = fillBuffer e"
| "fillBuffer (Plain e) = []"

definition set_buffer :: "row list \<Rightarrow> nat \<Rightarrow> row \<times> unit res \<Rightarrow> row list \<times> unit res" where
  "set_buffer bufs idx p = (bufs[idx := fst p], snd p)"

fun updateBuffer ::
  "(gval \<Rightarrow> 64 word res) \<Rightarrow> genv \<Rightarrow> row list \<Rightarrow> nat \<Rightarrow> select_expr \<Rightarrow> row \<Rightarrow> row list \<times> unit res" where
  "updateBuffer hash env bufs idx (Agg f child) row =
     (case slice_at bufs idx of
        Ok b \<Rightarrow> set_buffer bufs idx (agg_Update hash env f child b row)
      | _ \<Rightarrow> (bufs, Panic))"
| "updateBuffer hash env bufs idx (AliasOf e nm) row = updateBuffer hash env bufs idx e row"
| "updateBuffer hash env bufs idx (Plain e) row =
     (case eval env e row of
        Ok val \<Rightarrow> (case slice_set bufs idx [val] of Ok bs \<Rightarrow> (bs, Ok ()) | _ \<Rightarrow> (bufs, Panic))
      | Err x \<Rightarrow> (bufs, Err x)
      | Panic \<Rightarrow> (bufs, Panic))"

fun update_from ::
  "(gval \<Rightarrow> 64 word res) \<Rightarrow> genv \<Rightarrow> nat \<Rightarrow> row list \<Rightarrow> select_expr list \<Rightarrow> row \<Rightarrow> row list \<times> unit res" where
  "update_from hash env i bufs [] row = (bufs, Ok ())"
| "update_from hash env i bufs (a # as) row =
     (case updateBuffer hash env bufs i a row of
        (bufs', Ok _) \<Rightarrow> update_from hash env (Suc i) bufs' as row
      | p \<Rightarrow> p)"

definition updateBuffers ::
  "(gval \<Rightarrow> 64 word res) \<Rightarrow> genv \<Rightarrow> row list \<Rightarrow> select_expr list \<Rightarrow> row \<Rightarrow> row list \<times> unit res" where
  "updateBuffers hash env bufs aggregate row = update_from hash env 0 bufs aggregate row"

fun evalBuffer :: "select_expr \<Rightarrow> row \<Rightarrow> gval res" where
  "evalBuffer (Agg f child) buffer = agg_Eval f buffer"
| "evalBuffer (AliasOf e nm) buffer = evalBuffer e buffer"
| "evalBuffer (Plain e) buffer = (case buffer of [] \<Rightarrow> Ok GNil | v # _ \<Rightarrow> Ok v)"

fun evalBuffers :: "row list \<Rightarrow> select_expr list \<Rightarrow> row res" where
  "evalBuffers bufs [] = Ok []"
| "evalBuffers [] (a # as) = Panic"
| "evalBuffers (b # bufs) (a # as) =
     rbind (evalBuffer a b) (\<lambda>v. rbind (evalBuffers bufs as) (\<lambda>vs. Ok (v # vs)))"

section \<open>The iterator without grouping\<close>

record 's group_iter =
  gi_child :: 's
  gi_buf :: "row list"
  gi_done :: bool

definition newGroupByIter :: "select_expr list \<Rightarrow> 's \<Rightarrow> 's group_iter" where
  "newGroupByIter aggregate child = \<lparr> gi_child = child, gi_buf = map (\<lambda>_. []) aggregate, gi_done = False \<rparr>"

partial_function (option) group_loop ::
  "(gval \<Rightarrow> 64 word res) \<Rightarrow> genv \<Rightarrow> select_expr list \<Rightarrow> ('s, row) nextfn \<Rightarrow> row list \<Rightarrow> 's \<Rightarrow>
   ((row list \<times> 's) \<times> unit res) option"
where
  "group_loop hash env aggregate nx buf s =
     (case nx s of
        None \<Rightarrow> None
      | Some (s', Err e) \<Rightarrow> Some ((buf, s'), if e = EOF then Ok () else Err e)
      | Some (s', Panic) \<Rightarrow> Some ((buf, s'), Panic)
      | Some (s', Ok row) \<Rightarrow>
          (case updateBuffers hash env buf aggregate row of
             (buf', Ok _) \<Rightarrow> group_loop hash env aggregate nx buf' s'
           | (buf', Err e) \<Rightarrow> Some ((buf', s'), Err e)
           | (buf', Panic) \<Rightarrow> Some ((buf', s'), Panic)))"

definition group_Next ::
  "(gval \<Rightarrow> 64 word res) \<Rightarrow> genv \<Rightarrow> select_expr list \<Rightarrow> ('s, row) nextfn \<Rightarrow> ('s group_iter, row) nextfn" where
  "group_Next hash env aggregate nx i =
     (if gi_done i then Some (i, Err EOF)
      else case group_loop hash env aggregate nx (map fillBuffer aggregate) (gi_child i) of
        None \<Rightarrow> None
      | Some ((buf, s'), r) \<Rightarrow>
          Some (\<lparr> gi_child = s', gi_buf = buf, gi_done = True \<rparr>, rbind r (\<lambda>_. evalBuffers buf aggregate)))"

section \<open>The iterator with grouping\<close>

record 's grouping_iter =
  gg_aggregation :: "(64 word \<rightharpoonup> row list) option"
  gg_keys :: "64 word list"
  gg_pos :: nat
  gg_child :: 's

definition newGroupByGroupingIter :: "'s \<Rightarrow> 's grouping_iter" where
  "newGroupByGroupingIter child = \<lparr> gg_aggregation = None, gg_keys = [], gg_pos = 0, gg_child = child \<rparr>"

text \<open>One row of \<^verbatim>\<open>compute\<close>: find or create the buffers of the row's group and update them.\<close>

definition compute_row ::
  "(gval \<Rightarrow> string) \<Rightarrow> (nat \<Rightarrow> bool) \<Rightarrow> (gval \<Rightarrow> 64 word res) \<Rightarrow> genv \<Rightarrow> select_expr list \<Rightarrow> expr list \<Rightarrow>
   (64 word \<rightharpoonup> row list) \<times> 64 word list \<Rightarrow> row \<Rightarrow> ((64 word \<rightharpoonup> row list) \<times> 64 word list) \<times> unit res" where
  "compute_row sharp avail hash env aggregate grouping c row =
     (case c of (m, keys) \<Rightarrow>
       (case groupingKey sharp env grouping row of
          Err e \<Rightarrow> (c, Err e)
        | Panic \<Rightarrow> (c, Panic)
        | Ok key \<Rightarrow>
            if m key = None \<and> \<not> avail (length keys) then (c, Err (RegErr ErrNoMemoryAvailable))
            else let (bufs, keys') = (case m key of
                         Some b \<Rightarrow> (b, keys)
                       | None \<Rightarrow> (map fillBuffer aggregate, keys @ [key]));
                     (bufs', r) = updateBuffers hash env bufs aggregate row
                 in ((m(key \<mapsto> bufs'), keys'), r)))"

partial_function (option) compute ::
  "(gval \<Rightarrow> string) \<Rightarrow> (nat \<Rightarrow> bool) \<Rightarrow> (gval \<Rightarrow> 64 word res) \<Rightarrow> genv \<Rightarrow> select_expr list \<Rightarrow> expr list \<Rightarrow> ('s, row) nextfn \<Rightarrow>
   (64 word \<rightharpoonup> row list) \<times> 64 word list \<Rightarrow> 's \<Rightarrow>
   ((((64 word \<rightharpoonup> row list) \<times> 64 word list) \<times> 's) \<times> unit res) option"
where
  "compute sharp avail hash env aggregate grouping nx c s =
     (case nx s of
        None \<Rightarrow> None
      | Some (s', Err e) \<Rightarrow> Some ((c, s'), if e = EOF then Ok () else Err e)
      | Some (s', Panic) \<Rightarrow> Some ((c, s'), Panic)
      | Some (s', Ok row) \<Rightarrow>
          (case compute_row sharp avail hash env aggregate grouping c row of
             (c', Ok _) \<Rightarrow> compute sharp avail hash env aggregate grouping nx c' s'
           | (c', Err e) \<Rightarrow> Some ((c', s'), Err e)
           | (c', Panic) \<Rightarrow> Some ((c', s'), Panic)))"

definition grouping_emit ::
  "select_expr list \<Rightarrow> (64 word \<rightharpoonup> row list) \<Rightarrow> 's grouping_iter \<Rightarrow> 's grouping_iter \<times> row res" where
  "grouping_emit aggregate m i =
     (if gg_pos i \<ge> length (gg_keys i) then (i, Err EOF)
      else let k = gg_keys i ! gg_pos i in
        case m k of
          None \<Rightarrow> (i, Err (RegErr (ErrKeyNotFound k)))
        | Some bufs \<Rightarrow> (i \<lparr> gg_pos := Suc (gg_pos i) \<rparr>, evalBuffers bufs aggregate))"

definition grouping_Next ::
  "(gval \<Rightarrow> string) \<Rightarrow> (nat \<Rightarrow> bool) \<Rightarrow> (gval \<Rightarrow> 64 word res) \<Rightarrow> genv \<Rightarrow> select_expr list \<Rightarrow> expr list \<Rightarrow>
   ('s, row) nextfn \<Rightarrow> ('s grouping_iter, row) nextfn" where
  "grouping_Next sharp avail hash env aggregate grouping nx i =
     (case gg_aggregation i of
        Some m \<Rightarrow> Some (grouping_emit aggregate m i)
      | None \<Rightarrow>
          (case compute sharp avail hash env aggregate grouping nx (Map.empty, gg_keys i) (gg_child i) of
             None \<Rightarrow> None
           | Some (((m, keys), s'), r) \<Rightarrow>
               (let i' = i \<lparr> gg_aggregation := Some m, gg_keys := keys, gg_child := s' \<rparr> in
                  case r of
                    Ok _ \<Rightarrow> Some (grouping_emit aggregate m i')
                  | Err e \<Rightarrow> Some (i', Err e)
                  | Panic \<Rightarrow> Some (i', Panic))))"

section \<open>One buffer per selected expression\<close>

text \<open>The update of a single buffer: the buffers of the selected expressions do not influence each other.\<close>

fun sel_update :: "(gval \<Rightarrow> 64 word res) \<Rightarrow> genv \<Rightarrow> select_expr \<Rightarrow> row \<Rightarrow> row \<Rightarrow> row \<times> unit res" where
  "sel_update hash env (Agg f child) b row = agg_Update hash env f child b row"
| "sel_update hash env (AliasOf e nm) b row = sel_update hash env e b row"
| "sel_update hash env (Plain e) b row = bail b (eval env e row) (\<lambda>v. ([v], Ok ()))"

lemma updateBuffer_sel:
  "updateBuffer hash env (pre @ b # post) (length pre) a row =
   (pre @ fst (sel_update hash env a b row) # post, snd (sel_update hash env a b row))"
proof (induction a)
  case (Plain e)
  then show ?case by (cases "eval env e row") simp_all
qed (simp_all add: set_buffer_def)

lemma update_from_Ok:
  "length bufs = length sel \<Longrightarrow>
   update_from hash env (length pre) (pre @ bufs) sel row = (out, Ok ()) \<longleftrightarrow>
   (\<exists>bufs'. out = pre @ bufs' \<and> list_all2 (\<lambda>(a, b) b'. sel_update hash env a b row = (b', Ok ())) (zip sel bufs) bufs')"
proof (induction sel arbitrary: pre bufs)
  case (Cons a sel)
  then obtain b bs where bufs: "bufs = b # bs" "length bs = length sel" by (cases bufs) auto
  obtain b' r where u: "sel_update hash env a b row = (b', r)" by (cases "sel_update hash env a b row")
  show ?case
  proof (cases r)
    case (Ok x)
    then show ?thesis
      using Cons.IH [of bs "pre @ [b']"] bufs u updateBuffer_sel [of hash env pre b bs a row]
      by (auto simp: list_all2_Cons1)
  qed (use bufs u updateBuffer_sel [of hash env pre b bs a row] in \<open>auto simp: list_all2_Cons1\<close>)
qed auto

lemma updateBuffers_Ok:
  "length bufs = length sel \<Longrightarrow>
   updateBuffers hash env bufs sel row = (out, Ok ()) \<longleftrightarrow>
   list_all2 (\<lambda>(a, b) b'. sel_update hash env a b row = (b', Ok ())) (zip sel bufs) out"
  using update_from_Ok [of bufs sel hash env "[]" row out] by (simp add: updateBuffers_def)

lemma update_columns:
  assumes "length bufs = length sel"
    and "\<And>a b. (a, b) \<in> set (zip sel bufs) \<Longrightarrow> snd (update_all (sel_update hash env a) b rows) = Ok ()"
  shows "update_all (\<lambda>bs. updateBuffers hash env bs sel) bufs rows =
    (map (\<lambda>(a, b). fst (update_all (sel_update hash env a) b rows)) (zip sel bufs), Ok ())"
  using assms
proof (induction rows arbitrary: bufs)
  case Nil
  then show ?case by (simp add: zip_map_fst_snd case_prod_unfold map_snd_zip)
next
  case (Cons r rows)
  define step where "step = (\<lambda>(a, b). fst (sel_update hash env a b r))"
  have ok: "sel_update hash env a b r = (step (a, b), Ok ())"
    "snd (update_all (sel_update hash env a) (step (a, b)) rows) = Ok ()"
    if "(a, b) \<in> set (zip sel bufs)" for a b
    using Cons.prems(2) [OF that]
    by (auto simp: step_def split: prod.splits res.splits)
  let ?bufs = "map step (zip sel bufs)"
  have zip: "zip sel ?bufs = map (\<lambda>(a, b). (a, step (a, b))) (zip sel bufs)"
    using Cons.prems(1) by (intro nth_equalityI) auto
  have "updateBuffers hash env bufs sel r = (?bufs, Ok ())"
    using ok(1) Cons.prems(1) by (auto simp: updateBuffers_Ok list_all2_conv_all_nth set_zip)
  moreover have "update_all (\<lambda>bs. updateBuffers hash env bs sel) ?bufs rows =
    (map (\<lambda>(a, b). fst (update_all (sel_update hash env a) b rows)) (zip sel ?bufs), Ok ())"
    by (rule Cons.IH) (use Cons.prems(1) ok(2) in \<open>auto simp: zip\<close>)
  moreover have "fst (update_all (sel_update hash env a) b (r # rows)) =
      fst (update_all (sel_update hash env a) (step (a, b)) rows)" if "(a, b) \<in> set (zip sel bufs)" for a b
    using ok(1) [OF that] by simp
  ultimately show ?case by (auto simp: zip)
qed

text \<open>What a selected expression returns for a group of rows.\<close>

fun sel_post :: "(gval \<Rightarrow> 64 word res) \<Rightarrow> genv \<Rightarrow> row list \<Rightarrow> select_expr \<Rightarrow> gval \<Rightarrow> bool" where
  "sel_post hash env rows (Agg f child) v =
     (\<exists>vs. rmap (agg_arg env child) rows = Ok vs \<and> agg_post hash env f (the_Ok NullT (etype child)) vs v)"
| "sel_post hash env rows (AliasOf e nm) v = sel_post hash env rows e v"
| "sel_post hash env rows (Plain e) v = (if rows = [] then v = GNil else eval env e (last rows) = Ok v)"

fun sel_ready :: "(gval \<Rightarrow> 64 word res) \<Rightarrow> genv \<Rightarrow> row list \<Rightarrow> select_expr \<Rightarrow> bool" where
  "sel_ready hash env rows (Agg f child) =
     (\<exists>D vs. agg_ready env f child (the_Ok NullT (etype child)) D
        \<and> rmap (agg_arg env child) rows = Ok vs \<and> (\<forall>v \<in> set vs. agg_dom hash env f D v))"
| "sel_ready hash env rows (AliasOf e nm) = sel_ready hash env rows e"
| "sel_ready hash env rows (Plain e) = (\<forall>r \<in> set rows. is_Ok (eval env e r))"

lemma plain_update_all:
  "\<forall>r \<in> set rows. is_Ok (eval env e r) \<Longrightarrow>
   update_all (sel_update hash env (Plain e)) b rows =
     (if rows = [] then b else [the_Ok GNil (eval env e (last rows))], Ok ())"
  by (induction rows arbitrary: b) (auto simp: is_Ok_iff the_Ok_def)

lemma sel_result:
  "sel_ready hash env rows a \<Longrightarrow>
   \<exists>b v. update_all (sel_update hash env a) (fillBuffer a) rows = (b, Ok ()) \<and> evalBuffer a b = Ok v
     \<and> sel_post hash env rows a v"
proof (induction a)
  case (Agg f child)
  have fn: "sel_update hash env (Agg f child) = agg_Update hash env f child" by (intro ext) simp
  from Agg show ?case
    using agg_result [of env f child _ _ rows _ hash] by (fastforce simp: fn)
next
  case (AliasOf e nm)
  have fn: "sel_update hash env (AliasOf e nm) = sel_update hash env e" by (intro ext) simp
  from AliasOf show ?case by (simp add: fn)
next
  case (Plain e)
  then have ok: "\<forall>r \<in> set rows. is_Ok (eval env e r)" by simp
  show ?case
  proof (cases "rows = []")
    case False
    then obtain v where "eval env e (last rows) = Ok v"
      using bspec [OF ok last_in_set [OF False]] by (auto simp: is_Ok_iff)
    with False plain_update_all [OF ok, of hash "[]"] show ?thesis
      by (simp add: the_Ok_def del: sel_update.simps)
  qed simp
qed

lemma evalBuffers_map:
  "(\<And>a b. (a, b) \<in> set (zip sel bufs) \<Longrightarrow> evalBuffer a b = Ok (g a b)) \<Longrightarrow> length bufs = length sel \<Longrightarrow>
   evalBuffers bufs sel = Ok (map (\<lambda>(a, b). g a b) (zip sel bufs))"
proof (induction sel arbitrary: bufs)
  case (Cons a sel)
  then show ?case by (cases bufs) auto
qed simp

text \<open>The row the iterator without grouping makes of a list of rows.\<close>

definition aggregate_rows :: "(gval \<Rightarrow> 64 word res) \<Rightarrow> genv \<Rightarrow> select_expr list \<Rightarrow> row list \<Rightarrow> row res" where
  "aggregate_rows hash env sel rows =
     (case update_all (\<lambda>bs. updateBuffers hash env bs sel) (map fillBuffer sel) rows of
        (bufs, r) \<Rightarrow> rbind r (\<lambda>_. evalBuffers bufs sel))"

lemma aggregate_rows_columns:
  assumes "\<forall>a \<in> set sel. sel_ready hash env rows a"
  shows "\<exists>out. aggregate_rows hash env sel rows = Ok out \<and> list_all2 (sel_post hash env rows) sel out
    \<and> snd (update_all (\<lambda>bs. updateBuffers hash env bs sel) (map fillBuffer sel) rows) = Ok ()"
proof -
  define buf where "buf a = fst (update_all (sel_update hash env a) (fillBuffer a) rows)" for a
  define val where "val a = the_Ok GNil (evalBuffer a (buf a))" for a
  have a: "snd (update_all (sel_update hash env a) (fillBuffer a) rows) = Ok ()"
    "evalBuffer a (buf a) = Ok (val a)" "sel_post hash env rows a (val a)" if "a \<in> set sel" for a
    using sel_result [of hash env rows a] assms that by (auto simp: buf_def val_def the_Ok_def)
  have bufs: "zip sel (map fillBuffer sel) = map (\<lambda>a. (a, fillBuffer a)) sel"
    by (induction sel) auto
  have "update_all (\<lambda>bs. updateBuffers hash env bs sel) (map fillBuffer sel) rows = (map buf sel, Ok ())"
    using a(1) by (subst update_columns) (auto simp: bufs buf_def)
  moreover have "zip sel (map buf sel) = map (\<lambda>a. (a, buf a)) sel" by (induction sel) auto
  then have "evalBuffers (map buf sel) sel = Ok (map val sel)"
    using a(2) by (subst evalBuffers_map [of sel "map buf sel" "\<lambda>a b. val a"]) auto
  ultimately show ?thesis
    using a(3) by (auto simp: aggregate_rows_def list_all2_conv_all_nth)
qed

section \<open>The iterators\<close>

lemma group_loop_yields:
  "yields nx s xs (Err EOF) t \<Longrightarrow>
   update_all (\<lambda>bs. updateBuffers hash env bs sel) buf xs = (buf', Ok ()) \<Longrightarrow>
   group_loop hash env sel nx buf s = Some ((buf', t), Ok ())"
proof (induction xs arbitrary: s buf)
  case Nil
  then show ?case by (auto elim!: yields_NilE simp: group_loop.simps [of _ _ _ nx _ s])
next
  case (Cons x xs)
  from Cons.prems(1) obtain s' where "nx s = Some (s', Ok x)" "yields nx s' xs (Err EOF) t"
    by (auto elim: yields_ConsE)
  with Cons show ?case
    by (auto simp: group_loop.simps [of _ _ _ nx _ s] split: prod.splits res.splits)
qed

text \<open>A select list of aggregations without GROUP BY returns exactly one row, whatever the number of input rows:
  in each column the aggregate of the argument's values over all rows, or for a plain expression its value on the
  last row (NULL when there is none).\<close>

lemma aggregate_row:
  assumes "yields nx s xs (Err EOF) t" "\<forall>a \<in> set sel. sel_ready hash env xs a"
  shows "\<exists>out u. drain (group_Next hash env sel nx) (newGroupByIter sel s) [] = Some (u, Ok [out])
    \<and> list_all2 (sel_post hash env xs) sel out"
proof -
  from aggregate_rows_columns [OF assms(2)] obtain out buf where
    out: "update_all (\<lambda>bs. updateBuffers hash env bs sel) (map fillBuffer sel) xs = (buf, Ok ())"
    "evalBuffers buf sel = Ok out" "list_all2 (sel_post hash env xs) sel out"
    by (auto simp: aggregate_rows_def split: prod.splits)
  let ?d = "\<lparr> gi_child = t, gi_buf = buf, gi_done = True \<rparr>"
  have "group_Next hash env sel nx (newGroupByIter sel s) = Some (?d, Ok out)"
    using group_loop_yields [OF assms(1) out(1)] out(2) by (simp add: group_Next_def newGroupByIter_def)
  moreover have "group_Next hash env sel nx ?d = Some (?d, Err EOF)" by (simp add: group_Next_def)
  ultimately have "yields (group_Next hash env sel nx) (newGroupByIter sel s) [out] (Err EOF) ?d"
    by (auto intro!: yields.intros)
  with out(3) show ?thesis by (auto simp: drain_yields)
qed

theorem aggregate_row_witness:
  "\<exists>out u. drain (group_Next (\<lambda>_. Ok 0) cast_env [Agg Count (Star []), AliasOf (Agg Last field0) ''l'', Plain field0] slice_Next)
      (newGroupByIter [Agg Count (Star []), AliasOf (Agg Last field0) ''l'', Plain field0]
        (RowsToRowIter [[GInt64 4], [GNil]])) [] = Some (u, Ok [out])
    \<and> list_all2 (sel_post (\<lambda>_. Ok 0) cast_env [[GInt64 4], [GNil]])
        [Agg Count (Star []), AliasOf (Agg Last field0) ''l'', Plain field0] out"
proof -
  obtain t where "yields slice_Next (RowsToRowIter [[GInt64 4], [GNil]]) [[GInt64 4], [GNil]] (Err EOF) t"
    by (rule slice_yieldsE)
  then show ?thesis
    by (rule aggregate_row) (simp add: agg_ready_def is_Star_def field0_def agg_arg_def GetField_Eval_def agg_dom_def)
qed

text \<open>The state of \<^verbatim>\<open>compute\<close> after a list of rows: every group holds the buffers its own rows lead to.\<close>

definition first_occurrences :: "'a list \<Rightarrow> 'a list" where
  "first_occurrences ks = rev (remdups (rev ks))"

lemma first_occurrences_snoc [simp]:
  "first_occurrences (ks @ [k]) = (if k \<in> set ks then first_occurrences ks else first_occurrences ks @ [k])"
  by (simp add: first_occurrences_def)

lemma first_occurrences_Nil [simp]: "first_occurrences [] = []"
  by (simp add: first_occurrences_def)

lemma set_first_occurrences [simp]: "set (first_occurrences ks) = set ks"
  by (simp add: first_occurrences_def)

lemma compute_rows:
  assumes "\<And>x. x \<in> set xs \<Longrightarrow> groupingKey sharp env grouping x = Ok (key x)"
    and "\<And>x. x \<in> set xs \<Longrightarrow>
      snd (update_all (\<lambda>bs. updateBuffers hash env bs sel) (map fillBuffer sel) (filter (\<lambda>y. key y = key x) xs)) = Ok ()"
  shows "update_all (compute_row sharp (\<lambda>_. True) hash env sel grouping) (Map.empty, []) xs =
    (((\<lambda>k. if k \<in> key ` set xs
         then Some (fst (update_all (\<lambda>bs. updateBuffers hash env bs sel) (map fillBuffer sel) (filter (\<lambda>y. key y = k) xs)))
         else None), first_occurrences (map key xs)), Ok ())"
  using assms
proof (induction xs rule: rev_induct)
  case (snoc x xs)
  let ?u = "\<lambda>ys. update_all (\<lambda>bs. updateBuffers hash env bs sel) (map fillBuffer sel) ys"
  have prefix: "snd (?u (filter (\<lambda>y. key y = key z) xs)) = Ok ()" if "z \<in> set xs" for z
    using snoc.prems(2) [of z] that
    by (cases "key x = key z") (auto simp: update_all_snoc split: prod.splits res.splits)
  from snoc.prems(2) [of x] have last: "snd (?u (filter (\<lambda>y. key y = key x) xs @ [x])) = Ok ()" by simp
  have keyx: "groupingKey sharp env grouping x = Ok (key x)" using snoc.prems(1) by simp
  have IH: "update_all (compute_row sharp (\<lambda>_. True) hash env sel grouping) (Map.empty, []) xs =
    (((\<lambda>k. if k \<in> key ` set xs then Some (fst (?u (filter (\<lambda>y. key y = k) xs))) else None),
      first_occurrences (map key xs)), Ok ())"
    by (rule snoc.IH) (use snoc.prems(1) prefix in auto)
  let ?m = "\<lambda>k. if k \<in> key ` set xs then Some (fst (?u (filter (\<lambda>y. key y = k) xs))) else None"
  obtain b where b: "?u (filter (\<lambda>y. key y = key x) xs) = (b, Ok ())"
    using last by (auto simp: update_all_snoc split: prod.splits res.splits)
  then obtain b' where b': "updateBuffers hash env b sel x = (b', Ok ())"
    using last by (cases "updateBuffers hash env b sel x") (auto simp: update_all_snoc)
  have none: "b = map fillBuffer sel" if "key x \<notin> key ` set xs"
  proof -
    have "filter (\<lambda>y. key y = key x) xs = []" 
      using that by (metis (mono_tags, lifting) filter_False imageI)
    with b show ?thesis by simp
  qed
  have "compute_row sharp (\<lambda>_. True) hash env sel grouping (?m, first_occurrences (map key xs)) x =
    ((?m(key x \<mapsto> b'), first_occurrences (map key (xs @ [x]))), Ok ())"
    using b b' none keyx by (auto simp: compute_row_def)
  moreover have "?m(key x \<mapsto> b') =
    (\<lambda>k. if k \<in> key ` set (xs @ [x]) then Some (fst (?u (filter (\<lambda>y. key y = k) (xs @ [x])))) else None)"
    using b b' by (auto simp: fun_eq_iff update_all_snoc)
  ultimately show ?case by (simp add: update_all_snoc IH)
qed simp

lemma compute_yields:
  "yields nx s xs (Err EOF) t \<Longrightarrow>
   update_all (compute_row sharp avail hash env sel grouping) c xs = (c', Ok ()) \<Longrightarrow>
   compute sharp avail hash env sel grouping nx c s = Some ((c', t), Ok ())"
proof (induction xs arbitrary: s c)
  case Nil
  then show ?case by (auto elim!: yields_NilE simp: compute.simps [of _ _ _ _ _ _ nx _ s])
next
  case (Cons x xs)
  from Cons.prems(1) obtain s' where "nx s = Some (s', Ok x)" "yields nx s' xs (Err EOF) t"
    by (auto elim: yields_ConsE)
  with Cons show ?case
    by (auto simp: compute.simps [of _ _ _ _ _ _ nx _ s] split: prod.splits res.splits)
qed

lemma grouping_emits:
  assumes "gg_aggregation i = Some m" "gg_pos i \<le> length (gg_keys i)"
    and "\<And>k. k \<in> set (gg_keys i) \<Longrightarrow> \<exists>b. m k = Some b \<and> evalBuffers b sel = Ok (out k)"
  shows "\<exists>u. yields (grouping_Next sharp avail hash env sel grouping nx) i
    (map out (drop (gg_pos i) (gg_keys i))) (Err EOF) u"
  using assms
proof (induction "length (gg_keys i) - gg_pos i" arbitrary: i)
  case 0
  then have "grouping_Next sharp avail hash env sel grouping nx i = Some (i, Err EOF)"
    by (simp add: grouping_Next_def grouping_emit_def)
  with 0 show ?case by (auto intro!: exI yields.stop)
next
  case (Suc n)
  let ?i = "i \<lparr> gg_pos := Suc (gg_pos i) \<rparr>"
  from Suc.hyps(2) have lt: "gg_pos i < length (gg_keys i)" by simp
  then obtain b where "m (gg_keys i ! gg_pos i) = Some b" "evalBuffers b sel = Ok (out (gg_keys i ! gg_pos i))"
    using Suc.prems(3) [OF nth_mem] by blast
  then have "grouping_Next sharp avail hash env sel grouping nx i = Some (?i, Ok (out (gg_keys i ! gg_pos i)))"
    using lt Suc.prems(1) by (simp add: grouping_Next_def grouping_emit_def)
  moreover have "\<exists>u. yields (grouping_Next sharp avail hash env sel grouping nx) ?i
      (map out (drop (gg_pos ?i) (gg_keys ?i))) (Err EOF) u"
    by (rule Suc.hyps(1)) (use Suc lt in auto)
  ultimately show ?case using lt by (auto simp: Cons_nth_drop_Suc [symmetric] intro: yields.step)
qed

lemma group_by_yields:
  assumes "yields nx s xs (Err EOF) t"
    and key: "\<And>x. x \<in> set xs \<Longrightarrow> groupingKey sharp env grouping x = Ok (key x)"
    and "\<And>x. x \<in> set xs \<Longrightarrow> aggregate_rows hash env sel (filter (\<lambda>y. key y = key x) xs) = Ok (out (key x))"
  shows "\<exists>u. yields (grouping_Next sharp (\<lambda>_. True) hash env sel grouping nx) (newGroupByGroupingIter s)
    (map out (first_occurrences (map key xs))) (Err EOF) u"
proof -
  let ?u = "\<lambda>ys. update_all (\<lambda>bs. updateBuffers hash env bs sel) (map fillBuffer sel) ys"
  let ?N = "grouping_Next sharp (\<lambda>_. True) hash env sel grouping nx"
  define m where "m = (\<lambda>k. if k \<in> key ` set xs then Some (fst (?u (filter (\<lambda>y. key y = k) xs))) else None)"
  have agg: "snd (?u (filter (\<lambda>y. key y = key x) xs)) = Ok ()"
    "evalBuffers (fst (?u (filter (\<lambda>y. key y = key x) xs))) sel = Ok (out (key x))" if "x \<in> set xs" for x
    using assms(3) [OF that] by (auto simp: aggregate_rows_def res_simps split: prod.splits)
  let ?i = "\<lparr> gg_aggregation = Some m, gg_keys = first_occurrences (map key xs), gg_pos = 0, gg_child = t \<rparr>"
  have "compute sharp (\<lambda>_. True) hash env sel grouping nx (Map.empty, []) s =
      Some (((m, first_occurrences (map key xs)), t), Ok ())"
    by (rule compute_yields [OF assms(1)]) (use compute_rows [OF key agg(1)] in \<open>simp add: m_def\<close>)
  then have "?N (newGroupByGroupingIter s) = ?N ?i"
    by (simp add: grouping_Next_def newGroupByGroupingIter_def)
  moreover have "\<exists>u. yields ?N ?i (map out (drop (gg_pos ?i) (gg_keys ?i))) (Err EOF) u"
    by (rule grouping_emits) (use agg(2) in \<open>auto simp: m_def\<close>)
  ultimately show ?thesis by (auto intro: yields_same_next)
qed

text \<open>(C6) GROUP BY returns one row per key, in the order in which the keys first occur, and that row is what the iterator
  without grouping computes from the rows of the group alone: aggregating all groups in one pass keeps them apart.\<close>

theorem group_by_rows:
  assumes "yields nx s xs (Err EOF) t"
    and "\<forall>x \<in> set xs. groupingKey sharp env grouping x = Ok (key x)"
    and "\<forall>x \<in> set xs. aggregate_rows hash env sel (filter (\<lambda>y. key y = key x) xs) = Ok (out (key x))"
  shows "\<exists>u. drain (grouping_Next sharp (\<lambda>_. True) hash env sel grouping nx) (newGroupByGroupingIter s) [] =
    Some (u, Ok (map out (first_occurrences (map key xs))))"
  using group_by_yields [OF assms(1), of sharp env grouping key hash sel out] assms(2,3)
  by (auto simp: drain_yields)

theorem group_by_rows_witness:
  "\<exists>u. drain (grouping_Next (\<lambda>_. ''v'') (\<lambda>_. True) (\<lambda>_. Ok 0) cast_env [Agg Count (Star [])] [field0] slice_Next)
      (newGroupByGroupingIter (RowsToRowIter [[GInt64 4], [GInt64 5]])) [] = Some (u, Ok [[GInt64 2]])"
proof -
  obtain t where t: "yields slice_Next (RowsToRowIter [[GInt64 4], [GInt64 5]]) [[GInt64 4], [GInt64 5]] (Err EOF) t"
    by (rule slice_yieldsE)
  have "\<exists>u. drain (grouping_Next (\<lambda>_. ''v'') (\<lambda>_. True) (\<lambda>_. Ok 0) cast_env [Agg Count (Star [])] [field0] slice_Next)
      (newGroupByGroupingIter (RowsToRowIter [[GInt64 4], [GInt64 5]])) [] =
      Some (u, Ok (map (\<lambda>_. [GInt64 2]) (first_occurrences (map (\<lambda>_. crc64_Checksum ''v'') [[GInt64 4], [GInt64 5]]))))"
    by (rule group_by_rows [OF t])
      (simp_all add: groupingKey_def field0_def GetField_Eval_def aggregate_rows_def updateBuffers_def agg_defs
        Count_NewBuffer_def Count_Update_def is_Star_def set_buffer_def)
  then show ?thesis by (simp add: first_occurrences_def)
qed

end
