(* ===== verification/Memory_Table.thy ===== *)
theory Memory_Table
  imports Row_Iters
begin

text \<open>
  The in-memory table (\<^verbatim>\<open>memory/table.go\<close>). The rows of a partition are a Go slice, and an iterator over a partition keeps
  a copy of the slice header: both look at the same backing array. Deleting a row shifts the array in place, so the
  model keeps the arrays in an explicit heap. A slice is the address of its array and a length; an array is a list as
  long as its capacity. \<open>grow n\<close> is the capacity the runtime gives an array that has to hold \<open>n\<close> rows. The order in which
  Go visits the entries of a map is not specified: it is the parameter \<open>order\<close> of the operations that range over the
  partitions.

  A table is a header (name, schema, partition keys, what an access has pushed into it) over data that copies of the
  header share. A schema is a list of pointers to columns, \<open>None\<close> being nil.
\<close>

section \<open>Slices of rows\<close>

type_synonym heap = "row list list"

record slice =
  sl_arr :: nat
  sl_len :: nat

definition array_at :: "heap \<Rightarrow> nat \<Rightarrow> row list" where
  "array_at h a = (if a < length h then h ! a else [])"

definition slice_rows :: "heap \<Rightarrow> slice \<Rightarrow> row list" where
  "slice_rows h s = take (sl_len s) (array_at h (sl_arr s))"

text \<open>\<^verbatim>\<open>append(s, row)\<close>: in place when the array has room, else in a new array.\<close>

definition append_row :: "(nat \<Rightarrow> nat) \<Rightarrow> heap \<Rightarrow> slice \<Rightarrow> row \<Rightarrow> heap \<times> slice" where
  "append_row grow h s row =
     (let a = array_at h (sl_arr s); n = sl_len s in
      if n < length a then (h[sl_arr s := a[n := row]], s \<lparr> sl_len := Suc n \<rparr>)
      else (h @ [take n a @ [row] @ replicate (grow (Suc n) - Suc n) []], \<lparr> sl_arr = length h, sl_len = Suc n \<rparr>))"

text \<open>\<^verbatim>\<open>append(s[:i], s[i+1:]...)\<close> always fits: the rows after the removed one move down, the last cell keeps its row.\<close>

definition remove_row :: "heap \<Rightarrow> slice \<Rightarrow> nat \<Rightarrow> heap \<times> slice" where
  "remove_row h s i =
     (let a = array_at h (sl_arr s); n = sl_len s in
      (h[sl_arr s := take i a @ take (n - Suc i) (drop (Suc i) a) @ drop (n - 1) a], s \<lparr> sl_len := n - 1 \<rparr>))"

definition set_row :: "heap \<Rightarrow> slice \<Rightarrow> nat \<Rightarrow> row \<Rightarrow> heap" where
  "set_row h s i row = h[sl_arr s := (array_at h (sl_arr s))[i := row]]"

section \<open>Tables\<close>

record tdata =
  td_partitions :: "string \<rightharpoonup> slice"
  td_heap :: heap

record mem_table =
  mt_name :: string
  mt_schema :: "column option list"
  mt_keys :: "string list"
  mt_insert :: nat
  mt_filters :: "expr list"
  mt_projection :: "string list"
  mt_columns :: "int list"
  mt_lookup :: "(string \<Rightarrow> string list res) option"

text \<open>\<^verbatim>\<open>strconv.Itoa\<close> of a natural number.\<close>

fun Itoa :: "nat \<Rightarrow> string" where
  "Itoa n = (if n < 10 then [char_of (48 + n)] else Itoa (n div 10) @ [char_of (48 + n mod 10)])"

definition NewPartitionedTable :: "string \<Rightarrow> schema \<Rightarrow> int \<Rightarrow> tdata \<times> mem_table" where
  "NewPartitionedTable name sch numPartitions =
     (let n = (if numPartitions < 1 then 1 else nat numPartitions); keys = map Itoa [0..<n] in
      (\<lparr> td_partitions = map_of (zip keys (map (\<lambda>i. \<lparr> sl_arr = i, sl_len = 0 \<rparr>) [0..<n])), td_heap = replicate n [] \<rparr>,
       \<lparr> mt_name = name, mt_schema = map Some sch, mt_keys = keys, mt_insert = 0, mt_filters = [],
         mt_projection = [], mt_columns = [], mt_lookup = None \<rparr>))"

definition NewTable :: "string \<Rightarrow> schema \<Rightarrow> tdata \<times> mem_table" where
  "NewTable name sch = NewPartitionedTable name sch 0"

subsection \<open>Reading\<close>

record partition_iter =
  pi_keys :: "string list"
  pi_pos :: nat

definition Partitions :: "tdata \<Rightarrow> mem_table \<Rightarrow> partition_iter" where
  "Partitions d t =
     \<lparr> pi_keys = filter (\<lambda>k. case td_partitions d k of None \<Rightarrow> False | Some s \<Rightarrow> sl_len s > 0) (mt_keys t), pi_pos = 0 \<rparr>"

definition partitionIter_Next :: "(partition_iter, string) nextfn" where
  "partitionIter_Next p =
     (if pi_pos p \<ge> length (pi_keys p) then Some (p, Err EOF)
      else Some (p \<lparr> pi_pos := Suc (pi_pos p) \<rparr>, Ok (pi_keys p ! pi_pos p)))"

text \<open>The iterator over a partition; an index lookup hands it the encoded positions to visit.\<close>

record mem_iter =
  mi_columns :: "int list"
  mi_filters :: "expr list"
  mi_rows :: slice
  mi_indexValues :: "string list option"
  mi_pos :: nat

definition PartitionRows :: "tdata \<Rightarrow> mem_table \<Rightarrow> string \<Rightarrow> mem_iter res" where
  "PartitionRows d t key =
     (case td_partitions d key of
        None \<Rightarrow> Err (ErrOther ''partition not found'')
      | Some rows \<Rightarrow>
          rbind (case mt_lookup t of None \<Rightarrow> Ok None | Some lookup \<Rightarrow> rbind (lookup key) (\<lambda>vs. Ok (Some vs))) (\<lambda>values.
            Ok \<lparr> mi_columns = mt_columns t, mi_filters = mt_filters t, mi_rows = rows, mi_indexValues = values, mi_pos = 0 \<rparr>))"

text \<open>\<open>dec\<close> is \<^verbatim>\<open>decodeIndexValue\<close>, the gob decoding of a partition key and a position.\<close>

definition getFromIndex :: "(string \<Rightarrow> (string \<times> int) res) \<Rightarrow> heap \<Rightarrow> mem_iter \<Rightarrow> string list \<Rightarrow> mem_iter \<times> row res" where
  "getFromIndex dec h i vals =
     (case vals of
        [] \<Rightarrow> (i, Err EOF)
      | data # rest \<Rightarrow>
          (i \<lparr> mi_indexValues := Some rest \<rparr>,
           rbind (dec data) (\<lambda>(key, pos).
             if 0 \<le> pos \<and> pos < int (sl_len (mi_rows i)) then slice_at (slice_rows h (mi_rows i)) (nat pos) else Panic)))"

definition getRow :: "(string \<Rightarrow> (string \<times> int) res) \<Rightarrow> heap \<Rightarrow> mem_iter \<Rightarrow> mem_iter \<times> row res" where
  "getRow dec h i =
     (case mi_indexValues i of
        Some values \<Rightarrow> getFromIndex dec h i values
      | None \<Rightarrow>
          if mi_pos i \<ge> sl_len (mi_rows i) then (i, Err EOF)
          else (i \<lparr> mi_pos := Suc (mi_pos i) \<rparr>, slice_at (slice_rows h (mi_rows i)) (mi_pos i)))"

definition projectOnRow :: "int list \<Rightarrow> row \<Rightarrow> row res" where
  "projectOnRow columns row =
     (if columns = [] then Ok row
      else rmap (\<lambda>c. if c < 0 then Panic else slice_at row (nat c)) columns)"

text \<open>The filters pushed into the table: a row passes when each is true under \<^verbatim>\<open>ConvertToBool\<close>, whose error counts as false.\<close>

fun pass_filters :: "genv \<Rightarrow> expr list \<Rightarrow> row \<Rightarrow> bool res" where
  "pass_filters env [] row = Ok True"
| "pass_filters env (f # fs) row = rbind (eval env f row) (\<lambda>v.
     if ConvertToBool v = Ok True then pass_filters env fs row else Ok False)"

definition rows_left :: "mem_iter \<Rightarrow> nat" where
  "rows_left i = (case mi_indexValues i of Some vs \<Rightarrow> length vs | None \<Rightarrow> sl_len (mi_rows i) - mi_pos i)"

lemma getRow_left: "getRow dec h i = (i', Ok row) \<Longrightarrow> rows_left i' < rows_left i"
  by (auto simp: getRow_def getFromIndex_def rows_left_def slice_at_def split: option.splits list.splits if_splits)

function tableIter_Next :: "genv \<Rightarrow> (string \<Rightarrow> (string \<times> int) res) \<Rightarrow> heap \<Rightarrow> mem_iter \<Rightarrow> mem_iter \<times> row res" where
  "tableIter_Next env dec h i =
     (case getRow dec h i of
        (i', Ok row) \<Rightarrow>
          (case pass_filters env (mi_filters i) row of
             Ok ok \<Rightarrow> if ok then (i', projectOnRow (mi_columns i) row) else tableIter_Next env dec h i'
           | Err e \<Rightarrow> (i', Err e)
           | Panic \<Rightarrow> (i', Panic))
      | (i', Err e) \<Rightarrow> (i', Err e)
      | (i', Panic) \<Rightarrow> (i', Panic))"
  by pat_completeness auto
termination
  by (relation "measure (\<lambda>(env, dec, h, i). rows_left i)") (auto dest: getRow_left sym)

declare tableIter_Next.simps [simp del]

subsection \<open>The editor\<close>

fun check_values :: "genv \<Rightarrow> column option list \<Rightarrow> row \<Rightarrow> unit res" where
  "check_values env (c # cs) (v # vs) =
     (case c of None \<Rightarrow> Panic | Some col \<Rightarrow> rbind (Column_Check env col v) (\<lambda>ok.
        if ok then check_values env cs vs else Err (SqlErr ErrInvalidType)))"
| "check_values env _ _ = Ok ()"

definition checkRow :: "genv \<Rightarrow> column option list \<Rightarrow> row \<Rightarrow> unit res" where
  "checkRow env sch row =
     (if length row \<noteq> length sch then Err (SqlErr (ErrUnexpectedRowLength (length sch) (length row)))
      else check_values env sch row)"

text \<open>A mutating method: the new data and header, and the returned error.\<close>

type_synonym edit = "(tdata \<times> mem_table) \<times> unit res"

definition editor_Insert :: "genv \<Rightarrow> (nat \<Rightarrow> nat) \<Rightarrow> tdata \<times> mem_table \<Rightarrow> row \<Rightarrow> edit" where
  "editor_Insert env grow w row =
     (case w of (d, t) \<Rightarrow>
       (case checkRow env (mt_schema t) row of
          Err e \<Rightarrow> (w, Err e)
        | Panic \<Rightarrow> (w, Panic)
        | Ok _ \<Rightarrow>
            (case slice_at (mt_keys t) (mt_insert t) of
               Ok key \<Rightarrow>
                 (let n = Suc (mt_insert t);
                      (h, s) = append_row grow (td_heap d)
                        (case td_partitions d key of Some s \<Rightarrow> s | None \<Rightarrow> \<lparr> sl_arr = length (td_heap d), sl_len = 0 \<rparr>) row
                  in ((\<lparr> td_partitions = (td_partitions d)(key \<mapsto> s), td_heap = h \<rparr>,
                       t \<lparr> mt_insert := if n = length (mt_keys t) then 0 else n \<rparr>), Ok ()))
             | _ \<Rightarrow> (w, Panic))))"

fun row_matches :: "row \<Rightarrow> row \<Rightarrow> bool res" where
  "row_matches [] prow = Ok True"
| "row_matches (v # vs) [] = Panic"
| "row_matches (v # vs) (p # ps) = rbind (iface_eq v p) (\<lambda>eq. if eq then row_matches vs ps else Ok False)"

fun find_row :: "row \<Rightarrow> nat \<Rightarrow> row list \<Rightarrow> nat option res" where
  "find_row row i [] = Ok None"
| "find_row row i (p # ps) = rbind (row_matches row p) (\<lambda>m. if m then Ok (Some i) else find_row row (Suc i) ps)"

fun find_partition :: "tdata \<Rightarrow> row \<Rightarrow> string list \<Rightarrow> (string \<times> slice \<times> nat) option res" where
  "find_partition d row [] = Ok None"
| "find_partition d row (k # ks) =
     (case td_partitions d k of
        None \<Rightarrow> find_partition d row ks
      | Some s \<Rightarrow> rbind (find_row row 0 (slice_rows (td_heap d) s)) (\<lambda>found.
          case found of Some i \<Rightarrow> Ok (Some (k, s, i)) | None \<Rightarrow> find_partition d row ks))"

definition editor_Delete :: "genv \<Rightarrow> string list \<Rightarrow> tdata \<times> mem_table \<Rightarrow> row \<Rightarrow> edit" where
  "editor_Delete env order w row =
     (case w of (d, t) \<Rightarrow>
       (case rbind (checkRow env (mt_schema t) row) (\<lambda>_. find_partition d row order) of
          Err e \<Rightarrow> (w, Err e)
        | Panic \<Rightarrow> (w, Panic)
        | Ok None \<Rightarrow> (w, Err (SqlErr ErrDeleteRowNotFound))
        | Ok (Some (k, s, i)) \<Rightarrow>
            (let (h, s') = remove_row (td_heap d) s i
             in ((\<lparr> td_partitions = (td_partitions d)(k \<mapsto> s'), td_heap = h \<rparr>, t), Ok ()))))"

definition editor_Update :: "genv \<Rightarrow> string list \<Rightarrow> tdata \<times> mem_table \<Rightarrow> row \<Rightarrow> row \<Rightarrow> edit" where
  "editor_Update env order w oldRow newRow =
     (case w of (d, t) \<Rightarrow>
       (case rbind (checkRow env (mt_schema t) oldRow) (\<lambda>_. rbind (checkRow env (mt_schema t) newRow)
               (\<lambda>_. find_partition d oldRow order)) of
          Err e \<Rightarrow> (w, Err e)
        | Panic \<Rightarrow> (w, Panic)
        | Ok None \<Rightarrow> (w, Ok ())
        | Ok (Some (k, s, i)) \<Rightarrow> ((d \<lparr> td_heap := set_row (td_heap d) s i newRow \<rparr>, t), Ok ())))"

subsection \<open>ALTER TABLE\<close>

record col_order =
  co_First :: bool
  co_AfterColumn :: string

definition col_name :: "column option \<Rightarrow> string res" where
  "col_name c = (case c of None \<Rightarrow> Panic | Some col \<Rightarrow> Ok (col_Name col))"

text \<open>
  The loop of \<^verbatim>\<open>AddColumn\<close> over the \<open>n\<close> old columns. The new schema has \<open>n + 1\<close> cells, of which \<open>acc\<close> are written;
  \<open>idx\<close> is the position of the new column.
\<close>

fun add_column_loop ::
  "nat \<Rightarrow> column \<Rightarrow> col_order option \<Rightarrow> column option list \<Rightarrow> column option list \<Rightarrow> nat \<Rightarrow> (column option list \<times> nat) res" where
  "add_column_loop n column order [] acc idx = Ok (acc @ replicate (Suc n - length acc) None, idx)"
| "add_column_loop n column order (c # cs) acc idx =
     (if length acc > n then Panic
      else let acc1 = acc @ [c] in
        rbind (case order of None \<Rightarrow> Ok (length acc1 = n)
               | Some ord \<Rightarrow> rbind (col_name c) (\<lambda>nm. Ok (co_AfterColumn ord = nm))) (\<lambda>here.
          if here then (if length acc1 > n then Panic
                        else add_column_loop n column order cs (acc1 @ [Some column]) (length acc1))
          else add_column_loop n column order cs acc1 idx))"

definition insert_value :: "nat \<Rightarrow> gval \<Rightarrow> row \<Rightarrow> row res" where
  "insert_value idx v row = (if idx > length row then Panic else Ok (take idx row @ [v] @ drop idx row))"

fun insertValueInRows :: "string list \<Rightarrow> nat \<Rightarrow> gval \<Rightarrow> tdata \<Rightarrow> tdata res" where
  "insertValueInRows [] idx v d = Ok d"
| "insertValueInRows (k # ks) idx v d =
     (case td_partitions d k of
        None \<Rightarrow> insertValueInRows ks idx v d
      | Some s \<Rightarrow> rbind (rmap (insert_value idx v) (slice_rows (td_heap d) s)) (\<lambda>newP.
          insertValueInRows ks idx v
            \<lparr> td_partitions = (td_partitions d)(k \<mapsto> \<lparr> sl_arr = length (td_heap d), sl_len = length newP \<rparr>),
              td_heap = td_heap d @ [newP] \<rparr>))"

definition AddColumn ::
  "string list \<Rightarrow> tdata \<times> mem_table \<Rightarrow> column \<Rightarrow> col_order option \<Rightarrow> (tdata \<times> mem_table) res" where
  "AddColumn order w column0 ord =
     (case w of (d, t) \<Rightarrow>
       (let column = column0 \<lparr> col_Source := mt_name t \<rparr>;
            acc = (case ord of Some x \<Rightarrow> if co_First x then [Some column] else [] | None \<Rightarrow> [])
        in rbind (add_column_loop (length (mt_schema t)) column ord (mt_schema t) acc 0) (\<lambda>(sch, idx).
           rbind (insertValueInRows order idx (col_Default column) d) (\<lambda>d'. Ok (d', t \<lparr> mt_schema := sch \<rparr>)))))"

definition DropColumn :: "tdata \<times> mem_table \<Rightarrow> string \<Rightarrow> (tdata \<times> mem_table) res" where
  "DropColumn w columnName =
     (case w of (d, t) \<Rightarrow>
       (if mt_schema t = [] then Panic
        else rbind (rmap col_name (mt_schema t)) (\<lambda>_.
          let kept = filter (\<lambda>c. col_name c \<noteq> Ok columnName) (mt_schema t); n = length (mt_schema t) - 1 in
          if length kept > n then Panic
          else Ok (d, t \<lparr> mt_schema := kept @ replicate (n - length kept) None \<rparr>))))"

fun find_column :: "string \<Rightarrow> nat \<Rightarrow> column option list \<Rightarrow> int res" where
  "find_column nm i [] = Ok (-1)"
| "find_column nm i (c # cs) = rbind (col_name c) (\<lambda>n. if n = nm then Ok (int i) else find_column nm (Suc i) cs)"

definition ModifyColumn ::
  "string list \<Rightarrow> tdata \<times> mem_table \<Rightarrow> string \<Rightarrow> column \<Rightarrow> col_order option \<Rightarrow> (tdata \<times> mem_table) res" where
  "ModifyColumn order w columnName column ord =
     rbind (case ord of
              Some x \<Rightarrow> Ok x
            | None \<Rightarrow> rbind (find_column columnName 0 (mt_schema (snd w))) (\<lambda>i.
                if i \<le> 0 then Ok \<lparr> co_First = True, co_AfterColumn = [] \<rparr>
                else rbind (col_name (mt_schema (snd w) ! nat (i - 1))) (\<lambda>nm.
                  Ok \<lparr> co_First = False, co_AfterColumn = nm \<rparr>))) (\<lambda>x.
     rbind (DropColumn w columnName) (\<lambda>w'. AddColumn order w' column (Some x)))"

subsection \<open>Pushdown\<close>

fun index_of_column :: "string \<Rightarrow> string \<Rightarrow> nat \<Rightarrow> column option list \<Rightarrow> int res" where
  "index_of_column nm src i [] = Ok (-1)"
| "index_of_column nm src i (c # cs) =
     (case c of None \<Rightarrow> Panic | Some col \<Rightarrow>
        if ToLower (col_Name col) = ToLower nm \<and> ToLower (col_Source col) = ToLower src then Ok (int i)
        else index_of_column nm src (Suc i) cs)"

text \<open>A filter is handled when every field it reads is a column of this table.\<close>

definition other_field :: "mem_table \<Rightarrow> expr \<Rightarrow> bool res" where
  "other_field t e =
     (case e of
        GetField i ty tbl nm nl \<Rightarrow>
          if tbl \<noteq> mt_name t then Ok True
          else rbind (index_of_column nm (mt_name t) 0 (mt_schema t)) (\<lambda>k. Ok (k < 0))
      | _ \<Rightarrow> Ok False)"

definition has_other_fields :: "mem_table \<Rightarrow> expr \<Rightarrow> bool res" where
  "has_other_fields t f = rbind (rmap (other_field t) (inspect (\<lambda>_. True) f)) (\<lambda>bs. Ok (True \<in> set bs))"

fun HandledFilters :: "mem_table \<Rightarrow> expr list \<Rightarrow> expr list res" where
  "HandledFilters t [] = Ok []"
| "HandledFilters t (f # fs) = rbind (has_other_fields t f) (\<lambda>other. rbind (HandledFilters t fs) (\<lambda>handled.
     Ok (if other then handled else f # handled)))"

definition WithFilters :: "mem_table \<Rightarrow> expr list \<Rightarrow> mem_table" where
  "WithFilters t filters = (if filters = [] then t else t \<lparr> mt_filters := filters \<rparr>)"

fun newColumnIndexesAndSchema :: "mem_table \<Rightarrow> string list \<Rightarrow> (int list \<times> column option list) res" where
  "newColumnIndexesAndSchema t [] = Ok ([], [])"
| "newColumnIndexesAndSchema t (name # names) =
     rbind (index_of_column name (mt_name t) 0 (mt_schema t)) (\<lambda>i.
       if i = -1 then Err (MemErr (ErrColumnNotFound name))
       else rbind (if mt_columns t = [] then Ok i else slice_at (mt_columns t) (nat i)) (\<lambda>c.
         rbind (newColumnIndexesAndSchema t names) (\<lambda>(cs, sch). Ok (c # cs, mt_schema t ! nat i # sch))))"

text \<open>An unknown column name is not reported: the error is dropped, and the table is left with no schema.\<close>

definition WithProjection :: "mem_table \<Rightarrow> string list \<Rightarrow> mem_table res" where
  "WithProjection t colNames =
     (if colNames = [] then Ok t
      else case newColumnIndexesAndSchema t colNames of
        Ok (columns, sch) \<Rightarrow> Ok (t \<lparr> mt_columns := columns, mt_projection := colNames, mt_schema := sch \<rparr>)
      | Err e \<Rightarrow> Ok (t \<lparr> mt_columns := [], mt_projection := colNames, mt_schema := [] \<rparr>)
      | Panic \<Rightarrow> Panic)"

definition WithIndexLookup :: "mem_table \<Rightarrow> (string \<Rightarrow> string list res) option \<Rightarrow> mem_table" where
  "WithIndexLookup t lookup = (case lookup of None \<Rightarrow> t | Some l \<Rightarrow> t \<lparr> mt_lookup := Some l \<rparr>)"

section \<open>Building an index\<close>

text \<open>
  \<^verbatim>\<open>indexKeyValueIter\<close>: the key values of the rows of a partition with the encoded position of each; \<open>enc\<close> is
  \<^verbatim>\<open>encodeIndexValue\<close>.
\<close>

record key_value_iter =
  kv_key :: string
  kv_iter :: mem_iter
  kv_columns :: "int list"
  kv_pos :: int

definition IndexKeyValues :: "tdata \<Rightarrow> mem_table \<Rightarrow> string list \<Rightarrow> (partition_iter \<times> int list) res" where
  "IndexKeyValues d t colNames =
     rbind (newColumnIndexesAndSchema t colNames) (\<lambda>(columns, _). Ok (Partitions d t, columns))"

definition partitionIndexKeyValueIter_Next ::
  "tdata \<Rightarrow> mem_table \<Rightarrow> (partition_iter \<times> int list) \<Rightarrow> ((partition_iter \<times> int list) \<times> (string \<times> key_value_iter) res) option" where
  "partitionIndexKeyValueIter_Next d t p =
     (case partitionIter_Next (fst p) of
        None \<Rightarrow> None
      | Some (q, r) \<Rightarrow> Some ((q, snd p), rbind r (\<lambda>key. rbind (PartitionRows d t key) (\<lambda>i.
          Ok (key, \<lparr> kv_key = key, kv_iter = i, kv_columns = snd p, kv_pos = 0 \<rparr>)))))"

definition indexKeyValueIter_Next ::
  "genv \<Rightarrow> (string \<Rightarrow> (string \<times> int) res) \<Rightarrow> (string \<times> int \<Rightarrow> string res) \<Rightarrow> heap \<Rightarrow> key_value_iter \<Rightarrow>
   key_value_iter \<times> (row \<times> string) res" where
  "indexKeyValueIter_Next env dec enc h i =
     (case tableIter_Next env dec h (kv_iter i) of
        (it, Err e) \<Rightarrow> (i \<lparr> kv_iter := it \<rparr>, Err e)
      | (it, Panic) \<Rightarrow> (i \<lparr> kv_iter := it \<rparr>, Panic)
      | (it, Ok row) \<Rightarrow>
          (case enc (kv_key i, kv_pos i) of
             Err e \<Rightarrow> (i \<lparr> kv_iter := it \<rparr>, Err e)
           | Panic \<Rightarrow> (i \<lparr> kv_iter := it \<rparr>, Panic)
           | Ok data \<Rightarrow> (i \<lparr> kv_iter := it, kv_pos := kv_pos i + 1 \<rparr>,
               rbind (projectOnRow (kv_columns i) row) (\<lambda>vals. Ok (vals, data)))))"

section \<open>The table as a multiset of rows\<close>

definition prows :: "tdata \<Rightarrow> string \<Rightarrow> row list" where
  "prows d k = (case td_partitions d k of None \<Rightarrow> [] | Some s \<Rightarrow> slice_rows (td_heap d) s)"

definition table_rows :: "tdata \<Rightarrow> mem_table \<Rightarrow> row list" where
  "table_rows d t = concat (map (prows d) (mt_keys t))"

text \<open>The invariant: one partition per key, the insertion point among them, and no two partitions in one array.\<close>

definition slices_ok :: "tdata \<Rightarrow> bool" where
  "slices_ok d \<longleftrightarrow>
     (\<forall>k s. td_partitions d k = Some s \<longrightarrow>
        sl_arr s < length (td_heap d) \<and> sl_len s \<le> length (td_heap d ! sl_arr s))
     \<and> (\<forall>k k' s s'. td_partitions d k = Some s \<and> td_partitions d k' = Some s' \<and> k \<noteq> k' \<longrightarrow> sl_arr s \<noteq> sl_arr s')"

definition table_ok :: "tdata \<Rightarrow> mem_table \<Rightarrow> bool" where
  "table_ok d t \<longleftrightarrow> distinct (mt_keys t) \<and> mt_insert t < length (mt_keys t)
     \<and> dom (td_partitions d) = set (mt_keys t) \<and> slices_ok d"

lemma slice_rows_length: "slices_ok d \<Longrightarrow> td_partitions d k = Some s \<Longrightarrow> length (slice_rows (td_heap d) s) = sl_len s"
  by (auto simp: slices_ok_def slice_rows_def array_at_def)

lemma prows_Some: "td_partitions d k = Some s \<Longrightarrow> prows d k = slice_rows (td_heap d) s"
  by (simp add: prows_def)

text \<open>Replacing one partition leaves the rows of the others alone.\<close>

lemma table_rows_upd:
  assumes "distinct (mt_keys t)" "k \<in> set (mt_keys t)" "mt_keys t' = mt_keys t"
    and "\<And>k'. prows d' k' = (if k' = k then xs else prows d k')"
  shows "mset (table_rows d' t') + mset (prows d k) = mset (table_rows d t) + mset xs"
proof -
  obtain as bs where ks: "mt_keys t = as @ k # bs" using assms(2) by (auto dest: split_list)
  with assms(1) have "k \<notin> set as" "k \<notin> set bs" by auto
  then have "map (prows d') as = map (prows d) as" "map (prows d') bs = map (prows d) bs" "prows d' k = xs"
    using assms(4) by (auto intro!: map_cong)
  then show ?thesis by (simp add: table_rows_def assms(3) ks del: map_eq_conv)
qed

text \<open>The three ways a partition changes: in place, or by moving to a new array.\<close>

lemma in_place_rows:
  assumes "slices_ok d" "td_partitions d k = Some s" "n \<le> length a"
    and d': "d' = \<lparr> td_partitions = (td_partitions d)(k \<mapsto> s \<lparr> sl_len := n \<rparr>), td_heap = (td_heap d)[sl_arr s := a] \<rparr>"
  shows "slices_ok d' \<and> (\<forall>k'. prows d' k' = (if k' = k then take n a else prows d k'))"
proof -
  have s: "sl_arr s < length (td_heap d)" using assms(1,2) by (auto simp: slices_ok_def)
  have other: "sl_arr s'' \<noteq> sl_arr s" if "td_partitions d k' = Some s''" "k' \<noteq> k" for k' s''
    using assms(1,2) that by (auto simp: slices_ok_def)
  have "slices_ok d'"
    using assms(1,2,3) s other by (auto simp: slices_ok_def d' nth_list_update) metis+
  moreover have "prows d' k' = (if k' = k then take n a else prows d k')" for k'
    using s by (auto simp: prows_def slice_rows_def array_at_def d' nth_list_update dest: other split: option.splits)
  ultimately show ?thesis by blast
qed

lemma new_array_rows:
  assumes "slices_ok d" "n \<le> length a"
    and d': "d' = \<lparr> td_partitions = (td_partitions d)(k \<mapsto> \<lparr> sl_arr = length (td_heap d), sl_len = n \<rparr>),
                    td_heap = td_heap d @ [a] \<rparr>"
  shows "slices_ok d' \<and> (\<forall>k'. prows d' k' = (if k' = k then take n a else prows d k'))"
proof -
  have other: "sl_arr s < length (td_heap d)" if "td_partitions d k' = Some s" for k' s
    using assms(1) that by (auto simp: slices_ok_def)
  have "slices_ok d'"
    using assms(1,2) by (auto simp: slices_ok_def d' nth_append dest: other intro: less_SucI)
  moreover have "prows d' k' = (if k' = k then take n a else prows d k')" for k'
  proof (cases "td_partitions d k'")
    case (Some s)
    with other [OF Some] show ?thesis by (simp add: prows_def slice_rows_def array_at_def d' nth_append)
  qed (simp add: prows_def slice_rows_def array_at_def d')
  ultimately show ?thesis by blast
qed

lemma append_row_rows:
  assumes "slices_ok d" "td_partitions d k = Some s" "append_row grow (td_heap d) s row = (h, s')"
    and d': "d' = \<lparr> td_partitions = (td_partitions d)(k \<mapsto> s'), td_heap = h \<rparr>"
  shows "slices_ok d' \<and> (\<forall>k'. prows d' k' = (if k' = k then prows d k @ [row] else prows d k'))"
proof -
  let ?a = "td_heap d ! sl_arr s"
  have s: "sl_arr s < length (td_heap d)" "sl_len s \<le> length ?a" and k: "prows d k = take (sl_len s) ?a"
    using assms(1,2) by (auto simp: slices_ok_def prows_def slice_rows_def array_at_def)
  show ?thesis
  proof (cases "sl_len s < length ?a")
    case True
    with in_place_rows [OF assms(1,2), of "Suc (sl_len s)" "?a[sl_len s := row]" d'] s assms(3) show ?thesis
      by (auto simp: d' k append_row_def array_at_def take_Suc_conv_app_nth Let_def)
  next
    case False
    with new_array_rows [OF assms(1), of "Suc (sl_len s)"
        "take (sl_len s) ?a @ [row] @ replicate (grow (Suc (sl_len s)) - Suc (sl_len s)) []" d' k] s assms(3)
    show ?thesis by (auto simp: d' k append_row_def array_at_def Let_def)
  qed
qed

lemma shift_down:
  assumes "n \<le> length a" "i < n"
  shows "take (n - 1) (take i a @ take (n - Suc i) (drop (Suc i) a) @ drop (n - 1) a) =
    take i (take n a) @ drop (Suc i) (take n a)"
proof -
  let ?xs = "take i a @ take (n - Suc i) (drop (Suc i) a)"
  have "length ?xs = n - 1" using assms by simp
  then have "take (n - 1) (?xs @ drop (n - 1) a) = ?xs" by (metis append_eq_conv_conj)
  moreover have "take i (take n a) = take i a" "drop (Suc i) (take n a) = take (n - Suc i) (drop (Suc i) a)"
    using assms by (simp_all add: drop_take min_def)
  ultimately show ?thesis by simp
qed

lemma remove_row_rows:
  assumes "slices_ok d" "td_partitions d k = Some s" "i < sl_len s" "remove_row (td_heap d) s i = (h, s')"
    and d': "d' = \<lparr> td_partitions = (td_partitions d)(k \<mapsto> s'), td_heap = h \<rparr>"
  shows "slices_ok d' \<and> (\<forall>k'. prows d' k' = (if k' = k then take i (prows d k) @ drop (Suc i) (prows d k) else prows d k'))"
proof -
  let ?a = "td_heap d ! sl_arr s" and ?n = "sl_len s"
  have s: "sl_arr s < length (td_heap d)" "?n \<le> length ?a" and k: "prows d k = take ?n ?a"
    using assms(1,2) by (auto simp: slices_ok_def prows_def slice_rows_def array_at_def)
  have "take (?n - 1) (take i ?a @ take (?n - Suc i) (drop (Suc i) ?a) @ drop (?n - 1) ?a) =
      take i (prows d k) @ drop (Suc i) (prows d k)"
    using s assms(3) by (simp only: k shift_down)
  with in_place_rows [OF assms(1,2), of "?n - 1" "take i ?a @ take (?n - Suc i) (drop (Suc i) ?a) @ drop (?n - 1) ?a" d']
    s assms(3,4) show ?thesis
    by (auto simp: d' remove_row_def array_at_def Let_def)
qed

lemma set_row_rows:
  assumes "slices_ok d" "td_partitions d k = Some s" "i < sl_len s"
    and d': "d' = d \<lparr> td_heap := set_row (td_heap d) s i row \<rparr>"
  shows "slices_ok d' \<and> (\<forall>k'. prows d' k' = (if k' = k then (prows d k)[i := row] else prows d k'))"
proof -
  let ?a = "td_heap d ! sl_arr s"
  have s: "sl_arr s < length (td_heap d)" "sl_len s \<le> length ?a" and k: "prows d k = take (sl_len s) ?a"
    using assms(1,2) by (auto simp: slices_ok_def prows_def slice_rows_def array_at_def)
  have "d' = \<lparr> td_partitions = (td_partitions d)(k \<mapsto> s \<lparr> sl_len := sl_len s \<rparr>), td_heap = (td_heap d)[sl_arr s := ?a[i := row]] \<rparr>"
    using s(1) assms(2) by (auto simp: d' set_row_def array_at_def fun_upd_idem)
  from in_place_rows [OF assms(1,2) _ this] s show ?thesis by (simp add: k take_update_swap)
qed

section \<open>Finding a row\<close>

definition plain_row :: "row \<Rightarrow> bool" where
  "plain_row row \<longleftrightarrow> (\<forall>v \<in> set row. plain v)"

lemma row_matches_plain: "plain_row row \<Longrightarrow> length p = length row \<Longrightarrow> row_matches row p = Ok (row = p)"
  by (induction row p rule: row_matches.induct) (auto simp: plain_row_def)

lemma find_row_missing:
  assumes "plain_row row" "\<forall>p \<in> set ps. length p = length row" "row \<notin> set ps"
  shows "find_row row n ps = Ok None"
  using assms(2,3) by (induction ps arbitrary: n) (auto simp: row_matches_plain [OF assms(1)])

lemma find_row_present:
  assumes "plain_row row" "\<forall>p \<in> set ps. length p = length row" "row \<in> set ps"
  shows "\<exists>i < length ps. ps ! i = row \<and> find_row row n ps = Ok (Some (n + i))"
  using assms(2,3)
proof (induction ps arbitrary: n)
  case (Cons p ps)
  show ?case
  proof (cases "row = p")
    case True
    with row_matches_plain [OF assms(1), of p] show ?thesis by (intro exI [of _ 0]) simp
  next
    case False
    have "\<exists>i < length ps. ps ! i = row \<and> find_row row (Suc n) ps = Ok (Some (Suc n + i))"
    proof (rule Cons.IH)
      show "\<forall>p \<in> set ps. length p = length row" using Cons.prems(1) by (meson list.set_intros(2))
      show "row \<in> set ps" using Cons.prems(2) False by (metis set_ConsD)
    qed
    then obtain i where "i < length ps" "ps ! i = row" "find_row row (Suc n) ps = Ok (Some (Suc n + i))" by blast
    moreover have "row_matches row p = Ok False"
      using row_matches_plain [OF assms(1)] Cons.prems(1) False by (metis list.set_intros(1))
    ultimately show ?thesis by (intro exI [of _ "Suc i"]) simp
  qed
qed simp

lemma find_partition_missing:
  assumes "plain_row row" "\<forall>k \<in> set order. \<forall>p \<in> set (prows d k). length p = length row"
    and "\<forall>k \<in> set order. row \<notin> set (prows d k)"
  shows "find_partition d row order = Ok None"
  using assms(2,3)
proof (induction order)
  case (Cons k ks)
  then show ?case
    using find_row_missing [OF assms(1), of "prows d k" 0]
    by (auto simp: prows_def split: option.splits)
qed simp

lemma find_partition_present:
  assumes "slices_ok d" "plain_row row" "\<forall>k \<in> set order. \<forall>p \<in> set (prows d k). length p = length row"
    and "\<exists>k \<in> set order. row \<in> set (prows d k)"
  shows "\<exists>k s i. k \<in> set order \<and> td_partitions d k = Some s \<and> i < sl_len s \<and> prows d k ! i = row
    \<and> find_partition d row order = Ok (Some (k, s, i))"
  using assms(3,4)
proof (induction order)
  case (Cons k ks)
  show ?case
  proof (cases "row \<in> set (prows d k)")
    case True
    then obtain s where s: "td_partitions d k = Some s" by (cases "td_partitions d k") (auto simp: prows_def)
    from find_row_present [OF assms(2) _ True, of 0] Cons.prems obtain i where
      "i < length (prows d k)" "prows d k ! i = row" "find_row row 0 (prows d k) = Ok (Some i)" by auto
    with s slice_rows_length [OF assms(1) s] show ?thesis by (auto simp: prows_Some [OF s])
  next
    case False
    with Cons obtain k' s i where *: "k' \<in> set ks" "td_partitions d k' = Some s" "i < sl_len s" "prows d k' ! i = row"
      "find_partition d row ks = Ok (Some (k', s, i))" by auto
    have "find_partition d row (k # ks) = find_partition d row ks"
      using find_row_missing [OF assms(2) _ False, of 0] Cons.prems
      by (auto simp: prows_def split: option.splits)
    with * show ?thesis by auto
  qed
qed simp

lemma remove_nth_mset: "i < length xs \<Longrightarrow> add_mset (xs ! i) (mset (take i xs @ drop (Suc i) xs)) = mset xs"
  by (metis Cons_nth_drop_Suc append_take_drop_id mset.simps(2) mset_append union_mset_add_mset_right)

section \<open>The editor refines a multiset\<close>

text \<open>
  What the engine relies on when it edits a table: \<open>rows\<close> are the stored rows, \<open>valid\<close> the rows the table accepts.
\<close>

locale row_editor =
  fixes ins :: "'w \<Rightarrow> row \<Rightarrow> 'w \<times> unit res"
    and del :: "'w \<Rightarrow> row \<Rightarrow> 'w \<times> unit res"
    and upd :: "'w \<Rightarrow> row \<Rightarrow> row \<Rightarrow> 'w \<times> unit res"
    and rows :: "'w \<Rightarrow> row multiset"
    and ok :: "'w \<Rightarrow> bool"
    and valid :: "row \<Rightarrow> bool"
  assumes ins_valid: "ok w \<Longrightarrow> valid r \<Longrightarrow> \<exists>w'. ins w r = (w', Ok ()) \<and> ok w' \<and> rows w' = add_mset r (rows w)"
    and del_present: "ok w \<Longrightarrow> valid r \<Longrightarrow> r \<in># rows w \<Longrightarrow>
          \<exists>w'. del w r = (w', Ok ()) \<and> ok w' \<and> rows w' = rows w - {#r#}"
    and del_missing: "ok w \<Longrightarrow> valid r \<Longrightarrow> r \<notin># rows w \<Longrightarrow> del w r = (w, Err (SqlErr ErrDeleteRowNotFound))"
    and upd_present: "ok w \<Longrightarrow> valid r \<Longrightarrow> valid r' \<Longrightarrow> r \<in># rows w \<Longrightarrow>
          \<exists>w'. upd w r r' = (w', Ok ()) \<and> ok w' \<and> rows w' = add_mset r' (rows w - {#r#})"
    and upd_missing: "ok w \<Longrightarrow> valid r \<Longrightarrow> valid r' \<Longrightarrow> r \<notin># rows w \<Longrightarrow> upd w r r' = (w, Ok ())"

definition editor_ok :: "genv \<Rightarrow> column option list \<Rightarrow> string list \<Rightarrow> tdata \<times> mem_table \<Rightarrow> bool" where
  "editor_ok env sch order w \<longleftrightarrow> (case w of (d, t) \<Rightarrow> table_ok d t \<and> mt_schema t = sch
     \<and> set order = set (mt_keys t) \<and> (\<forall>r \<in> set (table_rows d t). checkRow env sch r = Ok ()))"

definition row_valid :: "genv \<Rightarrow> column option list \<Rightarrow> row \<Rightarrow> bool" where
  "row_valid env sch row \<longleftrightarrow> checkRow env sch row = Ok () \<and> plain_row row"

lemma checkRow_length: "checkRow env sch r = Ok () \<Longrightarrow> length r = length sch"
  by (auto simp: checkRow_def split: if_splits)

text \<open>A change of one partition that replaces its rows \<open>xs\<close> by \<open>ys\<close>, on a table in order.\<close>

lemma editor_ok_change:
  assumes "editor_ok env sch order (d, t)" "td_partitions d k = Some s"
    and "slices_ok d' \<and> (\<forall>k'. prows d' k' = (if k' = k then ys else prows d k'))"
    and "dom (td_partitions d') = dom (td_partitions d)" "mt_keys t' = mt_keys t" "mt_schema t' = mt_schema t"
    and "mt_insert t' < length (mt_keys t)" "\<forall>r \<in> set ys. checkRow env sch r = Ok ()"
  shows "editor_ok env sch order (d', t') \<and> mset (table_rows d' t') + mset (prows d k) = mset (table_rows d t) + mset ys"
proof -
  have k: "k \<in> set (mt_keys t)" "distinct (mt_keys t)"
    using assms(1,2) by (auto simp: editor_ok_def table_ok_def)
  have "mset (table_rows d' t') + mset (prows d k) = mset (table_rows d t) + mset ys"
    using table_rows_upd [OF k(2,1) assms(5)] assms(3) by blast
  moreover have "set (table_rows d' t') \<subseteq> set (table_rows d t) \<union> set ys"
    using assms(3,5) by (auto simp: table_rows_def split: if_splits)
  ultimately show ?thesis
    using assms by (auto simp: editor_ok_def table_ok_def)
qed

lemma editor_Insert_ok:
  assumes "editor_ok env sch order (d, t)" "row_valid env sch row"
  shows "\<exists>w. editor_Insert env grow (d, t) row = (w, Ok ()) \<and> editor_ok env sch order w
    \<and> mset (table_rows (fst w) (snd w)) = add_mset row (mset (table_rows d t))
    \<and> prows (fst w) (mt_keys t ! mt_insert t) = prows d (mt_keys t ! mt_insert t) @ [row]"
proof -
  let ?k = "mt_keys t ! mt_insert t"
  have t: "mt_insert t < length (mt_keys t)" "dom (td_partitions d) = set (mt_keys t)" "slices_ok d" "mt_schema t = sch"
    using assms(1) by (auto simp: editor_ok_def table_ok_def)
  then obtain s where s: "td_partitions d ?k = Some s" by (metis domD nth_mem)
  obtain h s' where app: "append_row grow (td_heap d) s row = (h, s')" by fastforce
  define d' where "d' = \<lparr> td_partitions = (td_partitions d)(?k \<mapsto> s'), td_heap = h \<rparr>"
  define t' where "t' = t \<lparr> mt_insert := if Suc (mt_insert t) = length (mt_keys t) then 0 else Suc (mt_insert t) \<rparr>"
  have rows: "slices_ok d' \<and> (\<forall>k'. prows d' k' = (if k' = ?k then prows d ?k @ [row] else prows d k'))"
    by (rule append_row_rows [OF t(3) s app d'_def])
  have "editor_Insert env grow (d, t) row = ((d', t'), Ok ())"
    using assms(2) t s app by (simp add: editor_Insert_def row_valid_def d'_def t'_def Let_def)
  moreover have "set (prows d ?k) \<subseteq> set (table_rows d t)" using nth_mem [OF t(1)] by (auto simp: table_rows_def)
  then have "editor_ok env sch order (d', t') \<and>
      mset (table_rows d' t') + mset (prows d ?k) = mset (table_rows d t) + mset (prows d ?k @ [row])"
    using assms t s by (intro editor_ok_change [OF assms(1) s rows])
      (auto simp: d'_def t'_def editor_ok_def row_valid_def)
  ultimately show ?thesis using rows by auto
qed

lemma editor_lengths:
  assumes "editor_ok env sch order (d, t)" "row_valid env sch row" "k \<in> set order" "p \<in> set (prows d k)"
  shows "length p = length row"
proof -
  have "checkRow env sch p = Ok ()" using assms(1,3,4) by (auto simp: editor_ok_def table_rows_def)
  with assms(2) checkRow_length [of env sch] show ?thesis by (simp add: row_valid_def)
qed

lemma editor_found:
  assumes "editor_ok env sch order (d, t)" "row_valid env sch row" "row \<in> set (table_rows d t)"
  shows "\<exists>k s i. td_partitions d k = Some s \<and> i < sl_len s \<and> prows d k ! i = row
    \<and> length (prows d k) = sl_len s \<and> set (prows d k) \<subseteq> set (table_rows d t)
    \<and> find_partition d row order = Ok (Some (k, s, i))"
proof -
  have t: "set order = set (mt_keys t)" "slices_ok d"
    using assms(1) by (auto simp: editor_ok_def table_ok_def)
  have "\<forall>k \<in> set order. \<forall>p \<in> set (prows d k). length p = length row"
    using editor_lengths [OF assms(1,2)] by blast
  with find_partition_present [OF t(2), of row order] assms(2,3) t(1) obtain k s i where
    "k \<in> set order" "td_partitions d k = Some s" "i < sl_len s" "prows d k ! i = row"
    "find_partition d row order = Ok (Some (k, s, i))"
    by (auto simp: row_valid_def table_rows_def)
  moreover have "set (prows d k) \<subseteq> set (table_rows d t)" if "k \<in> set order" for k
    using that t(1) by (auto simp: table_rows_def)
  ultimately show ?thesis using slice_rows_length [OF t(2)] by (metis prows_Some)
qed

lemma editor_not_found:
  assumes "editor_ok env sch order (d, t)" "row_valid env sch row" "row \<notin> set (table_rows d t)"
  shows "find_partition d row order = Ok None"
proof (rule find_partition_missing)
  have t: "set order = set (mt_keys t)" using assms(1) by (auto simp: editor_ok_def)
  show "plain_row row" using assms(2) by (simp add: row_valid_def)
  show "\<forall>k \<in> set order. row \<notin> set (prows d k)" using assms(3) t by (auto simp: table_rows_def)
  show "\<forall>k \<in> set order. \<forall>p \<in> set (prows d k). length p = length row"
    using editor_lengths [OF assms(1,2)] by blast
qed

lemma editor_Delete_ok:
  assumes "editor_ok env sch order (d, t)" "row_valid env sch row" "row \<in> set (table_rows d t)"
  shows "\<exists>w. editor_Delete env order (d, t) row = (w, Ok ()) \<and> editor_ok env sch order w
    \<and> mset (table_rows (fst w) (snd w)) = mset (table_rows d t) - {#row#}"
proof -
  from editor_found [OF assms] obtain k s i where f: "td_partitions d k = Some s" "i < sl_len s" "prows d k ! i = row"
    "length (prows d k) = sl_len s" "set (prows d k) \<subseteq> set (table_rows d t)"
    "find_partition d row order = Ok (Some (k, s, i))" by blast
  have t: "slices_ok d" "mt_schema t = sch" "\<forall>r \<in> set (table_rows d t). checkRow env sch r = Ok ()"
    "mt_insert t < length (mt_keys t)"
    using assms(1) by (auto simp: editor_ok_def table_ok_def)
  obtain h s' where rem: "remove_row (td_heap d) s i = (h, s')" by fastforce
  define d' where "d' = \<lparr> td_partitions = (td_partitions d)(k \<mapsto> s'), td_heap = h \<rparr>"
  let ?ys = "take i (prows d k) @ drop (Suc i) (prows d k)"
  have rows: "slices_ok d' \<and> (\<forall>k'. prows d' k' = (if k' = k then ?ys else prows d k'))"
    by (rule remove_row_rows [OF t(1) f(1,2) rem d'_def])
  have "editor_Delete env order (d, t) row = ((d', t), Ok ())"
    using assms(2) t f rem by (simp add: editor_Delete_def row_valid_def d'_def)
  moreover have "editor_ok env sch order (d', t) \<and>
      mset (table_rows d' t) + mset (prows d k) = mset (table_rows d t) + mset ?ys"
    using t f by (intro editor_ok_change [OF assms(1) f(1) rows])
      (auto simp: d'_def dest!: in_set_takeD in_set_dropD)
  moreover have "mset (prows d k) = add_mset row (mset ?ys)"
    using remove_nth_mset [of i "prows d k"] f by simp
  ultimately have "editor_Delete env order (d, t) row = ((d', t), Ok ())" "editor_ok env sch order (d', t)"
    "mset (table_rows d t) = add_mset row (mset (table_rows d' t))" by simp_all
  then show ?thesis by simp
qed

lemma editor_Update_ok:
  assumes "editor_ok env sch order (d, t)" "row_valid env sch row" "row_valid env sch row'" "row \<in> set (table_rows d t)"
  shows "\<exists>w. editor_Update env order (d, t) row row' = (w, Ok ()) \<and> editor_ok env sch order w
    \<and> mset (table_rows (fst w) (snd w)) = add_mset row' (mset (table_rows d t) - {#row#})"
proof -
  from editor_found [OF assms(1,2,4)] obtain k s i where f: "td_partitions d k = Some s" "i < sl_len s" "prows d k ! i = row"
    "length (prows d k) = sl_len s" "set (prows d k) \<subseteq> set (table_rows d t)"
    "find_partition d row order = Ok (Some (k, s, i))" by blast
  have t: "slices_ok d" "mt_schema t = sch" "\<forall>r \<in> set (table_rows d t). checkRow env sch r = Ok ()"
    "mt_insert t < length (mt_keys t)"
    using assms(1) by (auto simp: editor_ok_def table_ok_def)
  define d' where "d' = d \<lparr> td_heap := set_row (td_heap d) s i row' \<rparr>"
  have rows: "slices_ok d' \<and> (\<forall>k'. prows d' k' = (if k' = k then (prows d k)[i := row'] else prows d k'))"
    by (rule set_row_rows [OF t(1) f(1,2) d'_def])
  have "editor_Update env order (d, t) row row' = ((d', t), Ok ())"
    using assms(2,3) t f by (simp add: editor_Update_def row_valid_def d'_def)
  moreover have "editor_ok env sch order (d', t) \<and>
      mset (table_rows d' t) + mset (prows d k) = mset (table_rows d t) + mset ((prows d k)[i := row'])"
    using t f assms(3) set_update_subset_insert [of "prows d k" i row']
    by (intro editor_ok_change [OF assms(1) f(1) rows]) (auto simp: d'_def row_valid_def)
  moreover have "mset ((prows d k)[i := row']) = add_mset row' (mset (prows d k) - {#row#})"
    using f by (auto simp: mset_update)
  moreover obtain P where "mset (prows d k) = add_mset row P"
    using f by (metis multi_member_split nth_mem set_mset_mset)
  moreover obtain T where "mset (table_rows d t) = add_mset row T"
    using assms(4) by (metis multi_member_split set_mset_mset)
  ultimately have "editor_Update env order (d, t) row row' = ((d', t), Ok ())" "editor_ok env sch order (d', t)"
    "mset (table_rows d' t) = add_mset row' (mset (table_rows d t) - {#row#})" by simp_all
  then show ?thesis by simp
qed

interpretation mem_editor: row_editor "editor_Insert env grow" "editor_Delete env order" "editor_Update env order"
  "\<lambda>w. mset (table_rows (fst w) (snd w))" "editor_ok env sch order" "row_valid env sch"
  for env grow order sch
proof unfold_locales
  fix w r r'
  assume w: "editor_ok env sch order w" and v: "row_valid env sch r"
  obtain d t where [simp]: "w = (d, t)" by (cases w)
  from w v show "\<exists>w'. editor_Insert env grow w r = (w', Ok ()) \<and> editor_ok env sch order w'
      \<and> mset (table_rows (fst w') (snd w')) = add_mset r (mset (table_rows (fst w) (snd w)))"
    using editor_Insert_ok [of env sch order d t r grow] by auto
  show "\<exists>w'. editor_Delete env order w r = (w', Ok ()) \<and> editor_ok env sch order w'
      \<and> mset (table_rows (fst w') (snd w')) = mset (table_rows (fst w) (snd w)) - {#r#}"
    if "r \<in># mset (table_rows (fst w) (snd w))"
    using editor_Delete_ok [of env sch order d t r] w v that by auto
  show "editor_Delete env order w r = (w, Err (SqlErr ErrDeleteRowNotFound))"
    if "r \<notin># mset (table_rows (fst w) (snd w))"
    using editor_not_found [of env sch order d t r] w v that
    by (simp add: editor_Delete_def row_valid_def editor_ok_def)
  assume v': "row_valid env sch r'"
  show "\<exists>w'. editor_Update env order w r r' = (w', Ok ()) \<and> editor_ok env sch order w'
      \<and> mset (table_rows (fst w') (snd w')) = add_mset r' (mset (table_rows (fst w) (snd w)) - {#r#})"
    if "r \<in># mset (table_rows (fst w) (snd w))"
    using editor_Update_ok [of env sch order d t r r'] w v v' that by auto
  show "editor_Update env order w r r' = (w, Ok ())" if "r \<notin># mset (table_rows (fst w) (snd w))"
    using editor_not_found [of env sch order d t r] w v v' that
    by (simp add: editor_Update_def row_valid_def editor_ok_def)
qed

section \<open>New tables\<close>

definition of_decimal :: "string \<Rightarrow> nat" where
  "of_decimal s = foldl (\<lambda>n c. 10 * n + (of_char c - 48)) 0 s"

declare Itoa.simps [simp del]

lemma of_decimal_Itoa: "of_decimal (Itoa n) = n"
proof (induction n rule: Itoa.induct)
  case (1 n)
  show ?case
  proof (cases "n < 10")
    case True
    then show ?thesis by (simp add: Itoa.simps [of n] of_decimal_def)
  next
    case False
    then have "of_decimal (Itoa (n div 10) @ [char_of (48 + n mod 10)]) = 10 * (n div 10) + n mod 10"
      using 1 by (simp add: of_decimal_def)
    with False show ?thesis by (simp add: Itoa.simps [of n])
  qed
qed

lemma inj_Itoa: "inj Itoa"
  by (metis injI of_decimal_Itoa)

lemma NewPartitionedTable_ok:
  assumes "NewPartitionedTable name sch n = (d, t)" "set order = set (mt_keys t)"
  shows "editor_ok env (map Some sch) order (d, t) \<and> table_rows d t = []
    \<and> length (mt_keys t) = (if n < 1 then 1 else nat n)"
proof -
  define m where "m = (if n < 1 then 1 else nat n)"
  define sls where "sls = map (\<lambda>i. \<lparr> sl_arr = i, sl_len = 0 \<rparr> :: slice) [0..<m]"
  have keys: "mt_keys t = map Itoa [0..<m]" "mt_insert t = 0" "mt_schema t = map Some sch"
    and d: "d = \<lparr> td_partitions = map_of (zip (map Itoa [0..<m]) sls), td_heap = replicate m [] \<rparr>"
    using assms(1) by (auto simp: NewPartitionedTable_def m_def sls_def Let_def)
  have dist: "distinct (map Itoa [0..<m])" by (simp add: distinct_map inj_on_subset [OF inj_Itoa])
  have part: "\<exists>i < m. k = Itoa i \<and> s = \<lparr> sl_arr = i, sl_len = 0 \<rparr>" if "td_partitions d k = Some s" for k s
    using that by (auto simp: d sls_def set_zip dest!: map_of_SomeD)
  have "td_heap d = replicate m []" by (simp add: d)
  then have "slices_ok d" by (auto simp: slices_ok_def dest!: part)
  moreover have "prows d k = []" for k
    by (cases "td_partitions d k") (auto simp: prows_def slice_rows_def dest!: part)
  moreover have "dom (td_partitions d) = set (mt_keys t)" by (simp add: d keys sls_def dom_map_of_zip)
  moreover have "0 < m" by (simp add: m_def)
  ultimately show ?thesis
    using dist assms(2) by (simp add: editor_ok_def table_ok_def keys table_rows_def m_def)
qed

section \<open>Properties of the editor\<close>

text \<open>(C13) A new table is empty and in order, and the editor of a table in order edits a multiset of rows: \<^verbatim>\<open>Insert\<close> adds
  the row, \<^verbatim>\<open>Delete\<close> removes one copy or reports that there is none, \<^verbatim>\<open>Update\<close> replaces one copy or does nothing. Each
  keeps the invariant that partitions do not share storage and every stored row fits the schema.\<close>

theorem editor_multiset:
  assumes "editor_ok env sch order w" "row_valid env sch r" "row_valid env sch r'"
  shows "(\<exists>w'. editor_Insert env grow w r = (w', Ok ()) \<and> editor_ok env sch order w'
            \<and> mset (table_rows (fst w') (snd w')) = add_mset r (mset (table_rows (fst w) (snd w))))
    \<and> (if r \<in> set (table_rows (fst w) (snd w))
       then (\<exists>w'. editor_Delete env order w r = (w', Ok ()) \<and> editor_ok env sch order w'
              \<and> mset (table_rows (fst w') (snd w')) = mset (table_rows (fst w) (snd w)) - {#r#})
          \<and> (\<exists>w'. editor_Update env order w r r' = (w', Ok ()) \<and> editor_ok env sch order w'
              \<and> mset (table_rows (fst w') (snd w')) = add_mset r' (mset (table_rows (fst w) (snd w)) - {#r#}))
       else editor_Delete env order w r = (w, Err (SqlErr ErrDeleteRowNotFound))
          \<and> editor_Update env order w r r' = (w, Ok ()))"
  using mem_editor.ins_valid [OF assms(1,2)] mem_editor.del_present [OF assms(1,2)]
    mem_editor.del_missing [OF assms(1,2)] mem_editor.upd_present [OF assms] mem_editor.upd_missing [OF assms]
  by auto

definition one_column :: schema where
  "one_column = [\<lparr> col_Name = ''a'', col_Type = Int64, col_Default = GNil, col_Nullable = True,
     col_Source = ''t'', col_PrimaryKey = False, col_Comment = [] \<rparr>]"

lemma row_valid_int: "row_valid cast_env (map Some one_column) [GInt64 i]"
  by (simp add: row_valid_def plain_row_def plain_def checkRow_def one_column_def Column_Check_def number_convert_def
      cast_lawsD [OF cast_env_laws])

lemma char_48 [simp]: "char_of (48 :: nat) = CHR ''0''"
  by code_simp

lemma new_table_ok: "editor_ok cast_env (map Some one_column) [''0''] (NewTable ''t'' one_column)"
  using NewPartitionedTable_ok [of "''t''" one_column 0 _ _ "[''0'']" cast_env]
  by (auto simp: NewTable_def NewPartitionedTable_def Itoa.simps)

theorem editor_multiset_witness:
  "\<exists>w'. editor_Insert cast_env (\<lambda>n. 2 * n) (NewTable ''t'' one_column) [GInt64 1] = (w', Ok ())
     \<and> editor_ok cast_env (map Some one_column) [''0''] w'"
  using editor_multiset [OF new_table_ok row_valid_int [of 1] row_valid_int [of 2], of "\<lambda>n. 2 * n"] by blast

section \<open>Scanning a table\<close>

definition scan_row :: "genv \<Rightarrow> expr list \<Rightarrow> int list \<Rightarrow> row \<Rightarrow> row option res" where
  "scan_row env filters columns row = rbind (pass_filters env filters row) (\<lambda>ok.
     if ok then rbind (projectOnRow columns row) (\<lambda>r. Ok (Some r)) else Ok None)"

abbreviation mem_Next :: "genv \<Rightarrow> (string \<Rightarrow> (string \<times> int) res) \<Rightarrow> heap \<Rightarrow> (mem_iter, row) nextfn" where
  "mem_Next env dec h \<equiv> \<lambda>i. Some (tableIter_Next env dec h i)"

text \<open>What a partition's iterator still has to read.\<close>

definition to_read :: "heap \<Rightarrow> mem_iter \<Rightarrow> row list" where
  "to_read h i = drop (mi_pos i) (slice_rows h (mi_rows i))"

lemma getRow_scan:
  assumes "mi_indexValues i = None" "length (slice_rows h (mi_rows i)) = sl_len (mi_rows i)"
  shows "getRow dec h i = (case to_read h i of [] \<Rightarrow> (i, Err EOF)
    | row # rest \<Rightarrow> (i \<lparr> mi_pos := Suc (mi_pos i) \<rparr>, Ok row))"
  and "to_read h i = row # rest \<Longrightarrow> to_read h (i \<lparr> mi_pos := Suc (mi_pos i) \<rparr>) = rest"
proof -
  let ?rs = "slice_rows h (mi_rows i)"
  show "getRow dec h i = (case to_read h i of [] \<Rightarrow> (i, Err EOF)
    | row # rest \<Rightarrow> (i \<lparr> mi_pos := Suc (mi_pos i) \<rparr>, Ok row))"
  proof (cases "mi_pos i < length ?rs")
    case True
    then show ?thesis using assms by (simp add: getRow_def to_read_def Cons_nth_drop_Suc [symmetric])
  next
    case False
    then show ?thesis using assms by (simp add: getRow_def to_read_def)
  qed
  show "to_read h i = row # rest \<Longrightarrow> to_read h (i \<lparr> mi_pos := Suc (mi_pos i) \<rparr>) = rest"
    by (auto simp: to_read_def dest: drop_ConsD)
qed

lemma mem_iter_yields:
  assumes "mi_indexValues i = None" "length (slice_rows h (mi_rows i)) = sl_len (mi_rows i)"
  shows "yield_pair (mem_Next env dec h) i
    (process (scan_row env (mi_filters i) (mi_columns i)) (to_read h i) (Err EOF))"
  using assms
proof (induction "to_read h i" arbitrary: i)
  case Nil
  then show ?case
    using getRow_scan(1) [OF Nil.prems, of dec]
    by (auto simp: tableIter_Next.simps [of env dec h i] intro!: yield_pair_stop)
next
  case (Cons row rest)
  let ?N = "mem_Next env dec h" and ?i = "i \<lparr> mi_pos := Suc (mi_pos i) \<rparr>"
  have get: "getRow dec h i = (?i, Ok row)" and rest: "to_read h ?i = rest"
    using getRow_scan [OF Cons.prems] Cons.hyps(2) [symmetric] by simp_all
  have IH: "yield_pair ?N ?i (process (scan_row env (mi_filters i) (mi_columns i)) rest (Err EOF))"
    using Cons.hyps(1) [of ?i] rest Cons.prems by simp
  note unf = tableIter_Next.simps [of env dec h i] get
  show ?case
  proof (cases "pass_filters env (mi_filters i) row")
    case (Ok ok)
    show ?thesis
    proof (cases ok)
      case True
      show ?thesis
      proof (cases "projectOnRow (mi_columns i) row")
        case (Ok r)
        with True \<open>pass_filters env (mi_filters i) row = Ok ok\<close> have "?N i = Some (?i, Ok r)" by (simp add: unf)
        from yield_pair_step [of ?N, OF this IH] True Ok \<open>pass_filters env (mi_filters i) row = Ok ok\<close> show ?thesis
          by (simp add: Cons.hyps(2) [symmetric] scan_row_def)
      qed (use True \<open>pass_filters env (mi_filters i) row = Ok ok\<close> Cons.hyps(2) [symmetric] unf in
          \<open>auto simp: scan_row_def intro!: yield_pair_stop\<close>)
    next
      case False
      with Ok have "?N i = ?N ?i" by (simp add: unf)
      from yield_pair_same [of ?N, OF this IH] False Ok show ?thesis
        by (simp add: Cons.hyps(2) [symmetric] scan_row_def)
    qed
  qed (use Cons.hyps(2) [symmetric] unf in \<open>auto simp: scan_row_def intro!: yield_pair_stop\<close>)
qed

interpretation partition_keys: row_iter partitionIter_Next "\<lambda>_. True" "\<lambda>p. drop (pi_pos p) (pi_keys p)"
proof unfold_locales
  fix s :: partition_iter and x xs assume "drop (pi_pos s) (pi_keys s) = x # xs"
  from drop_ConsD [OF this] show "\<exists>t. partitionIter_Next s = Some (t, Ok x) \<and> True \<and> drop (pi_pos t) (pi_keys t) = xs"
    by (simp add: partitionIter_Next_def)
qed (simp add: partitionIter_Next_def)

lemma PartitionRows_yields:
  assumes "slices_ok d" "td_partitions d k = Some s" "mt_lookup t = None"
    and "\<forall>row \<in> set (prows d k). scan_row env (mt_filters t) (mt_columns t) row = Ok (g row)"
  shows "\<exists>i i'. PartitionRows d t k = Ok i
    \<and> yields (mem_Next env dec (td_heap d)) i (List.map_filter g (prows d k)) (Err EOF) i'"
proof -
  let ?i = "\<lparr> mi_columns = mt_columns t, mi_filters = mt_filters t, mi_rows = s, mi_indexValues = None, mi_pos = 0 \<rparr>"
  have "PartitionRows d t k = Ok ?i" using assms(2,3) by (simp add: PartitionRows_def)
  moreover have "process (scan_row env (mt_filters t) (mt_columns t)) (prows d k) (Err EOF) =
      (List.map_filter g (prows d k), Err EOF)"
    using assms(4) by (intro process_total) blast
  then have "yield_pair (mem_Next env dec (td_heap d)) ?i (List.map_filter g (prows d k), Err EOF)"
    using mem_iter_yields [of ?i "td_heap d" env dec] slice_rows_length [OF assms(1,2)]
    by (simp add: to_read_def prows_Some [OF assms(2)])
  ultimately show ?thesis by (auto simp: yield_pair_def)
qed

lemma map_filter_append: "List.map_filter g (xs @ ys) = List.map_filter g xs @ List.map_filter g ys"
  by (simp add: List.map_filter_def)

lemma map_filter_partitions:
  "concat (map (\<lambda>k. List.map_filter g (prows d k)) ks) = List.map_filter g (concat (map (prows d) ks))"
  by (induction ks) (simp_all add: map_filter_append List.map_filter_def)

lemma concat_nonempty: "(\<And>k. k \<in> set ks \<Longrightarrow> \<not> P k \<Longrightarrow> f k = []) \<Longrightarrow> concat (map f (filter P ks)) = concat (map f ks)"
  by (induction ks) auto

lemma table_rows_partitions:
  assumes "slices_ok d"
  shows "concat (map (prows d) (pi_keys (Partitions d t))) = table_rows d t"
proof -
  have "prows d k = []" if "\<not> (case td_partitions d k of None \<Rightarrow> False | Some s \<Rightarrow> sl_len s > 0)" for k
    using that by (cases "td_partitions d k") (auto simp: prows_def slice_rows_def)
  then show ?thesis unfolding Partitions_def table_rows_def by (simp add: concat_nonempty)
qed

text \<open>Reading a table in order returns its rows, one partition after the other in the order of the keys, restricted
  to the rows that pass the filters pushed into the table and projected on the columns pushed into it.\<close>

lemma scan_rows:
  assumes "table_ok d t" "mt_lookup t = None"
    and "\<forall>row \<in> set (table_rows d t). scan_row env (mt_filters t) (mt_columns t) row = Ok (g row)"
  shows "\<exists>u. drain (TableRowIter_Next False partitionIter_Next (\<lambda>_. None) (PartitionRows d t)
      (mem_Next env dec (td_heap d)) (\<lambda>_. None))
      \<lparr> ti_partitions = Partitions d t, ti_partition = None, ti_rows = None \<rparr> [] =
    Some (u, Ok (List.map_filter g (table_rows d t)))"
proof -
  let ?i = "\<lparr> ti_partitions = Partitions d t, ti_partition = None, ti_rows = None \<rparr>"
  let ?ks = "pi_keys (Partitions d t)"
  have ok: "slices_ok d" using assms(1) by (simp add: table_ok_def)
  have part: "\<exists>r r'. PartitionRows d t k = Ok r \<and>
      yields (mem_Next env dec (td_heap d)) r (List.map_filter g (prows d k)) (Err EOF) r' \<and> None = None"
    if "k \<in> set ?ks" for k
  proof -
    from that obtain s where s: "td_partitions d k = Some s" "k \<in> set (mt_keys t)"
      by (auto simp: Partitions_def split: option.splits)
    then show ?thesis
      using PartitionRows_yields [OF ok s(1) assms(2), of env g dec] assms(3) by (auto simp: table_rows_def)
  qed
  obtain p where "yields partitionIter_Next (Partitions d t) ?ks (Err EOF) p"
    using partition_keys.yields_pending [of "Partitions d t"] by (auto simp: Partitions_def)
  from TableRowIter_partitions [of partitionIter_Next _ ?ks "Err EOF" p "\<lambda>_. None" ?i "PartitionRows d t"
      "mem_Next env dec (td_heap d)" "\<lambda>k. List.map_filter g (prows d k)" "\<lambda>_. None"] this part
  obtain u where "yields (TableRowIter_Next False partitionIter_Next (\<lambda>_. None) (PartitionRows d t)
      (mem_Next env dec (td_heap d)) (\<lambda>_. None)) ?i (concat (map (\<lambda>k. List.map_filter g (prows d k)) ?ks)) (Err EOF) u"
    by auto
  then show ?thesis
    by (simp add: drain_yields map_filter_partitions table_rows_partitions [OF ok])
qed

text \<open>A table with all its rows in one partition.\<close>

definition small_table :: "row list \<Rightarrow> tdata \<times> mem_table" where
  "small_table rows = (\<lparr> td_partitions = [''0'' \<mapsto> \<lparr> sl_arr = 0, sl_len = length rows \<rparr>], td_heap = [rows] \<rparr>,
     snd (NewTable ''t'' one_column))"

lemma NewTable_snd:
  "snd (NewTable nm sch) = \<lparr> mt_name = nm, mt_schema = map Some sch, mt_keys = [''0''], mt_insert = 0, mt_filters = [],
     mt_projection = [], mt_columns = [], mt_lookup = None \<rparr>"
  by (simp add: NewTable_def NewPartitionedTable_def Itoa.simps)

lemma small_table_ok:
  "\<forall>r \<in> set rows. checkRow cast_env (map Some one_column) r = Ok () \<Longrightarrow>
   editor_ok cast_env (map Some one_column) [''0''] (small_table rows)
   \<and> table_rows (fst (small_table rows)) (snd (small_table rows)) = rows"
  by (simp add: editor_ok_def table_ok_def slices_ok_def small_table_def NewTable_snd table_rows_def prows_def
      slice_rows_def array_at_def)

theorem scan_rows_witness:
  "\<exists>u. drain (TableRowIter_Next False partitionIter_Next (\<lambda>_. None)
      (PartitionRows (fst (small_table [[GInt64 1], [GInt64 2]])) (snd (small_table [[GInt64 1], [GInt64 2]])))
      (mem_Next cast_env (\<lambda>_. Panic) (td_heap (fst (small_table [[GInt64 1], [GInt64 2]])))) (\<lambda>_. None))
      \<lparr> ti_partitions = Partitions (fst (small_table [[GInt64 1], [GInt64 2]])) (snd (small_table [[GInt64 1], [GInt64 2]])),
        ti_partition = None, ti_rows = None \<rparr> [] =
    Some (u, Ok [[GInt64 1], [GInt64 2]])"
proof -
  let ?w = "small_table [[GInt64 1], [GInt64 2]]"
  have ok: "editor_ok cast_env (map Some one_column) [''0''] ?w" "table_rows (fst ?w) (snd ?w) = [[GInt64 1], [GInt64 2]]"
    using small_table_ok [of "[[GInt64 1], [GInt64 2]]"] row_valid_int by (auto simp: row_valid_def)
  then have "table_ok (fst ?w) (snd ?w)" by (cases ?w) (simp add: editor_ok_def)
  from scan_rows [OF this, of cast_env Some "\<lambda>_. Panic"] ok(2) show ?thesis
    by (simp add: small_table_def NewTable_snd scan_row_def projectOnRow_def List.map_filter_def)
qed

section \<open>Index data\<close>

text \<open>What the gob encoding of positions is relied on for: decoding returns what was encoded.\<close>

definition codec :: "(string \<times> int \<Rightarrow> string res) \<Rightarrow> (string \<Rightarrow> (string \<times> int) res) \<Rightarrow> bool" where
  "codec enc dec \<longleftrightarrow> (\<forall>v. \<exists>x. enc v = Ok x \<and> dec x = Ok v)"

fun index_data :: "(string \<times> int \<Rightarrow> string res) \<Rightarrow> string \<Rightarrow> int \<Rightarrow> row list \<Rightarrow> string list" where
  "index_data enc k p [] = []"
| "index_data enc k p (r # rs) = (case enc (k, p) of Ok x \<Rightarrow> x | _ \<Rightarrow> []) # index_data enc k (p + 1) rs"

abbreviation kv_Next :: "genv \<Rightarrow> (string \<Rightarrow> (string \<times> int) res) \<Rightarrow> (string \<times> int \<Rightarrow> string res) \<Rightarrow> heap \<Rightarrow>
    (key_value_iter, row \<times> string) nextfn" where
  "kv_Next env dec enc h \<equiv> \<lambda>i. Some (indexKeyValueIter_Next env dec enc h i)"

lemma kv_yields:
  assumes "codec enc dec" "\<forall>r \<in> set (to_read h (kv_iter i)). projectOnRow (kv_columns i) r = Ok (pr r)"
    and "mi_indexValues (kv_iter i) = None" "mi_filters (kv_iter i) = []" "mi_columns (kv_iter i) = []"
    and "length (slice_rows h (mi_rows (kv_iter i))) = sl_len (mi_rows (kv_iter i))"
  shows "\<exists>u. yields (kv_Next env dec enc h) i
    (zip (map pr (to_read h (kv_iter i))) (index_data enc (kv_key i) (kv_pos i) (to_read h (kv_iter i)))) (Err EOF) u"
  using assms(2-)
proof (induction "to_read h (kv_iter i)" arbitrary: i)
  case Nil
  have "kv_Next env dec enc h i = Some (i \<lparr> kv_iter := kv_iter i \<rparr>, Err EOF)"
    using getRow_scan(1) [OF Nil.prems(2,5), of dec] Nil.hyps
    by (simp add: indexKeyValueIter_Next_def tableIter_Next.simps [of env dec h "kv_iter i"])
  with Nil.hyps show ?case by (auto intro!: exI yields.stop)
next
  case (Cons r rest)
  let ?it = "kv_iter i \<lparr> mi_pos := Suc (mi_pos (kv_iter i)) \<rparr>"
  let ?i = "i \<lparr> kv_iter := ?it, kv_pos := kv_pos i + 1 \<rparr>"
  obtain x where x: "enc (kv_key i, kv_pos i) = Ok x" using assms(1) by (auto simp: codec_def)
  have "tableIter_Next env dec h (kv_iter i) = (?it, Ok r)"
    using getRow_scan(1) [OF Cons.prems(2,5), of dec] Cons.hyps(2) [symmetric] Cons.prems(3,4)
    by (simp add: tableIter_Next.simps [of env dec h "kv_iter i"] projectOnRow_def)
  moreover have "projectOnRow (kv_columns i) r = Ok (pr r)" using Cons.prems(1) Cons.hyps(2) [symmetric] by simp
  ultimately have step: "kv_Next env dec enc h i = Some (?i, Ok (pr r, x))"
    using x by (simp add: indexKeyValueIter_Next_def)
  have rest: "to_read h ?it = rest" using getRow_scan(2) [OF Cons.prems(2,5) Cons.hyps(2) [symmetric]] .
  have "\<exists>u. yields (kv_Next env dec enc h) ?i (zip (map pr (to_read h (kv_iter ?i)))
      (index_data enc (kv_key ?i) (kv_pos ?i) (to_read h (kv_iter ?i)))) (Err EOF) u"
    by (rule Cons.hyps(1)) (use Cons.prems Cons.hyps(2) [symmetric] rest in auto)
  then obtain u where "yields (kv_Next env dec enc h) ?i
      (zip (map pr rest) (index_data enc (kv_key i) (kv_pos i + 1) rest)) (Err EOF) u"
    using rest by auto
  from yields.step [of "kv_Next env dec enc h", OF step this] show ?case
    using x by (auto simp: Cons.hyps(2) [symmetric])
qed

lemma lookup_yields:
  assumes "codec enc dec" "mi_indexValues i = Some (index_data enc k (int p) (drop p rows))"
    and "slice_rows h (mi_rows i) = rows" "sl_len (mi_rows i) = length rows" "mi_filters i = []" "mi_columns i = []"
  shows "\<exists>u. yields (mem_Next env dec h) i (drop p rows) (Err EOF) u"
  using assms(2-)
proof (induction "drop p rows" arbitrary: i p)
  case Nil
  have "mem_Next env dec h i = Some (i, Err EOF)"
    using Nil.prems(1) Nil.hyps by (simp add: tableIter_Next.simps [of env dec h i] getRow_def getFromIndex_def)
  with Nil.hyps show ?case by (auto intro!: exI yields.stop)
next
  case (Cons r rest)
  have p: "p < length rows" "rows ! p = r" "drop (Suc p) rows = rest"
    using drop_ConsD [OF Cons.hyps(2) [symmetric]] by simp_all
  obtain x where x: "enc (k, int p) = Ok x" "dec x = Ok (k, int p)" using assms(1) by (auto simp: codec_def)
  let ?i = "i \<lparr> mi_indexValues := Some (index_data enc k (int (Suc p)) rest) \<rparr>"
  have "mem_Next env dec h i = Some (?i, Ok r)"
    using Cons.prems Cons.hyps(2) [symmetric] x p
    by (simp add: tableIter_Next.simps [of env dec h i] getRow_def getFromIndex_def projectOnRow_def add.commute)
  moreover have "\<exists>u. yields (mem_Next env dec h) ?i (drop (Suc p) rows) (Err EOF) u"
    by (rule Cons.hyps(1)) (use Cons.prems p in auto)
  ultimately show ?case using p(3) Cons.hyps(2) [symmetric] by (auto intro: yields.step)
qed

text \<open>An index leads back to the rows it was built from: for a table without pushed-down filters the key-value
  iterator of a partition returns the key of each row with its encoded position, and a table that looks these positions
  up returns the rows of the partition, in order.\<close>

lemma index_roundtrip:
  assumes "codec enc dec" "table_ok d t" "td_partitions d k = Some s"
    and "mt_lookup t = None" "mt_filters t = []" "mt_columns t = []"
    and "\<forall>r \<in> set (prows d k). projectOnRow columns r = Ok (pr r)"
  shows "\<exists>i kvs u j v. PartitionRows d t k = Ok i
    \<and> yields (kv_Next env dec enc (td_heap d)) \<lparr> kv_key = k, kv_iter = i, kv_columns = columns, kv_pos = 0 \<rparr> kvs (Err EOF) u
    \<and> map fst kvs = map pr (prows d k)
    \<and> PartitionRows d (WithIndexLookup t (Some (\<lambda>_. Ok (map snd kvs)))) k = Ok j
    \<and> yields (mem_Next env dec (td_heap d)) j (prows d k) (Err EOF) v"
proof -
  let ?i = "\<lparr> mi_columns = [], mi_filters = [], mi_rows = s, mi_indexValues = None, mi_pos = 0 \<rparr>"
  let ?data = "index_data enc k 0 (prows d k)"
  let ?kvs = "zip (map pr (prows d k)) ?data"
  let ?j = "?i \<lparr> mi_indexValues := Some ?data \<rparr>"
  have ok: "slices_ok d" using assms(2) by (simp add: table_ok_def)
  note len = slice_rows_length [OF ok assms(3)]
  have "length (index_data enc k p rs) = length rs" for p rs by (induction rs arbitrary: p) auto
  then have kvs: "map fst ?kvs = map pr (prows d k)" "map snd ?kvs = ?data" by simp_all
  obtain u where "yields (kv_Next env dec enc (td_heap d)) \<lparr> kv_key = k, kv_iter = ?i, kv_columns = columns, kv_pos = 0 \<rparr>
      ?kvs (Err EOF) u"
    using kv_yields [OF assms(1), of "td_heap d" "\<lparr> kv_key = k, kv_iter = ?i, kv_columns = columns, kv_pos = 0 \<rparr>" pr env]
      assms(7) len by (auto simp: to_read_def prows_Some [OF assms(3)])
  moreover obtain v where "yields (mem_Next env dec (td_heap d)) ?j (prows d k) (Err EOF) v"
    using lookup_yields [OF assms(1), of ?j k 0 "prows d k" "td_heap d" env] len
    by (auto simp: prows_Some [OF assms(3)])
  moreover have "PartitionRows d t k = Ok ?i"
    "PartitionRows d (WithIndexLookup t (Some (\<lambda>_. Ok (map snd ?kvs)))) k = Ok ?j"
    using assms(3-6) by (simp_all add: PartitionRows_def WithIndexLookup_def kvs)
  ultimately show ?thesis using kvs(1) by blast
qed

text \<open>A codec for the witness: the key, a separator and the position in unary, with its sign.\<close>

definition unary_enc :: "string \<times> int \<Rightarrow> string res" where
  "unary_enc v = Ok (replicate (nat \<bar>snd v\<bar>) CHR ''1'' @ (if snd v < 0 then ''-'' else ''+'') @ fst v)"

definition unary_dec :: "string \<Rightarrow> (string \<times> int) res" where
  "unary_dec x = (let n = length (takeWhile (\<lambda>c. c = CHR ''1'') x); r = dropWhile (\<lambda>c. c = CHR ''1'') x in
     case r of [] \<Rightarrow> Err EOF | c # k \<Rightarrow> Ok (k, if c = CHR ''-'' then - int n else int n))"

lemma unary_codec: "codec unary_enc unary_dec"
  unfolding codec_def
proof
  fix v :: "string \<times> int"
  obtain k p where [simp]: "v = (k, p)" by (cases v)
  have "takeWhile (\<lambda>c. c = CHR ''1'') (replicate n CHR ''1'' @ c # k) = replicate n CHR ''1''"
    "dropWhile (\<lambda>c. c = CHR ''1'') (replicate n CHR ''1'' @ c # k) = c # k" if "c \<noteq> CHR ''1''" for n c
    using that by (induction n) auto
  then show "\<exists>x. unary_enc v = Ok x \<and> unary_dec x = Ok v"
    by (auto simp: unary_enc_def unary_dec_def Let_def)
qed

theorem index_roundtrip_witness:
  "\<exists>i kvs u j v. PartitionRows (fst (small_table [[GInt64 4], [GInt64 5]])) (snd (small_table [])) ''0'' = Ok i
    \<and> yields (kv_Next cast_env unary_dec unary_enc (td_heap (fst (small_table [[GInt64 4], [GInt64 5]]))))
        \<lparr> kv_key = ''0'', kv_iter = i, kv_columns = [0], kv_pos = 0 \<rparr> kvs (Err EOF) u
    \<and> map fst kvs = map (\<lambda>r. r) (prows (fst (small_table [[GInt64 4], [GInt64 5]])) ''0'')
    \<and> PartitionRows (fst (small_table [[GInt64 4], [GInt64 5]]))
        (WithIndexLookup (snd (small_table [])) (Some (\<lambda>_. Ok (map snd kvs)))) ''0'' = Ok j
    \<and> yields (mem_Next cast_env unary_dec (td_heap (fst (small_table [[GInt64 4], [GInt64 5]]))))
        j (prows (fst (small_table [[GInt64 4], [GInt64 5]])) ''0'') (Err EOF) v"
  by (rule index_roundtrip [OF unary_codec, where s = "\<lparr> sl_arr = 0, sl_len = 2 \<rparr>"])
    (simp_all add: small_table_def NewTable_snd table_ok_def slices_ok_def prows_def slice_rows_def array_at_def projectOnRow_def)

section \<open>Properties of ALTER TABLE\<close>

lemma add_column_last:
  "length acc + length cs = n \<Longrightarrow> cs \<noteq> [] \<Longrightarrow>
   add_column_loop n col None cs acc idx = Ok (acc @ cs @ [Some col], n)"
proof (induction cs arbitrary: acc idx)
  case (Cons c cs)
  show ?case
  proof (cases "cs = []")
    case True
    with Cons.prems show ?thesis by simp
  next
    case False
    with Cons.prems(1) have "Suc (length acc) \<noteq> n" by (cases cs) auto
    with False Cons.prems Cons.IH [of "acc @ [c]" idx] show ?thesis by (simp add: Let_def)
  qed
qed simp

lemma add_column_nowhere:
  "length acc + length cs \<le> Suc n \<Longrightarrow> \<forall>c \<in> set cs. col_Name c \<noteq> co_AfterColumn ord \<Longrightarrow>
   add_column_loop n col (Some ord) (map Some cs) acc idx =
     Ok (acc @ map Some cs @ replicate (Suc n - length acc - length cs) None, idx)"
  by (induction cs arbitrary: acc) (auto simp: col_name_def)

lemma insertValueInRows_rows:
  assumes "slices_ok d" "distinct order" "\<forall>k \<in> set order. \<forall>r \<in> set (prows d k). idx \<le> length r"
  shows "\<exists>d'. insertValueInRows order idx v d = Ok d' \<and> slices_ok d' \<and> dom (td_partitions d') = dom (td_partitions d)
    \<and> (\<forall>k. prows d' k = (if k \<in> set order then map (\<lambda>r. take idx r @ [v] @ drop idx r) (prows d k) else prows d k))"
  using assms
proof (induction order arbitrary: d)
  case (Cons k ks)
  let ?f = "\<lambda>r. take idx r @ [v] @ drop idx r"
  show ?case
  proof (cases "td_partitions d k")
    case None
    then have "prows d k = []" by (simp add: prows_def)
    with None Cons.IH [OF Cons.prems(1)] Cons.prems(2,3) show ?thesis by fastforce
  next
    case (Some s)
    let ?new = "map ?f (prows d k)"
    define d' where "d' = \<lparr> td_partitions = (td_partitions d)(k \<mapsto> \<lparr> sl_arr = length (td_heap d), sl_len = length ?new \<rparr>),
        td_heap = td_heap d @ [?new] \<rparr>"
    have "slices_ok d' \<and> (\<forall>k'. prows d' k' = (if k' = k then take (length ?new) ?new else prows d k'))"
      by (rule new_array_rows [OF Cons.prems(1) _ d'_def]) simp
    then have d': "slices_ok d'" "\<And>k'. prows d' k' = (if k' = k then ?new else prows d k')" by simp_all
    have "rmap (insert_value idx v) (prows d k) = Ok ?new"
      using Cons.prems(3) by (intro rmap_Ok_map) (auto simp: insert_value_def)
    then have step: "insertValueInRows (k # ks) idx v d = insertValueInRows ks idx v d'"
      using Some by (simp add: prows_Some [OF Some] d'_def)
    have pre: "distinct ks" "\<forall>k' \<in> set ks. \<forall>r \<in> set (prows d' k'). idx \<le> length r"
      using Cons.prems(2,3) d'(2) by (auto split: if_splits)
    have "dom (td_partitions d') = dom (td_partitions d)" using Some by (auto simp: d'_def)
    with Cons.IH [OF d'(1) pre] step Cons.prems(2) show ?thesis by (fastforce simp: d'(2))
  qed
qed auto

text \<open>ADD COLUMN without a position adds the column after the others and appends its default to every row; with
  FIRST it puts both in front. With AFTER and a name that no column has (the name is compared exactly, although the
  planner accepts it in any case) the schema gets a nil column at its end, and checking any row against it panics.\<close>

lemma AddColumn_rows:
  assumes "editor_ok env (map Some sch) order (d, t)" "distinct order" "sch \<noteq> []"
    and col': "col' = col \<lparr> col_Source := mt_name t \<rparr>"
  shows "(\<exists>d'. AddColumn order (d, t) col None = Ok (d', t \<lparr> mt_schema := map Some (sch @ [col']) \<rparr>)
         \<and> table_rows d' t = map (\<lambda>r. r @ [col_Default col]) (table_rows d t))
    \<and> (\<forall>ord. (\<forall>c \<in> set sch. col_Name c \<noteq> co_AfterColumn ord) \<longrightarrow>
         (\<exists>d'. table_rows d' t = map (\<lambda>r. col_Default col # r) (table_rows d t)
         \<and> AddColumn order (d, t) col (Some ord) = Ok (d', t \<lparr> mt_schema :=
             (if co_First ord then map Some (col' # sch) else map Some sch @ [None]) \<rparr>)))"
proof -
  have t: "slices_ok d" "mt_schema t = map Some sch" "set order = set (mt_keys t)"
    using assms(1) by (auto simp: editor_ok_def table_ok_def)
  have len: "length r = length sch" if "k \<in> set order" "r \<in> set (prows d k)" for k r
    using assms(1) that checkRow_length [of env "map Some sch" r] by (auto simp: editor_ok_def table_rows_def)
  have ins: "\<exists>d'. insertValueInRows order idx v d = Ok d' \<and>
      table_rows d' t = map (\<lambda>r. take idx r @ [v] @ drop idx r) (table_rows d t)" if "idx \<le> length sch" for idx v
    using insertValueInRows_rows [OF t(1) assms(2), of idx v] len that t(3)
    by (fastforce simp: table_rows_def map_concat comp_def intro!: arg_cong [of _ _ concat])
  have "map (\<lambda>r. take (length sch) r @ [v] @ drop (length sch) r) (table_rows d t) = map (\<lambda>r. r @ [v]) (table_rows d t)" for v
    using len t(3) by (auto simp: table_rows_def)
  with ins [of "length sch" "col_Default col"] obtain d1 where
    "insertValueInRows order (length sch) (col_Default col) d = Ok d1"
    "table_rows d1 t = map (\<lambda>r. r @ [col_Default col]) (table_rows d t)" by auto
  then have "\<exists>d'. AddColumn order (d, t) col None = Ok (d', t \<lparr> mt_schema := map Some (sch @ [col']) \<rparr>)
         \<and> table_rows d' t = map (\<lambda>r. r @ [col_Default col]) (table_rows d t)"
    using add_column_last [of "[]" "map Some sch" "length sch" col' 0] assms(3) t(2)
    by (auto simp: AddColumn_def Let_def col')
  moreover have "\<exists>d'. table_rows d' t = map (\<lambda>r. col_Default col # r) (table_rows d t)
         \<and> AddColumn order (d, t) col (Some ord) = Ok (d', t \<lparr> mt_schema :=
             (if co_First ord then map Some (col' # sch) else map Some sch @ [None]) \<rparr>)"
    if "\<forall>c \<in> set sch. col_Name c \<noteq> co_AfterColumn ord" for ord
  proof -
    obtain d2 where "insertValueInRows order 0 (col_Default col) d = Ok d2"
      "table_rows d2 t = map (\<lambda>r. col_Default col # r) (table_rows d t)" using ins [of 0 "col_Default col"] by auto
    then show ?thesis
      using add_column_nowhere [of "if co_First ord then [Some col'] else []" sch "length sch" ord col' 0] that t(2)
      by (auto simp: AddColumn_def Let_def col')
  qed
  ultimately show ?thesis by blast
qed

text \<open>DROP COLUMN shortens the schema but leaves the dropped value in every row: the stored rows no longer fit the
  schema, and none of them can be deleted or updated any more.\<close>

lemma DropColumn_stale_rows:
  assumes "editor_ok env sch order (d, t)" "DropColumn (d, t) nm = Ok w" "r \<in> set (table_rows d t)"
  shows "table_rows (fst w) (snd w) = table_rows d t
    \<and> editor_Delete env order w r = (w, Err (SqlErr (ErrUnexpectedRowLength (length sch - 1) (length sch))))
    \<and> editor_Update env order w r r' = (w, Err (SqlErr (ErrUnexpectedRowLength (length sch - 1) (length sch))))"
proof -
  have t: "mt_schema t = sch" "length r = length sch"
    using assms(1,3) checkRow_length [of env sch r] by (auto simp: editor_ok_def)
  from assms(2) t(1) obtain sch' where w: "w = (d, t \<lparr> mt_schema := sch' \<rparr>)" "length sch' = length sch - 1" "sch \<noteq> []"
    by (auto simp: DropColumn_def Let_def res_simps split: if_splits)
  then have "length sch - 1 \<noteq> length sch" by (cases sch) simp_all
  with w t show ?thesis
    by (auto simp: table_rows_def editor_Delete_def editor_Update_def checkRow_def)
qed

theorem AddColumn_rows_witness:
  "\<exists>d'. AddColumn [''0''] (small_table [[GInt64 4]]) (hd one_column) None =
      Ok (d', snd (small_table []) \<lparr> mt_schema := map Some (one_column @ one_column) \<rparr>)
    \<and> table_rows d' (snd (small_table [])) = [[GInt64 4, GNil]]"
proof -
  have ok: "editor_ok cast_env (map Some one_column) [''0''] (small_table [[GInt64 4]])"
    "table_rows (fst (small_table [[GInt64 4]])) (snd (small_table [[GInt64 4]])) = [[GInt64 4]]"
    using small_table_ok [of "[[GInt64 4]]"] row_valid_int by (auto simp: row_valid_def)
  have src: "hd one_column = hd one_column \<lparr> col_Source := mt_name (snd (small_table [[GInt64 4]])) \<rparr>"
    by (simp add: one_column_def small_table_def NewTable_snd)
  from AddColumn_rows [of cast_env one_column "[''0'']" "fst (small_table [[GInt64 4]])" "snd (small_table [[GInt64 4]])",
      OF _ _ _ src] ok show ?thesis
    by (simp add: one_column_def small_table_def)
qed

theorem DropColumn_stale_rows_witness:
  "editor_Delete cast_env [''0''] (fst (small_table [[GInt64 4]]), snd (small_table []) \<lparr> mt_schema := [] \<rparr>) [GInt64 4] =
     ((fst (small_table [[GInt64 4]]), snd (small_table []) \<lparr> mt_schema := [] \<rparr>), Err (SqlErr (ErrUnexpectedRowLength 0 1)))"
proof -
  have ok: "editor_ok cast_env (map Some one_column) [''0''] (small_table [[GInt64 4]])"
    "table_rows (fst (small_table [[GInt64 4]])) (snd (small_table [[GInt64 4]])) = [[GInt64 4]]"
    using small_table_ok [of "[[GInt64 4]]"] row_valid_int by (auto simp: row_valid_def)
  have "DropColumn (fst (small_table [[GInt64 4]]), snd (small_table [[GInt64 4]])) ''a'' =
      Ok (fst (small_table [[GInt64 4]]), snd (small_table []) \<lparr> mt_schema := [] \<rparr>)"
    by (simp add: DropColumn_def small_table_def NewTable_snd one_column_def col_name_def)
  from DropColumn_stale_rows [of cast_env "map Some one_column" "[''0'']", OF _ this] ok show ?thesis
    by (simp add: one_column_def)
qed

end
