(* ===== verification/Dml.thy ===== *)
theory Dml
  imports Memory_Table
begin

text \<open>
  The statements that change rows: DELETE (\<^verbatim>\<open>sql/plan/delete.go\<close>), UPDATE (\<^verbatim>\<open>sql/plan/update.go\<close>), INSERT and REPLACE
  (\<^verbatim>\<open>sql/plan/insert.go\<close>). Each pulls rows from a child iterator and edits a table between two pulls, so the model runs
  over one world that holds both: \<open>nx\<close> is \<^verbatim>\<open>iter.Next\<close>, \<open>del\<close>, \<open>upd\<close> and \<open>ins\<close> are the editor's methods and \<open>close\<close> the
  error of closing the editor. The world of a statement on a table in memory is the table together with an iterator over
  that very table.
\<close>

section \<open>The table a statement edits\<close>

text \<open>
  A node of the plan is a table that can be edited, a \<^verbatim>\<open>ResolvedTable\<close> around a table or a wrapper of one, or any other node
  with its children.
\<close>

datatype 'tbl table_ref = Editable 'tbl | Wrapper "'tbl table_ref" | NotEditable

datatype (plugins only: code size) 'tbl plan_node =
  TableNode 'tbl | Resolved "'tbl table_ref" | Inner "'tbl plan_node list"

fun get_table :: "plan_error \<Rightarrow> 'tbl table_ref \<Rightarrow> 'tbl res" where
  "get_table err (Editable t) = Ok t"
| "get_table err (Wrapper u) = get_table err u"
| "get_table err NotEditable = Err (PlanErr err)"

fun first_Ok :: "'a res list \<Rightarrow> 'a res \<Rightarrow> 'a res" where
  "first_Ok [] d = d"
| "first_Ok (r # rs) d = (case r of Ok x \<Rightarrow> Ok x | Err e \<Rightarrow> first_Ok rs d | Panic \<Rightarrow> Panic)"

fun get_editable :: "plan_error \<Rightarrow> 'tbl plan_node \<Rightarrow> 'tbl res" where
  "get_editable err (TableNode t) = Ok t"
| "get_editable err (Resolved t) = get_table err t"
| "get_editable err (Inner cs) = first_Ok (map (get_editable err) cs) (Err (PlanErr err))"

definition getDeletable :: "'tbl plan_node \<Rightarrow> 'tbl res" where
  "getDeletable = get_editable ErrDeleteFromNotSupported"

definition getUpdatable :: "'tbl plan_node \<Rightarrow> 'tbl res" where
  "getUpdatable = get_editable ErrUpdateNotSupported"

definition getInsertable :: "'tbl plan_node \<Rightarrow> 'tbl res" where
  "getInsertable n = (case n of TableNode t \<Rightarrow> Ok t | Resolved t \<Rightarrow> get_table ErrInsertIntoNotSupported t
     | Inner cs \<Rightarrow> Err (PlanErr ErrInsertIntoNotSupported))"

section \<open>DELETE\<close>

partial_function (option) delete_loop ::
  "('w, row) nextfn \<Rightarrow> ('w \<Rightarrow> row \<Rightarrow> 'w \<times> unit res) \<Rightarrow> nat \<Rightarrow> 'w \<Rightarrow> ('w \<times> nat \<times> unit res) option"
where
  "delete_loop nx del n w =
     (case nx w of
        None \<Rightarrow> None
      | Some (w', Err e) \<Rightarrow> Some (w', n, if e = EOF then Ok () else Err e)
      | Some (w', Panic) \<Rightarrow> Some (w', n, Panic)
      | Some (w', Ok row) \<Rightarrow>
          (case del w' row of
             (w'', Ok _) \<Rightarrow> delete_loop nx del (Suc n) w''
           | (w'', Err e) \<Rightarrow> Some (w'', n, Err e)
           | (w'', Panic) \<Rightarrow> Some (w'', n, Panic)))"

definition DeleteFrom_Execute ::
  "'tbl plan_node \<Rightarrow> ('w \<Rightarrow> 'w res) \<Rightarrow> ('w, row) nextfn \<Rightarrow> ('tbl \<Rightarrow> 'w \<Rightarrow> row \<Rightarrow> 'w \<times> unit res) \<Rightarrow>
   ('w \<Rightarrow> gerror option) \<Rightarrow> 'w \<Rightarrow> ('w \<times> nat \<times> unit res) option" where
  "DeleteFrom_Execute node rowIter nx del close w =
     (case getDeletable node of
        Err e \<Rightarrow> Some (w, 0, Err e)
      | Panic \<Rightarrow> Some (w, 0, Panic)
      | Ok tbl \<Rightarrow>
          (case rowIter w of
             Err e \<Rightarrow> Some (w, 0, Err e)
           | Panic \<Rightarrow> Some (w, 0, Panic)
           | Ok w1 \<Rightarrow>
               (case delete_loop nx (del tbl) 0 w1 of
                  None \<Rightarrow> None
                | Some (w', n, Ok _) \<Rightarrow> Some (case close w' of Some e \<Rightarrow> (w', 0, Err e) | None \<Rightarrow> (w', n, Ok ()))
                | Some p \<Rightarrow> Some p)))"

section \<open>UPDATE\<close>

fun applyUpdates :: "genv \<Rightarrow> expr list \<Rightarrow> row \<Rightarrow> row res" where
  "applyUpdates env [] prev = Ok prev"
| "applyUpdates env (e # es) prev = rbind (eval env e prev) (\<lambda>v.
     case v of GRow r \<Rightarrow> applyUpdates env es r | _ \<Rightarrow> Err (PlanErr ErrUpdateUnexpectedSetResult))"

text \<open>One row of the loop: the new row, and whether it differs from the old one under the schema.\<close>

definition updated_row :: "genv \<Rightarrow> schema \<Rightarrow> expr list \<Rightarrow> row \<Rightarrow> (row \<times> bool) res" where
  "updated_row env sch es oldRow =
     rbind (applyUpdates env es oldRow) (\<lambda>newRow. rbind (Row_Equals env oldRow newRow sch) (\<lambda>eq. Ok (newRow, \<not> eq)))"

partial_function (option) update_loop ::
  "genv \<Rightarrow> schema \<Rightarrow> expr list \<Rightarrow> ('w, row) nextfn \<Rightarrow> ('w \<Rightarrow> row \<Rightarrow> row \<Rightarrow> 'w \<times> unit res) \<Rightarrow> nat \<Rightarrow> nat \<Rightarrow> 'w \<Rightarrow>
   ('w \<times> nat \<times> nat \<times> unit res) option"
where
  "update_loop env sch es nx upd m n w =
     (case nx w of
        None \<Rightarrow> None
      | Some (w', Err e) \<Rightarrow> Some (w', m, n, if e = EOF then Ok () else Err e)
      | Some (w', Panic) \<Rightarrow> Some (w', m, n, Panic)
      | Some (w', Ok oldRow) \<Rightarrow>
          (case updated_row env sch es oldRow of
             Err e \<Rightarrow> Some (w', Suc m, n, Err e)
           | Panic \<Rightarrow> Some (w', Suc m, n, Panic)
           | Ok (newRow, changed) \<Rightarrow>
               if changed then
                 (case upd w' oldRow newRow of
                    (w'', Ok _) \<Rightarrow> update_loop env sch es nx upd (Suc m) (Suc n) w''
                  | (w'', Err e) \<Rightarrow> Some (w'', Suc m, n, Err e)
                  | (w'', Panic) \<Rightarrow> Some (w'', Suc m, n, Panic))
               else update_loop env sch es nx upd (Suc m) n w'))"

definition Update_Execute ::
  "genv \<Rightarrow> schema \<Rightarrow> expr list \<Rightarrow> 'tbl plan_node \<Rightarrow> ('w \<Rightarrow> 'w res) \<Rightarrow> ('w, row) nextfn \<Rightarrow>
   ('tbl \<Rightarrow> 'w \<Rightarrow> row \<Rightarrow> row \<Rightarrow> 'w \<times> unit res) \<Rightarrow> ('w \<Rightarrow> gerror option) \<Rightarrow> 'w \<Rightarrow> ('w \<times> nat \<times> nat \<times> unit res) option" where
  "Update_Execute env sch es node rowIter nx upd close w =
     (case getUpdatable node of
        Err e \<Rightarrow> Some (w, 0, 0, Err e)
      | Panic \<Rightarrow> Some (w, 0, 0, Panic)
      | Ok tbl \<Rightarrow>
          (case rowIter w of
             Err e \<Rightarrow> Some (w, 0, 0, Err e)
           | Panic \<Rightarrow> Some (w, 0, 0, Panic)
           | Ok w1 \<Rightarrow>
               (case update_loop env sch es nx (upd tbl) 0 0 w1 of
                  None \<Rightarrow> None
                | Some (w', m, n, Ok _) \<Rightarrow> Some (case close w' of Some e \<Rightarrow> (w', 0, 0, Err e) | None \<Rightarrow> (w', m, n, Ok ()))
                | Some p \<Rightarrow> Some p)))"

section \<open>INSERT and REPLACE\<close>

text \<open>The source of the rows: VALUES, a node the statement supports with its schema, or another node.\<close>

datatype (plugins only: code size) insert_source = SrcValues "expr list list" | SrcNode schema | SrcOther

fun validate_names :: "string list \<Rightarrow> string list \<Rightarrow> string list \<Rightarrow> unit res" where
  "validate_names dst seen [] = Ok ()"
| "validate_names dst seen (c # cs) =
     (if c \<notin> set dst then Err (PlanErr (ErrInsertIntoNonexistentColumn c))
      else if c \<in> set seen then Err (PlanErr (ErrInsertIntoDuplicateColumn c))
      else validate_names dst (c # seen) cs)"

definition validateColumns :: "schema \<Rightarrow> string list \<Rightarrow> unit res" where
  "validateColumns dstSchema columnNames = validate_names (map col_Name dstSchema) [] columnNames"

definition validateValueCount :: "string list \<Rightarrow> insert_source \<Rightarrow> unit res" where
  "validateValueCount columnNames src =
     (case src of
        SrcValues tuples \<Rightarrow>
          if \<exists>t \<in> set tuples. length t \<noteq> length columnNames then Err (PlanErr ErrInsertIntoMismatchValueCount) else Ok ()
      | SrcNode sch \<Rightarrow> if length columnNames \<noteq> length sch then Err (PlanErr ErrInsertIntoMismatchValueCount) else Ok ()
      | SrcOther \<Rightarrow> Err (PlanErr ErrInsertIntoUnsupportedValues))"

fun column_position :: "string \<Rightarrow> nat \<Rightarrow> string list \<Rightarrow> nat option" where
  "column_position nm j [] = None"
| "column_position nm j (c # cs) = (if nm = c then Some j else column_position nm (Suc j) cs)"

definition insert_expr :: "string list \<Rightarrow> column \<Rightarrow> expr res" where
  "insert_expr columnNames f =
     (case column_position (col_Name f) 0 columnNames of
        Some j \<Rightarrow> Ok (GetField (int j) (col_Type f) [] (col_Name f) (col_Nullable f))
      | None \<Rightarrow>
          if \<not> col_Nullable f \<and> col_Default f = GNil
          then Err (PlanErr (ErrInsertIntoNonNullableDefaultNullColumn (col_Name f)))
          else Ok (Literal (col_Default f) (col_Type f)))"

fun assertCompatibleSchemas :: "genv \<Rightarrow> expr list \<Rightarrow> schema \<Rightarrow> unit res" where
  "assertCompatibleSchemas env [] sch = Ok ()"
| "assertCompatibleSchemas env (e # es) sch =
     (case e of
        Literal v t \<Rightarrow> assertCompatibleSchemas env es sch
      | GetField i t tbl nm nl \<Rightarrow>
          rbind (if i < 0 then Panic else slice_at sch (nat i)) (\<lambda>otherCol.
            case sql_convert env (col_Type otherCol) (sql_zero env t) of
              Ok _ \<Rightarrow> assertCompatibleSchemas env es sch
            | Err _ \<Rightarrow> Err (PlanErr ErrInsertIntoIncompatibleTypes)
            | Panic \<Rightarrow> Panic)
      | _ \<Rightarrow> Err (PlanErr ErrInsertIntoUnsupportedValues))"

definition insert_rowSource :: "genv \<Rightarrow> expr list \<Rightarrow> insert_source \<Rightarrow> unit res" where
  "insert_rowSource env projExprs src =
     (case src of SrcValues _ \<Rightarrow> Ok () | SrcNode sch \<Rightarrow> assertCompatibleSchemas env projExprs sch
      | SrcOther \<Rightarrow> Err (PlanErr ErrInsertIntoUnsupportedValues))"

fun validateNullability :: "schema \<Rightarrow> row \<Rightarrow> unit res" where
  "validateNullability [] row = Ok ()"
| "validateNullability (c # cs) [] = (if col_Nullable c then validateNullability cs [] else Panic)"
| "validateNullability (c # cs) (v # vs) =
     (if \<not> col_Nullable c \<and> v = GNil then Err (PlanErr (ErrInsertIntoNonNullableProvidedNull (col_Name c)))
      else validateNullability cs vs)"

text \<open>Each value that is not NULL is converted to the type of its destination.\<close>

fun convert_row :: "genv \<Rightarrow> expr list \<Rightarrow> row \<Rightarrow> row res" where
  "convert_row env es [] = Ok []"
| "convert_row env [] (v # vs) = Panic"
| "convert_row env (e # es) (v # vs) =
     rbind (etype e) (\<lambda>t. rbind (if v = GNil then Ok GNil else sql_convert env t v) (\<lambda>v'.
       rbind (convert_row env es vs) (\<lambda>vs'. Ok (v' # vs'))))"

definition store_row ::
  "bool \<Rightarrow> ('w \<Rightarrow> row \<Rightarrow> 'w \<times> unit res) \<Rightarrow> ('w \<Rightarrow> row \<Rightarrow> 'w \<times> unit res) \<Rightarrow> 'w \<Rightarrow> row \<Rightarrow> 'w \<times> nat \<times> unit res" where
  "store_row isReplace ins del w row =
     (if isReplace then
        (case del w row of
           (w1, Panic) \<Rightarrow> (w1, 0, Panic)
         | (w1, r) \<Rightarrow>
             if r \<noteq> Ok () \<and> r \<noteq> Err (SqlErr ErrDeleteRowNotFound) then (w1, 0, r)
             else let i = (if r = Ok () then 1 else 0) in
               (case ins w1 row of (w2, Ok _) \<Rightarrow> (w2, Suc i, Ok ()) | (w2, r2) \<Rightarrow> (w2, i, r2)))
      else case ins w row of (w1, Ok _) \<Rightarrow> (w1, 1, Ok ()) | (w1, r) \<Rightarrow> (w1, 0, r))"

partial_function (option) insert_loop ::
  "genv \<Rightarrow> schema \<Rightarrow> expr list \<Rightarrow> ('w, row) nextfn \<Rightarrow> ('w \<Rightarrow> row \<Rightarrow> 'w \<times> nat \<times> unit res) \<Rightarrow> nat \<Rightarrow> 'w \<Rightarrow>
   ('w \<times> nat \<times> unit res) option"
where
  "insert_loop env dst es nx put n w =
     (case nx w of
        None \<Rightarrow> None
      | Some (w', Err e) \<Rightarrow> Some (w', n, if e = EOF then Ok () else Err e)
      | Some (w', Panic) \<Rightarrow> Some (w', n, Panic)
      | Some (w', Ok row) \<Rightarrow>
          (case rbind (validateNullability dst row) (\<lambda>_. convert_row env es row) of
             Err e \<Rightarrow> Some (w', n, Err e)
           | Panic \<Rightarrow> Some (w', n, Panic)
           | Ok row' \<Rightarrow>
               (case put w' row' of
                  (w'', i, Ok _) \<Rightarrow> insert_loop env dst es nx put (n + i) w''
                | (w'', i, Err e) \<Rightarrow> Some (w'', n + i, Err e)
                | (w'', i, Panic) \<Rightarrow> Some (w'', n + i, Panic))))"

text \<open>The checks before the loop: the projection of the source on the columns of the table.\<close>

definition insert_columns :: "schema \<Rightarrow> string list \<Rightarrow> string list res" where
  "insert_columns dst columnNames =
     (if columnNames = [] then Ok (map col_Name dst) else rbind (validateColumns dst columnNames) (\<lambda>_. Ok columnNames))"

definition insert_plan :: "genv \<Rightarrow> schema \<Rightarrow> string list \<Rightarrow> insert_source \<Rightarrow> expr list res" where
  "insert_plan env dst columnNames src =
     rbind (insert_columns dst columnNames) (\<lambda>cols. rbind (validateValueCount cols src) (\<lambda>_.
       rbind (rmap (insert_expr cols) dst) (\<lambda>es. rbind (insert_rowSource env es src) (\<lambda>_. Ok es))))"

definition InsertInto_Execute ::
  "genv \<Rightarrow> schema \<Rightarrow> string list \<Rightarrow> bool \<Rightarrow> insert_source \<Rightarrow> 'tbl plan_node \<Rightarrow> ('tbl \<Rightarrow> bool) \<Rightarrow> ('w \<Rightarrow> 'w res) \<Rightarrow>
   ('w, row) nextfn \<Rightarrow> ('tbl \<Rightarrow> 'w \<Rightarrow> row \<Rightarrow> 'w \<times> unit res) \<Rightarrow> ('tbl \<Rightarrow> 'w \<Rightarrow> row \<Rightarrow> 'w \<times> unit res) \<Rightarrow>
   ('w \<Rightarrow> gerror option) \<Rightarrow> 'w \<Rightarrow> ('w \<times> nat \<times> unit res) option" where
  "InsertInto_Execute env dst columnNames isReplace src node replaceable rowIter nx ins del close w =
     (case rbind (getInsertable node) (\<lambda>tbl.
             if isReplace \<and> \<not> replaceable tbl then Err (PlanErr ErrReplaceIntoNotSupported)
             else rbind (insert_plan env dst columnNames src) (\<lambda>es. rbind (rowIter w) (\<lambda>w1. Ok (tbl, es, w1)))) of
        Err e \<Rightarrow> Some (w, 0, Err e)
      | Panic \<Rightarrow> Some (w, 0, Panic)
      | Ok (tbl, es, w1) \<Rightarrow>
          (case insert_loop env dst es (project_Next env es nx) (store_row isReplace (ins tbl) (del tbl)) 0 w1 of
             None \<Rightarrow> None
           | Some (w', n, Ok _) \<Rightarrow> Some (case close w' of Some e \<Rightarrow> (w', 0, Err e) | None \<Rightarrow> (w', n, Ok ()))
           | Some p \<Rightarrow> Some p))"

section \<open>Statements whose rows are read from elsewhere\<close>

text \<open>A world of two parts: the table that is edited, and an iterator that does not read it.\<close>

definition source_Next :: "('s, row) nextfn \<Rightarrow> ('w \<times> 's, row) nextfn" where
  "source_Next nx w = (case nx (snd w) of None \<Rightarrow> None | Some (s', r) \<Rightarrow> Some ((fst w, s'), r))"

definition target_edit :: "('w \<Rightarrow> row \<Rightarrow> 'w \<times> unit res) \<Rightarrow> 'w \<times> 's \<Rightarrow> row \<Rightarrow> ('w \<times> 's) \<times> unit res" where
  "target_edit f w row = ((fst (f (fst w) row), snd w), snd (f (fst w) row))"

definition target_update :: "('w \<Rightarrow> row \<Rightarrow> row \<Rightarrow> 'w \<times> unit res) \<Rightarrow> 'w \<times> 's \<Rightarrow> row \<Rightarrow> row \<Rightarrow> ('w \<times> 's) \<times> unit res" where
  "target_update f w old new = ((fst (f (fst w) old new), snd w), snd (f (fst w) old new))"

lemma source_project: "project_Next env es (source_Next nx) = source_Next (project_Next env es nx)"
  by (auto simp: project_Next_def source_Next_def fun_eq_iff split: option.splits)

text \<open>REPLACE: a row that is there already is removed and put back, and counts twice.\<close>

fun replaced :: "row multiset \<Rightarrow> row list \<Rightarrow> row multiset \<times> nat" where
  "replaced M [] = (M, 0)"
| "replaced M (r # rs) = (case replaced (if r \<in># M then M else add_mset r M) rs of
     (M', n) \<Rightarrow> (M', n + (if r \<in># M then 2 else 1)))"

definition loads :: "(row \<Rightarrow> bool) \<Rightarrow> genv \<Rightarrow> schema \<Rightarrow> expr list \<Rightarrow> (row \<Rightarrow> row) \<Rightarrow> row \<Rightarrow> bool" where
  "loads valid env dst es conv x \<longleftrightarrow>
     validateNullability dst x = Ok () \<and> convert_row env es x = Ok (conv x) \<and> valid (conv x)"

context row_editor
begin

lemma store_insert:
  assumes "ok w" "valid r"
  shows "\<exists>w'. store_row False (target_edit ins) (target_edit del) (w, s) r = ((w', s), 1, Ok ())
    \<and> ok w' \<and> rows w' = add_mset r (rows w)"
  using ins_valid [OF assms] by (auto simp: store_row_def target_edit_def)

lemma store_replace:
  assumes "ok w" "valid r"
  shows "\<exists>w'. store_row True (target_edit ins) (target_edit del) (w, s) r = ((w', s), if r \<in># rows w then 2 else 1, Ok ())
    \<and> ok w' \<and> rows w' = (if r \<in># rows w then rows w else add_mset r (rows w))"
proof (cases "r \<in># rows w")
  case True
  from del_present [OF assms True] obtain w1 where w1: "del w r = (w1, Ok ())" "ok w1" "rows w1 = rows w - {#r#}" by blast
  from ins_valid [OF w1(2) assms(2)] obtain w2 where "ins w1 r = (w2, Ok ())" "ok w2" "rows w2 = add_mset r (rows w1)" by blast
  with w1 True show ?thesis by (simp add: store_row_def target_edit_def)
next
  case False
  from ins_valid [OF assms] obtain w2 where "ins w r = (w2, Ok ())" "ok w2" "rows w2 = add_mset r (rows w)" by blast
  with del_missing [OF assms False] False show ?thesis by (simp add: store_row_def target_edit_def)
qed

lemma insert_loop_rows:
  "yields nx s xs (Err EOF) t \<Longrightarrow> \<forall>x \<in> set xs. loads valid env dst es conv x \<Longrightarrow> ok w \<Longrightarrow>
   \<exists>w'. insert_loop env dst es (source_Next nx) (store_row False (target_edit ins) (target_edit del)) n (w, s) =
     Some ((w', t), n + length xs, Ok ()) \<and> ok w' \<and> rows w' = rows w + mset (map conv xs)"
proof (induction xs arbitrary: s w n)
  case Nil
  then show ?case
    by (auto elim!: yields_NilE simp: insert_loop.simps [of _ _ _ _ _ _ "(w, s)"] source_Next_def)
next
  case (Cons x xs)
  from Cons.prems(1) obtain s' where s': "nx s = Some (s', Ok x)" "yields nx s' xs (Err EOF) t"
    by (auto elim: yields_ConsE)
  have x: "validateNullability dst x = Ok ()" "convert_row env es x = Ok (conv x)" "valid (conv x)"
    using Cons.prems(2) by (auto simp: loads_def)
  from store_insert [OF Cons.prems(3) x(3), of s'] obtain w1 where w1:
    "store_row False (target_edit ins) (target_edit del) (w, s') (conv x) = ((w1, s'), 1, Ok ())"
    "ok w1" "rows w1 = add_mset (conv x) (rows w)" by blast
  from Cons.IH [OF s'(2) _ w1(2), of "n + 1"] Cons.prems(2) s'(1) x w1 show ?case
    by (auto simp: insert_loop.simps [of _ _ _ _ _ _ "(w, s)"] source_Next_def)
qed

lemma replace_loop_rows:
  "yields nx s xs (Err EOF) t \<Longrightarrow> \<forall>x \<in> set xs. loads valid env dst es conv x \<Longrightarrow> ok w \<Longrightarrow>
   \<exists>w'. insert_loop env dst es (source_Next nx) (store_row True (target_edit ins) (target_edit del)) n (w, s) =
     Some ((w', t), n + snd (replaced (rows w) (map conv xs)), Ok ()) \<and> ok w'
     \<and> rows w' = fst (replaced (rows w) (map conv xs))"
proof (induction xs arbitrary: s w n)
  case Nil
  then show ?case
    by (auto elim!: yields_NilE simp: insert_loop.simps [of _ _ _ _ _ _ "(w, s)"] source_Next_def)
next
  case (Cons x xs)
  from Cons.prems(1) obtain s' where s': "nx s = Some (s', Ok x)" "yields nx s' xs (Err EOF) t"
    by (auto elim: yields_ConsE)
  have x: "validateNullability dst x = Ok ()" "convert_row env es x = Ok (conv x)" "valid (conv x)"
    using Cons.prems(2) by (auto simp: loads_def)
  let ?i = "if conv x \<in># rows w then 2 else 1 :: nat"
  from store_replace [OF Cons.prems(3) x(3), of s'] obtain w1 where w1:
    "store_row True (target_edit ins) (target_edit del) (w, s') (conv x) = ((w1, s'), ?i, Ok ())"
    "ok w1" "rows w1 = (if conv x \<in># rows w then rows w else add_mset (conv x) (rows w))" by blast
  have "insert_loop env dst es (source_Next nx) (store_row True (target_edit ins) (target_edit del)) n (w, s) =
      insert_loop env dst es (source_Next nx) (store_row True (target_edit ins) (target_edit del)) (n + ?i) (w1, s')"
    using s'(1) x w1(1) by (simp add: insert_loop.simps [of _ _ _ _ _ _ "(w, s)"] source_Next_def)
  with Cons.IH [OF s'(2) _ w1(2), of "n + ?i"] Cons.prems(2) w1(3) show ?case
    by (auto simp: case_prod_unfold add.commute add.left_commute)
qed

lemma delete_loop_rows:
  "yields nx s xs (Err EOF) t \<Longrightarrow> \<forall>x \<in> set xs. valid x \<Longrightarrow> mset xs \<subseteq># rows w \<Longrightarrow> ok w \<Longrightarrow>
   \<exists>w'. delete_loop (source_Next nx) (target_edit del) n (w, s) = Some ((w', t), n + length xs, Ok ())
     \<and> ok w' \<and> rows w' = rows w - mset xs"
proof (induction xs arbitrary: s w n)
  case Nil
  then show ?case
    by (auto elim!: yields_NilE simp: delete_loop.simps [of _ _ _ "(w, s)"] source_Next_def)
next
  case (Cons x xs)
  from Cons.prems(1) obtain s' where s': "nx s = Some (s', Ok x)" "yields nx s' xs (Err EOF) t"
    by (auto elim: yields_ConsE)
  from Cons.prems(3) have x: "x \<in># rows w" "mset xs \<subseteq># rows w - {#x#}"
    by (auto simp: insert_subset_eq_iff)
  with del_present [OF Cons.prems(4), of x] Cons.prems(2) obtain w1 where
    w1: "del w x = (w1, Ok ())" "ok w1" "rows w1 = rows w - {#x#}" by auto
  from Cons.IH [OF s'(2) _ _ w1(2), of "Suc n"] Cons.prems(2) x(2) w1 s'(1) show ?case
    by (auto simp: delete_loop.simps [of _ _ _ "(w, s)"] source_Next_def target_edit_def)
qed

lemma update_loop_rows:
  "yields nx s xs (Err EOF) t \<Longrightarrow> \<forall>x \<in> set xs. valid x \<and> valid (f x) \<and> updated_row env sch es x = Ok (f x, True) \<Longrightarrow>
   mset xs \<subseteq># rows w \<Longrightarrow> ok w \<Longrightarrow>
   \<exists>w'. update_loop env sch es (source_Next nx) (target_update upd) m n (w, s) =
     Some ((w', t), m + length xs, n + length xs, Ok ()) \<and> ok w' \<and> rows w' = (rows w - mset xs) + mset (map f xs)"
proof (induction xs arbitrary: s w m n)
  case Nil
  then show ?case
    by (auto elim!: yields_NilE simp: update_loop.simps [of _ _ _ _ _ _ _ "(w, s)"] source_Next_def)
next
  case (Cons x xs)
  from Cons.prems(1) obtain s' where s': "nx s = Some (s', Ok x)" "yields nx s' xs (Err EOF) t"
    by (auto elim: yields_ConsE)
  from Cons.prems(3) have x: "x \<in># rows w" "mset xs \<subseteq># rows w - {#x#}"
    by (auto simp: insert_subset_eq_iff)
  with upd_present [OF Cons.prems(4), of x "f x"] Cons.prems(2) obtain w1 where
    w1: "upd w x (f x) = (w1, Ok ())" "ok w1" "rows w1 = add_mset (f x) (rows w - {#x#})" by auto
  have sub: "mset xs \<subseteq># rows w1" using x(2) w1(3) by (simp add: subset_mset.trans)
  have "rows w1 - mset xs = add_mset (f x) (rows w - {#x#} - mset xs)"
    using x(2) w1(3) by (metis add_mset_add_single subset_mset.add_diff_assoc2)
  with Cons.IH [OF s'(2) _ sub w1(2), of "Suc m" "Suc n"] Cons.prems(2) w1 s'(1) show ?case
    by (auto simp: update_loop.simps [of _ _ _ _ _ _ _ "(w, s)"] source_Next_def target_update_def)
qed

end

section \<open>Statements on a table in memory\<close>

abbreviation mem_rows :: "tdata \<times> mem_table \<Rightarrow> row multiset" where
  "mem_rows w \<equiv> mset (table_rows (fst w) (snd w))"

text \<open>An editor that closes without an error.\<close>

abbreviation closes :: "'w \<Rightarrow> gerror option" where "closes \<equiv> \<lambda>_. None"

lemma project_yields_Ok:
  assumes "yields nx s xs (Err EOF) t" "\<And>x. x \<in> set xs \<Longrightarrow> projectRow env es x = Ok (p x)"
  shows "\<exists>u. yields (project_Next env es nx) s (map p xs) (Err EOF) u"
  using assms
proof (induction xs arbitrary: s)
  case Nil
  then show ?case by (auto elim!: yields_NilE simp: project_Next_def intro!: exI yields.stop)
next
  case (Cons x xs)
  from Cons.prems(1) obtain s' where s': "nx s = Some (s', Ok x)" "yields nx s' xs (Err EOF) t"
    by (auto elim: yields_ConsE)
  with Cons obtain u where "yields (project_Next env es nx) s' (map p xs) (Err EOF) u" by fastforce
  moreover have "project_Next env es nx s = Some (s', Ok (p x))"
    using s'(1) Cons.prems(2) [of x] by (simp add: project_Next_def)
  ultimately show ?case by (auto intro: yields.step)
qed




definition increment :: expr where
  "increment = SetField (GetField 0 Int64 ''t'' ''a'' True) (Arithmetic (GetField 0 Int64 ''t'' ''a'' True) (Literal (GInt64 1) Int64) OpPlus)"

lemma increment_row:
  "updated_row cast_env one_column [increment] [GInt64 i] = Ok ([GInt64 (i + 1)], True)"
proof -
  have "eval cast_env increment [GInt64 i] = Ok (GRow [GInt64 (i + 1)])"
    by (simp add: increment_def SetField_Eval_def set_field_target_def GetField_Eval_def Arithmetic_Eval_def
        Arithmetic_Type_def arith_type_def IsTime_def IsInteger_def IsUnsigned_def IsSigned_def
        arith_convert_int64 [OF cast_env_laws] apply_op_def plus_op_def binop_def number_convert_def cast_lawsD [OF cast_env_laws])
  moreover have "i \<noteq> i + 1" by simp
  then have "sint i \<noteq> sint (i + 1)" using signed_word_eqI by blast
  ultimately show ?thesis
    by (simp only: updated_row_def applyUpdates.simps rbind.simps gval.simps Row_Equals_def one_column_def)
      (simp add: int64_compare [OF cast_env_laws] cmp_int_def del: sql_compare.simps)
qed


section \<open>Statements that read the table they edit\<close>

text \<open>
  The usual plan of DELETE and UPDATE scans the table itself: the world is the table and the iterator over its partitions,
  and every call of \<^verbatim>\<open>Next\<close> sees the partitions and arrays as the last edit has left them.
\<close>

type_synonym scan_world = "(tdata \<times> mem_table) \<times> (partition_iter, string, mem_iter) table_iter"

definition scan_Next :: "genv \<Rightarrow> (string \<Rightarrow> (string \<times> int) res) \<Rightarrow> (scan_world, row) nextfn" where
  "scan_Next env dec w =
     (case w of ((d, t), ti) \<Rightarrow>
       (case TableRowIter_Next False partitionIter_Next (\<lambda>_. None) (PartitionRows d t) (mem_Next env dec (td_heap d)) (\<lambda>_. None) ti of
          None \<Rightarrow> None
        | Some (ti', r) \<Rightarrow> Some (((d, t), ti'), r)))"

definition scan_start :: "tdata \<times> mem_table \<Rightarrow> scan_world" where
  "scan_start w = (w, \<lparr> ti_partitions = Partitions (fst w) (snd w), ti_partition = None, ti_rows = None \<rparr>)"

lemma delete_loop_step:
  "nx w = Some (w', Ok row) \<Longrightarrow> del w' row = (w'', Ok ()) \<Longrightarrow> delete_loop nx del n w = delete_loop nx del (Suc n) w''"
  by (simp add: delete_loop.simps [of nx del n w])

lemma delete_loop_fail:
  "nx w = Some (w', Ok row) \<Longrightarrow> del w' row = (w'', Err e) \<Longrightarrow> delete_loop nx del n w = Some (w'', n, Err e)"
  by (simp add: delete_loop.simps [of nx del n w])

text \<open>The table and its iterator in the middle of the scan of a single partition with array \<open>a\<close>.\<close>

definition mid_scan :: "row list \<Rightarrow> nat \<Rightarrow> nat \<Rightarrow> nat \<Rightarrow> scan_world" where
  "mid_scan a m n p =
     ((\<lparr> td_partitions = [''0'' \<mapsto> \<lparr> sl_arr = 0, sl_len = m \<rparr>], td_heap = [a] \<rparr>, snd (small_table [])),
      \<lparr> ti_partitions = \<lparr> pi_keys = [''0''], pi_pos = 1 \<rparr>, ti_partition = Some ''0'',
        ti_rows = Some \<lparr> mi_columns = [], mi_filters = [], mi_rows = \<lparr> sl_arr = 0, sl_len = n \<rparr>, mi_indexValues = None, mi_pos = p \<rparr> \<rparr>)"

lemmas scan_simps = scan_Next_def TableRowIter_Next.simps [of False] open_partition_def partitionIter_Next_def
  PartitionRows_def tableIter_Next.simps getRow_def slice_rows_def array_at_def projectOnRow_def

lemma mid_scan_first:
  assumes "a \<noteq> []"
  shows "scan_Next env dec (scan_start (small_table a)) = Some (mid_scan a (length a) (length a) 1, Ok (a ! 0))"
  using assms by (simp add: scan_simps mid_scan_def scan_start_def small_table_def NewTable_snd Partitions_def)

lemma mid_scan_next:
  assumes "p < n" "n \<le> length a"
  shows "scan_Next env dec (mid_scan a m n p) = Some (mid_scan a m n (Suc p), Ok (a ! p))"
  using assms by (simp add: scan_simps mid_scan_def NewTable_snd small_table_def)

lemma iface_eq_int64 [simp]: "iface_eq (GInt64 i) w = Ok (GInt64 i = w)"
  by (simp add: plain_def)

lemma checkRow_int: "checkRow cast_env (map Some one_column) [GInt64 i] = Ok ()"
  using row_valid_int [of i] by (simp add: row_valid_def)

lemma mid_scan_delete:
  assumes "find_row [GInt64 i] 0 (take m a) = Ok (Some j)"
  shows "target_edit (editor_Delete cast_env [''0'']) (mid_scan a m n p) [GInt64 i] =
    (mid_scan (take j a @ take (m - Suc j) (drop (Suc j) a) @ drop (m - 1) a) (m - 1) n p, Ok ())"
  using assms checkRow_int [of i]
  by (simp add: target_edit_def editor_Delete_def mid_scan_def small_table_def NewTable_snd slice_rows_def array_at_def remove_row_def Let_def)

lemma mid_scan_delete_missing:
  assumes "find_row [GInt64 i] 0 (take m a) = Ok None"
  shows "target_edit (editor_Delete cast_env [''0'']) (mid_scan a m n p) [GInt64 i] =
    (mid_scan a m n p, Err (SqlErr ErrDeleteRowNotFound))"
  using assms checkRow_int [of i]
  by (simp add: target_edit_def editor_Delete_def mid_scan_def small_table_def NewTable_snd slice_rows_def array_at_def)

text \<open>(C32) DELETE without a condition on a table that holds three rows in one partition fails: removing the first row moves
  the others down in the array the iterator is reading, so the scan misses the second row and meets the third one
  twice. Two rows are gone, one is left, and the statement reports that a row to delete was not found.\<close>

theorem delete_skips_rows:
  assumes "i \<noteq> j" "j \<noteq> k" "i \<noteq> k"
  shows "\<exists>u. DeleteFrom_Execute (Resolved (Editable ())) Ok (scan_Next cast_env dec)
      (\<lambda>_. target_edit (editor_Delete cast_env [''0''])) closes (scan_start (small_table [[GInt64 i], [GInt64 j], [GInt64 k]])) =
      Some (u, 2, Err (SqlErr ErrDeleteRowNotFound))
    \<and> table_rows (fst (fst u)) (snd (fst u)) = [[GInt64 j]]"
proof -
  let ?nx = "scan_Next cast_env dec" and ?del = "target_edit (editor_Delete cast_env [''0''])"
  let ?i = "[GInt64 i]" and ?j = "[GInt64 j]" and ?k = "[GInt64 k]"
  have "delete_loop ?nx ?del 0 (scan_start (small_table [?i, ?j, ?k])) =
      delete_loop ?nx ?del 1 (mid_scan [?j, ?k, ?k] 2 3 1)"
    using mid_scan_first [of "[?i, ?j, ?k]" cast_env dec] mid_scan_delete [of i 3 "[?i, ?j, ?k]" 0 3 1]
    by (subst delete_loop_step [of ?nx _ "mid_scan [?i, ?j, ?k] 3 3 1" ?i ?del "mid_scan [?j, ?k, ?k] 2 3 1"])
      (simp_all add: numeral_3_eq_3 numeral_2_eq_2)
  also have "\<dots> = delete_loop ?nx ?del 2 (mid_scan [?j, ?k, ?k] 1 3 2)"
    using mid_scan_next [of 1 3 "[?j, ?k, ?k]" cast_env dec 2] mid_scan_delete [of k 2 "[?j, ?k, ?k]" 1 3 2] assms
    by (subst delete_loop_step [of ?nx _ "mid_scan [?j, ?k, ?k] 2 3 2" ?k ?del "mid_scan [?j, ?k, ?k] 1 3 2"])
      (simp_all add: numeral_3_eq_3 numeral_2_eq_2)
  also have "\<dots> = Some (mid_scan [?j, ?k, ?k] 1 3 3, 2, Err (SqlErr ErrDeleteRowNotFound))"
    using mid_scan_next [of 2 3 "[?j, ?k, ?k]" cast_env dec 1] mid_scan_delete_missing [of k 1 "[?j, ?k, ?k]" 3 3] assms
    by (intro delete_loop_fail [of ?nx _ "mid_scan [?j, ?k, ?k] 1 3 3" ?k])
      (simp_all add: numeral_3_eq_3 numeral_2_eq_2)
  finally show ?thesis
    by (simp add: DeleteFrom_Execute_def getDeletable_def)
      (simp add: mid_scan_def small_table_def NewTable_snd table_rows_def prows_def slice_rows_def array_at_def)
qed

theorem delete_skips_rows_witness:
  "\<exists>u. DeleteFrom_Execute (Resolved (Editable ())) Ok (scan_Next cast_env (\<lambda>_. Panic))
      (\<lambda>_. target_edit (editor_Delete cast_env [''0''])) closes (scan_start (small_table [[GInt64 1], [GInt64 2], [GInt64 3]])) =
      Some (u, 2, Err (SqlErr ErrDeleteRowNotFound))"
  using delete_skips_rows [of 1 2 3 "\<lambda>_. Panic"] by auto

text \<open>A table with one row in each of two partitions, and the states of a scan over it.\<close>

definition two_rows :: "row \<Rightarrow> row \<Rightarrow> tdata \<times> mem_table" where
  "two_rows a b = (\<lparr> td_partitions = [''0'' \<mapsto> \<lparr> sl_arr = 0, sl_len = 1 \<rparr>, ''1'' \<mapsto> \<lparr> sl_arr = 1, sl_len = 1 \<rparr>], td_heap = [[a], [b]] \<rparr>,
     snd (NewTable ''t'' one_column) \<lparr> mt_keys := [''0'', ''1''] \<rparr>)"

definition scan_at :: "nat \<Rightarrow> (partition_iter, string, mem_iter) table_iter" where
  "scan_at n = \<lparr> ti_partitions = \<lparr> pi_keys = [''0'', ''1''], pi_pos = Suc n \<rparr>, ti_partition = Some ([''0'', ''1''] ! n),
     ti_rows = Some \<lparr> mi_columns = [], mi_filters = [], mi_rows = \<lparr> sl_arr = n, sl_len = 1 \<rparr>, mi_indexValues = None, mi_pos = 1 \<rparr> \<rparr>"

lemma two_rows_scan:
  "scan_Next env dec (scan_start (two_rows a b)) = Some ((two_rows a b, scan_at 0), Ok a)"
  "scan_Next env dec (two_rows a b, scan_at 0) = Some ((two_rows a b, scan_at 1), Ok b)"
  "\<exists>ti. scan_Next env dec (two_rows a b, scan_at 1) = Some ((two_rows a b, ti), Err EOF)"
  by (simp_all add: scan_simps two_rows_def NewTable_snd scan_start_def Partitions_def scan_at_def)

lemma two_rows_update:
  "target_update (editor_Update cast_env [''0'', ''1'']) (two_rows [GInt64 i] b, ti) [GInt64 i] [GInt64 k] = ((two_rows [GInt64 k] b, ti), Ok ())"
  "i \<noteq> j \<Longrightarrow> target_update (editor_Update cast_env [''0'', ''1'']) (two_rows [GInt64 j] [GInt64 i], ti) [GInt64 i] [GInt64 k] =
     ((two_rows [GInt64 j] [GInt64 k], ti), Ok ())"
  "target_update (editor_Update cast_env [''1'', ''0'']) (two_rows a [GInt64 i], ti) [GInt64 i] [GInt64 k] = ((two_rows a [GInt64 k], ti), Ok ())"
  using checkRow_int [of i] checkRow_int [of k]
  by (simp_all add: target_update_def editor_Update_def two_rows_def NewTable_snd slice_rows_def array_at_def set_row_def)

lemma update_loop_step:
  "nx w = Some (w', Ok row) \<Longrightarrow> updated_row env sch es row = Ok (row', True) \<Longrightarrow> upd w' row row' = (w'', Ok ()) \<Longrightarrow>
   update_loop env sch es nx upd m n w = update_loop env sch es nx upd (Suc m) (Suc n) w''"
  by (simp add: update_loop.simps [of env sch es nx upd m n w])

lemma update_loop_end:
  "nx w = Some (w', Err EOF) \<Longrightarrow> update_loop env sch es nx upd m n w = Some (w', m, n, Ok ())"
  by (simp add: update_loop.simps [of env sch es nx upd m n w])

text \<open>The effect of an UPDATE on equal rows in two partitions depends on the order in which Go ranges over the map of
  partitions. Incrementing two rows with the same value gives two incremented rows in one order; in the other the
  first row's update is applied to the second row, which the scan then meets and updates again, while the first stays as it
  was. Both runs report two updated rows.\<close>

lemma update_map_order:
  "(\<exists>u. Update_Execute cast_env one_column [increment] (Resolved (Editable ())) Ok (scan_Next cast_env dec)
        (\<lambda>_. target_update (editor_Update cast_env [''0'', ''1''])) closes (scan_start (two_rows [GInt64 i] [GInt64 i])) =
        Some (u, 2, 2, Ok ()) \<and> fst u = two_rows [GInt64 (i + 1)] [GInt64 (i + 1)])
   \<and> (\<exists>u. Update_Execute cast_env one_column [increment] (Resolved (Editable ())) Ok (scan_Next cast_env dec)
        (\<lambda>_. target_update (editor_Update cast_env [''1'', ''0''])) closes (scan_start (two_rows [GInt64 i] [GInt64 i])) =
        Some (u, 2, 2, Ok ()) \<and> fst u = two_rows [GInt64 i] [GInt64 (i + 1 + 1)])"
proof -
  let ?nx = "scan_Next cast_env dec" and ?up = "update_loop cast_env one_column [increment] (scan_Next cast_env dec)"
  let ?u = "target_update (editor_Update cast_env [''0'', ''1''])" and ?v = "target_update (editor_Update cast_env [''1'', ''0''])"
  let ?start = "scan_start (two_rows [GInt64 i] [GInt64 i])"
  have ne: "i \<noteq> i + 1" by simp
  obtain ti where ti: "?nx (two_rows [GInt64 (i + 1)] [GInt64 (i + 1)], scan_at 1) =
      Some ((two_rows [GInt64 (i + 1)] [GInt64 (i + 1)], ti), Err EOF)" using two_rows_scan(3) by blast
  obtain ti' where ti': "?nx (two_rows [GInt64 i] [GInt64 (i + 1 + 1)], scan_at 1) =
      Some ((two_rows [GInt64 i] [GInt64 (i + 1 + 1)], ti'), Err EOF)" using two_rows_scan(3) by blast
  have "?up ?u 0 0 ?start = ?up ?u (Suc 0) (Suc 0) (two_rows [GInt64 (i + 1)] [GInt64 i], scan_at 0)"
    by (rule update_loop_step [of ?nx _ _ "[GInt64 i]" _ _ _ "[GInt64 (i + 1)]" ?u])
      (rule two_rows_scan(1) increment_row two_rows_update(1))+
  also have "\<dots> = ?up ?u (Suc (Suc 0)) (Suc (Suc 0)) (two_rows [GInt64 (i + 1)] [GInt64 (i + 1)], scan_at 1)"
    by (rule update_loop_step [of ?nx _ _ "[GInt64 i]" _ _ _ "[GInt64 (i + 1)]" ?u])
      (rule two_rows_scan(2) increment_row two_rows_update(2) [OF ne])+
  also have "\<dots> = Some ((two_rows [GInt64 (i + 1)] [GInt64 (i + 1)], ti), 2, 2, Ok ())"
    using update_loop_end [of ?nx, OF ti] by (simp add: numeral_2_eq_2)
  finally have 1: "?up ?u 0 0 ?start = Some ((two_rows [GInt64 (i + 1)] [GInt64 (i + 1)], ti), 2, 2, Ok ())" .
  have "?up ?v 0 0 ?start = ?up ?v (Suc 0) (Suc 0) (two_rows [GInt64 i] [GInt64 (i + 1)], scan_at 0)"
    by (rule update_loop_step [of ?nx _ _ "[GInt64 i]" _ _ _ "[GInt64 (i + 1)]" ?v])
      (rule two_rows_scan(1) increment_row two_rows_update(3))+
  also have "\<dots> = ?up ?v (Suc (Suc 0)) (Suc (Suc 0)) (two_rows [GInt64 i] [GInt64 (i + 1 + 1)], scan_at 1)"
    by (rule update_loop_step [of ?nx _ _ "[GInt64 (i + 1)]" _ _ _ "[GInt64 (i + 1 + 1)]" ?v])
      (rule two_rows_scan(2) increment_row two_rows_update(3))+
  also have "\<dots> = Some ((two_rows [GInt64 i] [GInt64 (i + 1 + 1)], ti'), 2, 2, Ok ())"
    using update_loop_end [of ?nx, OF ti'] by (simp add: numeral_2_eq_2)
  finally have 2: "?up ?v 0 0 ?start = Some ((two_rows [GInt64 i] [GInt64 (i + 1 + 1)], ti'), 2, 2, Ok ())" .
  show ?thesis
    by (simp only: Update_Execute_def getUpdatable_def get_editable.simps get_table.simps res.case 1 2) simp
qed

end
