(* ===== verification/Similar_Text.thy ===== *)
theory Similar_Text
  imports Go_Prelude "HOL-Library.Sublist"
begin

text \<open>
  The suggestions in error messages (\<^verbatim>\<open>internal/similartext/similartext.go\<close>). The distance is computed with two rows
  of the dynamic-programming matrix that are reused in turn. It is compared with the textbook recursion, and with the
  length of a longest common subsequence. Strings are the bytes of Go strings.
\<close>

section \<open>The distance\<close>

text \<open>The matrix is a pair of rows, \<open>mrow m i\<close> is \<^verbatim>\<open>matrix[i%2]\<close>.\<close>

type_synonym matrix = "int list \<times> int list"

definition mrow :: "matrix \<Rightarrow> nat \<Rightarrow> int list" where
  "mrow m i = (if i mod 2 = 0 then fst m else snd m)"

definition mset_row :: "matrix \<Rightarrow> nat \<Rightarrow> int list \<Rightarrow> matrix" where
  "mset_row m i r = (if i mod 2 = 0 then (r, snd m) else (fst m, r))"

text \<open>The two loops of \<^verbatim>\<open>distanceForStrings\<close>. The inner one fills \<^verbatim>\<open>cur\<close> from column \<open>j\<close> on.\<close>

fun fill_row :: "char \<Rightarrow> string \<Rightarrow> nat \<Rightarrow> int list \<Rightarrow> int list \<Rightarrow> int list" where
  "fill_row c [] j prev cur = cur"
| "fill_row c (t # target) j prev cur =
     (let delCost = prev ! j + 1;
          matchSubCost = (if c \<noteq> t then prev ! (j - 1) + 2 else prev ! (j - 1));
          insCost = cur ! (j - 1) + 1
      in fill_row c target (Suc j) prev (cur[j := min delCost (min matchSubCost insCost)]))"

fun fill_matrix :: "string \<Rightarrow> nat \<Rightarrow> string \<Rightarrow> matrix \<Rightarrow> matrix" where
  "fill_matrix [] i target m = m"
| "fill_matrix (c # source) i target m =
     (let cur = (mrow m i)[0 := int i]; prev = mrow m (i - 1)
      in fill_matrix source (Suc i) target (mset_row m i (fill_row c target 1 prev cur)))"

definition distanceForStrings :: "string \<Rightarrow> string \<Rightarrow> int" where
  "distanceForStrings source target =
     (let height = length source + 1; width = length target + 1;
          m0 = (map int [0..<width], (replicate width 0)[0 := 1]);
          m = fill_matrix source 1 target m0
      in mrow m (height - 1) ! (width - 1))"

section \<open>Find\<close>

text \<open>\<open>scan_names\<close> is the loop over the names: the least distance so far (-1 for none) and the names by distance.\<close>

definition DistanceSkipped :: int where
  "DistanceSkipped = 3"

fun scan_names :: "string list \<Rightarrow> string \<Rightarrow> int \<Rightarrow> (int \<Rightarrow> string list) \<Rightarrow> int \<times> (int \<Rightarrow> string list)" where
  "scan_names [] src minDistance matchMap = (minDistance, matchMap)"
| "scan_names (name # names) src minDistance matchMap =
     (let dist = distanceForStrings name src in
      if dist \<ge> DistanceSkipped then scan_names names src minDistance matchMap
      else scan_names names src (if minDistance = -1 \<or> dist < minDistance then dist else minDistance)
             (matchMap(dist := matchMap dist @ [name])))"

fun join_or :: "string list \<Rightarrow> string" where
  "join_or [] = []"
| "join_or [x] = x"
| "join_or (x # y # xs) = x @ '' or '' @ join_or (y # xs)"

definition Find :: "string list \<Rightarrow> string \<Rightarrow> string" where
  "Find names src =
     (if src = [] then []
      else let (minDistance, matchMap) = scan_names names src (-1) (\<lambda>_. []) in
        if minDistance = -1 then []
        else '', maybe you mean '' @ join_or (matchMap minDistance) @ ''?'')"

section \<open>The reference distance\<close>

text \<open>The recursion on the last characters, with substitution at cost 2 (a deletion and an insertion).\<close>

fun edits :: "string \<Rightarrow> string \<Rightarrow> int" where
  "edits [] t = int (length t)"
| "edits s [] = int (length s)"
| "edits (a # s) (b # t) =
     min (edits s (b # t) + 1) (min (if a \<noteq> b then edits s t + 2 else edits s t) (edits (a # s) t + 1))"

abbreviation prefix_edits :: "string \<Rightarrow> string \<Rightarrow> nat \<Rightarrow> nat \<Rightarrow> int" where
  "prefix_edits s t i j \<equiv> edits (rev (take i s)) (rev (take j t))"

definition row_of :: "string \<Rightarrow> string \<Rightarrow> nat \<Rightarrow> int list" where
  "row_of s t i = map (prefix_edits s t i) [0..<Suc (length t)]"

lemma edits_Nil_right [simp]: "edits s [] = int (length s)"
  by (cases s) auto

lemma prefix_edits_Suc:
  assumes "i < length s" "j < length t"
  shows "prefix_edits s t (Suc i) (Suc j) =
    min (prefix_edits s t i (Suc j) + 1)
      (min (if s ! i \<noteq> t ! j then prefix_edits s t i j + 2 else prefix_edits s t i j) (prefix_edits s t (Suc i) j + 1))"
  using assms by (simp add: take_Suc_conv_app_nth)

lemma row_of_nth [simp]: "j \<le> length t \<Longrightarrow> row_of s t i ! j = prefix_edits s t i j"
  by (simp add: row_of_def del: upt_Suc)

lemma length_row_of [simp]: "length (row_of s t i) = Suc (length t)"
  by (simp add: row_of_def)

lemma fill_row_correct:
  assumes "i < length s" "drop j t = ts" "j \<le> length t"
    "length cur = Suc (length t)" "\<forall>k \<le> j. cur ! k = prefix_edits s t (Suc i) k"
  shows "fill_row (s ! i) ts (Suc j) (row_of s t i) cur = row_of s t (Suc i)"
  using assms
proof (induction ts arbitrary: j cur)
  case Nil
  then have "j = length t" by simp
  with Nil show ?case by (auto intro!: nth_equalityI)
next
  case (Cons c ts)
  from drop_ConsD [OF Cons.prems(2)] have j: "j < length t" "t ! j = c" "drop (Suc j) t = ts" by auto
  let ?v = "prefix_edits s t (Suc i) (Suc j)"
  have new: "fill_row (s ! i) (c # ts) (Suc j) (row_of s t i) cur =
      fill_row (s ! i) ts (Suc (Suc j)) (row_of s t i) (cur[Suc j := ?v])"
    using Cons.prems j prefix_edits_Suc [OF Cons.prems(1) j(1)] by (simp add: Let_def)
  show ?case unfolding new
  proof (rule Cons.IH [OF Cons.prems(1) j(3)])
    show "\<forall>k \<le> Suc j. cur[Suc j := ?v] ! k = prefix_edits s t (Suc i) k"
      using Cons.prems j by (auto simp: nth_list_update le_Suc_eq)
  qed (use Cons.prems j in auto)
qed

lemma mrow_mset_row [simp]: "mrow (mset_row m i r) i = r" "mrow (mset_row m (Suc i) r) i = mrow m i"
  by (auto simp: mrow_def mset_row_def mod_Suc)

lemma fill_matrix_correct:
  assumes "drop i s = cs" "i \<le> length s" "mrow m i = row_of s t i" "length (mrow m (Suc i)) = Suc (length t)"
  shows "mrow (fill_matrix cs (Suc i) t m) (length s) = row_of s t (length s)"
  using assms
proof (induction cs arbitrary: i m)
  case Nil
  then have "i = length s" by simp
  with Nil show ?case by simp
next
  case (Cons c cs)
  from drop_ConsD [OF Cons.prems(1)] have i: "i < length s" "s ! i = c" "drop (Suc i) s = cs" by auto
  let ?cur = "(mrow m (Suc i))[0 := int (Suc i)]"
  have "fill_row c t (Suc 0) (row_of s t i) ?cur = row_of s t (Suc i)"
    using fill_row_correct [of i s 0 t t ?cur] i Cons.prems by (auto simp: nth_list_update)
  then have step: "fill_matrix (c # cs) (Suc i) t m = fill_matrix cs (Suc (Suc i)) t (mset_row m (Suc i) (row_of s t (Suc i)))"
    using Cons.prems(3) by (simp add: Let_def)
  have "mrow (mset_row m (Suc i) (row_of s t (Suc i))) (Suc (Suc i)) = mrow m i"
    by (simp add: mrow_def mset_row_def mod_Suc)
  then show ?case unfolding step
    using i Cons.prems by (intro Cons.IH) auto
qed

lemma distance_edits: "distanceForStrings s t = edits (rev s) (rev t)"
proof -
  let ?m0 = "(map int [0..<length t + 1], (replicate (length t + 1) 0)[0 := 1])"
  have "mrow ?m0 0 = row_of s t 0"
    by (rule nth_equalityI) (auto simp: mrow_def simp del: upt_Suc)
  then have "mrow (fill_matrix s 1 t ?m0) (length s) = row_of s t (length s)"
    using fill_matrix_correct [of 0 s s ?m0 t] by (simp add: mrow_def)
  then show ?thesis by (simp add: distanceForStrings_def)
qed

text \<open>The distance counts the characters outside a longest common subsequence.\<close>

lemma edits_upper: "subseq u s \<Longrightarrow> subseq u t \<Longrightarrow> edits s t \<le> int (length s) + int (length t) - 2 * int (length u)"
proof (induction s t arbitrary: u rule: edits.induct)
  case (3 a s b t)
  show ?case
  proof (cases u)
    case Nil
    then show ?thesis using "3.IH"(1) [of "[]"] by simp
  next
    case u: (Cons c u')
    consider "c = a" "c = b" | "c \<noteq> a" | "c \<noteq> b" by blast
    then show ?thesis
    proof cases
      case 1
      then have "subseq u' s" "subseq u' t" using "3.prems" u by (auto simp: subseq_Cons2_iff)
      then have "edits s t \<le> int (length s) + int (length t) - 2 * int (length u')" using "3.IH"(3) 1 by blast
      with 1 u show ?thesis by simp
    next
      case 2
      then have "subseq u s" using "3.prems" u by (auto simp: subseq_Cons2_iff)
      with "3.IH"(1) [of u] "3.prems" show ?thesis by simp
    next
      case 3
      then have "subseq u t" using "3.prems" u by (auto simp: subseq_Cons2_iff)
      with "3.IH"(4) [of u] "3.prems" show ?thesis by simp
    qed
  qed
qed auto

lemma edits_attained: "\<exists>u. subseq u s \<and> subseq u t \<and> edits s t = int (length s) + int (length t) - 2 * int (length u)"
proof (induction s t rule: edits.induct)
  case (3 a s b t)
  from "3.IH"(1) obtain u1 where u1: "subseq u1 s" "subseq u1 (b # t)"
    "edits s (b # t) = int (length s) + int (length (b # t)) - 2 * int (length u1)" by blast
  from "3.IH"(4) obtain u2 where u2: "subseq u2 (a # s)" "subseq u2 t"
    "edits (a # s) t = int (length (a # s)) + int (length t) - 2 * int (length u2)" by blast
  have "\<exists>u3. subseq u3 s \<and> subseq u3 t \<and> edits s t = int (length s) + int (length t) - 2 * int (length u3)"
    using "3.IH"(2,3) by blast
  then obtain u3 where u3: "subseq u3 s" "subseq u3 t" "edits s t = int (length s) + int (length t) - 2 * int (length u3)"
    by blast
  let ?good = "\<lambda>u. subseq u (a # s) \<and> subseq u (b # t)"
  have good: "?good u1" "?good u2" "?good u3" "a = b \<Longrightarrow> ?good (a # u3)" using u1 u2 u3 by auto
  have "edits (a # s) (b # t) \<in> {edits s (b # t) + 1, if a \<noteq> b then edits s t + 2 else edits s t, edits (a # s) t + 1}"
    by (simp add: min_def)
  then consider "edits (a # s) (b # t) = edits s (b # t) + 1" | "edits (a # s) (b # t) = edits (a # s) t + 1"
    | "a \<noteq> b" "edits (a # s) (b # t) = edits s t + 2" | "a = b" "edits (a # s) (b # t) = edits s t"
    by (auto split: if_splits)
  then show ?case
  proof cases
    case 1
    with u1(3) good(1) show ?thesis by (intro exI [of _ u1]) auto
  next
    case 2
    with u2(3) good(2) show ?thesis by (intro exI [of _ u2]) auto
  next
    case 3
    with u3(3) good(3) show ?thesis by (intro exI [of _ u3]) auto
  next
    case 4
    with u3(3) good(4) show ?thesis by (intro exI [of _ "a # u3"]) auto
  qed
qed auto

lemma subseq_rev: "subseq u s \<Longrightarrow> subseq (rev u) (rev s)"
  by (induction rule: list_emb.induct) (auto intro: subseq_rev_drop_many list_emb_append_mono)

lemma edits_Max: "edits s t = int (length s) + int (length t) - 2 * int (Max {length u |u. subseq u s \<and> subseq u t})"
proof -
  obtain u where u: "subseq u s" "subseq u t" "edits s t = int (length s) + int (length t) - 2 * int (length u)"
    using edits_attained by blast
  have "Max {length u |u. subseq u s \<and> subseq u t} = length u"
  proof (rule Max_eqI)
    have "{length u |u. subseq u s \<and> subseq u t} \<subseteq> {..length s}" by (auto dest: list_emb_length)
    then show "finite {length u |u. subseq u s \<and> subseq u t}" by (rule finite_subset) simp
  next
    fix n assume "n \<in> {length u |u. subseq u s \<and> subseq u t}"
    then show "n \<le> length u" using edits_upper [of _ s t] u(3) by fastforce
  qed (use u in blast)
  with u show ?thesis by simp
qed

section \<open>Properties\<close>

text \<open>The distance of two strings, computed with two rows of the matrix, is the number of characters outside a longest
  common subsequence of the two.\<close>

lemma distance_subsequence:
  "distanceForStrings s t = int (length s) + int (length t) - 2 * int (Max {length u |u. subseq u s \<and> subseq u t})"
proof -
  have "{length u |u. subseq u (rev s) \<and> subseq u (rev t)} = {length u |u. subseq u s \<and> subseq u t}" (is "?A = ?B")
  proof (intro set_eqI iffI)
    fix n assume "n \<in> ?A"
    then obtain u where "n = length u" "subseq u (rev s)" "subseq u (rev t)" by blast
    then have "n = length (rev u)" "subseq (rev u) s" "subseq (rev u) t" 
      by (auto dest: subseq_rev)
    then show "n \<in> ?B" by blast
  next
    fix n assume "n \<in> ?B"
    then obtain u where "n = length (rev u)" "subseq (rev u) (rev s)" "subseq (rev u) (rev t)" by (auto intro: subseq_rev)
    then show "n \<in> ?A" by blast
  qed
  then show ?thesis by (simp add: distance_edits edits_Max)
qed

lemma distance_nonneg: "0 \<le> distanceForStrings s t"
proof -
  obtain u where u: "subseq u (rev s)" "subseq u (rev t)"
    "distanceForStrings s t = int (length (rev s)) + int (length (rev t)) - 2 * int (length u)"
    unfolding distance_edits using edits_attained [of "rev s" "rev t"] by blast
  then show ?thesis using list_emb_length [OF u(1)] list_emb_length [OF u(2)] by simp
qed

definition near :: "string list \<Rightarrow> string \<Rightarrow> int set" where
  "near names src = {d. d < DistanceSkipped \<and> (\<exists>n \<in> set names. d = distanceForStrings n src)}"

lemma finite_near: "finite (near names src)"
proof -
  have "near names src \<subseteq> (\<lambda>n. distanceForStrings n src) ` set names" by (auto simp: near_def)
  then show ?thesis by (rule finite_subset) simp
qed

text \<open>The loop keeps the least near distance of the names seen and collects the names of each near distance in order.\<close>

definition scanned :: "string list \<Rightarrow> string \<Rightarrow> int \<times> (int \<Rightarrow> string list) \<Rightarrow> bool" where
  "scanned names src p \<longleftrightarrow>
     fst p = (if near names src = {} then -1 else Min (near names src))
     \<and> (\<forall>d < DistanceSkipped. snd p d = filter (\<lambda>n. distanceForStrings n src = d) names)"

lemma near_snoc:
  "near (names @ [n]) src =
     (if distanceForStrings n src < DistanceSkipped then insert (distanceForStrings n src) (near names src) else near names src)"
  by (auto simp: near_def)

lemma scanned_step:
  assumes "scanned done_names src (mn, mm)" "distanceForStrings n src < DistanceSkipped"
  shows "scanned (done_names @ [n]) src (if mn = -1 \<or> distanceForStrings n src < mn then distanceForStrings n src else mn,
           mm(distanceForStrings n src := mm (distanceForStrings n src) @ [n]))"
proof -
  let ?N = "near done_names src" and ?d = "distanceForStrings n src"
  have mn: "mn = (if ?N = {} then -1 else Min ?N)" and d: "0 \<le> ?d"
    using assms(1) distance_nonneg by (simp_all add: scanned_def)
  have "0 \<le> Min ?N" if "?N \<noteq> {}"
    using Min_in [OF finite_near that] distance_nonneg by (auto simp: near_def)
  moreover have "Min (insert ?d ?N) = (if ?N = {} then ?d else min ?d (Min ?N))"
    using finite_near by simp
  ultimately have "(if mn = -1 \<or> ?d < mn then ?d else mn) = Min (insert ?d ?N)"
    using mn d by (smt (verit))
  with assms show ?thesis by (auto simp: scanned_def near_snoc)
qed

lemma scan_names_correct:
  "scanned done_names src (mn, mm) \<Longrightarrow> scanned (done_names @ names) src (scan_names names src mn mm)"
proof (induction names arbitrary: done_names mn mm)
  case (Cons n names)
  show ?case
  proof (cases "distanceForStrings n src < DistanceSkipped")
    case True
    then show ?thesis using Cons.IH [OF scanned_step [OF Cons.prems True]] 
      by (simp only: scan_names.simps Let_def append_assoc append_Cons append_Nil if_False flip: not_less) (simp only: if_False not_True_eq_False)
  next
    case False
    then have "scanned (done_names @ [n]) src (mn, mm)"
      using Cons.prems by (auto simp: scanned_def near_snoc)
    from Cons.IH [OF this] False show ?thesis by (simp add: Let_def)
  qed
qed simp

text \<open>The suggestion lists, in order, the names at the least distance, when that distance is below
  \<^verbatim>\<open>DistanceSkipped\<close>, and is empty when no name is that near.\<close>

lemma Find_nearest:
  assumes "src \<noteq> []"
  shows "Find names src =
    (if near names src = {} then []
     else '', maybe you mean '' @ join_or (filter (\<lambda>n. distanceForStrings n src = Min (near names src)) names) @ ''?'')"
proof -
  obtain mn mm where p: "scan_names names src (-1) (\<lambda>_. []) = (mn, mm)" by fastforce
  have "scanned [] src (-1, \<lambda>_. [])" by (simp add: scanned_def near_def)
  from scan_names_correct [OF this, of names] p
  have sc: "mn = (if near names src = {} then -1 else Min (near names src))"
    "\<forall>d < DistanceSkipped. mm d = filter (\<lambda>n. distanceForStrings n src = d) names" by (auto simp: scanned_def)
  show ?thesis
  proof (cases "near names src = {}")
    case False
    have "Min (near names src) < DistanceSkipped" "0 \<le> Min (near names src)"
      using Min_in [OF finite_near False] distance_nonneg by (auto simp: near_def)
    with False sc p assms show ?thesis by (simp add: Find_def)
  qed (use sc p assms in \<open>simp add: Find_def\<close>)
qed

theorem Find_nearest_witness: "''users'' \<noteq> [] \<and> Find [''user'', ''uses''] ''users'' = '', maybe you mean user or uses?''"
proof -
  have d: "distanceForStrings ''user'' ''users'' = 1" "distanceForStrings ''uses'' ''users'' = 1" by code_simp+
  have n: "near [''user'', ''uses''] ''users'' = {1}" by (auto simp: near_def d DistanceSkipped_def)
  show ?thesis using Find_nearest [of "''users''" "[''user'', ''uses'']"] by (simp add: n d)
qed

end
