(* ===== verification/Index_Registry.thy ===== *)
theory Index_Registry
  imports Expressions Similar_Text "HOL-Library.Multiset"
begin

text \<open>
  The index registry (\<^verbatim>\<open>sql/index.go\<close>): the indexes by database and id, their statuses, the reference counts of the
  queries that use them, the queue of deferred deletions and the loaders of the indexes that were saved by the drivers.

  The two goroutines of the registry wait on channels: \<open>ir_creating\<close> holds the indexes whose creation was not signalled,
  \<open>ir_deleting\<close> the deferred deletions. A channel is the number of its creation, \<open>ir_closed\<close> are the closed ones, so that a
  goroutine can run when the channel it waits on is closed. What it then does is the step \<open>finish_create\<close> or
  \<open>finish_delete\<close>. Reference counts are a total function, zero where the Go map has no entry. Go ranges over the map of
  indexes in an unspecified order, the argument \<open>order\<close>.

  The methods are atomic here; \<open>Lock order\<close> at the end of the theory looks at their locks.
\<close>

section \<open>State\<close>

record index =
  ix_ID :: string
  ix_Database :: string
  ix_Table :: string
  ix_Expressions :: "string list"

datatype index_status = IndexNotReady | IndexReady | IndexOutdated

datatype index_key = IndexKey (ik_db: string) (ik_id: string)

text \<open>A loader is the closure over its driver, its database and its table name.\<close>

record loader =
  ld_driver :: string
  ld_db :: string
  ld_table :: string

record index_registry =
  ir_indexes :: "index_key \<rightharpoonup> index"
  ir_indexOrder :: "index_key list"
  ir_statuses :: "index_key \<Rightarrow> index_status"
  ir_refCounts :: "index_key \<Rightarrow> int"
  ir_deleteIndexQueue :: "index_key \<rightharpoonup> nat"
  ir_indexLoaders :: "(string \<times> string) \<rightharpoonup> loader list"
  ir_channels :: nat
  ir_closed :: "nat set"
  ir_creating :: "index list"
  ir_deleting :: "(nat \<times> index_key) list"

definition NewIndexRegistry :: index_registry where
  "NewIndexRegistry =
     \<lparr> ir_indexes = Map.empty, ir_indexOrder = [], ir_statuses = (\<lambda>_. IndexNotReady), ir_refCounts = (\<lambda>_. 0),
       ir_deleteIndexQueue = Map.empty, ir_indexLoaders = Map.empty, ir_channels = 0, ir_closed = {},
       ir_creating = [], ir_deleting = [] \<rparr>"

definition key_of :: "index \<Rightarrow> index_key" where
  "key_of idx = IndexKey (ix_Database idx) (ix_ID idx)"

section \<open>Statuses and reference counts\<close>

definition IsUsable :: "index_status \<Rightarrow> bool" where
  "IsUsable s \<longleftrightarrow> s = IndexReady"

definition setStatus :: "index_registry \<Rightarrow> index \<Rightarrow> index_status \<Rightarrow> index_registry" where
  "setStatus r idx s = r \<lparr> ir_statuses := (ir_statuses r)(key_of idx := s) \<rparr>"

definition MarkOutdated :: "index_registry \<Rightarrow> index \<Rightarrow> index_registry" where
  "MarkOutdated r idx = setStatus r idx IndexOutdated"

text \<open>A nil index is \<open>None\<close>.\<close>

definition CanUseIndex :: "index_registry \<Rightarrow> index option \<Rightarrow> bool" where
  "CanUseIndex r i = (case i of None \<Rightarrow> False | Some idx \<Rightarrow> IsUsable (ir_statuses r (key_of idx)))"

definition CanRemoveIndex :: "index_registry \<Rightarrow> index option \<Rightarrow> bool" where
  "CanRemoveIndex r i =
     (case i of None \<Rightarrow> False | Some idx \<Rightarrow> ir_statuses r (key_of idx) \<in> {IndexReady, IndexOutdated})"

definition retainIndex :: "string \<Rightarrow> string \<Rightarrow> index_registry \<Rightarrow> index_registry" where
  "retainIndex db i r = r \<lparr> ir_refCounts := (ir_refCounts r)(IndexKey db i := ir_refCounts r (IndexKey db i) + 1) \<rparr>"

definition ReleaseIndex :: "index_registry \<Rightarrow> index \<Rightarrow> index_registry" where
  "ReleaseIndex r idx =
     (let key = key_of idx;
          r1 = r \<lparr> ir_refCounts := (ir_refCounts r)(key := ir_refCounts r key - 1) \<rparr> in
      if ir_refCounts r1 key > 0 then r1
      else case ir_deleteIndexQueue r1 key of
        None \<Rightarrow> r1
      | Some ch \<Rightarrow> r1 \<lparr> ir_closed := insert ch (ir_closed r1), ir_deleteIndexQueue := (ir_deleteIndexQueue r1)(key := None) \<rparr>)"

section \<open>Lookup\<close>

definition Index :: "index_registry \<Rightarrow> string \<Rightarrow> string \<Rightarrow> index_registry \<times> index option" where
  "Index r db i = (retainIndex db i r, ir_indexes r (IndexKey db (ToLower i)))"

text \<open>A key of \<^verbatim>\<open>indexOrder\<close> that is no longer in the map gives a nil index, and its \<^verbatim>\<open>Database()\<close> panics.\<close>

fun indexes_by_table ::
  "string \<Rightarrow> string \<Rightarrow> index_key list \<Rightarrow> index_registry \<Rightarrow> index list \<Rightarrow> index_registry \<times> index list res" where
  "indexes_by_table db tbl [] r acc = (r, Ok acc)"
| "indexes_by_table db tbl (k # ks) r acc =
     (case ir_indexes r k of
        None \<Rightarrow> (r, Panic)
      | Some idx \<Rightarrow>
          if ix_Database idx = db \<and> ix_Table idx = tbl
          then indexes_by_table db tbl ks (retainIndex db (ix_ID idx) r) (acc @ [idx])
          else indexes_by_table db tbl ks r acc)"

definition IndexesByTable :: "index_registry \<Rightarrow> string \<Rightarrow> string \<Rightarrow> index_registry \<times> index list res" where
  "IndexesByTable r db tbl = indexes_by_table db tbl (ir_indexOrder r) r []"

text \<open>\<open>take_unvisited\<close> is the inner loop of \<^verbatim>\<open>exprListsMatch\<close>: it marks the first unvisited equal item.\<close>

fun take_unvisited :: "string \<Rightarrow> string list \<Rightarrow> bool list \<Rightarrow> bool list option" where
  "take_unvisited va (vb # b) (v # visited) =
     (if \<not> v \<and> va = vb then Some (True # visited)
      else map_option ((#) v) (take_unvisited va b visited))"
| "take_unvisited va _ _ = None"

fun match_loop :: "string list \<Rightarrow> string list \<Rightarrow> bool list \<Rightarrow> bool" where
  "match_loop [] b visited = True"
| "match_loop (va # a) b visited =
     (case take_unvisited va b visited of None \<Rightarrow> False | Some visited' \<Rightarrow> match_loop a b visited')"

definition exprListsMatch :: "string list \<Rightarrow> string list \<Rightarrow> bool" where
  "exprListsMatch a b = match_loop a b (replicate (length b) False)"

definition exprListsEqual :: "string list \<Rightarrow> string list \<Rightarrow> bool" where
  "exprListsEqual a b = (if length a \<noteq> length b then False else exprListsMatch a b)"

section \<open>Loading\<close>

text \<open>
  What the loaders call: the tables of a database, the indexes that a driver has saved for a table, and the checksums
  (\<open>None\<close> for a table or an index that is not \<^verbatim>\<open>Checksumable\<close>).
\<close>

record load_env =
  le_GetTableInsensitive :: "string \<Rightarrow> string \<Rightarrow> string option res"
  le_LoadAll :: "string \<Rightarrow> string \<Rightarrow> string \<Rightarrow> index list res"
  le_table_Checksum :: "string \<Rightarrow> string \<Rightarrow> string res option"
  le_index_Checksum :: "index \<Rightarrow> string res option"

definition checksum_of :: "string res option \<Rightarrow> string res" where
  "checksum_of c = (case c of None \<Rightarrow> Ok [] | Some x \<Rightarrow> x)"

fun load_loop ::
  "load_env \<Rightarrow> string \<Rightarrow> string \<Rightarrow> index list \<Rightarrow> index_registry \<Rightarrow> index_registry \<times> unit res" where
  "load_loop le db checksum [] r = (r, Ok ())"
| "load_loop le db checksum (idx # idxs) r =
     (let k = IndexKey db (ix_ID idx);
          r1 = r \<lparr> ir_indexes := (ir_indexes r)(k \<mapsto> idx), ir_indexOrder := ir_indexOrder r @ [k] \<rparr> in
      case checksum_of (le_index_Checksum le idx) of
        Err e \<Rightarrow> (r1, Err e)
      | Panic \<Rightarrow> (r1, Panic)
      | Ok idxChecksum \<Rightarrow>
          load_loop le db checksum idxs
            (if checksum = [] \<or> checksum = idxChecksum
             then r1 \<lparr> ir_statuses := (ir_statuses r1)(k := IndexReady) \<rparr>
             else MarkOutdated r1 idx))"

definition run_loader :: "load_env \<Rightarrow> loader \<Rightarrow> index_registry \<Rightarrow> index_registry \<times> unit res" where
  "run_loader le ld r =
     (case le_GetTableInsensitive le (ld_db ld) (ld_table ld) of
        Err e \<Rightarrow> (r, Err e)
      | Panic \<Rightarrow> (r, Panic)
      | Ok None \<Rightarrow> (r, Panic)
      | Ok (Some t) \<Rightarrow>
          (case le_LoadAll le (ld_driver ld) (ld_db ld) t of
             Err e \<Rightarrow> (r, Err e)
           | Panic \<Rightarrow> (r, Panic)
           | Ok idxs \<Rightarrow>
               (case if idxs = [] then Ok [] else checksum_of (le_table_Checksum le (ld_db ld) t) of
                  Err e \<Rightarrow> (r, Err e)
                | Panic \<Rightarrow> (r, Panic)
                | Ok checksum \<Rightarrow> load_loop le (ld_db ld) checksum idxs r)))"

text \<open>Sequencing with the early return on an error; the state is kept.\<close>

fun and_then :: "'r \<times> unit res \<Rightarrow> ('r \<Rightarrow> 'r \<times> 'a res) \<Rightarrow> 'r \<times> 'a res" where
  "and_then (r, Ok _) f = f r"
| "and_then (r, Err e) f = (r, Err e)"
| "and_then (r, Panic) f = (r, Panic)"

lemma and_then_state: "P (fst m) \<Longrightarrow> (\<And>r. P r \<Longrightarrow> P (fst (f r))) \<Longrightarrow> P (fst (and_then m f))"
  by (cases "(m, f)" rule: and_then.cases) auto

fun run_loaders :: "load_env \<Rightarrow> loader list \<Rightarrow> index_registry \<Rightarrow> index_registry \<times> unit res" where
  "run_loaders le [] r = (r, Ok ())"
| "run_loaders le (ld # lds) r =
     and_then (run_loader le ld r) (run_loaders le lds)"

definition registerIndexesForTable :: "load_env \<Rightarrow> string \<Rightarrow> string \<Rightarrow> index_registry \<Rightarrow> index_registry \<times> unit res" where
  "registerIndexesForTable le db tbl r =
     (case ir_indexLoaders r (db, tbl) of
        None \<Rightarrow> (r, Ok ())
      | Some lds \<Rightarrow>
          and_then (run_loaders le lds r)
            (\<lambda>r'. (r' \<lparr> ir_indexLoaders := (ir_indexLoaders r')((db, tbl) := None) \<rparr>, Ok ())))"

text \<open>
  \<^verbatim>\<open>LoadIndexes\<close> appends a loader for each table of each database and driver. The drivers are ranged over in map order;
  a database is its name and its table names.
\<close>

definition add_loader :: "loader \<Rightarrow> index_registry \<Rightarrow> index_registry" where
  "add_loader ld r =
     (let k = (ld_db ld, ld_table ld);
          lds = (case ir_indexLoaders r k of None \<Rightarrow> [] | Some l \<Rightarrow> l)
      in r \<lparr> ir_indexLoaders := (ir_indexLoaders r)(k \<mapsto> lds @ [ld]) \<rparr>)"

fun load_dbs :: "string \<Rightarrow> (string \<times> string list res) list \<Rightarrow> index_registry \<Rightarrow> index_registry \<times> unit res" where
  "load_dbs driver [] r = (r, Ok ())"
| "load_dbs driver ((db, tNames) # dbs) r =
     (case tNames of
        Err e \<Rightarrow> (r, Err e)
      | Panic \<Rightarrow> (r, Panic)
      | Ok ts \<Rightarrow> load_dbs driver dbs (fold (\<lambda>t. add_loader \<lparr> ld_driver = driver, ld_db = db, ld_table = t \<rparr>) ts r))"

fun LoadIndexes :: "string list \<Rightarrow> (string \<times> string list res) list \<Rightarrow> index_registry \<Rightarrow> index_registry \<times> unit res" where
  "LoadIndexes [] dbs r = (r, Ok ())"
| "LoadIndexes (driver # drivers) dbs r =
     and_then (load_dbs driver dbs r) (LoadIndexes drivers dbs)"

section \<open>Lookup by expression\<close>

text \<open>\<^verbatim>\<open>exprWithTable\<close>: of the modelled expressions only a column has a table. An error of a loader becomes a panic.\<close>

fun table_of :: "expr \<Rightarrow> string option" where
  "table_of (GetField _ _ tbl _ _) = Some tbl"
| "table_of _ = None"

definition tables_in :: "expr \<Rightarrow> string list" where
  "tables_in e = List.map_filter table_of (inspect (\<lambda>_. True) e)"

definition panic_on_err :: "'r \<times> 'a res \<Rightarrow> 'r \<times> 'a res" where
  "panic_on_err m = (fst m, case snd m of Err _ \<Rightarrow> Panic | x \<Rightarrow> x)"

fun register_tables :: "load_env \<Rightarrow> string \<Rightarrow> string list \<Rightarrow> index_registry \<Rightarrow> index_registry \<times> unit res" where
  "register_tables le db [] r = (r, Ok ())"
| "register_tables le db (t # ts) r =
     and_then (panic_on_err (registerIndexesForTable le db t r)) (register_tables le db ts)"

fun first_match :: "index_registry \<Rightarrow> string \<Rightarrow> string list \<Rightarrow> index_key list \<Rightarrow> index option" where
  "first_match r db exprs [] = None"
| "first_match r db exprs (k # ks) =
     (case ir_indexes r k of
        Some idx \<Rightarrow>
          if CanUseIndex r (Some idx) \<and> ix_Database idx = db \<and> exprListsMatch (ix_Expressions idx) exprs then Some idx
          else first_match r db exprs ks
      | None \<Rightarrow> first_match r db exprs ks)"

definition IndexByExpression ::
  "load_env \<Rightarrow> (expr \<Rightarrow> string) \<Rightarrow> index_registry \<Rightarrow> string \<Rightarrow> expr list \<Rightarrow> index_registry \<times> index option res" where
  "IndexByExpression le str r db exprs =
     and_then (register_tables le db (concat (map tables_in exprs)) r) (\<lambda>r'.
       case first_match r' db (map str exprs) (ir_indexOrder r') of
         None \<Rightarrow> (r', Ok None)
       | Some idx \<Rightarrow> (retainIndex db (ix_ID idx) r', Ok (Some idx)))"

text \<open>\<^verbatim>\<open>ExpressionsWithIndexes\<close>: \<open>find_expr\<close> looks for the first unused expression that prints as the indexed one.\<close>

fun find_expr :: "(expr \<Rightarrow> string) \<Rightarrow> string \<Rightarrow> nat \<Rightarrow> expr list \<Rightarrow> nat set \<Rightarrow> (nat \<times> expr) option" where
  "find_expr str ie i [] used = None"
| "find_expr str ie i (e # es) used =
     (if i \<in> used then find_expr str ie (Suc i) es used
      else if ie = str e then Some (i, e)
      else find_expr str ie (Suc i) es used)"

fun match_exprs :: "(expr \<Rightarrow> string) \<Rightarrow> string list \<Rightarrow> expr list \<Rightarrow> nat set \<Rightarrow> expr list option" where
  "match_exprs str [] es used = Some []"
| "match_exprs str (ie # ies) es used =
     (case find_expr str ie 0 es used of
        None \<Rightarrow> None
      | Some (i, e) \<Rightarrow> map_option ((#) e) (match_exprs str ies es (insert i used)))"

definition index_match :: "(expr \<Rightarrow> string) \<Rightarrow> index_registry \<Rightarrow> expr list \<Rightarrow> index_key \<Rightarrow> expr list option" where
  "index_match str r es k =
     (case ir_indexes r k of
        None \<Rightarrow> None
      | Some idx \<Rightarrow>
          let ln = length (ix_Expressions idx) in
          if CanUseIndex r (Some idx) \<and> ln \<le> length es \<and> ln > 1 then match_exprs str (ix_Expressions idx) es {} else None)"

definition ExpressionsWithIndexes :: "(expr \<Rightarrow> string) \<Rightarrow> index_key list \<Rightarrow> index_registry \<Rightarrow> expr list \<Rightarrow> expr list list" where
  "ExpressionsWithIndexes str order r es = List.map_filter (index_match str r es) order"

section \<open>Creation and deletion\<close>

fun validate_loop :: "index_registry \<Rightarrow> index \<Rightarrow> index_key list \<Rightarrow> unit res" where
  "validate_loop r idx [] = Ok ()"
| "validate_loop r idx (k # ks) =
     (case ir_indexes r k of
        None \<Rightarrow> validate_loop r idx ks
      | Some i \<Rightarrow>
          if ix_Database i \<noteq> ix_Database idx then validate_loop r idx ks
          else if ix_ID i = ix_ID idx then Err (IndexErr (ErrIndexIDAlreadyRegistered (ix_ID idx)))
          else if exprListsEqual (ix_Expressions i) (ix_Expressions idx)
            then Err (IndexErr (ErrIndexExpressionAlreadyRegistered (ix_Expressions idx)))
          else validate_loop r idx ks)"

definition validateIndexToAdd :: "index_key list \<Rightarrow> index_registry \<Rightarrow> index \<Rightarrow> unit res" where
  "validateIndexToAdd order r idx = validate_loop r idx order"

text \<open>\<open>insert_index\<close> is what \<^verbatim>\<open>AddIndex\<close> does under its write lock, and the start of its goroutine.\<close>

definition insert_index :: "index_registry \<Rightarrow> index \<Rightarrow> index_registry" where
  "insert_index r idx =
     (let r1 = setStatus r idx IndexNotReady; key = key_of idx in
      r1 \<lparr> ir_indexes := (ir_indexes r1)(key \<mapsto> idx), ir_indexOrder := ir_indexOrder r1 @ [key],
           ir_creating := idx # ir_creating r1 \<rparr>)"

definition AddIndex :: "index_key list \<Rightarrow> index_registry \<Rightarrow> index \<Rightarrow> index_registry \<times> unit res" where
  "AddIndex order r idx =
     (case validateIndexToAdd order r idx of Ok _ \<Rightarrow> (insert_index r idx, Ok ()) | Err e \<Rightarrow> (r, Err e) | Panic \<Rightarrow> (r, Panic))"

definition finish_create :: "index \<Rightarrow> index_registry \<Rightarrow> index_registry" where
  "finish_create idx r = (setStatus r idx IndexReady) \<lparr> ir_creating := remove1 idx (ir_creating r) \<rparr>"

text \<open>
  \<^verbatim>\<open>DeleteIndex\<close>: \<open>find_index\<close> is the loop over the indexes, which gives the index found, or the ids that were seen. The
  result is the state and whether the returned channel is already closed.
\<close>

fun find_index :: "index_registry \<Rightarrow> string \<Rightarrow> index_key list \<Rightarrow> string list \<Rightarrow> (index_key \<times> index) + string list" where
  "find_index r i [] names = Inr names"
| "find_index r i (k # ks) names =
     (case ir_indexes r k of
        None \<Rightarrow> find_index r i ks names
      | Some idx \<Rightarrow> if ToLower i = ix_ID idx then Inl (k, idx) else find_index r i ks (names @ [ix_ID idx]))"

definition delete_now :: "index_key \<Rightarrow> index_registry \<Rightarrow> index_registry" where
  "delete_now key r = r \<lparr> ir_indexes := (ir_indexes r)(key := None), ir_indexOrder := remove1 key (ir_indexOrder r) \<rparr>"

definition delete_later :: "index_key \<Rightarrow> index_registry \<Rightarrow> index_registry" where
  "delete_later key r =
     r \<lparr> ir_deleteIndexQueue := (ir_deleteIndexQueue r)(key \<mapsto> ir_channels r), ir_channels := Suc (ir_channels r),
         ir_deleting := (ir_channels r, key) # ir_deleting r \<rparr>"

definition DeleteIndex :: "index_key list \<Rightarrow> index_registry \<Rightarrow> string \<Rightarrow> string \<Rightarrow> bool \<Rightarrow> index_registry \<times> bool res" where
  "DeleteIndex order r db i force =
     (if order = [] then (r, Err (IndexErr (ErrIndexNotFound i)))
      else case find_index r i order [] of
        Inr names \<Rightarrow> (r, Err (IndexErr (ErrIndexNotFound (i @ Find names i))))
      | Inl (key, idx) \<Rightarrow>
          if \<not> force \<and> \<not> CanRemoveIndex r (Some idx) then (r, Err (IndexErr (ErrIndexDeleteInvalidStatus i)))
          else
            let r1 = setStatus r idx IndexNotReady in
            if ik_id key = [] then (r1, Err (IndexErr (ErrIndexNotFound (i @ Find [] i))))
            else if force \<or> ir_refCounts r1 key \<le> 0 then (delete_now key r1, Ok True)
            else (delete_later key r1, Ok False))"

text \<open>The goroutine removes the index from the map, but not from \<^verbatim>\<open>indexOrder\<close>.\<close>

definition finish_delete :: "nat \<times> index_key \<Rightarrow> index_registry \<Rightarrow> index_registry" where
  "finish_delete p r =
     r \<lparr> ir_indexes := (ir_indexes r)(snd p := None), ir_deleting := remove1 p (ir_deleting r) \<rparr>"

section \<open>Expression lists\<close>

definition unvisited :: "string list \<Rightarrow> bool list \<Rightarrow> string multiset" where
  "unvisited b visited = mset (map fst (filter (\<lambda>p. \<not> snd p) (zip b visited)))"

lemma unvisited_Cons [simp]: "unvisited (x # b) (v # visited) = (if v then unvisited b visited else add_mset x (unvisited b visited))"
  by (simp add: unvisited_def)

lemma unvisited_all [simp]: "unvisited b (replicate (length b) False) = mset b"
  by (induction b) (simp_all add: unvisited_def)

lemma take_unvisited_Some:
  "take_unvisited va b visited = Some visited' \<Longrightarrow> length b = length visited \<Longrightarrow>
   length visited' = length visited \<and> unvisited b visited = add_mset va (unvisited b visited')"
  by (induction va b visited arbitrary: visited' rule: take_unvisited.induct) (auto split: if_splits)

lemma take_unvisited_None:
  "take_unvisited va b visited = None \<Longrightarrow> length b = length visited \<Longrightarrow> va \<notin># unvisited b visited"
  by (induction va b visited rule: take_unvisited.induct) (auto simp: unvisited_def split: if_splits)

lemma match_loop_mset: "length b = length visited \<Longrightarrow> match_loop a b visited \<longleftrightarrow> mset a \<subseteq># unvisited b visited"
proof (induction a arbitrary: visited)
  case (Cons va a)
  show ?case
  proof (cases "take_unvisited va b visited")
    case None
    then show ?thesis using take_unvisited_None [OF None Cons.prems] by (auto dest: mset_subset_eq_insertD)
  next
    case (Some visited')
    from take_unvisited_Some [OF this Cons.prems] Cons.IH [of visited'] Cons.prems Some
    show ?thesis by simp
  qed
qed simp

lemma exprListsMatch_iff: "exprListsMatch a b \<longleftrightarrow> mset a \<subseteq># mset b"
  by (simp add: exprListsMatch_def match_loop_mset)

lemma exprListsEqual_iff: "exprListsEqual a b \<longleftrightarrow> mset a = mset b"
proof -
  have "mset a = mset b" if "mset a \<subseteq># mset b" "length a = length b"
    using that by (metis mset_subset_size size_mset subset_mset.nless_le less_irrefl)
  then show ?thesis by (auto simp: exprListsEqual_def exprListsMatch_iff dest: mset_eq_length)
qed

section \<open>Runs\<close>

text \<open>
  The steps of a registry, given what the loaders find. \<open>le\<close> and the expression printer \<open>str\<close> are the same in a run.
\<close>

inductive ir_step :: "load_env \<Rightarrow> (expr \<Rightarrow> string) \<Rightarrow> index_registry \<Rightarrow> index_registry \<Rightarrow> bool"
  for le :: load_env and str :: "expr \<Rightarrow> string" where
  load: "ir_step le str r (fst (LoadIndexes drivers dbs r))"
| add: "set order = dom (ir_indexes r) \<Longrightarrow> ir_step le str r (fst (AddIndex order r idx))"
| created: "idx \<in> set (ir_creating r) \<Longrightarrow> ir_step le str r (finish_create idx r)"
| outdated: "ir_step le str r (MarkOutdated r idx)"
| lookup: "ir_step le str r (fst (Index r db i))"
| by_table: "ir_step le str r (fst (IndexesByTable r db tbl))"
| by_expression: "ir_step le str r (fst (IndexByExpression le str r db exprs))"
| release: "ir_step le str r (ReleaseIndex r idx)"
| delete: "set order = dom (ir_indexes r) \<Longrightarrow> ir_step le str r (fst (DeleteIndex order r db i force))"
| deleted: "p \<in> set (ir_deleting r) \<Longrightarrow> fst p \<in> ir_closed r \<Longrightarrow> ir_step le str r (finish_delete p r)"

inductive ir_reachable :: "load_env \<Rightarrow> (expr \<Rightarrow> string) \<Rightarrow> index_registry \<Rightarrow> bool"
  for le :: load_env and str :: "expr \<Rightarrow> string" where
  start: "ir_reachable le str NewIndexRegistry"
| step: "ir_reachable le str r \<Longrightarrow> ir_step le str r r' \<Longrightarrow> ir_reachable le str r'"

text \<open>Drivers load the indexes of the database they are asked for.\<close>

definition honest_drivers :: "load_env \<Rightarrow> bool" where
  "honest_drivers le \<longleftrightarrow> (\<forall>driver db t idxs. le_LoadAll le driver db t = Ok idxs \<longrightarrow> (\<forall>idx \<in> set idxs. ix_Database idx = db))"

text \<open>
  The invariant, in two parts: every index is stored under its own key and is in the order that lookups follow; and a
  queued deletion has an open channel and a goroutine that waits on it.
\<close>

definition keys_ok :: "index_registry \<Rightarrow> bool" where
  "keys_ok r \<longleftrightarrow> (\<forall>k idx. ir_indexes r k = Some idx \<longrightarrow> key_of idx = k \<and> k \<in> set (ir_indexOrder r))"

definition queue_ok :: "index_registry \<Rightarrow> bool" where
  "queue_ok r \<longleftrightarrow>
     (\<forall>k ch. ir_deleteIndexQueue r k = Some ch \<longrightarrow> (ch, k) \<in> set (ir_deleting r) \<and> ch \<notin> ir_closed r)
     \<and> (\<forall>ch k. (ch, k) \<in> set (ir_deleting r) \<longrightarrow> ch < ir_channels r)
     \<and> distinct (map fst (ir_deleting r)) \<and> ir_closed r \<subseteq> {..<ir_channels r}"

definition ir_inv :: "index_registry \<Rightarrow> bool" where
  "ir_inv r \<longleftrightarrow> keys_ok r \<and> queue_ok r"

text \<open>Most operations leave the indexes, or the queue, alone.\<close>

definition same_indexes :: "index_registry \<Rightarrow> index_registry \<Rightarrow> bool" where
  "same_indexes r r' \<longleftrightarrow> ir_indexes r' = ir_indexes r \<and> ir_indexOrder r' = ir_indexOrder r"

definition same_queue :: "index_registry \<Rightarrow> index_registry \<Rightarrow> bool" where
  "same_queue r r' \<longleftrightarrow> ir_deleteIndexQueue r' = ir_deleteIndexQueue r \<and> ir_deleting r' = ir_deleting r
     \<and> ir_channels r' = ir_channels r \<and> ir_closed r' = ir_closed r"

lemma same_refl [simp]: "same_indexes r r" "same_queue r r"
  by (simp_all add: same_indexes_def same_queue_def)

lemma same_trans: "same_indexes r r' \<Longrightarrow> same_indexes r' r'' \<Longrightarrow> same_indexes r r''"
    "same_queue r r' \<Longrightarrow> same_queue r' r'' \<Longrightarrow> same_queue r r''"
  by (simp_all add: same_indexes_def same_queue_def)

lemma keys_ok_same: "same_indexes r r' \<Longrightarrow> keys_ok r \<Longrightarrow> keys_ok r'"
  by (simp add: same_indexes_def keys_ok_def)

lemma queue_ok_same: "same_queue r r' \<Longrightarrow> queue_ok r \<Longrightarrow> queue_ok r'"
  by (simp add: same_queue_def queue_ok_def)

lemma same_simps [simp]:
  "same_indexes r (setStatus r' idx s) \<longleftrightarrow> same_indexes r r'" "same_queue r (setStatus r' idx s) \<longleftrightarrow> same_queue r r'"
  "same_indexes r (retainIndex db i r') \<longleftrightarrow> same_indexes r r'" "same_queue r (retainIndex db i r') \<longleftrightarrow> same_queue r r'"
  "same_indexes r (add_loader ld r') \<longleftrightarrow> same_indexes r r'" "same_queue r (add_loader ld r') \<longleftrightarrow> same_queue r r'"
  by (auto simp: same_indexes_def same_queue_def setStatus_def retainIndex_def add_loader_def Let_def)

lemma same_by_table: "same_indexes r0 r \<Longrightarrow> same_indexes r0 (fst (indexes_by_table db tbl ks r acc))"
    "same_queue r0 r \<Longrightarrow> same_queue r0 (fst (indexes_by_table db tbl ks r acc))"
  by (induction db tbl ks r acc rule: indexes_by_table.induct) (auto split: option.splits)

lemma same_add_loaders:
  "same_indexes r0 r \<Longrightarrow> same_indexes r0 (fold (\<lambda>t. add_loader \<lparr> ld_driver = d, ld_db = db, ld_table = t \<rparr>) ts r)"
  "same_queue r0 r \<Longrightarrow> same_queue r0 (fold (\<lambda>t. add_loader \<lparr> ld_driver = d, ld_db = db, ld_table = t \<rparr>) ts r)"
  by (induction ts arbitrary: r) auto

lemma same_load_dbs: "same_indexes r0 r \<Longrightarrow> same_indexes r0 (fst (load_dbs d dbs r))"
    "same_queue r0 r \<Longrightarrow> same_queue r0 (fst (load_dbs d dbs r))"
  by (induction d dbs r rule: load_dbs.induct) (auto simp: same_add_loaders split: res.splits)

lemma same_LoadIndexes: "same_indexes r0 r \<Longrightarrow> same_indexes r0 (fst (LoadIndexes ds dbs r))"
    "same_queue r0 r \<Longrightarrow> same_queue r0 (fst (LoadIndexes ds dbs r))"
proof -
  show "same_indexes r0 r \<Longrightarrow> same_indexes r0 (fst (LoadIndexes ds dbs r))"
    by (induction ds dbs r rule: LoadIndexes.induct)
      (auto intro!: and_then_state [where P = "same_indexes r0"] same_load_dbs)
  show "same_queue r0 r \<Longrightarrow> same_queue r0 (fst (LoadIndexes ds dbs r))"
    by (induction ds dbs r rule: LoadIndexes.induct) (auto intro!: and_then_state [where P = "same_queue r0"] same_load_dbs)
qed

lemma load_loop_keys:
  "keys_ok r \<Longrightarrow> \<forall>idx \<in> set idxs. ix_Database idx = db \<Longrightarrow> keys_ok (fst (load_loop le db checksum idxs r))"
proof (induction le db checksum idxs r rule: load_loop.induct)
  case (2 le db checksum idx idxs r)
  let ?k = "IndexKey db (ix_ID idx)"
  let ?r1 = "r \<lparr> ir_indexes := (ir_indexes r)(?k \<mapsto> idx), ir_indexOrder := ir_indexOrder r @ [?k] \<rparr>"
  have "keys_ok ?r1" using 2(2,3) by (auto simp: keys_ok_def key_of_def)
  then have "keys_ok (setStatus ?r1 j s)" "keys_ok (?r1 \<lparr> ir_statuses := f \<rparr>)" for j s f
    by (auto simp: keys_ok_def setStatus_def)
  with 2 \<open>keys_ok ?r1\<close> show ?case by (auto simp: Let_def MarkOutdated_def split: res.splits)
qed simp

lemma load_loop_queue: "same_queue r0 r \<Longrightarrow> same_queue r0 (fst (load_loop le db checksum idxs r))"
proof (induction le db checksum idxs r rule: load_loop.induct)
  case (2 le db checksum idx idxs r)
  then show ?case by (auto simp: Let_def MarkOutdated_def same_queue_def setStatus_def split: res.splits)
qed simp

lemma run_loader_keys: "honest_drivers le \<Longrightarrow> keys_ok r \<Longrightarrow> keys_ok (fst (run_loader le ld r))"
  by (auto simp: run_loader_def honest_drivers_def intro!: load_loop_keys split: res.splits option.splits)

lemma run_loader_queue: "same_queue r0 r \<Longrightarrow> same_queue r0 (fst (run_loader le ld r))"
  by (auto simp: run_loader_def load_loop_queue split: res.splits option.splits)

lemma run_loaders_keys: "honest_drivers le \<Longrightarrow> keys_ok r \<Longrightarrow> keys_ok (fst (run_loaders le lds r))"
  by (induction le lds r rule: run_loaders.induct) (auto intro!: and_then_state [where P = keys_ok] run_loader_keys)

lemma run_loaders_queue: "same_queue r0 r \<Longrightarrow> same_queue r0 (fst (run_loaders le lds r))"
  by (induction le lds r rule: run_loaders.induct) (auto intro!: and_then_state [where P = "same_queue r0"] run_loader_queue)

lemma same_loaders_update [simp]:
  "same_indexes r (r' \<lparr> ir_indexLoaders := f \<rparr>) = same_indexes r r'" "same_queue r (r' \<lparr> ir_indexLoaders := f \<rparr>) = same_queue r r'"
  "keys_ok (r \<lparr> ir_indexLoaders := f \<rparr>) = keys_ok r"
  by (simp_all add: same_indexes_def same_queue_def keys_ok_def)

lemma register_table_keys: "honest_drivers le \<Longrightarrow> keys_ok r \<Longrightarrow> keys_ok (fst (registerIndexesForTable le db tbl r))"
  by (auto simp: registerIndexesForTable_def intro!: and_then_state [where P = keys_ok] run_loaders_keys split: option.splits)

lemma register_table_queue: "same_queue r0 r \<Longrightarrow> same_queue r0 (fst (registerIndexesForTable le db tbl r))"
  by (auto simp: registerIndexesForTable_def intro!: and_then_state [where P = "same_queue r0"] run_loaders_queue split: option.splits)

lemma register_tables_keys: "honest_drivers le \<Longrightarrow> keys_ok r \<Longrightarrow> keys_ok (fst (register_tables le db ts r))"
  by (induction le db ts r rule: register_tables.induct)
    (auto simp: panic_on_err_def intro!: and_then_state [where P = keys_ok] register_table_keys)

lemma register_tables_queue: "same_queue r0 r \<Longrightarrow> same_queue r0 (fst (register_tables le db ts r))"
  by (induction le db ts r rule: register_tables.induct)
    (auto simp: panic_on_err_def intro!: and_then_state [where P = "same_queue r0"] register_table_queue)

lemma keys_ok_retain [simp]: "keys_ok (retainIndex db i r) = keys_ok r"
  by (simp add: keys_ok_def retainIndex_def)

lemma by_expression_keys: "honest_drivers le \<Longrightarrow> keys_ok r \<Longrightarrow> keys_ok (fst (IndexByExpression le str r db exprs))"
  by (auto simp: IndexByExpression_def split: option.splits intro!: and_then_state [where P = keys_ok] register_tables_keys)

lemma by_expression_queue: "same_queue r0 r \<Longrightarrow> same_queue r0 (fst (IndexByExpression le str r db exprs))"
  by (auto simp: IndexByExpression_def split: option.splits intro!: and_then_state [where P = "same_queue r0"] register_tables_queue)

lemma keys_ok_delete_later [simp]: "keys_ok (delete_later k r) = keys_ok r"
  by (simp add: keys_ok_def delete_later_def)

lemma keys_ok_setStatus [simp]: "keys_ok (setStatus r idx s) = keys_ok r"
  by (simp add: keys_ok_def setStatus_def)

lemma keys_ok_delete_now: "keys_ok r \<Longrightarrow> keys_ok (delete_now k r)"
  by (auto simp: keys_ok_def delete_now_def)

lemma keys_ok_insert: "keys_ok r \<Longrightarrow> keys_ok (insert_index r idx)"
  by (auto simp: keys_ok_def insert_index_def setStatus_def Let_def)

lemma queue_ok_delete_later:
  assumes "queue_ok r"
  shows "queue_ok (delete_later k r)"
proof -
  have new: "ch < ir_channels r" if "(ch, k') \<in> set (ir_deleting r)" for ch k' using assms that by (auto simp: queue_ok_def)
  then have "ir_channels r \<notin> set (map fst (ir_deleting r))" by fastforce
  moreover have "ir_channels r \<notin> ir_closed r" using assms by (auto simp: queue_ok_def)
  ultimately show ?thesis using assms by (auto simp: queue_ok_def delete_later_def less_Suc_eq dest: new)
qed

lemma queue_channel_unique:
  assumes "queue_ok r" "ir_deleteIndexQueue r k = Some ch" "ir_deleteIndexQueue r k' = Some ch"
  shows "k = k'"
proof -
  have "(ch, k) \<in> set (ir_deleting r)" "(ch, k') \<in> set (ir_deleting r)" "distinct (map fst (ir_deleting r))"
    using assms by (auto simp: queue_ok_def)
  then show ?thesis by (meson eq_key_imp_eq_value)
qed

lemma queue_ok_release:
  assumes "queue_ok r"
  shows "queue_ok (ReleaseIndex r idx)"
proof (cases "ir_deleteIndexQueue r (key_of idx)")
  case None
  then show ?thesis using assms by (simp add: queue_ok_def ReleaseIndex_def Let_def)
next
  case (Some ch)
  have "ir_deleteIndexQueue r k \<noteq> Some ch" if "k \<noteq> key_of idx" for k
    using queue_channel_unique [OF assms Some] that by blast
  moreover have "ch < ir_channels r" using assms Some by (auto simp: queue_ok_def)
  ultimately show ?thesis using assms Some by (auto simp: queue_ok_def ReleaseIndex_def Let_def)
qed

lemma queue_ok_finish: "queue_ok r \<Longrightarrow> p \<in> set (ir_deleting r) \<Longrightarrow> fst p \<in> ir_closed r \<Longrightarrow> queue_ok (finish_delete p r)"
  by (cases p) (auto simp: queue_ok_def finish_delete_def distinct_map intro: inj_on_subset dest: in_set_remove1
      set_remove1_subset [THEN subsetD])

lemma queue_ok_simps [simp]:
  "queue_ok (setStatus r idx s) = queue_ok r" "queue_ok (retainIndex db i r) = queue_ok r"
  "queue_ok (delete_now k r) = queue_ok r" "queue_ok (insert_index r idx) = queue_ok r"
  "queue_ok (finish_create idx r) = queue_ok r"
  by (simp_all add: queue_ok_def setStatus_def retainIndex_def delete_now_def insert_index_def finish_create_def Let_def)

lemma keys_ok_release [simp]: "keys_ok (ReleaseIndex r idx) = keys_ok r"
  by (simp add: keys_ok_def ReleaseIndex_def Let_def split: option.splits)

lemma keys_ok_finish: "keys_ok r \<Longrightarrow> keys_ok (finish_create idx r)" "keys_ok r \<Longrightarrow> keys_ok (finish_delete p r)"
  by (auto simp: keys_ok_def finish_create_def finish_delete_def setStatus_def)

lemmas inv_rules = keys_ok_insert keys_ok_finish keys_ok_delete_now queue_ok_delete_later queue_ok_release queue_ok_finish
  by_expression_keys

lemma ir_inv_by_table: "ir_inv r \<Longrightarrow> ir_inv (fst (IndexesByTable r db tbl))"
  using same_by_table [of r r] keys_ok_same queue_ok_same by (simp add: ir_inv_def IndexesByTable_def) blast

lemma ir_inv_load: "ir_inv r \<Longrightarrow> ir_inv (fst (LoadIndexes drivers dbs r))"
  using same_LoadIndexes [of r r drivers dbs] keys_ok_same queue_ok_same by (auto simp: ir_inv_def)

lemma ir_inv_step: "ir_step le str r r' \<Longrightarrow> honest_drivers le \<Longrightarrow> ir_inv r \<Longrightarrow> ir_inv r'"
proof (induction rule: ir_step.induct)
  case (by_expression r db exprs)
  then show ?case using by_expression_queue [of r r le str db exprs] by (simp add: ir_inv_def inv_rules queue_ok_same)
next
  case (add order r idx)
  then show ?case by (auto simp: ir_inv_def AddIndex_def inv_rules split: res.splits)
next
  case (delete order r db i force)
  then show ?case
    by (auto simp: ir_inv_def DeleteIndex_def Let_def inv_rules split: sum.splits)
qed (auto simp: ir_inv_load ir_inv_by_table, auto simp: ir_inv_def MarkOutdated_def Index_def inv_rules)

lemma ir_inv_reachable: "ir_reachable le str r \<Longrightarrow> honest_drivers le \<Longrightarrow> ir_inv r"
proof (induction rule: ir_reachable.induct)
  case start
  show ?case by (simp add: ir_inv_def keys_ok_def queue_ok_def NewIndexRegistry_def)
qed (blast intro: ir_inv_step)

section \<open>Properties\<close>

text \<open>\<open>usable_matches\<close> are the indexes that a query may use for the expressions, in the order of registration.\<close>

definition registered :: "index_registry \<Rightarrow> index list" where
  "registered r = List.map_filter (ir_indexes r) (ir_indexOrder r)"

definition usable_for :: "index_registry \<Rightarrow> string \<Rightarrow> string list \<Rightarrow> index \<Rightarrow> bool" where
  "usable_for r db exprs idx \<longleftrightarrow>
     ir_statuses r (key_of idx) = IndexReady \<and> ix_Database idx = db \<and> mset (ix_Expressions idx) \<subseteq># mset exprs"

lemma first_match_find:
  "first_match r db exprs ks = find (usable_for r db exprs) (List.map_filter (ir_indexes r) ks)"
  by (induction ks) (auto simp: map_filter_simps usable_for_def CanUseIndex_def IsUsable_def exprListsMatch_iff split: option.splits)

text \<open>\<open>reserved r idx\<close>: the id or the expressions of \<open>idx\<close> are taken in its database.\<close>

definition reserved :: "index_registry \<Rightarrow> index \<Rightarrow> bool" where
  "reserved r idx \<longleftrightarrow> (\<exists>i \<in> ran (ir_indexes r). ix_Database i = ix_Database idx
     \<and> (ix_ID i = ix_ID idx \<or> mset (ix_Expressions i) = mset (ix_Expressions idx)))"

lemma validate_loop_Ok:
  "validate_loop r idx ks = Ok () \<longleftrightarrow>
     (\<forall>k \<in> set ks. \<forall>i. ir_indexes r k = Some i \<longrightarrow> \<not> (ix_Database i = ix_Database idx
        \<and> (ix_ID i = ix_ID idx \<or> mset (ix_Expressions i) = mset (ix_Expressions idx))))"
  by (induction ks) (auto simp: exprListsEqual_iff split: option.splits)

lemma validate_iff:
  assumes "set order = dom (ir_indexes r)"
  shows "validateIndexToAdd order r idx = Ok () \<longleftrightarrow> \<not> reserved r idx"
  unfolding validateIndexToAdd_def validate_loop_Ok reserved_def using assms by (auto simp: ran_def dom_def)

lemma validate_no_panic: "validate_loop r idx ks \<noteq> Panic"
  by (induction ks) (auto split: option.splits)

text \<open>An index is added exactly when neither its id nor its set of expressions is taken in its database. It is then
  listed last, cannot be used while it is created, and can be used once its creation is signalled; the other indexes keep
  their status.\<close>

lemma index_creation:
  assumes "set order = dom (ir_indexes r)"
  shows "(is_Ok (snd (AddIndex order r idx)) \<longleftrightarrow> \<not> reserved r idx)
    \<and> (reserved r idx \<longrightarrow> fst (AddIndex order r idx) = r)
    \<and> (\<not> reserved r idx \<longrightarrow> (let r1 = fst (AddIndex order r idx) in
         ir_indexes r1 = (ir_indexes r)(key_of idx \<mapsto> idx) \<and> ir_indexOrder r1 = ir_indexOrder r @ [key_of idx]
         \<and> \<not> CanUseIndex r1 (Some idx) \<and> CanUseIndex (finish_create idx r1) (Some idx)
         \<and> (\<forall>i. key_of i \<noteq> key_of idx \<longrightarrow>
              CanUseIndex r1 (Some i) = CanUseIndex r (Some i)
              \<and> CanUseIndex (finish_create idx r1) (Some i) = CanUseIndex r (Some i))))"
proof (cases "reserved r idx")
  case True
  with validate_iff [OF assms] have "validateIndexToAdd order r idx \<noteq> Ok ()" by simp
  then obtain e where "validateIndexToAdd order r idx = Err e"
    using validate_no_panic [of r idx order] by (cases "validateIndexToAdd order r idx") (auto simp: validateIndexToAdd_def)
  with True show ?thesis by (simp add: AddIndex_def)
next
  case False
  with validate_iff [OF assms] have "validateIndexToAdd order r idx = Ok ()" by simp
  then have "AddIndex order r idx = (insert_index r idx, Ok ())" by (simp add: AddIndex_def)
  with False show ?thesis
    by (auto simp: insert_index_def finish_create_def setStatus_def CanUseIndex_def IsUsable_def Let_def)
qed

definition index_a :: index where
  "index_a = \<lparr> ix_ID = ''a'', ix_Database = ''db'', ix_Table = ''t'', ix_Expressions = [''t.x'', ''t.y''] \<rparr>"

theorem index_creation_witness:
  "CanUseIndex (finish_create index_a (fst (AddIndex [] NewIndexRegistry index_a))) (Some index_a)"
  using index_creation [of "[]" NewIndexRegistry index_a]
  by (simp add: NewIndexRegistry_def reserved_def Let_def)

text \<open>A lookup by expressions returns the first registered index of the database that is ready and whose expressions
  are all among the given ones, and retains it; an index that is being created or deleted is never returned.\<close>

lemma index_by_expression:
  assumes "\<forall>e \<in> set exprs. \<forall>t \<in> set (tables_in e). ir_indexLoaders r (db, t) = None"
  shows "IndexByExpression le str r db exprs =
     (case find (usable_for r db (map str exprs)) (registered r) of
        None \<Rightarrow> (r, Ok None)
      | Some idx \<Rightarrow> (retainIndex db (ix_ID idx) r, Ok (Some idx)))"
proof -
  have "register_tables le db ts r = (r, Ok ())" if "\<forall>t \<in> set ts. ir_indexLoaders r (db, t) = None" for ts
    using that by (induction ts) (simp_all add: registerIndexesForTable_def panic_on_err_def)
  then have "register_tables le db (concat (map tables_in exprs)) r = (r, Ok ())" using assms by simp
  then show ?thesis by (simp add: IndexByExpression_def first_match_find registered_def)
qed

definition no_loading :: load_env where
  "no_loading = \<lparr> le_GetTableInsensitive = (\<lambda>_ _. Ok None), le_LoadAll = (\<lambda>_ _ _. Ok []),
     le_table_Checksum = (\<lambda>_ _. None), le_index_Checksum = (\<lambda>_. None) \<rparr>"

definition ready_a :: index_registry where
  "ready_a = finish_create index_a (fst (AddIndex [] NewIndexRegistry index_a))"

lemma ready_a_simps [simp]:
  "ir_indexes ready_a = [IndexKey ''db'' ''a'' \<mapsto> index_a]" "ir_indexOrder ready_a = [IndexKey ''db'' ''a'']"
  "ir_statuses ready_a = (\<lambda>_. IndexNotReady)(IndexKey ''db'' ''a'' := IndexReady)" "ir_refCounts ready_a = (\<lambda>_. 0)"
  "ir_deleteIndexQueue ready_a = Map.empty" "ir_indexLoaders ready_a = Map.empty" "ir_deleting ready_a = []"
  "ir_closed ready_a = {}" "ir_channels ready_a = 0" "ir_creating ready_a = []"
  by (simp_all add: ready_a_def index_a_def finish_create_def AddIndex_def insert_index_def validateIndexToAdd_def
      NewIndexRegistry_def setStatus_def key_of_def Let_def)

lemma key_of_index_a [simp]: "key_of index_a = IndexKey ''db'' ''a''"
  by (simp add: key_of_def index_a_def)

lemma ready_a_reachable: "ir_reachable le str ready_a"
proof -
  have "ir_reachable le str (fst (AddIndex [] NewIndexRegistry index_a))"
    by (rule ir_reachable.step [OF ir_reachable.start ir_step.add]) (simp add: NewIndexRegistry_def)
  then show ?thesis unfolding ready_a_def
    by (rule ir_reachable.step)
      (rule ir_step.created, simp add: AddIndex_def validateIndexToAdd_def insert_index_def Let_def)
qed

theorem index_by_expression_witness:
  "snd (IndexByExpression no_loading (\<lambda>_. ''t.x'') ready_a ''db'' [Star []]) = Ok None
   \<and> snd (IndexByExpression no_loading (\<lambda>e. if e = Star [] then ''t.x'' else ''t.y'') ready_a ''db'' [Star ''u'', Star []]) =
     Ok (Some index_a)"
  using index_by_expression [of "[Star []]" ready_a "''db''" no_loading "\<lambda>_. ''t.x''"]
    index_by_expression [of "[Star ''u'', Star []]" ready_a "''db''" no_loading "\<lambda>e. if e = Star [] then ''t.x'' else ''t.y''"]
  by (simp add: registered_def map_filter_simps usable_for_def index_a_def key_of_def)

text \<open>Releasing: the deletion of an index that is in use.\<close>

lemma find_index_Inl:
  assumes "k \<in> set order" "ir_indexes r k = Some idx" "ToLower i = ix_ID idx"
    "\<forall>k' idx'. ir_indexes r k' = Some idx' \<and> ix_ID idx' = ix_ID idx \<longrightarrow> k' = k"
  shows "find_index r i order names = Inl (k, idx)"
  using assms(1)
proof (induction order arbitrary: names)
  case (Cons k' order)
  show ?case
  proof (cases "ir_indexes r k'")
    case None
    then show ?thesis using Cons assms(2) by (cases "k = k'") auto
  next
    case (Some idx')
    show ?thesis
    proof (cases "ToLower i = ix_ID idx'")
      case True
      then have "k' = k" using assms(3,4) Some by simp
      with Some True assms(2) show ?thesis by simp
    next
      case False
      then have "k \<noteq> k'" using assms(2,3) Some by auto
      with False Some Cons show ?thesis by simp
    qed
  qed
qed simp

lemma release_many:
  assumes "ir_refCounts r (key_of idx) = int n" "ir_deleteIndexQueue r (key_of idx) = Some ch"
  shows "m < n \<Longrightarrow> ((\<lambda>r. ReleaseIndex r idx) ^^ m) r = r \<lparr> ir_refCounts := (ir_refCounts r)(key_of idx := int n - int m) \<rparr>"
    and "0 < n \<Longrightarrow> ((\<lambda>r. ReleaseIndex r idx) ^^ n) r =
      r \<lparr> ir_refCounts := (ir_refCounts r)(key_of idx := 0), ir_closed := insert ch (ir_closed r),
          ir_deleteIndexQueue := (ir_deleteIndexQueue r)(key_of idx := None) \<rparr>"
proof -
  show less: "m < n \<Longrightarrow> ((\<lambda>r. ReleaseIndex r idx) ^^ m) r = r \<lparr> ir_refCounts := (ir_refCounts r)(key_of idx := int n - int m) \<rparr>" for m
  proof (induction m)
    case 0
    then show ?case by (simp add: assms(1) [symmetric])
  next
    case (Suc m)
    have "ReleaseIndex (r \<lparr> ir_refCounts := (ir_refCounts r)(key_of idx := int n - int m) \<rparr>) idx =
        r \<lparr> ir_refCounts := (ir_refCounts r)(key_of idx := int n - int (Suc m)) \<rparr>"
      using Suc.prems by (simp add: ReleaseIndex_def Let_def algebra_simps)
    with Suc show ?case by (simp only: funpow.simps o_apply Suc_lessD)
  qed
  show "0 < n \<Longrightarrow> ((\<lambda>r. ReleaseIndex r idx) ^^ n) r =
      r \<lparr> ir_refCounts := (ir_refCounts r)(key_of idx := 0), ir_closed := insert ch (ir_closed r),
          ir_deleteIndexQueue := (ir_deleteIndexQueue r)(key_of idx := None) \<rparr>"
  proof (cases n)
    case (Suc m)
    have "ReleaseIndex (r \<lparr> ir_refCounts := (ir_refCounts r)(key_of idx := int n - int m) \<rparr>) idx =
        r \<lparr> ir_refCounts := (ir_refCounts r)(key_of idx := 0), ir_closed := insert ch (ir_closed r),
            ir_deleteIndexQueue := (ir_deleteIndexQueue r)(key_of idx := None) \<rparr>"
      using Suc assms(2) by (simp add: ReleaseIndex_def Let_def)
    with Suc less [of m] show ?thesis by (simp only: funpow.simps o_apply lessI)
  qed simp
qed

text \<open>(C12) An index that queries still hold is not deleted under them: after \<^verbatim>\<open>DeleteIndex\<close> no new query can use it, it
  stays registered with its deletion blocked until the last holder releases it, and then the deletion goes through.\<close>

theorem delete_waits_for_release:
  assumes "ir_reachable le str r" "honest_drivers le" "set order = dom (ir_indexes r)"
    "ir_indexes r (key_of idx) = Some idx" "CanRemoveIndex r (Some idx)"
    "\<forall>k i. ir_indexes r k = Some i \<and> ix_ID i = ix_ID idx \<longrightarrow> k = key_of idx"
    "ToLower (ix_ID idx) = ix_ID idx" "ix_ID idx \<noteq> []" "ir_refCounts r (key_of idx) = int n" "0 < n"
  shows "let r1 = fst (DeleteIndex order r db (ix_ID idx) False); rel = (\<lambda>r. ReleaseIndex r idx) in
    snd (DeleteIndex order r db (ix_ID idx) False) = Ok False \<and> \<not> CanUseIndex r1 (Some idx)
    \<and> (\<forall>m < n. ir_indexes ((rel ^^ m) r1) (key_of idx) = Some idx \<and> ir_channels r \<notin> ir_closed ((rel ^^ m) r1))
    \<and> ir_channels r \<in> ir_closed ((rel ^^ n) r1)
    \<and> ir_step le str ((rel ^^ n) r1) (finish_delete (ir_channels r, key_of idx) ((rel ^^ n) r1))
    \<and> ir_indexes (finish_delete (ir_channels r, key_of idx) ((rel ^^ n) r1)) (key_of idx) = None"
proof -
  define r1 where "r1 = fst (DeleteIndex order r db (ix_ID idx) False)"
  define rel where "rel = (\<lambda>r. ReleaseIndex r idx)"
  have "ir_inv r" using ir_inv_reachable [OF assms(1,2)] .
  then have open_ch: "ir_channels r \<notin> ir_closed r" by (auto simp: ir_inv_def queue_ok_def)
  have ne: "key_of idx \<in> set order" using assms(3,4) by auto
  from find_index_Inl [OF this assms(4,7,6)] have f: "find_index r (ix_ID idx) order [] = Inl (key_of idx, idx)" .
  have d: "DeleteIndex order r db (ix_ID idx) False = (delete_later (key_of idx) (setStatus r idx IndexNotReady), Ok False)"
    using ne f assms(5,8,9,10) by (auto simp: DeleteIndex_def key_of_def setStatus_def Let_def)
  then have r1: "r1 = delete_later (key_of idx) (setStatus r idx IndexNotReady)" by (simp add: r1_def)
  have q: "ir_refCounts r1 (key_of idx) = int n" "ir_deleteIndexQueue r1 (key_of idx) = Some (ir_channels r)"
    using assms(9) by (simp_all add: r1 delete_later_def setStatus_def)
  note rel = release_many [OF q, folded rel_def]
  have "ir_step le str ((rel ^^ n) r1) (finish_delete (ir_channels r, key_of idx) ((rel ^^ n) r1))"
    using rel(2) assms(10) by (intro ir_step.deleted) (simp_all add: r1 delete_later_def setStatus_def)
  with d rel assms(4,10) open_ch show ?thesis
    unfolding Let_def r1_def [symmetric] rel_def [symmetric]
    by (simp add: r1 delete_later_def setStatus_def CanUseIndex_def IsUsable_def finish_delete_def)
qed

theorem delete_waits_for_release_witness:
  "snd (DeleteIndex [IndexKey ''db'' ''a''] (fst (Index ready_a ''db'' ''a'')) ''db'' ''a'' False) = Ok False"
proof -
  let ?r = "fst (Index ready_a ''db'' ''a'')"
  have "ir_reachable no_loading (\<lambda>_. []) ?r" by (rule ir_reachable.step [OF ready_a_reachable ir_step.lookup])
  moreover have "honest_drivers no_loading" by (simp add: honest_drivers_def no_loading_def)
  ultimately show ?thesis
    using delete_waits_for_release [of no_loading "\<lambda>_. []" ?r "[IndexKey ''db'' ''a'']" index_a 1 "''db''"]
    by (simp add: Index_def retainIndex_def CanRemoveIndex_def index_a_def key_of_def ToLower_def lower_char_def Let_def)
qed

lemma by_table_panics:
  "k \<in> set ks \<Longrightarrow> ir_indexes r k = None \<Longrightarrow> snd (indexes_by_table db tbl ks r acc) = Panic"
  by (induction db tbl ks r acc rule: indexes_by_table.induct) (auto simp: retainIndex_def split: option.splits)

text \<open>(C33) Once a deferred deletion has gone through, the key of the deleted index stays in the registration order and every
  listing of the indexes of a table, of any database, panics.\<close>

theorem listing_panics_after_delete:
  assumes "ir_reachable le str r" "honest_drivers le" "(ch, k) \<in> set (ir_deleting r)" "ir_indexes r k \<noteq> None"
  shows "snd (IndexesByTable (finish_delete (ch, k) r) db tbl) = Panic"
proof -
  have "k \<in> set (ir_indexOrder r)"
    using ir_inv_reachable [OF assms(1,2)] assms(4) by (auto simp: ir_inv_def keys_ok_def)
  then show ?thesis by (simp add: IndexesByTable_def finish_delete_def by_table_panics)
qed

theorem listing_panics_after_delete_witness:
  "\<exists>r p. ir_reachable no_loading (\<lambda>_. []) r \<and> snd (IndexesByTable (finish_delete p r) ''other'' ''t'') = Panic"
proof -
  let ?held = "fst (Index ready_a ''db'' ''a'')"
  let ?r = "fst (DeleteIndex [IndexKey ''db'' ''a''] ?held ''db'' ''a'' False)"
  have r: "ir_reachable no_loading (\<lambda>_. []) ?r"
    by (rule ir_reachable.step [OF ir_reachable.step [OF ready_a_reachable ir_step.lookup] ir_step.delete])
      (simp add: Index_def retainIndex_def)
  moreover have "honest_drivers no_loading" by (simp add: honest_drivers_def no_loading_def)
  moreover have "(0, IndexKey ''db'' ''a'') \<in> set (ir_deleting ?r)" "ir_indexes ?r (IndexKey ''db'' ''a'') \<noteq> None"
    by (simp_all add: DeleteIndex_def Index_def retainIndex_def CanRemoveIndex_def setStatus_def delete_later_def
        index_a_def key_of_def ToLower_def lower_char_def)
  ultimately have "snd (IndexesByTable (finish_delete (0, IndexKey ''db'' ''a'') ?r) ''other'' ''t'') = Panic"
    by (rule listing_panics_after_delete)
  with r show ?thesis by blast
qed

text \<open>\<^verbatim>\<open>DeleteIndex\<close> does not look at the database: the first index in map order with the id is deleted.\<close>

lemma delete_ignores_database:
  assumes "ir_indexes r (IndexKey other (ToLower i)) = Some idx" "ix_ID idx = ToLower i" "i \<noteq> []"
  shows "ir_indexes (fst (DeleteIndex (IndexKey other (ToLower i) # order) r db i True)) (IndexKey other (ToLower i)) = None"
  using assms by (auto simp: DeleteIndex_def delete_now_def ToLower_def Let_def)

end
