(* ===== verification/Optimizer.thy ===== *)
theory Optimizer
  imports Expressions
begin

text \<open>
  The constant folding of filters (\<^verbatim>\<open>evalFilter\<close> of \<^verbatim>\<open>sql/analyzer/optimization_rules.go\<close>), the splitting of conditions
  (\<^verbatim>\<open>sql/analyzer/filters.go\<close>, \<^verbatim>\<open>JoinAnd\<close> of \<^verbatim>\<open>sql/expression/logic.go\<close>) and the movement of join conditions into filters
  (\<^verbatim>\<open>moveJoinConditionsToFilter\<close>).
\<close>

section \<open>Constant folding\<close>

text \<open>\<^verbatim>\<open>isEvaluable\<close> of \<^verbatim>\<open>sql/analyzer/assign_indexes.go\<close>; subqueries are not modelled.\<close>

fun is_GetField :: "expr \<Rightarrow> bool" where
  "is_GetField (GetField _ _ _ _ _) = True"
| "is_GetField _ = False"

definition containsColumns :: "expr \<Rightarrow> bool" where
  "containsColumns e \<longleftrightarrow> list_ex is_GetField (inspect (\<lambda>_. True) e)"

definition isEvaluable :: "expr \<Rightarrow> bool" where
  "isEvaluable e \<longleftrightarrow> \<not> containsColumns e"

fun isFalse :: "expr \<Rightarrow> bool" where
  "isFalse (Literal (GBool b) t) = (t = Boolean \<and> \<not> b)"
| "isFalse (Literal (GInt8 v) t) = (t = Boolean \<and> v = 0)"
| "isFalse _ = False"

fun isTrue :: "expr \<Rightarrow> bool" where
  "isTrue (Literal (GBool b) t) = (t = Boolean \<and> b)"
| "isTrue (Literal (GInt8 v) t) = (t = Boolean \<and> v \<noteq> 0)"
| "isTrue _ = False"

text \<open>The callback of \<^verbatim>\<open>evalFilter\<close>. An expression that fails on the nil row is left as it is.\<close>

fun fold_node :: "genv \<Rightarrow> expr \<Rightarrow> expr res" where
  "fold_node env (Or l r) =
     Ok (if isTrue l then l else if isTrue r then r else if isFalse l then r else if isFalse r then l else Or l r)"
| "fold_node env (And l r) =
     Ok (if isFalse l then l else if isFalse r then r else if isTrue l then r else if isTrue r then l else And l r)"
| "fold_node env (Literal v t) = Ok (Literal v t)"
| "fold_node env (Tuple es) = Ok (Tuple es)"
| "fold_node env e =
     (if \<not> isEvaluable e then Ok e
      else case eval env e [] of
        Ok v \<Rightarrow> rbind (etype e) (\<lambda>t. Ok (Literal v t))
      | Err _ \<Rightarrow> Ok e
      | Panic \<Rightarrow> Panic)"

text \<open>What a filter becomes: an empty table, its child, or a filter with the folded condition.\<close>

datatype folded_filter = EmptyTable | FilterChild | NewFilter expr

definition evalFilter :: "genv \<Rightarrow> expr \<Rightarrow> folded_filter res" where
  "evalFilter env cond =
     rbind (transform_up (fold_node env) cond) (\<lambda>e.
       Ok (if isFalse e then EmptyTable else if isTrue e then FilterChild else NewFilter e))"

section \<open>Conditions\<close>

fun splitConjunction :: "expr \<Rightarrow> expr list" where
  "splitConjunction (And l r) = splitConjunction l @ splitConjunction r"
| "splitConjunction e = [e]"

fun JoinAnd :: "expr list \<Rightarrow> expr option" where
  "JoinAnd [] = None"
| "JoinAnd [e] = Some e"
| "JoinAnd (e1 # e2 # es) = Some (fold (\<lambda>e acc. And acc e) es (And e1 e2))"

text \<open>\<^verbatim>\<open>exprToTableFilters\<close>: the conjuncts that mention exactly one table, by table. Comparisons with \<^verbatim>\<open>DeepEqual\<close> are equality.\<close>

definition field_table :: "expr \<Rightarrow> string option" where
  "field_table e = (case e of GetField _ _ tbl _ _ \<Rightarrow> Some tbl | _ \<Rightarrow> None)"

definition expressionSources :: "expr \<Rightarrow> string list" where
  "expressionSources e =
     fold (\<lambda>t acc. if t \<in> set acc then acc else acc @ [t]) (List.map_filter field_table (inspect (\<lambda>_. True) e)) []"

definition exprToTableFilters :: "expr \<Rightarrow> string \<Rightarrow> expr list" where
  "exprToTableFilters cond tbl =
     filter (\<lambda>e. length (expressionSources e) = 1 \<and> last (expressionSources e) = tbl) (splitConjunction cond)"

fun getUnhandledFilters :: "expr list \<Rightarrow> expr list \<Rightarrow> expr list" where
  "getUnhandledFilters [] handled = []"
| "getUnhandledFilters (f # fs) handled =
     (if list_ex (\<lambda>hf. f = hf) handled then getUnhandledFilters fs handled else f # getUnhandledFilters fs handled)"

definition containsSources :: "string list \<Rightarrow> string list \<Rightarrow> bool" where
  "containsSources haystack needle \<longleftrightarrow> list_all (\<lambda>s. list_ex (\<lambda>s2. s2 = s) haystack) needle"

text \<open>
  \<^verbatim>\<open>moveJoinConditionsToFilter\<close>: the conjuncts of the join condition whose columns all come from one side become a filter on
  that side, a conjunct without columns on both; the others stay. The result is the three lists.
\<close>

definition move_conditions :: "string list \<Rightarrow> string list \<Rightarrow> expr \<Rightarrow> expr list \<times> expr list \<times> expr list" where
  "move_conditions leftSources rightSources cond =
     (let es = splitConjunction cond;
          canLeft = (\<lambda>e. containsSources leftSources (expressionSources e));
          canRight = (\<lambda>e. containsSources rightSources (expressionSources e))
      in (filter canLeft es, filter canRight es, filter (\<lambda>e. \<not> canLeft e \<and> \<not> canRight e) es))"

section \<open>Evaluation is compositional\<close>

text \<open>
  Two expressions, each at its row, are alike when they have the same type and value and, as \<^verbatim>\<open>IN\<close> looks at the
  elements of a tuple, the same tuple structure.
\<close>

definition alike1 :: "genv \<Rightarrow> row \<Rightarrow> row \<Rightarrow> expr \<Rightarrow> expr \<Rightarrow> bool" where
  "alike1 env row row' e e' \<longleftrightarrow> etype e' = etype e \<and> eval env e' row' = eval env e row"

fun is_Tuple :: "expr \<Rightarrow> bool" where
  "is_Tuple (Tuple _) = True"
| "is_Tuple _ = False"

fun tuple_elems :: "expr \<Rightarrow> expr list" where
  "tuple_elems (Tuple es) = es"
| "tuple_elems _ = []"

definition alike :: "genv \<Rightarrow> row \<Rightarrow> row \<Rightarrow> expr \<Rightarrow> expr \<Rightarrow> bool" where
  "alike env row row' e e' \<longleftrightarrow> alike1 env row row' e e' \<and> is_Tuple e' = is_Tuple e
     \<and> list_all2 (alike1 env row row') (tuple_elems e) (tuple_elems e')"

lemma not_Tuple_elems [simp]: "\<not> is_Tuple e \<Longrightarrow> tuple_elems e = []"
  by (cases e) auto

lemma case_Tuple: "(case r of Tuple es \<Rightarrow> Some (f es) | _ \<Rightarrow> None) = (if is_Tuple r then Some (f (tuple_elems r)) else None)"
  by (cases r) auto

lemma alike_alike1: "alike env row row' e e' \<Longrightarrow> alike1 env row row' e e'"
  by (simp add: alike_def)

lemma branch_exprs_list_all2:
  "list_all2 P (branch_exprs bs) ds \<Longrightarrow> \<exists>bs'. ds = branch_exprs bs' \<and> list_all2 (rel_prod P P) bs bs'"
proof (induction bs arbitrary: ds rule: branch_exprs.induct)
  case (2 c v bs)
  then obtain c' v' ds' where ds: "ds = c' # v' # ds'" "P c c'" "P v v'" "list_all2 P (branch_exprs bs) ds'"
    by (auto simp: list_all2_Cons1)
  with "2.IH" obtain bs' where "ds' = branch_exprs bs'" "list_all2 (rel_prod P P) bs bs'" by blast
  with ds show ?case by (intro exI [of _ "(c', v') # bs'"]) simp
qed simp

definition compositional :: "expr \<Rightarrow> bool" where
  "compositional e = (case e of GetField _ _ _ _ _ \<Rightarrow> False | SetField _ _ \<Rightarrow> False | OtherExpr _ _ _ \<Rightarrow> False
     | Coalesce es \<Rightarrow> es \<noteq> [] | _ \<Rightarrow> True)"

lemma alike_maps:
  assumes "list_all2 (alike1 env row row') es es'"
  shows "map etype es' = map etype es" "map (\<lambda>e. eval env e row') es' = map (\<lambda>e. eval env e row) es"
    "map (\<lambda>e. (etype e, eval env e row')) es' = map (\<lambda>e. (etype e, eval env e row)) es"
  using assms by (induction rule: list_all2_induct) (auto simp: alike1_def)

lemma alike_case_maps:
  assumes "list_all2 (rel_prod (alike1 env row row') (alike1 env row row')) bs bs'"
  shows "map (\<lambda>(c, v). etype v) bs' = map (\<lambda>(c, v). etype v) bs"
    "map (\<lambda>(c, x). (etype c, eval env c row', eval env x row')) bs' = map (\<lambda>(c, x). (etype c, eval env c row, eval env x row)) bs"
  using assms by (induction rule: list_all2_induct) (auto simp: alike1_def)

lemma optional_list_all2:
  "list_all2 P (case x of None \<Rightarrow> [] | Some z \<Rightarrow> [z]) xs \<Longrightarrow> \<exists>x'. xs = (case x' of None \<Rightarrow> [] | Some z \<Rightarrow> [z]) \<and> rel_option P x x'"
  by (cases x) (auto simp: list_all2_Cons1 intro: exI [of _ None] exI [of _ "Some _"])

lemma alike_Case:
  assumes "list_all2 (alike1 env row row') (children (Case x bs els)) cs"
  shows "\<exists>e'. with_children (Case x bs els) cs = Ok e' \<and> alike env row row' (Case x bs els) e'"
proof -
  let ?opt = "\<lambda>y. case y of None \<Rightarrow> [] | Some z \<Rightarrow> [z]"
  from assms obtain xs ds ys where cs: "cs = xs @ ds @ ys" "list_all2 (alike1 env row row') (?opt x) xs"
    "list_all2 (alike1 env row row') (branch_exprs bs) ds" "list_all2 (alike1 env row row') (?opt els) ys"
    by (auto simp: list_all2_append1)
  obtain bs' where bs': "ds = branch_exprs bs'" "list_all2 (rel_prod (alike1 env row row') (alike1 env row row')) bs bs'"
    using branch_exprs_list_all2 [OF cs(3)] by blast
  from optional_list_all2 [OF cs(2)] optional_list_all2 [OF cs(4)] obtain x' els' where
    opts: "xs = ?opt x'" "rel_option (alike1 env row row') x x'" "ys = ?opt els'" "rel_option (alike1 env row row') els els'"
    by blast
  have "with_children (Case x bs els) cs = with_children (Case x' bs' els') (children (Case x' bs' els'))"
    using opts bs' cs list_all2_lengthD [OF bs'(2)]
    by (cases x; cases x'; cases els; cases els') (auto simp: with_children_def Let_def)
  also have "\<dots> = Ok (Case x' bs' els')" by (rule with_children_children) simp
  finally show ?thesis
    using opts alike_case_maps [OF bs'(2)]
    by (cases x; cases x'; cases els; cases els') (auto simp: alike_def alike1_def)
qed

lemma alike_In:
  assumes "alike env row row' l l'" "alike env row row' r r'"
  shows "with_children (In l r) [l', r'] = Ok (In l' r') \<and> alike env row row' (In l r) (In l' r')"
    "with_children (NotIn l r) [l', r'] = Ok (NotIn l' r') \<and> alike env row row' (NotIn l r) (NotIn l' r')"
proof -
  have "map (\<lambda>e. (etype e, eval env e row')) (tuple_elems r') = map (\<lambda>e. (etype e, eval env e row)) (tuple_elems r)"
    using assms(2) alike_maps(3) by (auto simp: alike_def)
  then show "with_children (In l r) [l', r'] = Ok (In l' r') \<and> alike env row row' (In l r) (In l' r')"
    "with_children (NotIn l r) [l', r'] = Ok (NotIn l' r') \<and> alike env row row' (NotIn l r) (NotIn l' r')"
    using assms by (simp_all add: with_children_def children_number_def alike_def alike1_def case_Tuple)
qed

lemma alike_with_children:
  assumes "compositional e" "list_all2 (alike env row row') (children e) cs"
  shows "\<exists>e'. with_children e cs = Ok e' \<and> alike env row row' e e'"
proof -
  have cs1: "list_all2 (alike1 env row row') (children e) cs"
    using assms(2) by (rule list_all2_mono) (rule alike_alike1)
  show ?thesis
  proof (cases e)
    case (Case x bs els)
    then show ?thesis using alike_Case cs1 by simp
  next
    case (Tuple es)
    then show ?thesis using cs1 alike_maps [of env row row' es cs] list_all2_lengthD [OF cs1]
      by (auto simp: with_children_def children_number_def alike_def alike1_def)
  next
    case (Coalesce es)
    then show ?thesis using cs1 alike_maps [of env row row' es cs] list_all2_lengthD [OF cs1] assms(1)
      by (auto simp: with_children_def alike_def alike1_def compositional_def)
  next
    case (In l r)
    then show ?thesis using assms(2) by (auto simp: list_all2_Cons1 alike_In)
  next
    case (NotIn l r)
    then show ?thesis using assms(2) by (auto simp: list_all2_Cons1 alike_In)
  qed (use cs1 assms(1) in \<open>auto simp: with_children_def children_number_def compositional_def list_all2_Cons1 alike_def alike1_def
      cong: if_cong\<close>)
qed

lemma alike_refl [simp]: "alike env row row e e"
  by (simp add: alike_def alike1_def list_all2_same)

lemma alike_trans: "alike env row row e1 e2 \<Longrightarrow> alike env row row e2 e3 \<Longrightarrow> alike env row row e1 e3"
  unfolding alike_def alike1_def by (auto elim: list_all2_trans [rotated])

text \<open>Expressions that are modelled in full: columns and compositional nodes, throughout the tree.\<close>

definition pure :: "expr \<Rightarrow> bool" where
  "pure e \<longleftrightarrow> (\<forall>x \<in> set (inspect (\<lambda>_. True) e). compositional x \<or> is_GetField x)"

lemma inspect_unfold: "set (inspect (\<lambda>_. True) e) = insert e (\<Union>c \<in> set (children e). set (inspect (\<lambda>_. True) c))"
  by (subst inspect.simps) auto

lemma pure_iff: "pure e \<longleftrightarrow> (compositional e \<or> is_GetField e) \<and> (\<forall>c \<in> set (children e). pure c)"
  unfolding pure_def by (subst inspect_unfold) auto

lemma containsColumns_iff: "containsColumns e \<longleftrightarrow> is_GetField e \<or> (\<exists>c \<in> set (children e). containsColumns c)"
  unfolding containsColumns_def list_ex_iff by (subst inspect_unfold) auto

lemma row_independent: "pure e \<Longrightarrow> isEvaluable e \<Longrightarrow> alike env row row' e e"
proof (induction e rule: measure_induct_rule [of size])
  case (less e)
  have "list_all2 (alike env row row') (children e) (children e)"
    using less by (auto simp: list_all2_same isEvaluable_def pure_iff [of e] containsColumns_iff [of e] children_size)
  moreover have "compositional e" using less.prems by (auto simp: isEvaluable_def pure_iff [of e] containsColumns_iff [of e])
  ultimately obtain e' where "with_children e (children e) = Ok e'" "alike env row row' e e'"
    using alike_with_children by blast
  moreover have "e \<noteq> Coalesce []" using \<open>compositional e\<close> by (auto simp: compositional_def)
  ultimately show ?case by (simp add: with_children_children)
qed

section \<open>Folding keeps the value\<close>

fun is_Or :: "expr \<Rightarrow> bool" where
  "is_Or (Or _ _) = True"
| "is_Or _ = False"

text \<open>A condition on the rows \<open>R\<close>: of type BOOLEAN, and its value is NULL or a Go \<^verbatim>\<open>bool\<close>.\<close>

definition condition_on :: "genv \<Rightarrow> row set \<Rightarrow> expr \<Rightarrow> bool" where
  "condition_on env R e \<longleftrightarrow> \<not> is_Tuple e \<and> etype e = Ok Boolean \<and> (\<forall>row \<in> R. eval env e row \<in> {Ok GNil, Ok (GBool True), Ok (GBool False)})"

text \<open>
  The expressions that are folded faithfully on the rows \<open>R\<close>: modelled in full, with a type and no panic, without OR, and
  with conditions under AND.
\<close>

definition foldable1 :: "genv \<Rightarrow> row set \<Rightarrow> expr \<Rightarrow> bool" where
  "foldable1 env R x \<longleftrightarrow> (compositional x \<or> is_GetField x) \<and> \<not> is_Or x \<and> (\<exists>t. etype x = Ok t)
     \<and> (\<forall>row \<in> R. eval env x row \<noteq> Panic) \<and> (\<forall>l r. x = And l r \<longrightarrow> condition_on env R l \<and> condition_on env R r)"

definition foldable :: "genv \<Rightarrow> row set \<Rightarrow> expr \<Rightarrow> bool" where
  "foldable env R e \<longleftrightarrow> (\<forall>x \<in> set (inspect (\<lambda>_. True) e). foldable1 env R x)"

lemma foldable_iff: "foldable env R e \<longleftrightarrow> foldable1 env R e \<and> (\<forall>c \<in> set (children e). foldable env R c)"
  unfolding foldable_def by (subst inspect_unfold) auto

lemma And_Eval_bool:
  "v \<in> {Ok GNil, Ok (GBool True), Ok (GBool False)} \<Longrightarrow> And_Eval (Ok (GBool True)) v = v"
  "v \<in> {Ok GNil, Ok (GBool True), Ok (GBool False)} \<Longrightarrow> And_Eval v (Ok (GBool True)) = v"
  "And_Eval (Ok (GBool False)) v = Ok (GBool False)"
  "v \<in> {Ok GNil, Ok (GBool True), Ok (GBool False)} \<Longrightarrow> And_Eval v (Ok (GBool False)) = Ok (GBool False)"
  by (auto simp: And_Eval_def truth_is_def ConvertToBool_def)

lemma condition_literal:
  assumes "condition_on env R e" "R \<noteq> {}"
  shows "isTrue e \<Longrightarrow> e = Literal (GBool True) Boolean" "isFalse e \<Longrightarrow> e = Literal (GBool False) Boolean"
  using assms by (cases e rule: isTrue.cases; auto simp: condition_on_def)+

lemma fold_And:
  assumes "condition_on env R l" "condition_on env R r" "R \<noteq> {}" "row \<in> R" "fold_node env (And l r) = Ok e'"
  shows "alike env row row (And l r) e'"
proof -
  have v: "eval env l row \<in> {Ok GNil, Ok (GBool True), Ok (GBool False)}" "eval env r row \<in> {Ok GNil, Ok (GBool True), Ok (GBool False)}"
    "etype l = Ok Boolean" "etype r = Ok Boolean" "\<not> is_Tuple l" "\<not> is_Tuple r"
    using assms(1,2,4) by (auto simp: condition_on_def)
  note lits = condition_literal [OF assms(1,3)] condition_literal [OF assms(2,3)]
  have "etype e' = Ok Boolean \<and> \<not> is_Tuple e' \<and> eval env e' row = And_Eval (eval env l row) (eval env r row)"
    using assms(5) v lits by (auto simp: And_Eval_bool split: if_splits)
  then show ?thesis by (cases e') (auto simp: alike_def alike1_def)
qed

lemma pure_literal [simp]: "pure (Literal v t)"
  by (subst pure_iff) (simp add: compositional_def)

lemma fold_default:
  assumes "foldable1 env R e" "pure e" "R \<noteq> {}" "\<not> is_Tuple e"
  shows "\<exists>e'. (if \<not> isEvaluable e then Ok e
      else case eval env e [] of Ok v \<Rightarrow> rbind (etype e) (\<lambda>t. Ok (Literal v t)) | Err _ \<Rightarrow> Ok e | Panic \<Rightarrow> Panic) = Ok e'
    \<and> pure e' \<and> (\<forall>row \<in> R. alike env row row e e')"
proof (cases "isEvaluable e")
  case True
  obtain t where t: "etype e = Ok t" using assms(1) by (auto simp: foldable1_def)
  have same: "eval env e row = eval env e []" for row
    using row_independent [OF assms(2) True, of env "[]" row] by (simp add: alike_def alike1_def)
  moreover have "eval env e [] \<noteq> Panic" using assms(1,3) same by (metis all_not_in_conv foldable1_def)
  ultimately show ?thesis
    using True t assms(2,4) by (cases "eval env e []") (auto simp: alike_def alike1_def)
qed (use assms(2) in simp)

lemma fold_node_alike:
  assumes "foldable1 env R e" "pure e" "R \<noteq> {}"
  shows "\<exists>e'. fold_node env e = Ok e' \<and> pure e' \<and> (\<forall>row \<in> R. alike env row row e e')"
proof -
  consider (And) l r where "e = And l r" | (Tuple) "is_Tuple e" | (Literal) v t where "e = Literal v t"
    | (default) "fold_node env e = (if \<not> isEvaluable e then Ok e
        else case eval env e [] of Ok v \<Rightarrow> rbind (etype e) (\<lambda>t. Ok (Literal v t)) | Err _ \<Rightarrow> Ok e | Panic \<Rightarrow> Panic)" "\<not> is_Tuple e"
    using assms(1) by (cases e) (auto simp: foldable1_def)
  then show ?thesis
  proof cases
    case And
    then have b: "condition_on env R l" "condition_on env R r" and p: "pure l" "pure r"
      using assms pure_iff [of "And l r"] by (auto simp: foldable1_def)
    obtain e' where e': "fold_node env e = Ok e'" and "e' \<in> {l, r, e}" using And by auto
    then have "pure e'" using p assms(2) by auto
    with e' show ?thesis using fold_And [OF b assms(3)] And by blast
  next
    case Tuple
    then show ?thesis using assms(2) by (cases e) auto
  next
    case Literal
    then show ?thesis by simp
  next
    case default
    then show ?thesis using fold_default [OF assms default(2)] by simp
  qed
qed

fun is_And :: "expr \<Rightarrow> bool" where
  "is_And (And _ _) = True"
| "is_And _ = False"

lemma with_children_compositional: "with_children e cs = Ok e1 \<Longrightarrow> compositional e \<Longrightarrow> compositional e1"
  by (cases e) (auto simp: with_children_def children_number_def compositional_def Let_def split: if_splits)

lemma with_children_Or: "with_children e cs = Ok e1 \<Longrightarrow> is_Or e1 = is_Or e"
  by (cases e) (auto simp: with_children_def children_number_def Let_def split: if_splits)

lemma with_children_And: "with_children e cs = Ok e1 \<Longrightarrow> is_And e1 = is_And e"
  by (cases e) (auto simp: with_children_def children_number_def Let_def split: if_splits)

lemma condition_alike: "condition_on env R e \<Longrightarrow> \<forall>row \<in> R. alike env row row e e' \<Longrightarrow> R \<noteq> {} \<Longrightarrow> condition_on env R e'"
  by (auto simp: condition_on_def alike_def alike1_def)

lemma foldable1_rebuilt:
  assumes "foldable1 env R e" "with_children e cs = Ok e1" "\<forall>row \<in> R. alike env row row e e1" "R \<noteq> {}"
    "\<forall>row \<in> R. list_all2 (alike env row row) (children e) cs" "compositional e"
  shows "foldable1 env R e1"
proof -
  have "condition_on env R l' \<and> condition_on env R r'" if e1: "e1 = And l' r'" for l' r'
  proof -
    have "is_And e" using with_children_And [OF assms(2)] e1 by simp
    then obtain l r where e: "e = And l r" by (cases e) auto
    moreover have "cs = [l', r']" using children_with_children [OF assms(2)] e1 by simp
    ultimately have "\<forall>row \<in> R. alike env row row l l'" "\<forall>row \<in> R. alike env row row r r'" using assms(5) by auto
    moreover have "condition_on env R l" "condition_on env R r" using assms(1) e by (auto simp: foldable1_def)
    ultimately show ?thesis using condition_alike assms(4) by blast
  qed
  moreover obtain row where "row \<in> R" using assms(4) by blast
  then have "etype e1 = etype e" using assms(3) by (auto simp: alike_def alike1_def)
  moreover have "\<forall>row \<in> R. eval env e1 row \<noteq> Panic"
    using assms(1,3) by (auto simp: foldable1_def alike_def alike1_def)
  ultimately show ?thesis
    using assms(1) with_children_compositional [OF assms(2,6)] with_children_Or [OF assms(2)]
    by (simp add: foldable1_def)
qed

lemma alike_children_rows:
  assumes "compositional e" "\<forall>row \<in> R. list_all2 (alike env row row) (children e) cs" "R \<noteq> {}"
  shows "\<exists>e1. with_children e cs = Ok e1 \<and> (\<forall>row \<in> R. alike env row row e e1)"
proof -
  have each: "\<exists>e1. with_children e cs = Ok e1 \<and> alike env row row e e1" if "row \<in> R" for row
    using alike_with_children [OF assms(1), of env row row cs] assms(2) that by blast
  obtain row0 where "row0 \<in> R" using assms(3) by blast
  then obtain e1 where e1: "with_children e cs = Ok e1" using each by blast
  have "alike env row row e e1" if "row \<in> R" for row using each [OF that] e1 by auto
  with e1 show ?thesis by blast
qed

lemma fold_alike:
  assumes "R \<noteq> {}"
  shows "foldable env R e \<Longrightarrow> \<exists>e'. transform_up (fold_node env) e = Ok e' \<and> pure e' \<and> (\<forall>row \<in> R. alike env row row e e')"
proof (induction e rule: measure_induct_rule [of size])
  case (less e)
  have "\<exists>cs. rmap (transform_up (fold_node env)) (children e) = Ok cs \<and> (\<forall>c \<in> set cs. pure c)
      \<and> (\<forall>row \<in> R. list_all2 (alike env row row) (children e) cs)"
  proof -
    have "\<forall>c \<in> set (children e). \<exists>c'. transform_up (fold_node env) c = Ok c' \<and> pure c' \<and> (\<forall>row \<in> R. alike env row row c c')"
      using less by (auto simp: foldable_iff [of env R e] children_size)
    then obtain g where g: "\<forall>c \<in> set (children e). transform_up (fold_node env) c = Ok (g c) \<and> pure (g c)
        \<and> (\<forall>row \<in> R. alike env row row c (g c))" by metis
    then have "rmap (transform_up (fold_node env)) (children e) = Ok (map g (children e))" by (intro rmap_Ok_map) auto
    with g show ?thesis by (auto simp: list_all2_map2 list_all2_same)
  qed
  then obtain cs where cs: "rmap (transform_up (fold_node env)) (children e) = Ok cs" "\<forall>c \<in> set cs. pure c"
    "\<forall>row \<in> R. list_all2 (alike env row row) (children e) cs" by blast
  have f1: "foldable1 env R e" using less.prems by (simp add: foldable_iff [of env R e])
  show ?case
  proof (cases "children e = []")
    case True
    then have "pure e" using f1 pure_iff [of e] by (simp add: foldable1_def)
    then show ?thesis using fold_node_alike [OF f1 _ assms] True by (simp add: transform_up.simps [of _ e])
  next
    case False
    then have comp: "compositional e" using f1 by (cases e) (auto simp: foldable1_def)
    obtain e1 where e1: "with_children e cs = Ok e1" "\<forall>row \<in> R. alike env row row e e1"
      using alike_children_rows [OF comp cs(3) assms] by blast
    have "pure e1"
      using with_children_compositional [OF e1(1) comp] cs(2) children_with_children [OF e1(1)] pure_iff [of e1] by simp
    then obtain e' where "fold_node env e1 = Ok e'" "pure e'" "\<forall>row \<in> R. alike env row row e1 e'"
      using fold_node_alike foldable1_rebuilt [OF f1 e1 assms cs(3) comp] assms by blast
    with e1 cs(1) False show ?thesis by (auto simp: transform_up.simps [of _ e] intro: alike_trans)
  qed
qed

lemma fold_filter_same:
  assumes "foldable env R cond" "R \<noteq> {}" "evalFilter env cond = Ok (NewFilter e)" "row \<in> R"
  shows "EvaluateCondition env e row = EvaluateCondition env cond row"
proof -
  obtain e' where "transform_up (fold_node env) cond = Ok e'" "\<forall>row \<in> R. alike env row row cond e'"
    using fold_alike [OF assms(2,1)] by blast
  with assms(3,4) show ?thesis
    by (auto simp: evalFilter_def EvaluateCondition_def alike_def alike1_def split: if_splits)
qed

section \<open>Properties\<close>


definition null_check :: expr where
  "null_check = And (Literal (GBool True) Boolean) (IsNull (GetField 0 Int64 ''t'' ''a'' True))"

lemma null_check_foldable: "foldable cast_env {[GNil], [GInt64 1]} null_check"
proof -
  let ?R = "{[GNil], [GInt64 1]}"
  show ?thesis
    unfolding null_check_def
    by (simp add: foldable_iff [of cast_env ?R "And _ _"] foldable_iff [of cast_env ?R "IsNull _"]
        foldable_iff [of cast_env ?R "Literal _ _"] foldable_iff [of cast_env ?R "GetField _ _ _ _ _"] foldable1_def
        compositional_def condition_on_def And_Eval_def truth_is_def IsNull_Eval_def GetField_Eval_def)
qed


text \<open>With OR the folding is not faithful: \<^verbatim>\<open>FALSE OR NULL\<close> is false but is folded to its NULL operand.\<close>

lemma evalFilter_changes_or:
  "EvaluateCondition env (Not (Or (Literal (GBool False) Boolean) (GetField 0 Boolean ''t'' ''a'' True))) [GNil] = Ok True
   \<and> evalFilter env (Not (Or (Literal (GBool False) Boolean) (GetField 0 Boolean ''t'' ''a'' True))) =
     Ok (NewFilter (Not (GetField 0 Boolean ''t'' ''a'' True)))
   \<and> EvaluateCondition env (Not (GetField 0 Boolean ''t'' ''a'' True)) [GNil] = Ok False"
  by (simp add: evalFilter_def transform_up.simps with_children_def children_number_def isEvaluable_def containsColumns_def
      inspect.simps EvaluateCondition_def Or_Eval_def truth_is_def Not_Eval_def GetField_Eval_def ConvertToBool_def condition_value_def)

text \<open>AND is associative, so that regrouping conjuncts does not change a condition, errors included.\<close>

lemma And_Eval_assoc: "And_Eval (And_Eval a b) c = And_Eval a (And_Eval b c)"
proof (cases a)
  case (Ok x)
  note a = this
  show ?thesis
  proof (cases b)
    case (Ok y)
    then show ?thesis
      using a by (cases c) (auto simp: And_Eval_def truth_is_def ConvertToBool_def)
  qed (use a in \<open>auto simp: And_Eval_def truth_is_def ConvertToBool_def\<close>)
qed (simp_all add: And_Eval_def)

definition conj_value :: "genv \<Rightarrow> row \<Rightarrow> expr list \<Rightarrow> gval res" where
  "conj_value env row es = eval env (the (JoinAnd es)) row"

lemma fold_And_eval: "eval env (fold (\<lambda>e acc. And acc e) es a) row = fold (\<lambda>e acc. And_Eval acc (eval env e row)) es (eval env a row)"
  by (induction es arbitrary: a) simp_all

lemma fold_And_Eval_left: "And_Eval x (fold (\<lambda>e acc. And_Eval acc (v e)) es y) = fold (\<lambda>e acc. And_Eval acc (v e)) es (And_Eval x y)"
  by (induction es arbitrary: y) (simp_all add: And_Eval_assoc)

lemma conj_value_fold: "conj_value env row (e # es) = fold (\<lambda>e acc. And_Eval acc (eval env e row)) es (eval env e row)"
  by (cases es) (simp_all add: conj_value_def fold_And_eval)

lemma conj_value_append:
  "es \<noteq> [] \<Longrightarrow> fs \<noteq> [] \<Longrightarrow> conj_value env row (es @ fs) = And_Eval (conj_value env row es) (conj_value env row fs)"
  by (cases es; cases fs) (simp_all add: conj_value_fold fold_And_Eval_left)

lemma splitConjunction_nonempty [simp]: "splitConjunction e \<noteq> []"
  by (induction e rule: splitConjunction.induct) auto

lemma split_join_value: "conj_value env row (splitConjunction e) = eval env e row"
  by (induction e rule: splitConjunction.induct) (simp_all add: conj_value_append, simp_all add: conj_value_def)

abbreviation accepts :: "genv \<Rightarrow> row \<Rightarrow> expr \<Rightarrow> bool" where
  "accepts env row e \<equiv> EvaluateCondition env e row = Ok True"

lemma accepts_split:
  assumes "\<forall>c \<in> set (splitConjunction e). eval env c row \<in> {Ok GNil, Ok (GBool True), Ok (GBool False)}"
  shows "eval env e row \<in> {Ok GNil, Ok (GBool True), Ok (GBool False)} \<and>
    (accepts env row e \<longleftrightarrow> (\<forall>c \<in> set (splitConjunction e). accepts env row c))"
  using assms
proof (induction e rule: splitConjunction.induct)
  case (1 l r)
  from 1 have v: "eval env l row \<in> {Ok GNil, Ok (GBool True), Ok (GBool False)}"
    "eval env r row \<in> {Ok GNil, Ok (GBool True), Ok (GBool False)}" by auto
  then have "accepts env row (And l r) \<longleftrightarrow> accepts env row l \<and> accepts env row r"
    "eval env (And l r) row \<in> {Ok GNil, Ok (GBool True), Ok (GBool False)}"
    by (auto simp: EvaluateCondition_def And_Eval_def truth_is_def)
  with 1 show ?case by auto
qed auto

lemma getUnhandled_set: "set (getUnhandledFilters fs handled) = set fs - set handled"
  by (induction fs) (auto simp: list_ex_iff)

text \<open>(C10) Taking a condition apart keeps it. Joining the conjuncts again gives the same value on every row, errors
  included; a row is accepted exactly when every conjunct accepts it; and so when the conjuncts are divided between the two
  sides of a join and its condition, or between the table that handles some of them and the filter above it.\<close>

theorem split_conditions:
  assumes "\<forall>c \<in> set (splitConjunction cond). eval env c row \<in> {Ok GNil, Ok (GBool True), Ok (GBool False)}"
    "set handled \<subseteq> set (splitConjunction cond)" "move_conditions lsrc rsrc cond = (ls, rs, cs)"
  shows "eval env (the (JoinAnd (splitConjunction cond))) row = eval env cond row
    \<and> (accepts env row cond \<longleftrightarrow> (\<forall>c \<in> set (splitConjunction cond). accepts env row c))
    \<and> (accepts env row cond \<longleftrightarrow> (\<forall>c \<in> set ls \<union> set rs \<union> set cs. accepts env row c))
    \<and> (accepts env row cond \<longleftrightarrow>
         (\<forall>c \<in> set handled \<union> set (getUnhandledFilters (splitConjunction cond) handled). accepts env row c))"
proof -
  have "set ls \<union> set rs \<union> set cs = set (splitConjunction cond)" using assms(3) by (auto simp: move_conditions_def Let_def)
  moreover have "set handled \<union> set (getUnhandledFilters (splitConjunction cond) handled) = set (splitConjunction cond)"
    using assms(2) by (auto simp: getUnhandled_set)
  ultimately show ?thesis using accepts_split [OF assms(1)] split_join_value [of env row cond] by (simp add: conj_value_def)
qed

theorem split_conditions_witness: "accepts cast_env [GNil] null_check"
  using split_conditions [of null_check cast_env "[GNil]" "[]" "[]" "[]" "[Literal (GBool True) Boolean]"
    "[Literal (GBool True) Boolean]" "[IsNull (GetField 0 Int64 ''t'' ''a'' True)]"]
  by (simp add: null_check_def move_conditions_def expressionSources_def field_table_def inspect.simps map_filter_simps
      containsSources_def EvaluateCondition_def IsNull_Eval_def GetField_Eval_def)

end
