(* ===== verification/Memory_Index.thy ===== *)
theory Memory_Index
  imports Index_Registry Optimizer
begin

text \<open>
  Index lookups. The interfaces \<^verbatim>\<open>Index\<close>, \<^verbatim>\<open>AscendIndex\<close>, \<^verbatim>\<open>DescendIndex\<close>, \<^verbatim>\<open>NegateIndex\<close>, \<^verbatim>\<open>Mergeable\<close> and
  \<^verbatim>\<open>SetOperations\<close> of \<^verbatim>\<open>sql/index.go\<close> are a record of operations, with what the analyzer relies on as the locale
  \<open>lookups\<close>. The indexes of the memory package (\<^verbatim>\<open>memory/mergeable_index.go\<close>, \<^verbatim>\<open>unmergeable_index.go\<close>,
  \<^verbatim>\<open>ascend_index.go\<close>, \<^verbatim>\<open>descend_index.go\<close>, \<^verbatim>\<open>negative_index.go\<close>) implement it: a lookup is kept as an expression that is
  evaluated on every row of the partition.

  A driver returns an error or a lookup that is not nil. The expressions of an index object are the argument \<open>ex\<close>.
\<close>

section \<open>The interfaces\<close>

record 'l index_ops =
  io_Ascend :: "index \<Rightarrow> bool"
  io_Descend :: "index \<Rightarrow> bool"
  io_Negate :: "index \<Rightarrow> bool"
  io_Get :: "index \<Rightarrow> gval list \<Rightarrow> 'l res"
  io_AscendGreaterOrEqual :: "index \<Rightarrow> gval list \<Rightarrow> 'l res"
  io_AscendLessThan :: "index \<Rightarrow> gval list \<Rightarrow> 'l res"
  io_AscendRange :: "index \<Rightarrow> gval list \<Rightarrow> gval list \<Rightarrow> 'l res"
  io_DescendGreater :: "index \<Rightarrow> gval list \<Rightarrow> 'l res"
  io_DescendLessOrEqual :: "index \<Rightarrow> gval list \<Rightarrow> 'l res"
  io_DescendRange :: "index \<Rightarrow> gval list \<Rightarrow> gval list \<Rightarrow> 'l res"
  io_Not :: "index \<Rightarrow> gval list \<Rightarrow> 'l res"
  io_Mergeable :: "'l \<Rightarrow> 'l \<Rightarrow> bool"
  io_SetOperations :: "'l \<Rightarrow> bool"
  io_Union :: "'l \<Rightarrow> 'l \<Rightarrow> 'l"
  io_Intersection :: "'l \<Rightarrow> 'l \<Rightarrow> 'l"

definition canMergeIndexes :: "'l index_ops \<Rightarrow> 'l \<Rightarrow> 'l \<Rightarrow> bool" where
  "canMergeIndexes ops a b \<longleftrightarrow> io_Mergeable ops a b \<and> io_SetOperations ops a"

text \<open>
  What the analyzer relies on, for one row: \<open>key idx\<close> is the value of the indexed expression in that row, \<open>sat l\<close> says that
  reading the lookup does not pass over the row. The laws are on BIGINT keys of indexes with one expression.
\<close>

locale lookups =
  fixes ops :: "'l index_ops" and good :: "index \<Rightarrow> bool" and key :: "index \<Rightarrow> 64 word option" and sat :: "'l \<Rightarrow> bool"
  assumes Get_sat: "good idx \<Longrightarrow> io_Get ops idx [GInt64 b] = Ok l \<Longrightarrow> key idx = Some b \<Longrightarrow> sat l"
    and Not_sat: "good idx \<Longrightarrow> io_Not ops idx [v] = Ok l \<Longrightarrow> key idx = Some a \<Longrightarrow> v = GNil \<or> v = GInt64 b \<and> a \<noteq> b \<Longrightarrow> sat l"
    and AscendGreaterOrEqual_sat:
      "good idx \<Longrightarrow> io_AscendGreaterOrEqual ops idx [GInt64 b] = Ok l \<Longrightarrow> key idx = Some a \<Longrightarrow> sint b \<le> sint a \<Longrightarrow> sat l"
    and AscendLessThan_sat:
      "good idx \<Longrightarrow> io_AscendLessThan ops idx [GInt64 b] = Ok l \<Longrightarrow> key idx = Some a \<Longrightarrow> sint a < sint b \<Longrightarrow> sat l"
    and DescendGreater_sat:
      "good idx \<Longrightarrow> io_DescendGreater ops idx [GInt64 b] = Ok l \<Longrightarrow> key idx = Some a \<Longrightarrow> sint b < sint a \<Longrightarrow> sat l"
    and DescendLessOrEqual_sat:
      "good idx \<Longrightarrow> io_DescendLessOrEqual ops idx [GInt64 b] = Ok l \<Longrightarrow> key idx = Some a \<Longrightarrow> sint a \<le> sint b \<Longrightarrow> sat l"
    and AscendRange_sat:
      "good idx \<Longrightarrow> io_AscendRange ops idx [GInt64 b] [GInt64 c] = Ok l \<Longrightarrow> key idx = Some a \<Longrightarrow> sint b \<le> sint a \<Longrightarrow>
       sint a < sint c \<Longrightarrow> sat l"
    and DescendRange_sat:
      "good idx \<Longrightarrow> io_DescendRange ops idx [GInt64 c] [GInt64 b] = Ok l \<Longrightarrow> key idx = Some a \<Longrightarrow> sint b < sint a \<Longrightarrow>
       sint a \<le> sint c \<Longrightarrow> sat l"
    and Union_sat: "io_Mergeable ops l1 l2 \<Longrightarrow> sat l1 \<or> sat l2 \<Longrightarrow> sat (io_Union ops l1 l2)"
    and Intersection_sat: "io_Mergeable ops l1 l2 \<Longrightarrow> sat l1 \<Longrightarrow> sat l2 \<Longrightarrow> sat (io_Intersection ops l1 l2)"

section \<open>The lookups of the memory package\<close>

text \<open>
  A \<^verbatim>\<open>MergedIndexLookup\<close> has exactly one of \<^verbatim>\<open>Unions\<close> and \<^verbatim>\<open>Intersections\<close>: it is made by \<^verbatim>\<open>union\<close> and \<^verbatim>\<open>intersection\<close> only.
\<close>

datatype mem_lookup =
    MergeableIndexLookup "gval list" index
  | AscendIndexLookup "gval list" "gval list" index
  | DescendIndexLookup "gval list" "gval list" index
  | NegateIndexLookup mem_lookup index
  | MergedUnions "mem_lookup list" index
  | MergedIntersections "mem_lookup list" index
  | UnmergeableIndexLookup "gval list" index

fun lookup_index :: "mem_lookup \<Rightarrow> index" where
  "lookup_index (MergeableIndexLookup _ idx) = idx"
| "lookup_index (AscendIndexLookup _ _ idx) = idx"
| "lookup_index (DescendIndexLookup _ _ idx) = idx"
| "lookup_index (NegateIndexLookup _ idx) = idx"
| "lookup_index (MergedUnions _ idx) = idx"
| "lookup_index (MergedIntersections _ idx) = idx"
| "lookup_index (UnmergeableIndexLookup _ idx) = idx"

text \<open>\<^verbatim>\<open>IsMergeable\<close> asks for the interface \<^verbatim>\<open>MergeableLookup\<close>, which only \<^verbatim>\<open>UnmergeableIndexLookup\<close> lacks.\<close>

fun is_Unmergeable :: "mem_lookup \<Rightarrow> bool" where
  "is_Unmergeable (UnmergeableIndexLookup _ _) = True"
| "is_Unmergeable _ = False"

fun merged_unions :: "mem_lookup \<Rightarrow> mem_lookup list" where
  "merged_unions (MergedUnions us idx) = (if us \<noteq> [] then us else [MergedUnions us idx])"
| "merged_unions l = [l]"

fun merged_intersections :: "mem_lookup \<Rightarrow> mem_lookup list" where
  "merged_intersections (MergedIntersections is idx) = (if is \<noteq> [] then is else [MergedIntersections is idx])"
| "merged_intersections l = [l]"

definition mem_union :: "index \<Rightarrow> mem_lookup \<Rightarrow> mem_lookup list \<Rightarrow> mem_lookup" where
  "mem_union idx left ls = MergedUnions (concat (map merged_unions (left # ls))) idx"

definition mem_intersection :: "index \<Rightarrow> mem_lookup \<Rightarrow> mem_lookup list \<Rightarrow> mem_lookup" where
  "mem_intersection idx left ls = MergedIntersections (concat (map merged_intersections (left # ls))) idx"

fun getType :: "gval \<Rightarrow> (gval \<times> stype) res" where
  "getType (GInt8 v) = Ok (GInt64 (scast v), Int64)"
| "getType (GUint8 v) = Ok (GInt64 (ucast v), Int64)"
| "getType (GInt16 v) = Ok (GInt64 (scast v), Int64)"
| "getType (GUint16 v) = Ok (GInt64 (ucast v), Int64)"
| "getType (GInt32 v) = Ok (GInt64 (scast v), Int64)"
| "getType (GUint32 v) = Ok (GInt64 (ucast v), Int64)"
| "getType (GInt64 v) = Ok (GInt64 v, Int64)"
| "getType (GUint64 v) = Ok (GInt64 v, Int64)"
| "getType (GFloat32 v) = Ok (GFloat64 (f64_of_f32 v), Float64)"
| "getType (GFloat64 v) = Ok (GFloat64 v, Float64)"
| "getType (GString s) = Ok (GString s, LongText)"
| "getType _ = Panic"

fun and_exprs :: "expr list \<Rightarrow> expr res" where
  "and_exprs [] = Panic"
| "and_exprs [e] = Ok e"
| "and_exprs (e # es) = rbind (and_exprs es) (\<lambda>r. Ok (And e r))"

fun or_exprs :: "expr list \<Rightarrow> expr res" where
  "or_exprs [] = Panic"
| "or_exprs [e] = Ok e"
| "or_exprs (e # es) = rbind (or_exprs es) (\<lambda>r. Ok (Or e r))"

text \<open>The expressions of an index compared with the values of a key; \<open>lit\<close> makes the literal.\<close>

fun key_equals :: "(expr \<Rightarrow> gval \<Rightarrow> (gval \<times> stype) res) \<Rightarrow> expr list \<Rightarrow> gval list \<Rightarrow> expr list res" where
  "key_equals lit [] ks = Ok []"
| "key_equals lit (e # es) [] = Panic"
| "key_equals lit (e # es) (k # ks) =
     rbind (lit e k) (\<lambda>(v, t). rbind (key_equals lit es ks) (\<lambda>r. Ok (Equals e (Literal v t) # r)))"

definition bound_expr :: "(expr \<Rightarrow> expr \<Rightarrow> expr) \<Rightarrow> expr list \<Rightarrow> gval list \<Rightarrow> expr option res" where
  "bound_expr cmp es ks =
     (case ks of [] \<Rightarrow> Ok None
      | k # _ \<Rightarrow> rbind (getType k) (\<lambda>(v, t). rbind (slice_at es 0) (\<lambda>e. Ok (Some (cmp e (Literal v t))))))"

definition range_expr :: "(expr \<Rightarrow> expr \<Rightarrow> expr) \<Rightarrow> (expr \<Rightarrow> expr \<Rightarrow> expr) \<Rightarrow> expr list \<Rightarrow> gval list \<Rightarrow> gval list \<Rightarrow> expr res" where
  "range_expr lt gt es uppers lowers =
     (if length es > 1 then Panic
      else rbind (bound_expr lt es uppers) (\<lambda>u. rbind (bound_expr gt es lowers) (\<lambda>l.
        case (u, l) of
          (Some x, Some y) \<Rightarrow> and_exprs [x, y]
        | (Some x, None) \<Rightarrow> Ok x
        | (None, Some y) \<Rightarrow> Ok y
        | (None, None) \<Rightarrow> Panic)))"

fun EvalExpression :: "(index \<Rightarrow> expr list) \<Rightarrow> mem_lookup \<Rightarrow> expr res" where
  "EvalExpression ex (MergeableIndexLookup ks idx) = rbind (key_equals (\<lambda>e. getType) (ex idx) ks) and_exprs"
| "EvalExpression ex (AscendIndexLookup gte lt idx) = range_expr LessThan GreaterThanOrEqual (ex idx) lt gte"
| "EvalExpression ex (DescendIndexLookup gt lte idx) = range_expr LessThanOrEqual GreaterThan (ex idx) lte gt"
| "EvalExpression ex (NegateIndexLookup l idx) = rbind (EvalExpression ex l) (\<lambda>e. Ok (Not e))"
| "EvalExpression ex (MergedUnions us idx) = rbind (rmap (EvalExpression ex) us) or_exprs"
| "EvalExpression ex (MergedIntersections is idx) = rbind (rmap (EvalExpression ex) is) and_exprs"
| "EvalExpression ex (UnmergeableIndexLookup _ _) = Panic"

text \<open>
  \<^verbatim>\<open>Values\<close> gives the key's literals the types of the expressions where it is not a merged lookup. The iterator then
  evaluates the expression on every row of the partition and returns the encoded positions of those it accepts.
\<close>

definition matchExpression :: "(index \<Rightarrow> expr list) \<Rightarrow> mem_lookup \<Rightarrow> expr res" where
  "matchExpression ex l =
     (let typed = (\<lambda>ks idx. rbind (key_equals (\<lambda>e k. rbind (etype e) (\<lambda>t. Ok (k, t))) (ex idx) ks) and_exprs) in
      case l of
        MergeableIndexLookup ks idx \<Rightarrow> typed ks idx
      | UnmergeableIndexLookup ks idx \<Rightarrow> typed ks idx
      | _ \<Rightarrow> EvalExpression ex l)"

fun index_positions :: "genv \<Rightarrow> expr \<Rightarrow> nat \<Rightarrow> row list \<Rightarrow> nat list res" where
  "index_positions env m i [] = Ok []"
| "index_positions env m i (row # rows) =
     rbind (EvaluateCondition env m row) (\<lambda>b.
       rbind (index_positions env m (Suc i) rows) (\<lambda>ps. Ok (if b then i # ps else ps)))"

definition mem_Values :: "genv \<Rightarrow> (index \<Rightarrow> expr list) \<Rightarrow> mem_lookup \<Rightarrow> (string \<rightharpoonup> row list) \<Rightarrow> string \<Rightarrow> nat list res" where
  "mem_Values env ex l partitions p =
     rbind (matchExpression ex l) (\<lambda>m.
       case partitions p of
         None \<Rightarrow> Err (MemErr (ErrPartitionNotFound p))
       | Some rows \<Rightarrow> index_positions env m 0 rows)"

text \<open>The operations of the indexes: \<open>mergeable idx\<close> tells a \<^verbatim>\<open>MergeableIndex\<close> from an \<^verbatim>\<open>UnmergeableIndex\<close>.\<close>

definition memory_ops :: "(index \<Rightarrow> bool) \<Rightarrow> mem_lookup index_ops" where
  "memory_ops mergeable =
     \<lparr> io_Ascend = mergeable, io_Descend = mergeable, io_Negate = mergeable,
       io_Get = (\<lambda>idx ks. Ok (if mergeable idx then MergeableIndexLookup ks idx else UnmergeableIndexLookup ks idx)),
       io_AscendGreaterOrEqual = (\<lambda>idx ks. Ok (AscendIndexLookup ks [] idx)),
       io_AscendLessThan = (\<lambda>idx ks. Ok (AscendIndexLookup [] ks idx)),
       io_AscendRange = (\<lambda>idx gte lt. Ok (AscendIndexLookup gte lt idx)),
       io_DescendGreater = (\<lambda>idx ks. Ok (DescendIndexLookup ks [] idx)),
       io_DescendLessOrEqual = (\<lambda>idx ks. Ok (DescendIndexLookup [] ks idx)),
       io_DescendRange = (\<lambda>idx lte gt. Ok (DescendIndexLookup gt lte idx)),
       io_Not = (\<lambda>idx ks. Ok (NegateIndexLookup (MergeableIndexLookup ks idx) idx)),
       io_Mergeable = (\<lambda>a b. \<not> is_Unmergeable a \<and> \<not> is_Unmergeable b),
       io_SetOperations = (\<lambda>a. \<not> is_Unmergeable a),
       io_Union = (\<lambda>a b. mem_union (lookup_index a) a [b]),
       io_Intersection = (\<lambda>a b. mem_intersection (lookup_index a) a [b]) \<rparr>"

section \<open>The memory package implements the interfaces\<close>

text \<open>
  The expression of a lookup evaluates to a truth value or fails. A row is not passed over when it is accepted or the
  evaluation fails, in which case the scan fails too.
\<close>

definition logical :: "gval res \<Rightarrow> bool" where
  "logical r \<longleftrightarrow> r \<in> {Ok GNil, Ok (GBool True), Ok (GBool False)} \<or> \<not> is_Ok r"

definition not_passed :: "gval res \<Rightarrow> bool" where
  "not_passed r \<longleftrightarrow> r = Ok (GBool True) \<or> \<not> is_Ok r"

lemma not_passed_condition: "not_passed (eval env m row) \<Longrightarrow> EvaluateCondition env m row = Ok b \<Longrightarrow> b"
  by (cases "eval env m row") (auto simp: not_passed_def EvaluateCondition_def)

lemma not_passed_logical: "not_passed r \<Longrightarrow> logical r"
  by (auto simp: not_passed_def logical_def)

lemma logicalE:
  assumes "logical r"
  obtains "r = Ok GNil" | b where "r = Ok (GBool b)" | "\<not> is_Ok r"
  using assms by (auto simp: logical_def)

lemma compare_result_logical: "logical (compare_result p r)"
  by (auto simp: logical_def compare_result_def split: res.splits if_splits)

lemma logical_And: "logical l \<Longrightarrow> logical r \<Longrightarrow> logical (And_Eval l r)"
  by (cases l; cases r) (auto simp: logical_def And_Eval_def truth_is_def)

lemma logical_Or: "logical l \<Longrightarrow> logical r \<Longrightarrow> logical (Or_Eval l r)"
  by (cases l; cases r) (auto simp: logical_def Or_Eval_def truth_is_def)

lemma not_passed_And: "not_passed l \<Longrightarrow> not_passed r \<Longrightarrow> not_passed (And_Eval l r)"
  by (cases l; cases r) (auto simp: not_passed_def And_Eval_def truth_is_def)

lemma not_passed_Or: "logical l \<Longrightarrow> logical r \<Longrightarrow> not_passed l \<or> not_passed r \<Longrightarrow> not_passed (Or_Eval l r)"
  by (cases l; cases r) (auto simp: logical_def not_passed_def Or_Eval_def truth_is_def)

lemma logical_Not: "logical r \<Longrightarrow> logical (Not_Eval r)"
  by (cases r) (auto simp: logical_def Not_Eval_def)

lemma and_exprs_logical: "and_exprs ms = Ok m \<Longrightarrow> \<forall>m \<in> set ms. logical (eval env m row) \<Longrightarrow> logical (eval env m row)"
  by (induction ms arbitrary: m rule: and_exprs.induct) (auto simp: res_simps intro: logical_And)

lemma or_exprs_logical: "or_exprs ms = Ok m \<Longrightarrow> \<forall>m \<in> set ms. logical (eval env m row) \<Longrightarrow> logical (eval env m row)"
  by (induction ms arbitrary: m rule: or_exprs.induct) (auto simp: res_simps intro: logical_Or)

lemma and_exprs_not_passed:
  "and_exprs ms = Ok m \<Longrightarrow> \<forall>m \<in> set ms. not_passed (eval env m row) \<Longrightarrow> not_passed (eval env m row)"
  by (induction ms arbitrary: m rule: and_exprs.induct) (auto simp: res_simps intro: not_passed_And)

lemma or_exprs_not_passed:
  "or_exprs ms = Ok m \<Longrightarrow> \<forall>m \<in> set ms. logical (eval env m row) \<Longrightarrow> \<exists>m \<in> set ms. not_passed (eval env m row) \<Longrightarrow>
   not_passed (eval env m row)"
proof (induction ms arbitrary: m rule: or_exprs.induct)
  case (3 e e' es)
  then obtain m' where m': "or_exprs (e' # es) = Ok m'" "m = Or e m'" by (auto simp: res_simps)
  have "logical (eval env m' row)" using or_exprs_logical [OF m'(1)] "3.prems"(2) by auto
  moreover have "not_passed (eval env e row) \<or> not_passed (eval env m' row)"
    using "3.IH" [OF m'(1)] "3.prems"(2,3) by auto
  ultimately show ?case using not_passed_Or "3.prems"(2) m'(2) by auto
qed auto

lemma comparison_logical:
  "logical (eval env (Equals a b) row)" "logical (eval env (LessThan a b) row)" "logical (eval env (GreaterThan a b) row)"
  "logical (eval env (LessThanOrEqual a b) row)" "logical (eval env (GreaterThanOrEqual a b) row)"
  by (simp_all add: comparison_Eval_defs compare_result_logical)

lemma key_equals_logical: "key_equals lit es ks = Ok ms \<Longrightarrow> \<forall>m \<in> set ms. logical (eval env m row)"
  by (induction lit es ks arbitrary: ms rule: key_equals.induct) (auto simp: res_simps comparison_logical simp del: eval.simps)

lemma bound_expr_shape: "bound_expr cmp es ks = Ok (Some m) \<Longrightarrow> \<exists>a b. m = cmp a b"
  by (auto simp: bound_expr_def res_simps split: list.splits prod.splits)

lemma range_expr_logical:
  assumes "range_expr lt gt es us ls = Ok m"
    "\<And>a b. logical (eval env (lt a b) row)" "\<And>a b. logical (eval env (gt a b) row)"
  shows "logical (eval env m row)"
  using assms(1) by (auto simp: range_expr_def res_simps split: option.splits if_splits
      dest!: bound_expr_shape intro!: assms(2,3) logical_And)

lemma rmap_Ok_mem: "rmap f xs = Ok ys \<Longrightarrow> y \<in> set ys \<Longrightarrow> \<exists>x \<in> set xs. f x = Ok y"
  by (induction xs arbitrary: ys) (auto simp: res_simps)

lemma EvalExpression_logical: "EvalExpression ex l = Ok m \<Longrightarrow> logical (eval env m row)"
proof (induction l arbitrary: m)
  case (MergeableIndexLookup ks idx)
  then obtain ms where ms: "key_equals (\<lambda>e. getType) (ex idx) ks = Ok ms" "and_exprs ms = Ok m" by (auto simp: res_simps)
  then show ?case using and_exprs_logical [OF ms(2) key_equals_logical [OF ms(1)]] by blast
next
  case (AscendIndexLookup gte lt idx)
  then show ?case using range_expr_logical comparison_logical by (metis EvalExpression.simps(2))
next
  case (DescendIndexLookup gt lte idx)
  then show ?case using range_expr_logical comparison_logical by (metis EvalExpression.simps(3))
next
  case (NegateIndexLookup l idx)
  then show ?case by (auto simp: res_simps intro: logical_Not)
next
  case (MergedUnions us idx)
  then obtain ms where ms: "rmap (EvalExpression ex) us = Ok ms" "or_exprs ms = Ok m" by (auto simp: res_simps)
  have "\<forall>m \<in> set ms. logical (eval env m row)"
    using rmap_Ok_mem [OF ms(1)] MergedUnions.IH by blast
  with ms(2) show ?case by (rule or_exprs_logical)
next
  case (MergedIntersections us idx)
  then obtain ms where ms: "rmap (EvalExpression ex) us = Ok ms" "and_exprs ms = Ok m" by (auto simp: res_simps)
  have "\<forall>m \<in> set ms. logical (eval env m row)"
    using rmap_Ok_mem [OF ms(1)] MergedIntersections.IH by blast
  with ms(2) show ?case by (rule and_exprs_logical)
qed simp

definition mem_sat :: "genv \<Rightarrow> (index \<Rightarrow> expr list) \<Rightarrow> row \<Rightarrow> mem_lookup \<Rightarrow> bool" where
  "mem_sat env ex row l \<longleftrightarrow> (\<forall>m. EvalExpression ex l = Ok m \<or> matchExpression ex l = Ok m \<longrightarrow> not_passed (eval env m row))"

definition mem_good :: "genv \<Rightarrow> (index \<Rightarrow> expr list) \<Rightarrow> row \<Rightarrow> (index \<Rightarrow> 64 word option) \<Rightarrow> index \<Rightarrow> bool" where
  "mem_good env ex row key idx \<longleftrightarrow> cast_laws env \<and>
     (\<exists>x. ex idx = [x] \<and> etype x = Ok Int64 \<and> eval env x row = Ok (case key idx of None \<Rightarrow> GNil | Some a \<Rightarrow> GInt64 a))"

lemma not_passed_Or_iff: "logical l \<Longrightarrow> logical r \<Longrightarrow> not_passed (Or_Eval l r) \<Longrightarrow> not_passed l \<or> not_passed r"
  by (cases l; cases r) (auto simp: logical_def not_passed_def Or_Eval_def truth_is_def)

lemma or_exprs_not_passedD:
  "or_exprs ms = Ok m \<Longrightarrow> \<forall>m \<in> set ms. logical (eval env m row) \<Longrightarrow> not_passed (eval env m row) \<Longrightarrow>
   \<exists>m \<in> set ms. not_passed (eval env m row)"
proof (induction ms arbitrary: m rule: or_exprs.induct)
  case (3 e e' es)
  then obtain m' where m': "or_exprs (e' # es) = Ok m'" "m = Or e m'" by (auto simp: res_simps)
  have "logical (eval env m' row)" using or_exprs_logical [OF m'(1)] "3.prems"(2) by auto
  then have "not_passed (eval env e row) \<or> not_passed (eval env m' row)"
    using not_passed_Or_iff "3.prems"(2,3) m'(2) by auto
  then show ?case using "3.IH" [OF m'(1)] "3.prems"(2) by auto
qed auto

lemma or_exprs_total: "ms \<noteq> [] \<Longrightarrow> \<exists>m. or_exprs ms = Ok m"
  by (induction ms rule: or_exprs.induct) auto

lemma and_exprs_total: "ms \<noteq> [] \<Longrightarrow> \<exists>m. and_exprs ms = Ok m"
  by (induction ms rule: and_exprs.induct) auto

lemma rmap_Eval_logical: "rmap (EvalExpression ex) ls = Ok ms \<Longrightarrow> \<forall>m \<in> set ms. logical (eval env m row)"
  using rmap_Ok_mem [of "EvalExpression ex" ls ms] EvalExpression_logical by blast

lemma rmap_append: "rmap f (xs @ ys) = rbind (rmap f xs) (\<lambda>a. rbind (rmap f ys) (\<lambda>b. Ok (a @ b)))"
proof (induction xs)
  case Nil
  then show ?case by (cases "rmap f ys") auto
next
  case (Cons x xs)
  then show ?case by (cases "f x"; cases "rmap f xs"; cases "rmap f ys") auto
qed

lemma merged_unions_sat:
  assumes "rmap (EvalExpression ex) (merged_unions l) = Ok ms" "mem_sat env ex row l"
  shows "\<exists>m \<in> set ms. not_passed (eval env m row)"
proof (cases "\<exists>us idx. l = MergedUnions us idx \<and> us \<noteq> []")
  case True
  then obtain us idx where l: "l = MergedUnions us idx" "us \<noteq> []" by blast
  with assms(1) have ms: "rmap (EvalExpression ex) us = Ok ms" by simp
  with l(2) have "ms \<noteq> []" by (auto dest: rmap_length)
  then obtain m where m: "or_exprs ms = Ok m" using or_exprs_total by blast
  with l ms assms(2) have "not_passed (eval env m row)" by (simp add: mem_sat_def)
  with or_exprs_not_passedD [OF m rmap_Eval_logical [OF ms]] show ?thesis by blast
next
  case False
  then have "merged_unions l = [l]" by (cases l) auto
  with assms show ?thesis by (auto simp: res_simps mem_sat_def)
qed

lemma merged_intersections_sat:
  assumes "rmap (EvalExpression ex) (merged_intersections l) = Ok ms" "mem_sat env ex row l"
  shows "\<exists>m. and_exprs ms = Ok m \<and> not_passed (eval env m row)"
proof (cases "\<exists>us idx. l = MergedIntersections us idx \<and> us \<noteq> []")
  case True
  then obtain us idx where l: "l = MergedIntersections us idx" "us \<noteq> []" by blast
  with assms(1) have ms: "rmap (EvalExpression ex) us = Ok ms" by simp
  with l(2) have "ms \<noteq> []" by (auto dest: rmap_length)
  then obtain m where m: "and_exprs ms = Ok m" using and_exprs_total by blast
  with l ms assms(2) show ?thesis by (simp add: mem_sat_def)
next
  case False
  then have "merged_intersections l = [l]" by (cases l) auto
  with assms show ?thesis by (auto simp: res_simps mem_sat_def)
qed

lemma and_exprs_append:
  "and_exprs as = Ok a \<Longrightarrow> and_exprs bs = Ok b \<Longrightarrow> and_exprs (as @ bs) = Ok m \<Longrightarrow>
   eval env m row = And_Eval (eval env a row) (eval env b row)"
proof (induction as arbitrary: a m rule: and_exprs.induct)
  case (2 e)
  then show ?case by (cases bs) (auto simp: res_simps)
next
  case (3 e e' es)
  then obtain a' m' where "and_exprs (e' # es) = Ok a'" "a = And e a'" "and_exprs ((e' # es) @ bs) = Ok m'" "m = And e m'"
    by (auto simp: res_simps)
  with "3.IH" [of a' m'] "3.prems"(2) show ?case by (simp add: And_Eval_assoc)
qed simp

lemma mem_sat_merged:
  "mem_sat env ex row (MergedUnions us idx) \<longleftrightarrow> (\<forall>m. EvalExpression ex (MergedUnions us idx) = Ok m \<longrightarrow> not_passed (eval env m row))"
  "mem_sat env ex row (MergedIntersections us idx) \<longleftrightarrow>
     (\<forall>m. EvalExpression ex (MergedIntersections us idx) = Ok m \<longrightarrow> not_passed (eval env m row))"
  by (auto simp: mem_sat_def matchExpression_def)

lemma mem_union_sat:
  assumes "mem_sat env ex row l1 \<or> mem_sat env ex row l2"
  shows "mem_sat env ex row (mem_union idx l1 [l2])"
proof -
  have "not_passed (eval env m row)"
    if "EvalExpression ex (MergedUnions (merged_unions l1 @ merged_unions l2) idx) = Ok m" for m
  proof -
    from that obtain ms where ms: "rmap (EvalExpression ex) (merged_unions l1 @ merged_unions l2) = Ok ms" "or_exprs ms = Ok m"
      by (auto simp: res_simps)
    then obtain m1 m2 where split: "rmap (EvalExpression ex) (merged_unions l1) = Ok m1"
      "rmap (EvalExpression ex) (merged_unions l2) = Ok m2" "ms = m1 @ m2"
      by (auto simp: rmap_append res_simps)
    then have "\<exists>m \<in> set ms. not_passed (eval env m row)"
      using assms merged_unions_sat [OF split(1), of env row] merged_unions_sat [OF split(2), of env row] by auto
    then show ?thesis using or_exprs_not_passed [OF ms(2) rmap_Eval_logical [OF ms(1)]] by blast
  qed
  then show ?thesis by (simp add: mem_union_def mem_sat_merged del: EvalExpression.simps)
qed

lemma mem_intersection_sat:
  assumes "mem_sat env ex row l1" "mem_sat env ex row l2"
  shows "mem_sat env ex row (mem_intersection idx l1 [l2])"
proof -
  have "not_passed (eval env m row)"
    if "EvalExpression ex (MergedIntersections (merged_intersections l1 @ merged_intersections l2) idx) = Ok m" for m
  proof -
    from that obtain ms where ms: "rmap (EvalExpression ex) (merged_intersections l1 @ merged_intersections l2) = Ok ms"
      "and_exprs ms = Ok m" by (auto simp: res_simps)
    then obtain m1 m2 where split: "rmap (EvalExpression ex) (merged_intersections l1) = Ok m1"
      "rmap (EvalExpression ex) (merged_intersections l2) = Ok m2" "ms = m1 @ m2"
      by (auto simp: rmap_append res_simps)
    obtain a b where ab: "and_exprs m1 = Ok a" "not_passed (eval env a row)" "and_exprs m2 = Ok b" "not_passed (eval env b row)"
      using merged_intersections_sat [OF split(1) assms(1)] merged_intersections_sat [OF split(2) assms(2)] by blast
    from and_exprs_append [OF ab(1,3)] ms(2) split(3) have "eval env m row = And_Eval (eval env a row) (eval env b row)" by simp
    with ab(2,4) show ?thesis by (simp add: not_passed_And)
  qed
  then show ?thesis by (simp add: mem_intersection_def mem_sat_merged del: EvalExpression.simps)
qed

text \<open>The comparisons of BIGINT operands, and with NULL.\<close>

lemma int64_comparison:
  assumes "cast_laws env" "etype x = Ok Int64" "etype y = Ok Int64" "eval env x row = Ok (GInt64 a)" "eval env y row = Ok (GInt64 b)"
  shows "eval env (Equals x y) row = Ok (GBool (a = b))"
    "eval env (LessThan x y) row = Ok (GBool (sint a < sint b))"
    "eval env (GreaterThan x y) row = Ok (GBool (sint b < sint a))"
    "eval env (LessThanOrEqual x y) row = Ok (GBool (sint a \<le> sint b))"
    "eval env (GreaterThanOrEqual x y) row = Ok (GBool (sint b \<le> sint a))"
proof -
  have "sint a = sint b \<longleftrightarrow> a = b" by (auto dest: signed_word_eqI)
  then show "eval env (Equals x y) row = Ok (GBool (a = b))"
    "eval env (LessThan x y) row = Ok (GBool (sint a < sint b))"
    "eval env (GreaterThan x y) row = Ok (GBool (sint b < sint a))"
    "eval env (LessThanOrEqual x y) row = Ok (GBool (sint a \<le> sint b))"
    "eval env (GreaterThanOrEqual x y) row = Ok (GBool (sint b \<le> sint a))"
    using assms(2-5) by (simp_all add: comparison_Eval_defs comparison_Compare_def compare_values_def type_eq_def
        compare_result_def int64_compare [OF assms(1)] cmp_int_def del: sql_compare.simps, linarith)
qed

lemma int64_comparison_nil:
  assumes "etype x = Ok Int64" "etype y = Ok Int64" "is_Ok (eval env x row)" "is_Ok (eval env y row)"
    "eval env x row = Ok GNil \<or> eval env y row = Ok GNil"
  shows "eval env (Equals x y) row = Ok GNil" "eval env (LessThan x y) row = Ok GNil" "eval env (GreaterThan x y) row = Ok GNil"
    "eval env (LessThanOrEqual x y) row = Ok GNil" "eval env (GreaterThanOrEqual x y) row = Ok GNil"
  using assms by (auto simp: comparison_Eval_defs comparison_Compare_def compare_result_def is_Ok_iff)

lemma mem_goodE:
  assumes "mem_good env ex row key idx" "key idx = Some a"
  obtains x where "cast_laws env" "ex idx = [x]" "etype x = Ok Int64" "eval env x row = Ok (GInt64 a)"
  using assms by (auto simp: mem_good_def)

lemma range_sat:
  assumes "cast_laws env" "etype x = Ok Int64" "eval env x row = Ok (GInt64 a)" "us = [] \<or> us = [GInt64 u]" "ls = [] \<or> ls = [GInt64 l]"
    and lt: "us \<noteq> [] \<longrightarrow> eval env (lt x (Literal (GInt64 u) Int64)) row = Ok (GBool True)"
    and gt: "ls \<noteq> [] \<longrightarrow> eval env (gt x (Literal (GInt64 l) Int64)) row = Ok (GBool True)"
    and m: "range_expr lt gt [x] us ls = Ok m"
  shows "not_passed (eval env m row)"
  using assms by (auto simp: range_expr_def bound_expr_def slice_at_def not_passed_def And_Eval_def truth_is_def)

lemma mem_sat_simple:
  "mem_sat env ex row (AscendIndexLookup gte lt idx) \<longleftrightarrow>
     (\<forall>m. range_expr LessThan GreaterThanOrEqual (ex idx) lt gte = Ok m \<longrightarrow> not_passed (eval env m row))"
  "mem_sat env ex row (DescendIndexLookup gt lte idx) \<longleftrightarrow>
     (\<forall>m. range_expr LessThanOrEqual GreaterThan (ex idx) lte gt = Ok m \<longrightarrow> not_passed (eval env m row))"
  by (auto simp: mem_sat_def matchExpression_def)

lemma mem_range_sat:
  assumes "mem_good env ex row key idx" "key idx = Some a"
  shows "ls = [] \<or> ls = [GInt64 l] \<and> sint l \<le> sint a \<Longrightarrow> us = [] \<or> us = [GInt64 u] \<and> sint a < sint u \<Longrightarrow>
      mem_sat env ex row (AscendIndexLookup ls us idx)"
    "ls = [] \<or> ls = [GInt64 l] \<and> sint l < sint a \<Longrightarrow> us = [] \<or> us = [GInt64 u] \<and> sint a \<le> sint u \<Longrightarrow>
      mem_sat env ex row (DescendIndexLookup ls us idx)"
proof -
  obtain x where x: "cast_laws env" "ex idx = [x]" "etype x = Ok Int64" "eval env x row = Ok (GInt64 a)"
    using mem_goodE [OF assms] .
  have lit: "eval env (Literal (GInt64 b) Int64) row = Ok (GInt64 b)" "etype (Literal (GInt64 b) Int64) = Ok Int64" for b by simp_all
  note cmp = int64_comparison [OF x(1,3) lit(2) x(4) lit(1)]
  show "mem_sat env ex row (AscendIndexLookup ls us idx)"
    if "ls = [] \<or> ls = [GInt64 l] \<and> sint l \<le> sint a" "us = [] \<or> us = [GInt64 u] \<and> sint a < sint u"
    unfolding mem_sat_simple x(2)
    by (intro allI impI, rule range_sat [OF x(1,3,4), of us u ls l]) (use that cmp in \<open>auto simp del: eval.simps\<close>)
  show "mem_sat env ex row (DescendIndexLookup ls us idx)"
    if "ls = [] \<or> ls = [GInt64 l] \<and> sint l < sint a" "us = [] \<or> us = [GInt64 u] \<and> sint a \<le> sint u"
    unfolding mem_sat_simple x(2)
    by (intro allI impI, rule range_sat [OF x(1,3,4), of us u ls l]) (use that cmp in \<open>auto simp del: eval.simps\<close>)
qed

lemma mem_key_sat:
  assumes "mem_good env ex row key idx" "key idx = Some a"
  shows "mem_sat env ex row (MergeableIndexLookup [GInt64 a] idx)" "mem_sat env ex row (UnmergeableIndexLookup [GInt64 a] idx)"
    "v = GNil \<or> v = GInt64 b \<and> a \<noteq> b \<Longrightarrow> mem_sat env ex row (NegateIndexLookup (MergeableIndexLookup [v] idx) idx)"
proof -
  obtain x where x: "cast_laws env" "ex idx = [x]" "etype x = Ok Int64" "eval env x row = Ok (GInt64 a)"
    using mem_goodE [OF assms] .
  have lit: "eval env (Literal (GInt64 b) Int64) row = Ok (GInt64 b)" "etype (Literal (GInt64 b) Int64) = Ok Int64" for b by simp_all
  note cmp = int64_comparison [OF x(1,3) lit(2) x(4) lit(1)]
  show "mem_sat env ex row (MergeableIndexLookup [GInt64 a] idx)" "mem_sat env ex row (UnmergeableIndexLookup [GInt64 a] idx)"
    using x(2,3) cmp(1) [of a] by (simp_all add: mem_sat_def matchExpression_def not_passed_def del: eval.simps)
  show "v = GNil \<or> v = GInt64 b \<and> a \<noteq> b \<Longrightarrow> mem_sat env ex row (NegateIndexLookup (MergeableIndexLookup [v] idx) idx)"
    using x(2) cmp(1) [of b] by (auto simp: mem_sat_def matchExpression_def not_passed_def Not_Eval_def simp del: eval.simps(9))
qed

interpretation memory: lookups "memory_ops mergeable" "mem_good env ex row key" key "mem_sat env ex row"
proof unfold_locales
  note simps = memory_ops_def
  show "mem_sat env ex row l"
    if "mem_good env ex row key idx" "io_Get (memory_ops mergeable) idx [GInt64 b] = Ok l" "key idx = Some b" for idx b l
    using that mem_key_sat(1,2) [OF that(1,3)] by (auto simp: simps)
  show "mem_sat env ex row l"
    if "mem_good env ex row key idx" "io_Not (memory_ops mergeable) idx [v] = Ok l" "key idx = Some a"
      "v = GNil \<or> v = GInt64 b \<and> a \<noteq> b" for idx v l a b
    using that mem_key_sat(3) [OF that(1,3,4)] by (auto simp: simps)
  show "mem_sat env ex row l"
    if "mem_good env ex row key idx" "io_AscendGreaterOrEqual (memory_ops mergeable) idx [GInt64 b] = Ok l" "key idx = Some a"
      "sint b \<le> sint a" for idx b l a
    using that mem_range_sat(1) [OF that(1,3), of "[GInt64 b]" b "[]"] by (simp add: simps)
  show "mem_sat env ex row l"
    if "mem_good env ex row key idx" "io_AscendLessThan (memory_ops mergeable) idx [GInt64 b] = Ok l" "key idx = Some a"
      "sint a < sint b" for idx b l a
    using that mem_range_sat(1) [OF that(1,3), of "[]" b "[GInt64 b]" b] by (simp add: simps)
  show "mem_sat env ex row l"
    if "mem_good env ex row key idx" "io_DescendGreater (memory_ops mergeable) idx [GInt64 b] = Ok l" "key idx = Some a"
      "sint b < sint a" for idx b l a
    using that mem_range_sat(2) [OF that(1,3), of "[GInt64 b]" b "[]"] by (simp add: simps)
  show "mem_sat env ex row l"
    if "mem_good env ex row key idx" "io_DescendLessOrEqual (memory_ops mergeable) idx [GInt64 b] = Ok l" "key idx = Some a"
      "sint a \<le> sint b" for idx b l a
    using that mem_range_sat(2) [OF that(1,3), of "[]" b "[GInt64 b]" b] by (simp add: simps)
  show "mem_sat env ex row l"
    if "mem_good env ex row key idx" "io_AscendRange (memory_ops mergeable) idx [GInt64 b] [GInt64 c] = Ok l" "key idx = Some a"
      "sint b \<le> sint a" "sint a < sint c" for idx b c l a
    using that mem_range_sat(1) [OF that(1,3), of "[GInt64 b]" b "[GInt64 c]" c] by (simp add: simps)
  show "mem_sat env ex row l"
    if "mem_good env ex row key idx" "io_DescendRange (memory_ops mergeable) idx [GInt64 c] [GInt64 b] = Ok l" "key idx = Some a"
      "sint b < sint a" "sint a \<le> sint c" for idx c b l a
    using that mem_range_sat(2) [OF that(1,3), of "[GInt64 b]" b "[GInt64 c]" c] by (simp add: simps)
  show "mem_sat env ex row (io_Union (memory_ops mergeable) l1 l2)" if "mem_sat env ex row l1 \<or> mem_sat env ex row l2" for l1 l2
    using mem_union_sat [OF that] by (simp add: simps)
  show "mem_sat env ex row (io_Intersection (memory_ops mergeable) l1 l2)" if "mem_sat env ex row l1" "mem_sat env ex row l2" for l1 l2
    using mem_intersection_sat [OF that] by (simp add: simps)
qed

end
