(* ===== verification/Assign_Indexes.thy ===== *)
theory Assign_Indexes
  imports Memory_Index
begin

text \<open>
  The choice of indexes for the filters of a plan (\<^verbatim>\<open>sql/analyzer/assign_indexes.go\<close>). The functions take the index registry and
  return it: they retain the indexes they find and release those they do not use.

  The maps from tables to lookups are association lists. Go visits them in an unspecified order, which only changes the
  order of releases, and releases commute (\<open>ReleaseIndex_commute\<close>). The map \<^verbatim>\<open>used\<close> is keyed by the identity of expressions:
  here by the position of a conjunct, \<open>None\<close> for an expression that was made on the way.
\<close>

section \<open>State\<close>

record 'l assign_ctx =
  ac_env :: genv
  ac_loads :: load_env
  ac_String :: "expr \<Rightarrow> string"
  ac_db :: string
  ac_ops :: "'l index_ops"
  ac_order :: "index_registry \<Rightarrow> index_key list"

record 'l index_lookup =
  il_lookup :: 'l
  il_indexes :: "index list"

type_synonym 'l lookup_map = "(string \<times> 'l index_lookup) list"

fun sbind :: "'r \<times> 'a res \<Rightarrow> ('a \<Rightarrow> 'r \<Rightarrow> 'r \<times> 'b res) \<Rightarrow> 'r \<times> 'b res" where
  "sbind (r, Ok x) f = f x r"
| "sbind (r, Err e) f = (r, Err e)"
| "sbind (r, Panic) f = (r, Panic)"

lemma sbind_cong [fundef_cong]:
  "m = m' \<Longrightarrow> (\<And>x r. m' = (r, Ok x) \<Longrightarrow> f x r = f' x r) \<Longrightarrow> sbind m f = sbind m' f'"
  by (cases "(m, f)" rule: sbind.cases) auto

lemma sbind_OkE:
  assumes "sbind m f = (r', Ok y)"
  obtains x r where "m = (r, Ok x)" "f x r = (r', Ok y)"
  using assms by (cases "(m, f)" rule: sbind.cases) auto

definition release_all :: "index list \<Rightarrow> index_registry \<Rightarrow> index_registry" where
  "release_all idxs r = fold (\<lambda>i r. ReleaseIndex r i) idxs r"

section \<open>Expressions\<close>

definition findTables :: "expr \<Rightarrow> string list" where
  "findTables e = remdups (tables_in e)"

fun expr_name :: "(expr \<Rightarrow> string) \<Rightarrow> expr \<Rightarrow> string" where
  "expr_name str (GetField _ _ _ nm _) = nm"
| "expr_name str (Alias _ nm) = nm"
| "expr_name str e = str e"

definition unifyExpression :: "(expr \<Rightarrow> string) \<Rightarrow> (string \<rightharpoonup> expr) \<Rightarrow> expr \<Rightarrow> expr" where
  "unifyExpression str aliases e = (case aliases (expr_name str e) of Some a \<Rightarrow> a | None \<Rightarrow> e)"

definition index_by_expressions ::
  "'l assign_ctx \<Rightarrow> (string \<rightharpoonup> expr) \<Rightarrow> expr list \<Rightarrow> index_registry \<Rightarrow> index_registry \<times> index option res" where
  "index_by_expressions c al es r =
     IndexByExpression (ac_loads c) (ac_String c) r (ac_db c) (map (unifyExpression (ac_String c) al) es)"

fun comparer_sides :: "expr \<Rightarrow> expr \<times> expr" where
  "comparer_sides (Equals l r) = (l, r)"
| "comparer_sides (GreaterThan l r) = (l, r)"
| "comparer_sides (LessThan l r) = (l, r)"
| "comparer_sides (GreaterThanOrEqual l r) = (l, r)"
| "comparer_sides (LessThanOrEqual l r) = (l, r)"
| "comparer_sides e = (e, e)"

text \<open>The sides swapped when the right one is not evaluable. The comparison itself is not turned around.\<close>

definition indexable_sides :: "expr \<times> expr \<Rightarrow> expr \<times> expr" where
  "indexable_sides p = (case p of (l, r) \<Rightarrow> if \<not> isEvaluable r then (r, l) else (l, r))"

section \<open>Lookups for one comparison\<close>

definition some_lookup :: "'l res \<Rightarrow> 'l option res" where
  "some_lookup m = rbind m (\<lambda>l. Ok (Some l))"

definition comparisonIndexLookup :: "'l index_ops \<Rightarrow> expr \<Rightarrow> index \<Rightarrow> gval list \<Rightarrow> 'l option res" where
  "comparisonIndexLookup ops e idx vs =
     (case e of
        Equals _ _ \<Rightarrow> some_lookup (io_Get ops idx vs)
      | GreaterThan _ _ \<Rightarrow> if io_Descend ops idx then some_lookup (io_DescendGreater ops idx vs) else Ok None
      | GreaterThanOrEqual _ _ \<Rightarrow> if io_Ascend ops idx then some_lookup (io_AscendGreaterOrEqual ops idx vs) else Ok None
      | LessThan _ _ \<Rightarrow> if io_Ascend ops idx then some_lookup (io_AscendLessThan ops idx vs) else Ok None
      | LessThanOrEqual _ _ \<Rightarrow> if io_Descend ops idx then some_lookup (io_DescendLessOrEqual ops idx vs) else Ok None
      | _ \<Rightarrow> Ok None)"

definition betweenIndexLookup :: "'l index_ops \<Rightarrow> index \<Rightarrow> gval list \<Rightarrow> gval list \<Rightarrow> 'l option res" where
  "betweenIndexLookup ops idx uppers lowers =
     (if io_Ascend ops idx \<and> io_Descend ops idx then
        rbind (io_AscendRange ops idx lowers uppers) (\<lambda>a. rbind (io_DescendRange ops idx uppers lowers) (\<lambda>d.
          if io_Mergeable ops a d then (if io_SetOperations ops a then Ok (Some (io_Union ops a d)) else Panic) else Ok None))
      else Ok None)"

text \<open>A found index that gives no lookup is released.\<close>

definition or_release :: "index \<Rightarrow> 'l option res \<Rightarrow> index_registry \<Rightarrow> index_registry \<times> 'l lookup_map res" where
  "or_release idx m r =
     (case m of
        Ok (Some l) \<Rightarrow> (r, Ok [(ix_Table idx, \<lparr> il_lookup = l, il_indexes = [idx] \<rparr>)])
      | Ok None \<Rightarrow> (ReleaseIndex r idx, Ok [])
      | Err e \<Rightarrow> (ReleaseIndex r idx, Err e)
      | Panic \<Rightarrow> (r, Panic))"

definition getComparisonIndex ::
  "'l assign_ctx \<Rightarrow> (string \<rightharpoonup> expr) \<Rightarrow> expr \<Rightarrow> index_registry \<Rightarrow> index_registry \<times> 'l lookup_map res" where
  "getComparisonIndex c al e r =
     (case indexable_sides (comparer_sides e) of (l, rt) \<Rightarrow>
        if \<not> isEvaluable l \<and> isEvaluable rt then
          sbind (index_by_expressions c al [l] r) (\<lambda>idx r1.
            case idx of
              None \<Rightarrow> (r1, Ok [])
            | Some idx \<Rightarrow>
                or_release idx (rbind (eval (ac_env c) rt []) (\<lambda>v. comparisonIndexLookup (ac_ops c) e idx [v])) r1)
        else (r, Ok []))"

text \<open>
  IN and NOT IN: the union of the lookups of the elements, or the intersection of the negated lookups. An error of a
  lookup is dropped: \<^verbatim>\<open>return nil, err\<close> returns the outer \<^verbatim>\<open>err\<close>, which is nil.
\<close>

definition element_lookup :: "'l index_ops \<Rightarrow> bool \<Rightarrow> index \<Rightarrow> gval \<Rightarrow> 'l option res" where
  "element_lookup ops negate idx v =
     (case (if negate then io_Not ops idx [v] else io_Get ops idx [v]) of Ok l \<Rightarrow> Ok (Some l) | Err _ \<Rightarrow> Ok None | Panic \<Rightarrow> Panic)"

fun merge_elements :: "'l index_ops \<Rightarrow> bool \<Rightarrow> index \<Rightarrow> 'l \<Rightarrow> gval list \<Rightarrow> 'l option res" where
  "merge_elements ops negate idx l [] = Ok (Some l)"
| "merge_elements ops negate idx l (v # vs) =
     rbind (element_lookup ops negate idx v) (\<lambda>m. case m of
       None \<Rightarrow> Ok None
     | Some l2 \<Rightarrow>
         if \<not> canMergeIndexes ops l l2 then Ok None
         else merge_elements ops negate idx (if negate then io_Intersection ops l l2 else io_Union ops l l2) vs)"

definition in_lookup :: "'l assign_ctx \<Rightarrow> bool \<Rightarrow> index \<Rightarrow> expr \<Rightarrow> 'l option res" where
  "in_lookup c negate idx rt =
     rbind (eval (ac_env c) rt []) (\<lambda>v. case v of
       GSlice vs \<Rightarrow>
         (case vs of [] \<Rightarrow> Panic
          | v # vs \<Rightarrow> rbind (element_lookup (ac_ops c) negate idx v) (\<lambda>m. case m of
              None \<Rightarrow> Ok None
            | Some l \<Rightarrow> merge_elements (ac_ops c) negate idx l vs))
     | _ \<Rightarrow> Err (AnalyzerErr ErrInvalidInRightEvaluation))"

text \<open>The index of a NOT IN that cannot be negated is not released.\<close>

definition in_index ::
  "'l assign_ctx \<Rightarrow> (string \<rightharpoonup> expr) \<Rightarrow> bool \<Rightarrow> expr \<Rightarrow> expr \<Rightarrow> index_registry \<Rightarrow> index_registry \<times> 'l lookup_map res" where
  "in_index c al negate l rt r =
     (if \<not> isEvaluable l \<and> isEvaluable rt then
        sbind (index_by_expressions c al [l] r) (\<lambda>idx r1.
          case idx of
            None \<Rightarrow> (r1, Ok [])
          | Some idx \<Rightarrow> if negate \<and> \<not> io_Negate (ac_ops c) idx then (r1, Ok []) else or_release idx (in_lookup c negate idx rt) r1)
      else (r, Ok []))"

definition between_index ::
  "'l assign_ctx \<Rightarrow> (string \<rightharpoonup> expr) \<Rightarrow> expr \<Rightarrow> expr \<Rightarrow> expr \<Rightarrow> index_registry \<Rightarrow> index_registry \<times> 'l lookup_map res" where
  "between_index c al x lo hi r =
     (if \<not> isEvaluable x \<and> isEvaluable hi \<and> isEvaluable lo then
        sbind (index_by_expressions c al [x] r) (\<lambda>idx r1.
          case idx of
            None \<Rightarrow> (r1, Ok [])
          | Some idx \<Rightarrow>
              or_release idx (rbind (eval (ac_env c) hi []) (\<lambda>u. rbind (eval (ac_env c) lo []) (\<lambda>l.
                betweenIndexLookup (ac_ops c) idx [u] [l]))) r1)
      else (r, Ok []))"

text \<open>The negation of an equality; an index that cannot be negated is not released.\<close>

definition not_equals_index ::
  "'l assign_ctx \<Rightarrow> (string \<rightharpoonup> expr) \<Rightarrow> expr \<Rightarrow> expr \<Rightarrow> index_registry \<Rightarrow> index_registry \<times> 'l lookup_map res" where
  "not_equals_index c al a b r =
     (case indexable_sides (a, b) of (l, rt) \<Rightarrow>
        if isEvaluable l \<or> \<not> isEvaluable rt then (r, Ok [])
        else sbind (index_by_expressions c al [l] r) (\<lambda>idx r1.
          case idx of
            None \<Rightarrow> (r1, Ok [])
          | Some idx \<Rightarrow>
              if \<not> io_Negate (ac_ops c) idx then (r1, Ok [])
              else or_release idx (rbind (eval (ac_env c) rt []) (\<lambda>v. some_lookup (io_Not (ac_ops c) idx [v]))) r1))"

text \<open>\<^verbatim>\<open>getNegatedIndexes\<close>: the positive form of a negated condition.\<close>

fun negated :: "expr \<Rightarrow> expr option" where
  "negated (Not e) = Some e"
| "negated (GreaterThan l r) = Some (LessThanOrEqual l r)"
| "negated (GreaterThanOrEqual l r) = Some (LessThan l r)"
| "negated (LessThan l r) = Some (GreaterThanOrEqual l r)"
| "negated (LessThanOrEqual l r) = Some (GreaterThan l r)"
| "negated (Between x lo hi) = Some (Or (LessThan x lo) (GreaterThan x hi))"
| "negated (Or l r) = Some (And (Not l) (Not r))"
| "negated (And l r) = Some (Or (Not l) (Not r))"
| "negated _ = None"

section \<open>Merging\<close>

text \<open>The two sides of an OR: either every table has mergeable lookups on both sides, or there is no index.\<close>

definition or_merge :: "'l index_ops \<Rightarrow> 'l lookup_map \<Rightarrow> 'l lookup_map \<Rightarrow> 'l lookup_map" where
  "or_merge ops L R =
     (if list_all (\<lambda>(t, il). case map_of R t of Some il2 \<Rightarrow> canMergeIndexes ops (il_lookup il) (il_lookup il2) | None \<Rightarrow> False) L
         \<and> list_all (\<lambda>(t, il2). map_of L t \<noteq> None) R
      then map (\<lambda>(t, il). (t, case map_of R t of
             Some il2 \<Rightarrow> \<lparr> il_lookup = io_Union ops (il_lookup il) (il_lookup il2), il_indexes = il_indexes il @ il_indexes il2 \<rparr>
           | None \<Rightarrow> il)) L
      else [])"

fun intersection_loop ::
  "'l index_ops \<Rightarrow> 'l lookup_map \<Rightarrow> 'l lookup_map \<Rightarrow> index_registry \<Rightarrow> index_registry \<times> 'l lookup_map" where
  "intersection_loop ops R [] r = (r, [])"
| "intersection_loop ops R ((t, il) # L) r =
     (case map_of R t of
        None \<Rightarrow> map_prod id ((#) (t, il)) (intersection_loop ops R L r)
      | Some il2 \<Rightarrow>
          if canMergeIndexes ops (il_lookup il) (il_lookup il2) then
            map_prod id ((#) (t, \<lparr> il_lookup = io_Intersection ops (il_lookup il) (il_lookup il2),
                                   il_indexes = il_indexes il @ il_indexes il2 \<rparr>)) (intersection_loop ops R L r)
          else map_prod id ((#) (t, il)) (intersection_loop ops R L (release_all (il_indexes il2) r)))"

definition indexesIntersection ::
  "'l index_ops \<Rightarrow> 'l lookup_map \<Rightarrow> 'l lookup_map \<Rightarrow> index_registry \<Rightarrow> index_registry \<times> 'l lookup_map" where
  "indexesIntersection ops L R r =
     map_prod id (\<lambda>L'. L' @ filter (\<lambda>(t, _). map_of L t = None) R) (intersection_loop ops R L r)"

section \<open>Indexes on several columns\<close>

record column_expr =
  ce_col :: expr
  ce_comparand :: "expr option"
  ce_comparison :: expr
  ce_id :: "nat option"

definition comparison_column :: "nat \<Rightarrow> expr \<Rightarrow> column_expr option" where
  "comparison_column i e =
     (case indexable_sides (comparer_sides e) of (l, r) \<Rightarrow>
        if \<not> isEvaluable r \<or> \<not> is_GetField l then None
        else Some \<lparr> ce_col = l, ce_comparand = Some r, ce_comparison = e, ce_id = Some i \<rparr>)"

fun extractColumnExpr :: "nat \<Rightarrow> expr \<Rightarrow> column_expr option" where
  "extractColumnExpr i (Not e) =
     map_option (\<lambda>ce. ce \<lparr> ce_comparison := Not (ce_comparison ce), ce_id := None \<rparr>) (extractColumnExpr i e)"
| "extractColumnExpr i (Between x lo hi) =
     (if \<not> isEvaluable hi \<or> \<not> isEvaluable lo \<or> isEvaluable x \<or> \<not> is_GetField x then None
      else Some \<lparr> ce_col = x, ce_comparand = None, ce_comparison = Between x lo hi, ce_id = Some i \<rparr>)"
| "extractColumnExpr i e =
     (case e of
        Equals _ _ \<Rightarrow> comparison_column i e
      | GreaterThan _ _ \<Rightarrow> comparison_column i e
      | LessThan _ _ \<Rightarrow> comparison_column i e
      | GreaterThanOrEqual _ _ \<Rightarrow> comparison_column i e
      | LessThanOrEqual _ _ \<Rightarrow> comparison_column i e
      | _ \<Rightarrow> None)"

text \<open>The column expressions by table, in the order of their first occurrence, and within a table by operator.\<close>

definition add_column :: "column_expr \<Rightarrow> (string \<times> column_expr list) list \<Rightarrow> (string \<times> column_expr list) list" where
  "add_column ce m =
     (let t = the (table_of (ce_col ce)) in
      if map_of m t = None then m @ [(t, [ce])] else map (\<lambda>(t', ces). if t' = t then (t', ces @ [ce]) else (t', ces)) m)"

definition columnExprsByTable :: "expr list \<Rightarrow> (string \<times> column_expr list) list" where
  "columnExprsByTable es =
     fold (\<lambda>(i, e) m. case extractColumnExpr i e of None \<Rightarrow> m | Some ce \<Rightarrow> add_column ce m) (enumerate 0 es) []"

text \<open>\<^verbatim>\<open>reflect.TypeOf\<close> of a comparison.\<close>

fun operator :: "expr \<Rightarrow> nat" where
  "operator (Equals _ _) = 0"
| "operator (GreaterThan _ _) = 1"
| "operator (LessThan _ _) = 2"
| "operator (GreaterThanOrEqual _ _) = 3"
| "operator (LessThanOrEqual _ _) = 4"
| "operator (Between _ _ _) = 5"
| "operator (Not _) = 6"
| "operator _ = 7"

fun add_to_group :: "column_expr \<Rightarrow> column_expr list list \<Rightarrow> column_expr list list" where
  "add_to_group e [] = [[e]]"
| "add_to_group e (g # gs) =
     (if operator (ce_comparison (hd g)) = operator (ce_comparison e) then (g @ [e]) # gs else g # add_to_group e gs)"

definition groupExpressionsByOperator :: "column_expr list \<Rightarrow> column_expr list list" where
  "groupExpressionsByOperator es = fold add_to_group es []"

definition findColumn :: "(expr \<Rightarrow> string) \<Rightarrow> column_expr list \<Rightarrow> string \<Rightarrow> column_expr option" where
  "findColumn str ces col = find (\<lambda>ce. str (ce_col ce) = col) ces"

definition mark_used :: "column_expr \<Rightarrow> nat set \<Rightarrow> nat set" where
  "mark_used ce used = (case ce_id ce of None \<Rightarrow> used | Some i \<Rightarrow> insert i used)"

fun column_values ::
  "'l assign_ctx \<Rightarrow> (column_expr \<Rightarrow> 'v res) \<Rightarrow> column_expr list \<Rightarrow> string list \<Rightarrow> nat set \<Rightarrow> ('v list \<times> nat set) res" where
  "column_values c val ces [] used = Ok ([], used)"
| "column_values c val ces (ie # ies) used =
     (case findColumn (ac_String c) ces ie of
        None \<Rightarrow> Panic
      | Some ce \<Rightarrow> rbind (val ce) (\<lambda>v. rbind (column_values c val ces ies (mark_used ce used)) (\<lambda>(vs, used'). Ok (v # vs, used'))))"

definition comparand_value :: "'l assign_ctx \<Rightarrow> column_expr \<Rightarrow> gval res" where
  "comparand_value c ce = (case ce_comparand ce of None \<Rightarrow> Panic | Some e \<Rightarrow> eval (ac_env c) e [])"

definition between_values :: "'l assign_ctx \<Rightarrow> column_expr \<Rightarrow> (gval \<times> gval) res" where
  "between_values c ce =
     (case ce_comparison ce of
        Between x lo hi \<Rightarrow> rbind (eval (ac_env c) lo []) (\<lambda>l. rbind (eval (ac_env c) hi []) (\<lambda>u. Ok (l, u)))
      | _ \<Rightarrow> Panic)"

definition multi_lookup ::
  "'l assign_ctx \<Rightarrow> column_expr list \<Rightarrow> expr \<Rightarrow> index \<Rightarrow> nat set \<Rightarrow> ('l option \<times> nat set) res" where
  "multi_lookup c ces first idx used =
     (if operator first \<le> 4 then
        rbind (column_values c (comparand_value c) ces (ix_Expressions idx) used) (\<lambda>(vs, used').
          rbind (comparisonIndexLookup (ac_ops c) first idx vs) (\<lambda>l. Ok (l, used')))
      else if operator first = 5 then
        rbind (column_values c (between_values c) ces (ix_Expressions idx) used) (\<lambda>(ps, used').
          rbind (betweenIndexLookup (ac_ops c) idx (map snd ps) (map fst ps)) (\<lambda>l. Ok (l, used')))
      else Ok (None, used))"

definition getMultiColumnIndexForExpressions ::
  "'l assign_ctx \<Rightarrow> (string \<rightharpoonup> expr) \<Rightarrow> expr list \<Rightarrow> column_expr list \<Rightarrow> nat set \<Rightarrow> index_registry \<Rightarrow>
   index_registry \<times> (index option \<times> ('l option \<times> nat set) res) res" where
  "getMultiColumnIndexForExpressions c al selected ces used r =
     sbind (index_by_expressions c al selected r) (\<lambda>idx r1.
       (r1, Ok (idx, case idx of
          None \<Rightarrow> Ok (None, used)
        | Some idx \<Rightarrow>
            (case find (\<lambda>ce. ce_col ce = hd selected) ces of
               None \<Rightarrow> Ok (None, used)
             | Some ce \<Rightarrow> multi_lookup c ces (ce_comparison ce) idx used))))"

definition longest :: "expr list list \<Rightarrow> expr list" where
  "longest ls = fold (\<lambda>l selected. if length l > length selected then l else selected) ls []"

definition multi_group ::
  "'l assign_ctx \<Rightarrow> (string \<rightharpoonup> expr) \<Rightarrow> string \<times> column_expr list \<Rightarrow> 'l lookup_map \<times> nat set \<Rightarrow> index_registry \<Rightarrow>
   index_registry \<times> ('l lookup_map \<times> nat set) res" where
  "multi_group c al g s r =
     (let (t, ces) = g; (m, used) = s;
          selected = longest (ExpressionsWithIndexes (ac_String c) (ac_order c r) r (map ce_col ces)) in
      if selected = [] then (r, Ok s)
      else sbind (getMultiColumnIndexForExpressions c al selected ces used r) (\<lambda>(idx, res) r1.
        case res of
          Panic \<Rightarrow> (r1, Panic)
        | Err e \<Rightarrow> (release_all (case idx of None \<Rightarrow> [] | Some i \<Rightarrow> [i]) r1, Err e)
        | Ok (None, used') \<Rightarrow> (release_all (case idx of None \<Rightarrow> [] | Some i \<Rightarrow> [i]) r1, Ok (m, used'))
        | Ok (Some l, used') \<Rightarrow>
            let il = \<lparr> il_lookup = l, il_indexes = (case idx of None \<Rightarrow> [] | Some i \<Rightarrow> [i]) \<rparr> in
            if map_of m t \<noteq> None then
              (case indexesIntersection (ac_ops c) m [(t, il)] r1 of (r2, m') \<Rightarrow> (r2, Ok (m', used')))
            else (r1, Ok (m @ [(t, il)], used'))))"

fun multi_groups ::
  "'l assign_ctx \<Rightarrow> (string \<rightharpoonup> expr) \<Rightarrow> (string \<times> column_expr list) list \<Rightarrow> 'l lookup_map \<times> nat set \<Rightarrow> index_registry \<Rightarrow>
   index_registry \<times> ('l lookup_map \<times> nat set) res" where
  "multi_groups c al [] s r = (r, Ok s)"
| "multi_groups c al (g # gs) s r = sbind (multi_group c al g s r) (multi_groups c al gs)"

definition getMultiColumnIndexes ::
  "'l assign_ctx \<Rightarrow> (string \<rightharpoonup> expr) \<Rightarrow> expr list \<Rightarrow> index_registry \<Rightarrow> index_registry \<times> ('l lookup_map \<times> nat set) res" where
  "getMultiColumnIndexes c al es r =
     multi_groups c al
       (concat (map (\<lambda>(t, ces). map (Pair t) (groupExpressionsByOperator ces)) (columnExprsByTable es))) ([], {}) r"

section \<open>Conditions\<close>

text \<open>
  A negated condition becomes a larger one, so that the recursion is measured by a weight that counts a condition under a
  negation more.
\<close>

fun weight :: "bool \<Rightarrow> expr \<Rightarrow> nat" where
  "weight p (And a b) = weight p a + weight p b + (if p then 3 else 4)"
| "weight p (Or a b) = weight p a + weight p b + (if p then 3 else 4)"
| "weight p (Not e) = weight (\<not> p) e + (if p then 0 else 1)"
| "weight p (Between _ _ _) = (if p then 1 else 6)"
| "weight p _ = (if p then 1 else 2)"

lemma weight_negated: "negated ch = Some e \<Longrightarrow> weight True e < weight True (Not ch)"
  by (cases ch) auto

lemma weight_split: "(\<Sum>e\<leftarrow>splitConjunction e. Suc (weight True e)) \<le> Suc (weight True e)"
  by (induction e rule: splitConjunction.induct) auto

lemma weight_split_And: "(\<Sum>e\<leftarrow>splitConjunction (And a b). Suc (weight True e)) < weight True (And a b)"
  using weight_split [of a] weight_split [of b] by simp

function getIndexes ::
    "'l assign_ctx \<Rightarrow> (string \<rightharpoonup> expr) \<Rightarrow> expr \<Rightarrow> index_registry \<Rightarrow> index_registry \<times> 'l lookup_map res"
  and conjunct_loop ::
    "'l assign_ctx \<Rightarrow> (string \<rightharpoonup> expr) \<Rightarrow> nat set \<Rightarrow> nat \<Rightarrow> expr list \<Rightarrow> 'l lookup_map \<Rightarrow> index_registry \<Rightarrow>
     index_registry \<times> 'l lookup_map res"
where
  "getIndexes c al e r =
     (case e of
        Or a b \<Rightarrow>
          if length (findTables e) > 1 then (r, Ok [])
          else sbind (getIndexes c al a r) (\<lambda>L r1. sbind (getIndexes c al b r1) (\<lambda>R r2. (r2, Ok (or_merge (ac_ops c) L R))))
      | In a b \<Rightarrow> in_index c al False a b r
      | NotIn a b \<Rightarrow> in_index c al True a b r
      | Equals a b \<Rightarrow> getComparisonIndex c al e r
      | LessThan a b \<Rightarrow> getComparisonIndex c al e r
      | GreaterThan a b \<Rightarrow> getComparisonIndex c al e r
      | LessThanOrEqual a b \<Rightarrow> getComparisonIndex c al e r
      | GreaterThanOrEqual a b \<Rightarrow> getComparisonIndex c al e r
      | Not ch \<Rightarrow>
          (case negated ch of
             Some e' \<Rightarrow> getIndexes c al e' r
           | None \<Rightarrow> (case ch of Equals a b \<Rightarrow> not_equals_index c al a b r | _ \<Rightarrow> (r, Ok [])))
      | Between x lo hi \<Rightarrow> between_index c al x lo hi r
      | And a b \<Rightarrow>
          sbind (getMultiColumnIndexes c al (splitConjunction (And a b)) r) (\<lambda>p r1.
            conjunct_loop c al (snd p) 0 (splitConjunction (And a b)) (fst p) r1)
      | _ \<Rightarrow> (r, Ok []))"
| "conjunct_loop c al used i [] m r = (r, Ok m)"
| "conjunct_loop c al used i (e # es) m r =
     (if i \<in> used then conjunct_loop c al used (Suc i) es m r
      else sbind (getIndexes c al e r) (\<lambda>m2 r1.
        conjunct_loop c al used (Suc i) es (snd (indexesIntersection (ac_ops c) m m2 r1))
          (fst (indexesIntersection (ac_ops c) m m2 r1))))"
  by pat_completeness auto

termination
  by (relation "measure (\<lambda>x. case x of Inl (c, al, e, r) \<Rightarrow> weight True e
      | Inr (c, al, used, i, es, m, r) \<Rightarrow> (\<Sum>e\<leftarrow>es. Suc (weight True e)))")
    (auto simp: weight_split_And dest: weight_negated simp del: splitConjunction.simps weight.simps(1,3))

lemmas [simp del] = getIndexes.simps

section \<open>Plans\<close>

text \<open>
  Of a plan \<^verbatim>\<open>assignIndexes\<close> looks at its filters and at the aliases of the projections below them. The closure \<^verbatim>\<open>fn\<close> stops at
  a projection when it is called on the child of a filter, but \<^verbatim>\<open>Inspect\<close> calls it on all descendants otherwise.
\<close>

datatype inode = FilterNode expr inode | ProjectNode "expr list" inode | PlanNode "inode list"

fun add_aliases :: "expr list \<Rightarrow> (string \<rightharpoonup> expr) \<Rightarrow> string \<rightharpoonup> expr" where
  "add_aliases [] al = al"
| "add_aliases (Alias e nm # es) al = add_aliases es (if al nm = None then al(nm \<mapsto> e) else al)"
| "add_aliases (e # es) al = add_aliases es al"

fun alias_inspect :: "inode \<Rightarrow> (string \<rightharpoonup> expr) \<Rightarrow> string \<rightharpoonup> expr"
  and alias_inspects :: "inode list \<Rightarrow> (string \<rightharpoonup> expr) \<Rightarrow> string \<rightharpoonup> expr" where
  "alias_inspect (ProjectNode es ch) al = alias_inspect ch (add_aliases es al)"
| "alias_inspect (FilterNode e ch) al = alias_inspect ch (alias_inspect ch al)"
| "alias_inspect (PlanNode chs) al = alias_inspects chs (alias_inspects chs al)"
| "alias_inspects [] al = al"
| "alias_inspects (ch # chs) al = alias_inspects chs (alias_inspect ch al)"

definition collect_aliases :: "inode \<Rightarrow> (string \<rightharpoonup> expr) \<Rightarrow> string \<rightharpoonup> expr" where
  "collect_aliases n al =
     (case n of
        ProjectNode es ch \<Rightarrow> add_aliases es al
      | FilterNode e ch \<Rightarrow> alias_inspect ch al
      | PlanNode chs \<Rightarrow> alias_inspects chs al)"

text \<open>
  The visit keeps the aliases, the lookups and \<^verbatim>\<open>err\<close>, which a later filter overwrites. When it is over all the indexes
  of the lookups are released, although the lookups are returned.
\<close>

type_synonym 'l assign_state = "(string \<rightharpoonup> expr) \<times> 'l lookup_map \<times> gerror option"

fun assign_visit :: "'l assign_ctx \<Rightarrow> inode \<Rightarrow> 'l assign_state \<Rightarrow> index_registry \<Rightarrow> index_registry \<times> 'l assign_state res"
  and assign_visits :: "'l assign_ctx \<Rightarrow> inode list \<Rightarrow> 'l assign_state \<Rightarrow> index_registry \<Rightarrow> index_registry \<times> 'l assign_state res"
where
  "assign_visit c (FilterNode e ch) (al, m, err) r =
     (let al' = collect_aliases ch al in
      case getIndexes c al' e r of
        (r1, Panic) \<Rightarrow> (r1, Panic)
      | (r1, Err er) \<Rightarrow> (r1, Ok (al', m, Some er))
      | (r1, Ok m2) \<Rightarrow>
          (case indexesIntersection (ac_ops c) m m2 r1 of (r2, m') \<Rightarrow> assign_visit c ch (al', m', None) r2))"
| "assign_visit c (ProjectNode es ch) st r = assign_visit c ch st r"
| "assign_visit c (PlanNode chs) st r = assign_visits c chs st r"
| "assign_visits c [] st r = (r, Ok st)"
| "assign_visits c (ch # chs) st r = sbind (assign_visit c ch st r) (assign_visits c chs)"

definition assignIndexes :: "'l assign_ctx \<Rightarrow> inode \<Rightarrow> index_registry \<Rightarrow> index_registry \<times> 'l lookup_map res" where
  "assignIndexes c n r =
     sbind (assign_visit c n (Map.empty, [], None) r) (\<lambda>(al, m, err) r1.
       (release_all (concat (map (\<lambda>(t, il). il_indexes il) m)) r1, case err of None \<Rightarrow> Ok m | Some e \<Rightarrow> Err e))"

lemma ReleaseIndex_commute: "ReleaseIndex (ReleaseIndex r i) j = ReleaseIndex (ReleaseIndex r j) i"
proof (cases "key_of i = key_of j")
  case True
  then show ?thesis by (simp add: ReleaseIndex_def)
next
  case False
  then show ?thesis by (auto simp: ReleaseIndex_def Let_def fun_upd_twist insert_commute split: option.splits)
qed

end
