(* ===== verification/Index_Soundness.thy ===== *)
theory Index_Soundness
  imports Assign_Indexes
begin

text \<open>
  The choice of indexes is sound for the conditions described by \<open>indexable\<close>: inside the locale \<open>lookups\<close>, for any
  implementation of the index interfaces, and by its interpretation for the indexes of the memory package. The last section
  has the lookups that lose rows and the reference counts that are wrong.
\<close>

section \<open>Conditions\<close>

lemma getIndexes_simps:
  "getIndexes c al (Or a b) r =
     (if length (findTables (Or a b)) > 1 then (r, Ok [])
      else sbind (getIndexes c al a r) (\<lambda>L r1. sbind (getIndexes c al b r1) (\<lambda>R r2. (r2, Ok (or_merge (ac_ops c) L R)))))"
  "getIndexes c al (And a b) r =
     sbind (getMultiColumnIndexes c al (splitConjunction (And a b)) r) (\<lambda>p r1.
       conjunct_loop c al (snd p) 0 (splitConjunction (And a b)) (fst p) r1)"
  "getIndexes c al (Not ch) r =
     (case negated ch of
        Some e' \<Rightarrow> getIndexes c al e' r
      | None \<Rightarrow> (case ch of Equals a b \<Rightarrow> not_equals_index c al a b r | _ \<Rightarrow> (r, Ok [])))"
  "getIndexes c al (In a b) r = in_index c al False a b r"
  "getIndexes c al (NotIn a b) r = in_index c al True a b r"
  "getIndexes c al (Between x lo hi) r = between_index c al x lo hi r"
  by (simp_all add: getIndexes.simps [of c al _ r])

text \<open>
  The conditions covered: BIGINT expressions compared with constants, the column on the left of an order comparison, a
  BETWEEN with different bounds. Conditions that have no index are free.
\<close>

definition int_operand :: "genv \<Rightarrow> row \<Rightarrow> expr \<Rightarrow> bool" where
  "int_operand env row e \<longleftrightarrow> etype e = Ok Int64 \<and> (eval env e row = Ok GNil \<or> (\<exists>a. eval env e row = Ok (GInt64 a)))"

definition compares :: "genv \<Rightarrow> row \<Rightarrow> expr set \<Rightarrow> expr \<Rightarrow> expr \<Rightarrow> bool" where
  "compares env row cols x k \<longleftrightarrow> x \<in> cols \<and> int_operand env row x \<and> int_operand env row k \<and> eval env k [] = eval env k row"

definition truth :: "gval res \<Rightarrow> bool" where
  "truth r \<longleftrightarrow> r \<in> {Ok GNil, Ok (GBool True), Ok (GBool False)}"

definition ordered_ok :: "genv \<Rightarrow> row \<Rightarrow> expr set \<Rightarrow> expr \<Rightarrow> expr \<Rightarrow> bool" where
  "ordered_ok env row cols a b \<longleftrightarrow>
     (if isEvaluable b then isEvaluable a \<or> compares env row cols a b else \<not> isEvaluable a)"

definition equals_ok :: "genv \<Rightarrow> row \<Rightarrow> expr set \<Rightarrow> expr \<Rightarrow> expr \<Rightarrow> bool" where
  "equals_ok env row cols a b \<longleftrightarrow>
     (if isEvaluable b then isEvaluable a \<or> compares env row cols a b else isEvaluable a \<longrightarrow> compares env row cols b a)"

fun in_ok :: "genv \<Rightarrow> row \<Rightarrow> expr set \<Rightarrow> expr \<Rightarrow> expr \<Rightarrow> bool" where
  "in_ok env row cols a (Tuple ks) \<longleftrightarrow> \<not> isEvaluable a \<and> isEvaluable (Tuple ks) \<longrightarrow> (\<forall>k \<in> set ks. compares env row cols a k)"
| "in_ok env row cols a b \<longleftrightarrow> isEvaluable a \<or> \<not> isEvaluable b"

fun indexable :: "genv \<Rightarrow> row \<Rightarrow> expr set \<Rightarrow> bool \<Rightarrow> expr \<Rightarrow> bool" where
  "indexable env row cols p (And a b) \<longleftrightarrow> indexable env row cols p a \<and> indexable env row cols p b
     \<and> truth (eval env a row) \<and> truth (eval env b row)"
| "indexable env row cols p (Or a b) \<longleftrightarrow> indexable env row cols p a \<and> indexable env row cols p b
     \<and> truth (eval env a row) \<and> truth (eval env b row) \<and> (\<not> p \<longrightarrow> eval env a row \<noteq> Ok GNil \<and> eval env b row \<noteq> Ok GNil)"
| "indexable env row cols p (Not a) \<longleftrightarrow> indexable env row cols (\<not> p) a \<and> truth (eval env a row)"
| "indexable env row cols p (Equals a b) \<longleftrightarrow> equals_ok env row cols a b"
| "indexable env row cols p (LessThan a b) \<longleftrightarrow> ordered_ok env row cols a b"
| "indexable env row cols p (GreaterThan a b) \<longleftrightarrow> ordered_ok env row cols a b"
| "indexable env row cols p (LessThanOrEqual a b) \<longleftrightarrow> ordered_ok env row cols a b"
| "indexable env row cols p (GreaterThanOrEqual a b) \<longleftrightarrow> ordered_ok env row cols a b"
| "indexable env row cols p (In a b) \<longleftrightarrow> in_ok env row cols a b"
| "indexable env row cols p (NotIn a b) \<longleftrightarrow> in_ok env row cols a b"
| "indexable env row cols p (Between x lo hi) \<longleftrightarrow>
     isEvaluable lo \<and> isEvaluable hi \<and> compares env row cols x lo \<and> compares env row cols x hi
     \<and> (p \<longrightarrow> eval env lo row \<noteq> eval env hi row)"
| "indexable env row cols p _ \<longleftrightarrow> True"

lemma accepts_truth: "truth (eval env e row) \<Longrightarrow> accepts env row e \<longleftrightarrow> eval env e row = Ok (GBool True)"
  by (auto simp: truth_def EvaluateCondition_def)

lemma accepts_Not: "truth (eval env e row) \<Longrightarrow> accepts env row (Not e) \<longleftrightarrow> eval env e row = Ok (GBool False)"
  by (auto simp: truth_def EvaluateCondition_def Not_Eval_def)

lemma Not_Eval_False: "logical r \<Longrightarrow> Not_Eval r = Ok (GBool False) \<longleftrightarrow> r = Ok (GBool True)"
  by (cases r) (auto simp: logical_def Not_Eval_def)

lemma Not_Eval_True: "logical r \<Longrightarrow> Not_Eval r = Ok (GBool True) \<longleftrightarrow> r = Ok (GBool False)"
  by (cases r) (auto simp: logical_def Not_Eval_def)

lemma int_operandE:
  assumes "int_operand env row e"
  obtains "etype e = Ok Int64" "eval env e row = Ok GNil" | a where "etype e = Ok Int64" "eval env e row = Ok (GInt64 a)"
  using assms by (auto simp: int_operand_def)

lemma between_False:
  assumes "cast_laws env" "int_operand env row x" "int_operand env row lo" "int_operand env row hi"
    "eval env (Between x lo hi) row = Ok (GBool False)"
  shows "accepts env row (Or (LessThan x lo) (GreaterThan x hi))"
    "truth (eval env (LessThan x lo) row)" "truth (eval env (GreaterThan x hi) row)"
proof -
  obtain a b c where v: "eval env x row = Ok (GInt64 a)" "eval env lo row = Ok (GInt64 b)" "eval env hi row = Ok (GInt64 c)"
    using assms(2-5)
    by (auto simp: int_operand_def Between_Eval_def int64_promote int64_compare [OF assms(1)] simp del: sql_convert.simps sql_compare.simps)
  have t: "etype x = Ok Int64" "etype lo = Ok Int64" "etype hi = Ok Int64" using assms(2-4) by (auto simp: int_operand_def)
  have "\<not> (sint b \<le> sint a \<and> sint a \<le> sint c)"
    using int64_predicates [OF assms(1) t v, of "[]"] assms(5) by simp
  moreover note int64_comparison [OF assms(1) t(1,2) v(1,2)] int64_comparison [OF assms(1) t(1,3) v(1,3)]
  ultimately show "accepts env row (Or (LessThan x lo) (GreaterThan x hi))"
    "truth (eval env (LessThan x lo) row)" "truth (eval env (GreaterThan x hi) row)"
    by (auto simp: EvaluateCondition_def Or_Eval_def truth_is_def truth_def)
qed

lemma negated_accepts:
  assumes "negated ch = Some e" "accepts env row (Not ch)" "indexable env row cols False ch" "truth (eval env ch row)"
    "cast_laws env" "oth_signs env"
  shows "accepts env row e \<and> indexable env row cols True e"
proof -
  have f: "eval env ch row = Ok (GBool False)" using assms(2,4) accepts_Not by blast
  note comp = comparison_complements [OF assms(6)]
  show ?thesis
  proof (cases ch)
    case (Not e')
    with assms f show ?thesis by (auto simp: accepts_truth truth_def Not_Eval_def EvaluateCondition_def split: if_splits)
  next
    case (GreaterThan l r)
    with f comp [of l r row] assms(1,3) show ?thesis
      by (auto simp: EvaluateCondition_def Not_Eval_def simp del: eval.simps(9-13))
  next
    case (LessThan l r)
    with f comp [of l r row] assms(1,3) show ?thesis
      by (auto simp: EvaluateCondition_def Not_Eval_def simp del: eval.simps(9-13))
  next
    case (GreaterThanOrEqual l r)
    with f comp [of l r row] have "eval env (LessThan l r) row = Ok (GBool True)"
      using Not_Eval_False [OF comparison_logical(2)] by metis
    with GreaterThanOrEqual assms(1,3) show ?thesis by (auto simp: EvaluateCondition_def simp del: eval.simps)
  next
    case (LessThanOrEqual l r)
    with f comp [of l r row] have "eval env (GreaterThan l r) row = Ok (GBool True)"
      using Not_Eval_False [OF comparison_logical(3)] by metis
    with LessThanOrEqual assms(1,3) show ?thesis by (auto simp: EvaluateCondition_def simp del: eval.simps)
  next
    case (Between x lo hi)
    with assms(3) have op: "int_operand env row x" "int_operand env row lo" "int_operand env row hi" by (auto simp: compares_def)
    from between_False [OF assms(5) op] f Between assms(1,3) show ?thesis
      by (auto simp: ordered_ok_def simp del: eval.simps)
  next
    case (Or l r)
    with assms(3) f have "eval env l row = Ok (GBool False) \<and> eval env r row = Ok (GBool False)"
      by (auto simp: truth_def Or_Eval_def truth_is_def)
    with Or assms(1,3) show ?thesis
      by (auto simp: EvaluateCondition_def Not_Eval_def And_Eval_def truth_is_def truth_def)
  next
    case (And l r)
    with assms(3) f have "eval env l row = Ok (GBool False) \<or> eval env r row = Ok (GBool False)"
      by (auto simp: truth_def And_Eval_def truth_is_def split: if_splits)
    with And assms(1,3) show ?thesis
      by (auto simp: EvaluateCondition_def Not_Eval_def Or_Eval_def truth_is_def truth_def)
  qed (use assms(1) in auto)
qed

text \<open>
  The registry: every index is on one expression, is loaded, and holds the value that the columns of the filter with the
  same name have in the row.
\<close>

definition registry_ok ::
  "'l assign_ctx \<Rightarrow> (string \<rightharpoonup> expr) \<Rightarrow> (index \<Rightarrow> bool) \<Rightarrow> (index \<Rightarrow> 64 word option) \<Rightarrow> row \<Rightarrow> expr set \<Rightarrow> index_registry \<Rightarrow> bool" where
  "registry_ok c al good key row cols r \<longleftrightarrow> ir_indexLoaders r = Map.empty
     \<and> (\<forall>k idx. ir_indexes r k = Some idx \<longrightarrow> good idx \<and> length (ix_Expressions idx) = 1
          \<and> (\<forall>x \<in> cols. ac_String c (unifyExpression (ac_String c) al x) \<in> set (ix_Expressions idx) \<longrightarrow>
               eval (ac_env c) x row = Ok (case key idx of None \<Rightarrow> GNil | Some a \<Rightarrow> GInt64 a)))"

lemma registry_ok_same:
  "ir_indexes r' = ir_indexes r \<Longrightarrow> ir_indexLoaders r' = ir_indexLoaders r \<Longrightarrow>
   registry_ok c al good key row cols r' = registry_ok c al good key row cols r"
  by (simp add: registry_ok_def)

lemma ReleaseIndex_same [simp]:
  "ir_indexes (ReleaseIndex r idx) = ir_indexes r" "ir_indexLoaders (ReleaseIndex r idx) = ir_indexLoaders r"
  by (auto simp: ReleaseIndex_def Let_def split: option.splits)

lemma release_all_same [simp]:
  "ir_indexes (release_all idxs r) = ir_indexes r" "ir_indexLoaders (release_all idxs r) = ir_indexLoaders r"
  by (induction idxs arbitrary: r) (simp_all add: release_all_def)

lemma retainIndex_same [simp]:
  "ir_indexes (retainIndex db i r) = ir_indexes r" "ir_indexLoaders (retainIndex db i r) = ir_indexLoaders r"
  by (simp_all add: retainIndex_def)

lemma register_tables_loaded: "ir_indexLoaders r = Map.empty \<Longrightarrow> register_tables le db ts r = (r, Ok ())"
  by (induction ts) (auto simp: registerIndexesForTable_def panic_on_err_def)

lemma first_match_found:
  "first_match r db es ks = Some idx \<Longrightarrow> \<exists>k. ir_indexes r k = Some idx \<and> mset (ix_Expressions idx) \<subseteq># mset es"
  by (induction ks) (auto simp: exprListsMatch_iff split: option.splits if_splits)

lemma index_by_expressions_found:
  assumes "registry_ok c al good key row cols r" "index_by_expressions c al [x] r = (r1, Ok oidx)"
  shows "registry_ok c al good key row cols r1"
    "oidx = Some idx \<Longrightarrow> good idx"
    "oidx = Some idx \<Longrightarrow> x \<in> cols \<Longrightarrow> eval (ac_env c) x row = Ok (case key idx of None \<Rightarrow> GNil | Some a \<Rightarrow> GInt64 a)"
proof -
  let ?s = "ac_String c (unifyExpression (ac_String c) al x)"
  have ld: "ir_indexLoaders r = Map.empty" using assms(1) by (simp add: registry_ok_def)
  have eq: "index_by_expressions c al [x] r = (case first_match r (ac_db c) [?s] (ir_indexOrder r) of
       None \<Rightarrow> (r, Ok None) | Some idx \<Rightarrow> (retainIndex (ac_db c) (ix_ID idx) r, Ok (Some idx)))"
    by (simp add: index_by_expressions_def IndexByExpression_def register_tables_loaded [OF ld])
  then have "r1 = r \<or> (\<exists>i. r1 = retainIndex (ac_db c) i r)"
    using assms(2) by (cases "first_match r (ac_db c) [?s] (ir_indexOrder r)") auto
  then show "registry_ok c al good key row cols r1"
    using assms(1) registry_ok_same [of r1 r c al good key row cols] by auto
  have "good idx \<and> (x \<in> cols \<longrightarrow> eval (ac_env c) x row = Ok (case key idx of None \<Rightarrow> GNil | Some a \<Rightarrow> GInt64 a))"
    if "oidx = Some idx"
  proof -
    from that eq assms(2) have "first_match r (ac_db c) [?s] (ir_indexOrder r) = Some idx" by (auto split: option.splits)
    then obtain k where k: "ir_indexes r k = Some idx" "mset (ix_Expressions idx) \<subseteq># {#?s#}"
      using first_match_found by fastforce
    from assms(1) k(1) have "good idx" "length (ix_Expressions idx) = 1"
      "\<forall>x \<in> cols. ac_String c (unifyExpression (ac_String c) al x) \<in> set (ix_Expressions idx) \<longrightarrow>
         eval (ac_env c) x row = Ok (case key idx of None \<Rightarrow> GNil | Some a \<Rightarrow> GInt64 a)"
      by (auto simp: registry_ok_def)
    moreover from this(2) k(2) have "ix_Expressions idx = [?s]" by (auto simp: length_Suc_conv)
    ultimately show ?thesis by auto
  qed
  then show "oidx = Some idx \<Longrightarrow> good idx"
    "oidx = Some idx \<Longrightarrow> x \<in> cols \<Longrightarrow> eval (ac_env c) x row = Ok (case key idx of None \<Rightarrow> GNil | Some a \<Rightarrow> GInt64 a)"
    by blast+
qed

lemma or_release_Ok:
  assumes "or_release idx m r = (r', Ok res)"
  shows "ir_indexes r' = ir_indexes r" "ir_indexLoaders r' = ir_indexLoaders r"
    "\<forall>(t, il) \<in> set res. m = Ok (Some (il_lookup il))"
  using assms by (auto simp: or_release_def split: res.splits option.splits)

lemma no_multi_column:
  assumes "registry_ok c al good key row cols r"
  shows "getMultiColumnIndexes c al es r = (r, Ok ([], {}))"
proof -
  have "index_match str r xs k = None" for str xs k
    using assms by (auto simp: index_match_def registry_ok_def split: option.splits)
  then have "ExpressionsWithIndexes str order r xs = []" for str order xs
    by (induction order) (simp_all add: ExpressionsWithIndexes_def map_filter_simps)
  then have "multi_group c al g s r = (r, Ok s)" for g s
    by (auto simp: multi_group_def longest_def split: prod.splits)
  then have "multi_groups c al gs s r = (r, Ok s)" for gs s by (induction gs) auto
  then show ?thesis by (simp add: getMultiColumnIndexes_def)
qed

lemma accepted_values:
  assumes "cast_laws env" "int_operand env row x" "int_operand env row y"
  shows "accepts env row (Equals x y) \<longleftrightarrow> (\<exists>a. eval env x row = Ok (GInt64 a) \<and> eval env y row = Ok (GInt64 a))"
    "accepts env row (LessThan x y) \<longleftrightarrow> (\<exists>a b. eval env x row = Ok (GInt64 a) \<and> eval env y row = Ok (GInt64 b) \<and> sint a < sint b)"
    "accepts env row (GreaterThan x y) \<longleftrightarrow> (\<exists>a b. eval env x row = Ok (GInt64 a) \<and> eval env y row = Ok (GInt64 b) \<and> sint b < sint a)"
    "accepts env row (LessThanOrEqual x y) \<longleftrightarrow> (\<exists>a b. eval env x row = Ok (GInt64 a) \<and> eval env y row = Ok (GInt64 b) \<and> sint a \<le> sint b)"
    "accepts env row (GreaterThanOrEqual x y) \<longleftrightarrow> (\<exists>a b. eval env x row = Ok (GInt64 a) \<and> eval env y row = Ok (GInt64 b) \<and> sint b \<le> sint a)"
proof -
  have t: "etype x = Ok Int64" "etype y = Ok Int64" using assms(2,3) by (auto simp: int_operand_def)
  consider "eval env x row = Ok GNil \<or> eval env y row = Ok GNil" "is_Ok (eval env x row)" "is_Ok (eval env y row)"
    | a b where "eval env x row = Ok (GInt64 a)" "eval env y row = Ok (GInt64 b)"
    using assms(2,3) by (auto simp: int_operand_def)
  then have all: "(accepts env row (Equals x y) \<longleftrightarrow> (\<exists>a. eval env x row = Ok (GInt64 a) \<and> eval env y row = Ok (GInt64 a))) \<and>
    (accepts env row (LessThan x y) \<longleftrightarrow> (\<exists>a b. eval env x row = Ok (GInt64 a) \<and> eval env y row = Ok (GInt64 b) \<and> sint a < sint b)) \<and>
    (accepts env row (GreaterThan x y) \<longleftrightarrow> (\<exists>a b. eval env x row = Ok (GInt64 a) \<and> eval env y row = Ok (GInt64 b) \<and> sint b < sint a)) \<and>
    (accepts env row (LessThanOrEqual x y) \<longleftrightarrow> (\<exists>a b. eval env x row = Ok (GInt64 a) \<and> eval env y row = Ok (GInt64 b) \<and> sint a \<le> sint b)) \<and>
    (accepts env row (GreaterThanOrEqual x y) \<longleftrightarrow> (\<exists>a b. eval env x row = Ok (GInt64 a) \<and> eval env y row = Ok (GInt64 b) \<and> sint b \<le> sint a))"
  proof cases
    case 1
    note nil = int64_comparison_nil [OF t 1(2,3,1)]
    from 1(1) show ?thesis by (auto simp: EvaluateCondition_def nil simp del: eval.simps)
  next
    case (2 a b)
    note cmp = int64_comparison [OF assms(1) t 2]
    show ?thesis using 2 by (auto simp: EvaluateCondition_def cmp simp del: eval.simps)
  qed
  then show "accepts env row (Equals x y) \<longleftrightarrow> (\<exists>a. eval env x row = Ok (GInt64 a) \<and> eval env y row = Ok (GInt64 a))"
    "accepts env row (LessThan x y) \<longleftrightarrow> (\<exists>a b. eval env x row = Ok (GInt64 a) \<and> eval env y row = Ok (GInt64 b) \<and> sint a < sint b)"
    "accepts env row (GreaterThan x y) \<longleftrightarrow> (\<exists>a b. eval env x row = Ok (GInt64 a) \<and> eval env y row = Ok (GInt64 b) \<and> sint b < sint a)"
    "accepts env row (LessThanOrEqual x y) \<longleftrightarrow> (\<exists>a b. eval env x row = Ok (GInt64 a) \<and> eval env y row = Ok (GInt64 b) \<and> sint a \<le> sint b)"
    "accepts env row (GreaterThanOrEqual x y) \<longleftrightarrow> (\<exists>a b. eval env x row = Ok (GInt64 a) \<and> eval env y row = Ok (GInt64 b) \<and> sint b \<le> sint a)"
    by blast+
qed

definition all_sat :: "('l \<Rightarrow> bool) \<Rightarrow> 'l lookup_map \<Rightarrow> bool" where
  "all_sat sat m \<longleftrightarrow> (\<forall>(t, il) \<in> set m. sat (il_lookup il))"

lemma all_sat_simps [simp]: "all_sat sat []" "all_sat sat ((t, il) # m) \<longleftrightarrow> sat (il_lookup il) \<and> all_sat sat m"
  by (auto simp: all_sat_def)

lemma some_lookup_Ok [simp]: "some_lookup m = Ok l \<longleftrightarrow> (\<exists>x. m = Ok x \<and> l = Some x)"
  by (cases m) (auto simp: some_lookup_def)

context lookups
begin

lemma found_index_sound:
  assumes "registry_ok c al good key row cols r"
    "sbind (index_by_expressions c al [x] r) (\<lambda>idx r1. case idx of None \<Rightarrow> (r1, Ok [])
       | Some idx \<Rightarrow> if unusable idx then (r1, Ok []) else or_release idx (f idx) r1) = (r', Ok m)"
    "\<And>idx l. good idx \<Longrightarrow> (x \<in> cols \<longrightarrow> eval (ac_env c) x row = Ok (case key idx of None \<Rightarrow> GNil | Some a \<Rightarrow> GInt64 a)) \<Longrightarrow>
       f idx = Ok (Some l) \<Longrightarrow> sat l"
  shows "registry_ok c al good key row cols r' \<and> all_sat sat m"
proof -
  obtain oidx r1 where r1: "index_by_expressions c al [x] r = (r1, Ok oidx)"
    "(case oidx of None \<Rightarrow> (r1, Ok []) | Some idx \<Rightarrow> if unusable idx then (r1, Ok []) else or_release idx (f idx) r1) = (r', Ok m)"
    using assms(2) by (rule sbind_OkE) 
  note found = index_by_expressions_found [OF assms(1) r1(1)]
  show ?thesis
  proof (cases oidx)
    case None
    with r1(2) found(1) show ?thesis by simp
  next
    case (Some idx)
    show ?thesis
    proof (cases "unusable idx")
      case True
      with Some r1(2) found(1) show ?thesis by simp
    next
      case False
    with Some r1(2) have rel: "or_release idx (f idx) r1 = (r', Ok m)" by simp
    note or_release_Ok [OF rel]
    moreover from this found(1) have "registry_ok c al good key row cols r'"
      using registry_ok_same [of r' r1] by blast
    ultimately show ?thesis using assms(3) found(2,3) [OF Some] by (auto simp: all_sat_def)
    qed
  qed
qed

lemma comparison_index_sound:
  assumes "ac_ops c = ops" "cast_laws (ac_env c)" "registry_ok c al good key row cols r"
    "operator e \<le> 4" "indexable (ac_env c) row cols True e" "accepts (ac_env c) row e" "getComparisonIndex c al e r = (r', Ok m)"
  shows "registry_ok c al good key row cols r' \<and> all_sat sat m"
proof -
  obtain x k where xk: "indexable_sides (comparer_sides e) = (x, k)" by fastforce
  show ?thesis
  proof (cases "\<not> isEvaluable x \<and> isEvaluable k")
    case False
    with assms(3,7) xk show ?thesis by (auto simp: getComparisonIndex_def)
  next
    case True
    have "compares (ac_env c) row cols x k \<and> (comparer_sides e = (x, k) \<or> (\<exists>a b. e = Equals a b \<and> x = b \<and> k = a))"
      using xk True assms(4,5)
      by (cases e) (auto simp: indexable_sides_def ordered_ok_def equals_ok_def split: if_splits)
    then have cmp: "compares (ac_env c) row cols x k"
      and sides: "comparer_sides e = (x, k) \<or> e = Equals k x" by auto
    from cmp have op: "int_operand (ac_env c) row x" "int_operand (ac_env c) row k" "x \<in> cols"
      "eval (ac_env c) k [] = eval (ac_env c) k row" by (auto simp: compares_def)
    note acc = accepted_values [OF assms(2) op(1,2)] accepted_values [OF assms(2) op(2,1)]
    show ?thesis
    proof (rule found_index_sound [OF assms(3), where unusable = "\<lambda>_. False"])
      show "sbind (index_by_expressions c al [x] r) (\<lambda>idx r1. case idx of None \<Rightarrow> (r1, Ok [])
          | Some idx \<Rightarrow> if False then (r1, Ok []) else or_release idx (rbind (eval (ac_env c) k []) (\<lambda>v. comparisonIndexLookup (ac_ops c) e idx [v])) r1) = (r', Ok m)"
        using assms(7) xk True by (simp add: getComparisonIndex_def cong: option.case_cong)
      show "sat l" if g: "good idx"
        and ev: "x \<in> cols \<longrightarrow> eval (ac_env c) x row = Ok (case key idx of None \<Rightarrow> GNil | Some a \<Rightarrow> GInt64 a)"
        and lk: "rbind (eval (ac_env c) k []) (\<lambda>v. comparisonIndexLookup (ac_ops c) e idx [v]) = Ok (Some l)" for idx l
      proof -
        have key: "eval (ac_env c) x row = Ok (GInt64 a) \<Longrightarrow> key idx = Some a" for a
          using ev op(3) by (auto split: option.splits)
        have lk': "comparisonIndexLookup ops e idx [GInt64 b] = Ok (Some l)" if "eval (ac_env c) k row = Ok (GInt64 b)" for b
          using lk that op(4) assms(1) by simp
        consider "e = Equals x k" | "e = Equals k x" | "e = LessThan x k" | "e = GreaterThan x k" | "e = LessThanOrEqual x k"
          | "e = GreaterThanOrEqual x k" using sides assms(4) by (cases e) auto
        then show ?thesis
        proof cases
          case 1
          with assms(6) acc(1) obtain a where "eval (ac_env c) x row = Ok (GInt64 a)" "eval (ac_env c) k row = Ok (GInt64 a)" by blast
          with lk' 1 key Get_sat [OF g] show ?thesis by (auto simp: comparisonIndexLookup_def)
        next
          case 2
          with assms(6) acc(6) obtain a where "eval (ac_env c) x row = Ok (GInt64 a)" "eval (ac_env c) k row = Ok (GInt64 a)" by blast
          with lk' 2 key Get_sat [OF g] show ?thesis by (auto simp: comparisonIndexLookup_def)
        next
          case 3
          with assms(6) acc(2) obtain a b where "eval (ac_env c) x row = Ok (GInt64 a)" "eval (ac_env c) k row = Ok (GInt64 b)"
            "sint a < sint b" by blast
          with lk' 3 key AscendLessThan_sat [OF g] show ?thesis by (auto simp: comparisonIndexLookup_def split: if_splits)
        next
          case 4
          with assms(6) acc(3) obtain a b where "eval (ac_env c) x row = Ok (GInt64 a)" "eval (ac_env c) k row = Ok (GInt64 b)"
            "sint b < sint a" by blast
          with lk' 4 key DescendGreater_sat [OF g] show ?thesis by (auto simp: comparisonIndexLookup_def split: if_splits)
        next
          case 5
          with assms(6) acc(4) obtain a b where "eval (ac_env c) x row = Ok (GInt64 a)" "eval (ac_env c) k row = Ok (GInt64 b)"
            "sint a \<le> sint b" by blast
          with lk' 5 key DescendLessOrEqual_sat [OF g] show ?thesis by (auto simp: comparisonIndexLookup_def split: if_splits)
        next
          case 6
          with assms(6) acc(5) obtain a b where "eval (ac_env c) x row = Ok (GInt64 a)" "eval (ac_env c) k row = Ok (GInt64 b)"
            "sint b \<le> sint a" by blast
          with lk' 6 key AscendGreaterOrEqual_sat [OF g] show ?thesis by (auto simp: comparisonIndexLookup_def split: if_splits)
        qed
      qed
    qed
  qed
qed

lemma element_Get_sat:
  assumes "good idx" "key idx = Some a" "element_lookup ops False idx (GInt64 a) = Ok (Some l)"
  shows "sat l"
  using assms(3) Get_sat [OF assms(1) _ assms(2)] by (auto simp: element_lookup_def split: res.splits)

lemma element_Not_sat:
  assumes "good idx" "key idx = Some a" "element_lookup ops True idx v = Ok (Some l)" "v = GNil \<or> v = GInt64 b \<and> a \<noteq> b"
  shows "sat l"
  using assms(3) Not_sat [OF assms(1) _ assms(2,4)] by (auto simp: element_lookup_def split: res.splits)

lemma merge_union_sat:
  assumes "good idx" "key idx = Some a" "merge_elements ops False idx l vs = Ok (Some l')" "sat l \<or> GInt64 a \<in> set vs"
  shows "sat l'"
  using assms(3,4)
proof (induction vs arbitrary: l)
  case (Cons v vs)
  then obtain l2 where l2: "element_lookup ops False idx v = Ok (Some l2)" "canMergeIndexes ops l l2"
    "merge_elements ops False idx (io_Union ops l l2) vs = Ok (Some l')"
    by (auto simp: res_simps split: option.splits if_splits)
  have "sat l \<or> sat l2 \<or> GInt64 a \<in> set vs" using Cons.prems(2) element_Get_sat [OF assms(1,2)] l2(1) by auto
  then have "sat (io_Union ops l l2) \<or> GInt64 a \<in> set vs" using Union_sat l2(2) by (auto simp: canMergeIndexes_def)
  with Cons.IH l2(3) show ?case by blast
qed simp

lemma merge_intersection_sat:
  assumes "good idx" "key idx = Some a" "merge_elements ops True idx l vs = Ok (Some l')" "sat l"
    "\<forall>v \<in> set vs. v = GNil \<or> (\<exists>b. v = GInt64 b \<and> a \<noteq> b)"
  shows "sat l'"
  using assms(3-5)
proof (induction vs arbitrary: l)
  case (Cons v vs)
  then obtain l2 where l2: "element_lookup ops True idx v = Ok (Some l2)" "canMergeIndexes ops l l2"
    "merge_elements ops True idx (io_Intersection ops l l2) vs = Ok (Some l')"
    by (auto simp: res_simps split: option.splits if_splits)
  have "sat l2" using Cons.prems(3) element_Not_sat [OF assms(1,2) l2(1)] by auto
  then have "sat (io_Intersection ops l l2)" using Cons.prems(2) Intersection_sat l2(2) by (auto simp: canMergeIndexes_def)
  with Cons.IH l2(3) Cons.prems(3) show ?case by auto
qed simp

end

lemma rmap_id_Ok: "rmap id rs = Ok vs \<longleftrightarrow> rs = map Ok vs"
  by (induction rs arbitrary: vs) (auto simp: res_simps)

lemma in_values:
  assumes "cast_laws env" "oth_signs env" "\<forall>k \<in> set ks. compares env row cols x k" "ks \<noteq> []"
    "eval env (Tuple ks) [] = Ok (GSlice vs)"
  shows "accepts env row (In x (Tuple ks)) \<Longrightarrow> \<exists>a. eval env x row = Ok (GInt64 a) \<and> GInt64 a \<in> set vs"
    "accepts env row (NotIn x (Tuple ks)) \<Longrightarrow>
       \<exists>a. eval env x row = Ok (GInt64 a) \<and> (\<forall>v \<in> set vs. v = GNil \<or> (\<exists>b. v = GInt64 b \<and> a \<noteq> b))"
proof -
  have k: "int_operand env row k" "eval env k [] = eval env k row" if "k \<in> set ks" for k
    using that assms(3) by (auto simp: compares_def)
  have x: "int_operand env row x" using assms(3,4) by (cases ks) (auto simp: compares_def)
  have vs: "map (\<lambda>k. eval env k row) ks = map Ok vs"
  proof (cases "\<exists>k. ks = [k]")
    case True
    with assms(5) k show ?thesis by (auto simp: Tuple_Eval_def int_operand_def)
  next
    case False
    with assms(4,5) have "rmap id (map (\<lambda>k. eval env k []) ks) = Ok vs"
      by (cases ks rule: list.exhaust; cases "tl ks") (auto simp: Tuple_Eval_def res_simps split: list.splits)
    then have "map (\<lambda>k. eval env k []) ks = map Ok vs" by (simp add: rmap_id_Ok)
    with k(2) show ?thesis by (metis (no_types, lifting) map_eq_conv)
  qed
  have els: "\<forall>e \<in> set ks. etype e = Ok Int64 \<and> (eval env e row = Ok GNil \<or> (\<exists>d. eval env e row = Ok (GInt64 d)))"
    using k(1) by (auto simp: int_operand_def)
  have mem: "GInt64 a \<in> set vs \<longleftrightarrow> (\<exists>e \<in> set ks. eval env e row = Ok (GInt64 a))" for a
  proof -
    have "Ok (GInt64 a) \<in> set (map (\<lambda>k. eval env k row) ks) \<longleftrightarrow> GInt64 a \<in> set vs" unfolding vs by auto
    moreover have "Ok (GInt64 a) \<in> set (map (\<lambda>k. eval env k row) ks) \<longleftrightarrow> (\<exists>e \<in> set ks. eval env e row = Ok (GInt64 a))"
      by (simp add: image_iff eq_commute)
    ultimately show ?thesis by blast
  qed
  have vals: "v = GNil \<or> (\<exists>b. v = GInt64 b)" if "v \<in> set vs" for v
  proof -
    have "Ok v \<in> set (map (\<lambda>k. eval env k row) ks)" unfolding vs using that by simp
    then show ?thesis using els by auto
  qed
  have in_eval: "eval env (In x (Tuple ks)) row = Ok (GBool (GInt64 a \<in> set vs))" if "eval env x row = Ok (GInt64 a)" for a
    using int64_predicates [OF assms(1) _ _ _ that that that els] x mem by (auto simp: int_operand_def)
  have nil: "eval env (In x (Tuple ks)) row = Ok GNil" if "eval env x row = Ok GNil"
    using that x by (auto simp: In_Eval_def int_operand_def int64_promote)
  have not_in: "eval env (NotIn x (Tuple ks)) row = Not_Eval (eval env (In x (Tuple ks)) row)"
    using comparison_complements [OF assms(2)] by blast
  show "accepts env row (In x (Tuple ks)) \<Longrightarrow> \<exists>a. eval env x row = Ok (GInt64 a) \<and> GInt64 a \<in> set vs"
    using x in_eval nil by (auto simp: int_operand_def EvaluateCondition_def simp del: eval.simps)
  show "accepts env row (NotIn x (Tuple ks)) \<Longrightarrow>
       \<exists>a. eval env x row = Ok (GInt64 a) \<and> (\<forall>v \<in> set vs. v = GNil \<or> (\<exists>b. v = GInt64 b \<and> a \<noteq> b))"
    using x in_eval nil vals by (fastforce simp: int_operand_def EvaluateCondition_def not_in Not_Eval_def simp del: eval.simps)
qed

lemma in_lookupE:
  assumes "in_lookup c negate idx b = Ok (Some l)"
  obtains v vs l0 where "eval (ac_env c) b [] = Ok (GSlice (v # vs))"
    "element_lookup (ac_ops c) negate idx v = Ok (Some l0)" "merge_elements (ac_ops c) negate idx l0 vs = Ok (Some l)"
proof -
  from assms obtain x where x: "eval (ac_env c) b [] = Ok x" by (auto simp: in_lookup_def res_simps)
  obtain vs where vs: "x = GSlice vs" using assms x by (cases x) (auto simp: in_lookup_def)
  obtain v ws where vws: "vs = v # ws" using assms x vs by (cases vs) (auto simp: in_lookup_def)
  obtain l0 where "element_lookup (ac_ops c) negate idx v = Ok (Some l0)" "merge_elements (ac_ops c) negate idx l0 ws = Ok (Some l)"
    using assms x vs vws by (auto simp: in_lookup_def res_simps split: option.splits)
  with x vs vws that show thesis by simp
qed

context lookups
begin

lemma in_index_sound:
  assumes "ac_ops c = ops" "cast_laws (ac_env c)" "oth_signs (ac_env c)" "registry_ok c al good key row cols r"
    "in_ok (ac_env c) row cols x b" "accepts (ac_env c) row (if negate then NotIn x b else In x b)"
    "in_index c al negate x b r = (r', Ok m)"
  shows "registry_ok c al good key row cols r' \<and> all_sat sat m"
proof (cases "\<not> isEvaluable x \<and> isEvaluable b")
  case False
  with assms(4,7) show ?thesis by (auto simp: in_index_def)
next
  case True
  with assms(5) obtain ks where ks: "b = Tuple ks" "\<forall>k \<in> set ks. compares (ac_env c) row cols x k"
    by (cases b) auto
  show ?thesis
  proof (rule found_index_sound [OF assms(4), where unusable = "\<lambda>idx. negate \<and> \<not> io_Negate (ac_ops c) idx"])
    show "sbind (index_by_expressions c al [x] r) (\<lambda>idx r1. case idx of None \<Rightarrow> (r1, Ok []) | Some idx \<Rightarrow>
        if negate \<and> \<not> io_Negate (ac_ops c) idx then (r1, Ok []) else or_release idx (in_lookup c negate idx b) r1) = (r', Ok m)"
      using assms(7) True by (simp add: in_index_def)
    show "sat l" if g: "good idx"
      and ev: "x \<in> cols \<longrightarrow> eval (ac_env c) x row = Ok (case key idx of None \<Rightarrow> GNil | Some a \<Rightarrow> GInt64 a)"
      and lk: "in_lookup c negate idx b = Ok (Some l)" for idx l
    proof -
      from lk obtain v vs l0 where vs: "eval (ac_env c) (Tuple ks) [] = Ok (GSlice (v # vs))"
        "element_lookup ops negate idx v = Ok (Some l0)" "merge_elements ops negate idx l0 vs = Ok (Some l)"
        unfolding ks(1) assms(1) [symmetric] by (rule in_lookupE)
      have ne: "ks \<noteq> []" using vs(1) by (auto simp: Tuple_Eval_def)
      have x: "x \<in> cols" using ks(2) ne by (cases ks) (auto simp: compares_def)
      have key: "eval (ac_env c) x row = Ok (GInt64 a) \<Longrightarrow> key idx = Some a" for a
        using ev x by (auto split: option.splits)
      note vals = in_values [OF assms(2,3) ks(2) ne vs(1)]
      show ?thesis
      proof (cases negate)
        case False
        with vals(1) assms(6) ks(1) obtain a where a: "key idx = Some a" "GInt64 a \<in> set (v # vs)"
          using key by (auto simp del: eval.simps)
        from a(2) have "sat l0 \<or> GInt64 a \<in> set vs" using element_Get_sat [OF g a(1)] vs(2) False by auto
        with merge_union_sat [OF g a(1), of l0 vs l] vs(3) False show ?thesis by simp
      next
        case True
        with vals(2) assms(6) ks(1) obtain a where a: "key idx = Some a"
          "\<forall>v \<in> set (v # vs). v = GNil \<or> (\<exists>b. v = GInt64 b \<and> a \<noteq> b)"
          using key by (auto simp del: eval.simps)
        then have "sat l0" using element_Not_sat [OF g a(1)] vs(2) True by auto
        with merge_intersection_sat [OF g a(1), of l0 vs l] vs(3) True a(2) show ?thesis by simp
      qed
    qed
  qed
qed

lemma between_index_sound:
  assumes "ac_ops c = ops" "cast_laws (ac_env c)" "registry_ok c al good key row cols r"
    "indexable (ac_env c) row cols True (Between x lo hi)" "accepts (ac_env c) row (Between x lo hi)"
    "between_index c al x lo hi r = (r', Ok m)"
  shows "registry_ok c al good key row cols r' \<and> all_sat sat m"
proof (cases "isEvaluable x")
  case True
  with assms(3,6) show ?thesis by (simp add: between_index_def)
next
  case False
  let ?env = "ac_env c"
  from assms(4) have op: "int_operand ?env row x" "int_operand ?env row lo" "int_operand ?env row hi" "x \<in> cols"
    "eval ?env lo [] = eval ?env lo row" "eval ?env hi [] = eval ?env hi row" "eval ?env lo row \<noteq> eval ?env hi row"
    "isEvaluable lo" "isEvaluable hi" by (auto simp: compares_def)
  obtain a b d where v: "eval ?env x row = Ok (GInt64 a)" "eval ?env lo row = Ok (GInt64 b)" "eval ?env hi row = Ok (GInt64 d)"
    using op(1-3) assms(5)
    by (auto simp: int_operand_def EvaluateCondition_def Between_Eval_def int64_promote int64_compare [OF assms(2)]
        simp del: sql_convert.simps sql_compare.simps)
  have "sint b \<le> sint a \<and> sint a \<le> sint d"
    using int64_predicates [OF assms(2) _ _ _ v, of "[]"] op(1-3) assms(5)
    by (simp add: int_operand_def EvaluateCondition_def)
  moreover have "sint b \<noteq> sint d" using op(7) v signed_word_eqI by auto
  ultimately have rel: "sint b \<le> sint a \<and> sint a < sint d \<or> sint b < sint a \<and> sint a \<le> sint d" by linarith
  show ?thesis
  proof (rule found_index_sound [OF assms(3), where unusable = "\<lambda>_. False"])
    show "sbind (index_by_expressions c al [x] r) (\<lambda>idx r1. case idx of None \<Rightarrow> (r1, Ok []) | Some idx \<Rightarrow>
        if False then (r1, Ok []) else or_release idx (rbind (eval ?env hi []) (\<lambda>u. rbind (eval ?env lo []) (\<lambda>l.
                betweenIndexLookup (ac_ops c) idx [u] [l]))) r1) = (r', Ok m)"
      using assms(6) False op(8,9) by (simp add: between_index_def cong: option.case_cong)
    show "sat l" if g: "good idx"
      and ev: "x \<in> cols \<longrightarrow> eval ?env x row = Ok (case key idx of None \<Rightarrow> GNil | Some a \<Rightarrow> GInt64 a)"
      and lk: "rbind (eval ?env hi []) (\<lambda>u. rbind (eval ?env lo []) (\<lambda>l. betweenIndexLookup (ac_ops c) idx [u] [l])) = Ok (Some l)"
      for idx l
    proof -
      have key: "key idx = Some a" using ev op(4) v(1) by (auto split: option.splits)
      from lk obtain l1 l2 where "io_AscendRange ops idx [GInt64 b] [GInt64 d] = Ok l1"
        "io_DescendRange ops idx [GInt64 d] [GInt64 b] = Ok l2" "io_Mergeable ops l1 l2" "l = io_Union ops l1 l2"
        unfolding op(5,6) v(2,3) assms(1) by (auto simp: betweenIndexLookup_def res_simps split: if_splits)
      with rel AscendRange_sat [OF g _ key] DescendRange_sat [OF g _ key] Union_sat show ?thesis by metis
    qed
  qed
qed

lemma not_equals_sound:
  assumes "ac_ops c = ops" "cast_laws (ac_env c)" "registry_ok c al good key row cols r"
    "equals_ok (ac_env c) row cols a b" "accepts (ac_env c) row (Not (Equals a b))"
    "not_equals_index c al a b r = (r', Ok m)"
  shows "registry_ok c al good key row cols r' \<and> all_sat sat m"
proof -
  let ?env = "ac_env c"
  obtain x k where xk: "indexable_sides (a, b) = (x, k)" by fastforce
  show ?thesis
  proof (cases "\<not> isEvaluable x \<and> isEvaluable k")
    case False
    with assms(3,6) xk show ?thesis by (auto simp: not_equals_index_def)
  next
    case True
    have "compares ?env row cols x k \<and> ((a, b) = (x, k) \<or> (a, b) = (k, x))"
      using xk True assms(4) by (auto simp: indexable_sides_def equals_ok_def split: if_splits)
    then have op: "int_operand ?env row x" "int_operand ?env row k" "x \<in> cols" "eval ?env k [] = eval ?env k row"
      and sides: "(a, b) = (x, k) \<or> (a, b) = (k, x)" by (auto simp: compares_def)
    have "eval ?env (Equals a b) row = Ok (GBool False)"
    proof -
      have "Not_Eval (eval ?env (Equals a b) row) = Ok (GBool True)"
        using assms(5) logical_Not [OF comparison_logical(1) [of ?env a b row]]
        by (auto simp: EvaluateCondition_def logical_def res_simps simp del: eval.simps(9))
      then show ?thesis using Not_Eval_True [OF comparison_logical(1)] by blast
    qed
    then obtain p q where pq: "eval ?env x row = Ok (GInt64 p)" "eval ?env k row = Ok (GInt64 q)" "p \<noteq> q"
    proof -
      have t: "etype x = Ok Int64" "etype k = Ok Int64" using op(1,2) by (auto simp: int_operand_def)
      consider "eval ?env x row = Ok GNil \<or> eval ?env k row = Ok GNil" "is_Ok (eval ?env x row)" "is_Ok (eval ?env k row)"
        | p q where "eval ?env x row = Ok (GInt64 p)" "eval ?env k row = Ok (GInt64 q)"
        using op(1,2) by (auto simp: int_operand_def)
      then show thesis
      proof cases
        case 1
        then show ?thesis
          using int64_comparison_nil(1) [OF t 1(2,3,1)] int64_comparison_nil(1) [OF t(2,1) 1(3,2)] 1(1) sides
            \<open>eval ?env (Equals a b) row = Ok (GBool False)\<close> by (auto simp del: eval.simps)
      next
        case (2 p q)
        then show ?thesis
          using int64_comparison(1) [OF assms(2) t 2] int64_comparison(1) [OF assms(2) t(2,1) 2(2,1)] sides that
            \<open>eval ?env (Equals a b) row = Ok (GBool False)\<close> by (auto simp del: eval.simps)
      qed
    qed
    show ?thesis
    proof (rule found_index_sound [OF assms(3), where unusable = "\<lambda>idx. \<not> io_Negate (ac_ops c) idx"])
      show "sbind (index_by_expressions c al [x] r) (\<lambda>idx r1. case idx of None \<Rightarrow> (r1, Ok []) | Some idx \<Rightarrow>
          if \<not> io_Negate (ac_ops c) idx then (r1, Ok [])
          else or_release idx (rbind (eval ?env k []) (\<lambda>v. some_lookup (io_Not (ac_ops c) idx [v]))) r1) = (r', Ok m)"
        using assms(6) True xk by (simp add: not_equals_index_def)
      show "sat l" if g: "good idx"
        and ev: "x \<in> cols \<longrightarrow> eval ?env x row = Ok (case key idx of None \<Rightarrow> GNil | Some a \<Rightarrow> GInt64 a)"
        and lk: "rbind (eval ?env k []) (\<lambda>v. some_lookup (io_Not (ac_ops c) idx [v])) = Ok (Some l)" for idx l
      proof -
        have key: "key idx = Some p" using ev op(3) pq(1) by (auto split: option.splits)
        from lk have "io_Not ops idx [GInt64 q] = Ok l" unfolding op(4) pq(2) assms(1) by simp
        from Not_sat [OF g this key] pq(3) show ?thesis by blast
      qed
    qed
  qed
qed

lemma or_merge_sat:
  assumes "all_sat sat L \<or> all_sat sat R"
  shows "all_sat sat (or_merge ops L R)"
proof (cases "or_merge ops L R = []")
  case False
  then have all: "\<forall>(t, il) \<in> set L. \<exists>il2. map_of R t = Some il2 \<and> canMergeIndexes ops (il_lookup il) (il_lookup il2)"
    and eq: "or_merge ops L R = map (\<lambda>(t, il). (t, case map_of R t of
             Some il2 \<Rightarrow> \<lparr> il_lookup = io_Union ops (il_lookup il) (il_lookup il2), il_indexes = il_indexes il @ il_indexes il2 \<rparr>
           | None \<Rightarrow> il)) L"
    by (auto simp: or_merge_def list_all_iff split: if_splits option.splits)
  have "sat (io_Union ops (il_lookup il) (il_lookup il2))"
    if "(t, il) \<in> set L" "map_of R t = Some il2" "canMergeIndexes ops (il_lookup il) (il_lookup il2)" for t il il2
    using that assms Union_sat map_of_SomeD [OF that(2)] by (auto simp: all_sat_def canMergeIndexes_def)
  with all show ?thesis unfolding eq by (fastforce simp: all_sat_def)
qed simp

lemma intersection_loop_sat:
  assumes "all_sat sat R"
  shows "all_sat sat L \<Longrightarrow> all_sat sat (snd (intersection_loop ops R L r))"
proof (induction L arbitrary: r)
  case (Cons p L)
  obtain t il where p: "p = (t, il)" by fastforce
  have "sat (il_lookup il2)" if "map_of R t = Some il2" for il2
    using assms map_of_SomeD [OF that] by (auto simp: all_sat_def)
  with Cons p show ?case by (auto simp: canMergeIndexes_def split: option.splits intro: Intersection_sat)
qed simp

end

lemma intersection_loop_same:
  "ir_indexes (fst (intersection_loop ops R L r)) = ir_indexes r \<and> ir_indexLoaders (fst (intersection_loop ops R L r)) = ir_indexLoaders r"
  by (induction ops R L r rule: intersection_loop.induct) (auto split: option.splits)

context lookups
begin

lemma indexesIntersection_sat:
  assumes "all_sat sat L" "all_sat sat R" "registry_ok c al good key row cols r"
  shows "all_sat sat (snd (indexesIntersection ops L R r)) \<and> registry_ok c al good key row cols (fst (indexesIntersection ops L R r))"
proof -
  have "all_sat sat (snd (intersection_loop ops R L r))" using intersection_loop_sat assms(1,2) by blast
  moreover have "registry_ok c al good key row cols (fst (intersection_loop ops R L r))"
    using registry_ok_same [of "fst (intersection_loop ops R L r)" r c al good key row cols] intersection_loop_same [of ops R L r] assms(3)
    by blast
  ultimately show ?thesis using assms(2) by (auto simp: indexesIntersection_def all_sat_def)
qed

end

lemma indexable_conjuncts:
  "indexable env row cols True e \<Longrightarrow> truth (eval env e row) \<Longrightarrow> k \<in> set (splitConjunction e) \<Longrightarrow>
   indexable env row cols True k \<and> truth (eval env k row)"
proof (induction e rule: splitConjunction.induct)
  case (1 l r)
  have "indexable env row cols True l" "truth (eval env l row)" "indexable env row cols True r" "truth (eval env r row)"
    using "1.prems"(1) by simp_all
  with "1.IH" "1.prems"(3) show ?case by auto
qed (simp_all del: eval.simps indexable.simps)

text \<open>The registry keeps its indexes.\<close>

lemma found_index_registry:
  assumes "sbind (index_by_expressions c al [x] r) (\<lambda>idx r1. case idx of None \<Rightarrow> (r1, Ok []) | Some idx \<Rightarrow> g idx r1) = (r', Ok m)"
    "registry_ok c al good key row cols r" "\<And>idx r. g idx r = (r, Ok []) \<or> (\<exists>f. g idx r = or_release idx f r)"
  shows "registry_ok c al good key row cols r'"
proof -
  obtain oidx r1 where r1: "index_by_expressions c al [x] r = (r1, Ok oidx)"
    "(case oidx of None \<Rightarrow> (r1, Ok []) | Some idx \<Rightarrow> g idx r1) = (r', Ok m)"
    using assms(1) by (rule sbind_OkE)
  have "registry_ok c al good key row cols r1" by (rule index_by_expressions_found(1) [OF assms(2) r1(1)])
  moreover have "ir_indexes r' = ir_indexes r1 \<and> ir_indexLoaders r' = ir_indexLoaders r1"
  proof (cases oidx)
    case (Some idx)
    with r1(2) have "g idx r1 = (r', Ok m)" by simp
    with assms(3) [of idx r1] or_release_Ok(1,2) [of idx _ r1 r' m] show ?thesis by auto
  qed (use r1(2) in simp)
  ultimately show ?thesis using registry_ok_same [of r' r1 c al good key row cols] by blast
qed

lemma leaf_registry:
  assumes "registry_ok c al good key row cols r"
  shows "getComparisonIndex c al e r = (r', Ok m) \<Longrightarrow> registry_ok c al good key row cols r'"
    "in_index c al negate x b r = (r', Ok m) \<Longrightarrow> registry_ok c al good key row cols r'"
    "between_index c al x lo hi r = (r', Ok m) \<Longrightarrow> registry_ok c al good key row cols r'"
    "not_equals_index c al x b r = (r', Ok m) \<Longrightarrow> registry_ok c al good key row cols r'"
proof -
  show "registry_ok c al good key row cols r'" if "getComparisonIndex c al e r = (r', Ok m)"
    using that assms unfolding getComparisonIndex_def by (auto split: prod.splits if_splits intro: found_index_registry)
  show "registry_ok c al good key row cols r'" if "in_index c al negate x b r = (r', Ok m)"
  proof (cases "\<not> isEvaluable x \<and> isEvaluable b")
    case True
    show ?thesis by (rule found_index_registry [OF that [unfolded in_index_def if_P [OF True]] assms]) auto
  qed (use that assms in \<open>auto simp: in_index_def\<close>)
  show "registry_ok c al good key row cols r'" if "between_index c al x lo hi r = (r', Ok m)"
    using that assms unfolding between_index_def by (auto split: if_splits intro: found_index_registry)
  show "registry_ok c al good key row cols r'" if eq: "not_equals_index c al x b r = (r', Ok m)"
  proof (cases "indexable_sides (x, b)")
    case (Pair y k)
    show ?thesis
    proof (cases "isEvaluable y \<or> \<not> isEvaluable k")
      case False
      with eq Pair have "sbind (index_by_expressions c al [y] r) (\<lambda>idx r1. case idx of None \<Rightarrow> (r1, Ok []) | Some idx \<Rightarrow>
          if \<not> io_Negate (ac_ops c) idx then (r1, Ok [])
          else or_release idx (rbind (eval (ac_env c) k []) (\<lambda>v. some_lookup (io_Not (ac_ops c) idx [v]))) r1) = (r', Ok m)"
        by (simp add: not_equals_index_def)
      then show ?thesis by (rule found_index_registry [OF _ assms]) (simp, blast)
    qed (use eq Pair assms in \<open>auto simp: not_equals_index_def\<close>)
  qed
qed

lemma intersection_registry:
  "registry_ok c al good key row cols r \<Longrightarrow> registry_ok c al good key row cols (fst (indexesIntersection ops L R r))"
  using registry_ok_same [of "fst (intersection_loop ops R L r)" r c al good key row cols] intersection_loop_same [of ops R L r]
  by (simp add: indexesIntersection_def)

lemma getIndexes_registry:
  "registry_ok c al good key row cols r \<Longrightarrow> getIndexes c al e r = (r', Ok m) \<Longrightarrow> registry_ok c al good key row cols r'"
  "registry_ok c al good key row cols r \<Longrightarrow> conjunct_loop c al used i es m0 r = (r', Ok m) \<Longrightarrow> registry_ok c al good key row cols r'"
proof (induction c al e r and c al used i es m0 r arbitrary: r' m and r' m rule: getIndexes_conjunct_loop.induct)
  case (1 c al e r)
  note reg = "1.prems"(1) and get = "1.prems"(2)
  show ?case
  proof (cases e)
    case (Or a b)
    show ?thesis
    proof (cases "length (findTables e) > 1")
      case True
      with get reg Or show ?thesis by (simp add: getIndexes_simps)
    next
      case False
      with get Or obtain L R r1 where "getIndexes c al a r = (r1, Ok L)" "getIndexes c al b r1 = (r', Ok R)"
        by (auto simp: getIndexes_simps elim!: sbind_OkE)
      with "1.IH"(2,3) Or False reg show ?thesis by blast
    qed
  next
    case (Not ch)
    show ?thesis
    proof (cases "negated ch")
      case None
      with get reg leaf_registry(4) [OF reg] Not show ?thesis by (cases ch) (auto simp: getIndexes_simps)
    next
      case (Some e')
      with get "1.IH"(4) reg Not show ?thesis by (simp add: getIndexes_simps)
    qed
  next
    case (And a b)
    with get no_multi_column [OF reg] "1.IH"(1) reg show ?thesis by (auto simp: getIndexes_simps simp del: splitConjunction.simps)
  qed (use get reg leaf_registry [OF reg] in \<open>auto simp: getIndexes.simps [of c al _ r]\<close>)
next
  case (3 c al used i e es m0 r)
  show ?case
  proof (cases "i \<in> used")
    case False
    with "3.prems"(2) obtain m2 r1 where "getIndexes c al e r = (r1, Ok m2)"
      "conjunct_loop c al used (Suc i) es (snd (indexesIntersection (ac_ops c) m0 m2 r1)) (fst (indexesIntersection (ac_ops c) m0 m2 r1)) = (r', Ok m)"
      by (auto elim!: sbind_OkE)
    with "3.IH"(2,3) [OF False] "3.prems"(1) intersection_registry show ?thesis by blast
  qed (use 3 in simp)
qed simp

context lookups
begin

lemma getIndexes_sound:
  assumes "ac_ops c = ops" "cast_laws (ac_env c)" "oth_signs (ac_env c)"
  shows "registry_ok c al good key row cols r \<Longrightarrow> indexable (ac_env c) row cols True e \<Longrightarrow> accepts (ac_env c) row e \<Longrightarrow>
      getIndexes c al e r = (r', Ok m) \<Longrightarrow> all_sat sat m"
    and "registry_ok c al good key row cols r \<Longrightarrow> \<forall>e \<in> set es. indexable (ac_env c) row cols True e \<and> accepts (ac_env c) row e \<Longrightarrow>
      all_sat sat m0 \<Longrightarrow> conjunct_loop c al used i es m0 r = (r', Ok m) \<Longrightarrow> all_sat sat m"
  using assms
proof (induction c al e r and c al used i es m0 r arbitrary: r' m and r' m rule: getIndexes_conjunct_loop.induct)
  case (1 c al e r)
  note reg = "1.prems"(1) and ix = "1.prems"(2) and acc = "1.prems"(3) and get = "1.prems"(4)
    and ops = "1.prems"(5) and cast = "1.prems"(6) and signs = "1.prems"(7)
  note cmp = comparison_index_sound [OF ops cast reg _ ix acc]
  show ?case
  proof (cases e)
    case (Or a b)
    show ?thesis
    proof (cases "length (findTables e) > 1")
      case True
      with get Or show ?thesis by (simp add: getIndexes_simps)
    next
      case False
      with get Or obtain L R r1 where g: "getIndexes c al a r = (r1, Ok L)" "getIndexes c al b r1 = (r', Ok R)"
        "m = or_merge ops L R"
        using ops by (auto simp: getIndexes_simps elim!: sbind_OkE)
      have "accepts (ac_env c) row a \<or> accepts (ac_env c) row b"
        using acc ix Or by (auto simp: truth_def EvaluateCondition_def Or_Eval_def truth_is_def)
      then have "all_sat sat L \<or> all_sat sat R"
        using "1.IH"(2) [OF Or False reg _ _ g(1) ops cast signs] ix Or
          "1.IH"(3) [OF Or False g(1) getIndexes_registry(1) [OF reg g(1)] _ _ g(2) ops cast signs] by auto
      then show ?thesis unfolding g(3) by (rule or_merge_sat)
    qed
  next
    case (Not ch)
    show ?thesis
    proof (cases "negated ch")
      case None
      show ?thesis
      proof (cases "\<exists>a b. ch = Equals a b")
        case True
        then obtain a b where ch: "ch = Equals a b" by blast
        with not_equals_sound [OF ops cast reg, of a b] ix acc get Not show ?thesis by (auto simp: getIndexes_simps)
      next
        case False
        with get None Not show ?thesis by (cases ch) (auto simp: getIndexes_simps)
      qed
    next
      case (Some e')
      with ix Not negated_accepts [OF Some, of "ac_env c" row cols] acc cast signs
      have "accepts (ac_env c) row e'" "indexable (ac_env c) row cols True e'" by (auto simp del: eval.simps)
      with "1.IH"(4) [OF Not Some reg] get Not Some ops cast signs show ?thesis by (simp add: getIndexes_simps)
    qed
  next
    case (And a b)
    let ?es = "splitConjunction (And a b)"
    have tr: "truth (eval (ac_env c) (And a b) row)"
      using ix And by (auto simp: truth_def And_Eval_def truth_is_def)
    then have els: "\<forall>k \<in> set ?es. indexable (ac_env c) row cols True k \<and> truth (eval (ac_env c) k row)"
      using indexable_conjuncts [of "ac_env c" row cols "And a b"] ix And by blast
    then have "\<forall>k \<in> set ?es. accepts (ac_env c) row k"
      using accepts_split [of "And a b" "ac_env c" row] acc And unfolding truth_def by blast
    moreover have "conjunct_loop c al {} 0 ?es [] r = (r', Ok m)"
      using get And no_multi_column [OF reg] by (simp add: getIndexes_simps del: splitConjunction.simps)
    ultimately show ?thesis
      using "1.IH"(1) [OF And no_multi_column [OF reg] reg _ _ _ ops cast signs] els by simp
  next
    case (In x b)
    with in_index_sound [OF ops cast signs reg, of x b False r' m] ix acc get show ?thesis by (simp add: getIndexes_simps del: eval.simps)
  next
    case (NotIn x b)
    with in_index_sound [OF ops cast signs reg, of x b True r' m] ix acc get show ?thesis by (simp add: getIndexes_simps del: eval.simps)
  next
    case (Between x lo hi)
    with between_index_sound [OF ops cast reg, of x lo hi r' m] ix acc get show ?thesis by (simp add: getIndexes_simps del: eval.simps indexable.simps)
  qed (use get cmp [of r' m] in \<open>auto simp: getIndexes.simps [of c al _ r]\<close>)
next
  case (3 c al used i e es m0 r)
  show ?case
  proof (cases "i \<in> used")
    case False
    with "3.prems"(4) obtain m2 r1 where g: "getIndexes c al e r = (r1, Ok m2)"
      "conjunct_loop c al used (Suc i) es (snd (indexesIntersection (ac_ops c) m0 m2 r1)) (fst (indexesIntersection (ac_ops c) m0 m2 r1)) = (r', Ok m)"
      by (auto elim!: sbind_OkE)
    have reg: "registry_ok c al good key row cols r1" using getIndexes_registry(1) [OF "3.prems"(1) g(1)] .
    have "all_sat sat m2" using "3.IH"(2) [OF False "3.prems"(1) _ _ g(1) "3.prems"(5-7)] "3.prems"(2) by simp
    then have "all_sat sat (snd (indexesIntersection (ac_ops c) m0 m2 r1))"
      using indexesIntersection_sat [OF "3.prems"(3) _ reg] "3.prems"(5) by simp
    with "3.IH"(3) [OF False g(1) intersection_registry [OF reg] _ _ g(2) "3.prems"(5-7)] "3.prems"(2) show ?thesis by simp
  qed (use 3 in simp)
qed simp

end

section \<open>Properties\<close>

text \<open>Every index of the registry is loaded and is on one BIGINT expression, the value of the columns with its name.\<close>

definition indexes_on :: "'l assign_ctx \<Rightarrow> (index \<Rightarrow> expr list) \<Rightarrow> row \<Rightarrow> expr set \<Rightarrow> index_registry \<Rightarrow> bool" where
  "indexes_on c ex row cols r \<longleftrightarrow> ir_indexLoaders r = Map.empty
     \<and> (\<forall>k idx. ir_indexes r k = Some idx \<longrightarrow> length (ix_Expressions idx) = 1
          \<and> (\<exists>x. ex idx = [x] \<and> int_operand (ac_env c) row x
               \<and> (\<forall>y \<in> cols. ac_String c y \<in> set (ix_Expressions idx) \<longrightarrow> eval (ac_env c) y row = eval (ac_env c) x row)))"

definition key_value :: "genv \<Rightarrow> (index \<Rightarrow> expr list) \<Rightarrow> row \<Rightarrow> index \<Rightarrow> 64 word option" where
  "key_value env ex row idx = (case eval env (hd (ex idx)) row of Ok (GInt64 a) \<Rightarrow> Some a | _ \<Rightarrow> None)"

lemma indexes_on_registry:
  assumes "indexes_on c ex row cols r" "cast_laws (ac_env c)"
  shows "registry_ok c Map.empty (mem_good (ac_env c) ex row (key_value (ac_env c) ex row)) (key_value (ac_env c) ex row) row cols r"
proof -
  have "mem_good (ac_env c) ex row (key_value (ac_env c) ex row) idx
      \<and> (\<forall>y \<in> cols. ac_String c y \<in> set (ix_Expressions idx) \<longrightarrow>
           eval (ac_env c) y row = Ok (case key_value (ac_env c) ex row idx of None \<Rightarrow> GNil | Some a \<Rightarrow> GInt64 a))
      \<and> length (ix_Expressions idx) = 1"
    if "ir_indexes r k = Some idx" for k idx
  proof -
    from assms(1) that obtain x where "ex idx = [x]" "int_operand (ac_env c) row x" "length (ix_Expressions idx) = 1"
      "\<forall>y \<in> cols. ac_String c y \<in> set (ix_Expressions idx) \<longrightarrow> eval (ac_env c) y row = eval (ac_env c) x row"
      unfolding indexes_on_def by blast
    then show ?thesis using assms(2) by (auto simp: mem_good_def key_value_def int_operand_def)
  qed
  then show ?thesis using assms(1) by (auto simp: registry_ok_def unifyExpression_def indexes_on_def)
qed

lemma index_positions_bound: "index_positions env m j rows = Ok ps \<Longrightarrow> \<forall>p \<in> set ps. j \<le> p \<and> p < j + length rows"
  by (induction rows arbitrary: j ps) (fastforce simp: res_simps split: if_splits)+

lemma index_positions_evaluates: "index_positions env m j rows = Ok ps \<Longrightarrow> row \<in> set rows \<Longrightarrow> is_Ok (EvaluateCondition env m row)"
  by (induction rows arbitrary: j ps) (auto simp: res_simps)

lemma index_positions_mem:
  "index_positions env m j rows = Ok ps \<Longrightarrow> i < length rows \<Longrightarrow>
   (j + i \<in> set ps \<longleftrightarrow> EvaluateCondition env m (rows ! i) = Ok True)"
proof (induction rows arbitrary: i j ps)
  case (Cons row rows)
  then obtain b qs where b: "EvaluateCondition env m row = Ok b" "index_positions env m (Suc j) rows = Ok qs"
    "ps = (if b then j # qs else qs)" by (auto simp: res_simps)
  have "j \<notin> set qs" using index_positions_bound [OF b(2)] by auto
  show ?case
  proof (cases i)
    case 0
    with b \<open>j \<notin> set qs\<close> show ?thesis by auto
  next
    case (Suc i')
    with Cons.IH [OF b(2), of i'] Cons.prems(2) b show ?thesis by auto
  qed
qed simp

lemma assign_one_filter:
  "assignIndexes c (FilterNode e (PlanNode [])) r =
     (case getIndexes c Map.empty e r of
        (r1, Ok m) \<Rightarrow> (release_all (concat (map (\<lambda>(t, il). il_indexes il) m)) r1, Ok m)
      | (r1, Err er) \<Rightarrow> (r1, Err er)
      | (r1, Panic) \<Rightarrow> (r1, Panic))"
  by (auto simp: assignIndexes_def collect_aliases_def indexesIntersection_def release_all_def split: prod.splits res.splits)

text \<open>(C4) An index never loses a row: when the lookup that the analyzer chose for a filter is read from a table of the memory
  package, the positions it returns include every row that the filter accepts. (BIGINT expressions compared with constants by
  all comparisons, IN, NOT IN, BETWEEN, combined with AND, OR and NOT; order comparisons with the column on the left, BETWEEN
  with different bounds, indexes on one expression.)\<close>

theorem indexed_rows:
  assumes "cast_laws (ac_env c)" "oth_signs (ac_env c)" "ac_ops c = memory_ops mergeable"
    "indexes_on c ex row cols r" "indexable (ac_env c) row cols True e" "accepts (ac_env c) row e"
    "assignIndexes c (FilterNode e (PlanNode [])) r = (r', Ok m)" "map_of m tbl = Some il"
    "mem_Values (ac_env c) ex (il_lookup il) partitions p = Ok ps" "partitions p = Some rows" "i < length rows" "rows ! i = row"
  shows "i \<in> set ps"
proof -
  obtain r1 where "getIndexes c Map.empty e r = (r1, Ok m)"
    using assms(7) by (auto simp: assign_one_filter split: prod.splits res.splits)
  from memory.getIndexes_sound(1) [OF assms(3,1,2) indexes_on_registry [OF assms(4,1)] assms(5,6) this]
  have sat: "mem_sat (ac_env c) ex row (il_lookup il)"
    using map_of_SomeD [OF assms(8)] by (auto simp: all_sat_def)
  obtain mm where mm: "matchExpression ex (il_lookup il) = Ok mm" "index_positions (ac_env c) mm 0 rows = Ok ps"
    using assms(9,10) by (auto simp: mem_Values_def res_simps)
  have "is_Ok (EvaluateCondition (ac_env c) mm row)"
    using index_positions_evaluates [OF mm(2)] assms(11,12) by (metis nth_mem)
  then have "EvaluateCondition (ac_env c) mm row = Ok True"
    using not_passed_condition [of "ac_env c" mm row] sat mm(1) by (auto simp: mem_sat_def is_Ok_iff)
  with index_positions_mem [OF mm(2) assms(11)] assms(12) show ?thesis by simp
qed

lemma cast_env_signs: "oth_signs cast_env"
  by (simp add: oth_signs_def cast_env_def sign_result_def)

definition col_String :: "expr \<Rightarrow> string" where
  "col_String e = (case e of GetField _ _ tbl nm _ \<Rightarrow> tbl @ ''.'' @ nm | _ \<Rightarrow> [])"

definition col_x :: expr where
  "col_x = GetField 0 Int64 ''t'' ''x'' True"

definition index_x :: index where
  "index_x = \<lparr> ix_ID = ''x'', ix_Database = ''db'', ix_Table = ''t'', ix_Expressions = [''t.x''] \<rparr>"

definition ready_x :: index_registry where
  "ready_x = finish_create index_x (fst (AddIndex [] NewIndexRegistry index_x))"

definition mem_ctx :: "mem_lookup assign_ctx" where
  "mem_ctx = \<lparr> ac_env = cast_env, ac_loads = no_loading, ac_String = col_String, ac_db = ''db'',
     ac_ops = memory_ops (\<lambda>_. True), ac_order = (\<lambda>_. [IndexKey ''db'' ''x'']) \<rparr>"

lemma ready_x_simps [simp]:
  "ir_indexes ready_x = [IndexKey ''db'' ''x'' \<mapsto> index_x]" "ir_indexOrder ready_x = [IndexKey ''db'' ''x'']"
  "ir_statuses ready_x = (\<lambda>_. IndexNotReady)(IndexKey ''db'' ''x'' := IndexReady)" "ir_refCounts ready_x = (\<lambda>_. 0)"
  "ir_indexLoaders ready_x = Map.empty"
  by (simp_all add: ready_x_def index_x_def finish_create_def AddIndex_def insert_index_def validateIndexToAdd_def
      NewIndexRegistry_def setStatus_def key_of_def Let_def)

lemma found_x:
  "index_by_expressions mem_ctx Map.empty [col_x] ready_x = (retainIndex ''db'' ''x'' ready_x, Ok (Some index_x))"
  by (simp add: index_by_expressions_def IndexByExpression_def register_tables_loaded mem_ctx_def col_x_def unifyExpression_def
      col_String_def CanUseIndex_def IsUsable_def index_x_def key_of_def exprListsMatch_iff)

lemma col_x_evaluable [simp]: "\<not> isEvaluable col_x" "isEvaluable (Literal v t)"
  by (simp_all add: col_x_def isEvaluable_def containsColumns_def inspect.simps)

theorem indexed_rows_witness:
  "\<exists>m il. snd (assignIndexes mem_ctx (FilterNode (Equals col_x (Literal (GInt64 7) Int64)) (PlanNode [])) ready_x) = Ok m
     \<and> map_of m ''t'' = Some il
     \<and> (\<forall>ps. mem_Values cast_env (\<lambda>_. [col_x]) (il_lookup il) [''p'' \<mapsto> [[GInt64 5], [GInt64 7]]] ''p'' = Ok ps \<longrightarrow> 1 \<in> set ps)"
proof -
  let ?e = "Equals col_x (Literal (GInt64 7) Int64)"
  let ?il = "\<lparr> il_lookup = MergeableIndexLookup [GInt64 7] index_x, il_indexes = [index_x] \<rparr>"
  have g: "getIndexes mem_ctx Map.empty ?e ready_x = (retainIndex ''db'' ''x'' ready_x, Ok [(''t'', ?il)])"
    using found_x by (simp add: getIndexes.simps [of _ _ ?e] getComparisonIndex_def indexable_sides_def comparisonIndexLookup_def
        or_release_def mem_ctx_def memory_ops_def some_lookup_def index_x_def)
  then obtain r' where a: "assignIndexes mem_ctx (FilterNode ?e (PlanNode [])) ready_x = (r', Ok [(''t'', ?il)])"
    by (simp add: assign_one_filter)
  have x: "eval cast_env col_x [GInt64 7] = Ok (GInt64 7)" by (simp add: col_x_def GetField_Eval_def)
  have acc: "accepts cast_env [GInt64 7] ?e"
    using int64_comparison(1) [OF cast_env_laws, of col_x "Literal (GInt64 7) Int64" "[GInt64 7]" 7 7] x
    by (simp add: col_x_def EvaluateCondition_def)
  have cmp: "compares cast_env [GInt64 7] {col_x} col_x (Literal (GInt64 7) Int64)"
    using x by (simp add: compares_def int_operand_def col_x_def)
  have on: "indexes_on mem_ctx (\<lambda>_. [col_x]) [GInt64 7] {col_x} ready_x"
    using x by (simp add: indexes_on_def index_x_def mem_ctx_def int_operand_def col_x_def)
  have "1 \<in> set ps" if "mem_Values cast_env (\<lambda>_. [col_x]) (il_lookup ?il) [''p'' \<mapsto> [[GInt64 5], [GInt64 7]]] ''p'' = Ok ps" for ps
    by (rule indexed_rows [where c = mem_ctx and cols = "{col_x}" and e = ?e and m = "[(''t'', ?il)]" and tbl = "''t''" and il = ?il
          and ex = "\<lambda>_. [col_x]" and r' = r' and row = "[GInt64 7]" and r = ready_x and mergeable = "\<lambda>_. True"
          and p = "''p''" and partitions = "[''p'' \<mapsto> [[GInt64 5], [GInt64 7]]]" and rows = "[[GInt64 5], [GInt64 7]]"])
      (use that a on acc cmp in \<open>simp_all add: mem_ctx_def cast_env_laws cast_env_signs equals_ok_def del: eval.simps\<close>)
  with a show ?thesis by auto
qed

lemma index_positions_Ok:
  "\<forall>row \<in> set rows. EvaluateCondition env m row = Ok (f row) \<Longrightarrow> \<exists>ps. index_positions env m j rows = Ok ps"
proof (induction rows arbitrary: j)
  case (Cons row rows)
  then obtain ps where "index_positions env m (Suc j) rows = Ok ps" by fastforce
  with Cons.prems show ?case by auto
qed simp

lemma positions_none:
  assumes "\<forall>row \<in> set rows. EvaluateCondition env m row = Ok False" "index_positions env m j rows = Ok ps"
  shows "ps = []"
  using assms by (induction rows arbitrary: j ps) auto

lemma lost_rows:
  assumes "cast_laws (ac_env c)" "ac_ops c = memory_ops (\<lambda>_. True)" "index_by_expressions c Map.empty [x] r = (r1, Ok (Some idx))"
    "ex idx = [x]" "\<not> isEvaluable x" "etype x = Ok Int64" "k = Literal (GInt64 b) Int64"
    "\<forall>row \<in> set rows. \<exists>a. eval (ac_env c) x row = Ok (GInt64 a)" "partitions p = Some rows"
  shows "\<exists>il ps. getIndexes c Map.empty (LessThan k x) r = (r1, Ok [(ix_Table idx, il)])
      \<and> mem_Values (ac_env c) ex (il_lookup il) partitions p = Ok ps
      \<and> (\<forall>i \<in> set ps. \<not> accepts (ac_env c) (rows ! i) (LessThan k x))"
    and "\<exists>il. getIndexes c Map.empty (Between x k k) r = (r1, Ok [(ix_Table idx, il)])
      \<and> mem_Values (ac_env c) ex (il_lookup il) partitions p = Ok []"
    and "snd (getIndexes c Map.empty (In x (Tuple [k])) r) = Err (AnalyzerErr ErrInvalidInRightEvaluation)"
proof -
  let ?env = "ac_env c"
  have k: "isEvaluable k" "etype k = Ok Int64" "eval ?env k row = Ok (GInt64 b)" for row using assms(7) by simp_all
  have val: "\<exists>a. eval ?env x row = Ok (GInt64 a)" if "row \<in> set rows" for row using assms(8) that by blast
  note cmp = int64_comparison [OF assms(1,6) k(2) _ k(3)] and cmp' = int64_comparison [OF assms(1) k(2) assms(6) k(3)]
  show "\<exists>il ps. getIndexes c Map.empty (LessThan k x) r = (r1, Ok [(ix_Table idx, il)])
      \<and> mem_Values ?env ex (il_lookup il) partitions p = Ok ps \<and> (\<forall>i \<in> set ps. \<not> accepts ?env (rows ! i) (LessThan k x))"
  proof -
    let ?il = "\<lparr> il_lookup = AscendIndexLookup [] [GInt64 b] idx, il_indexes = [idx] \<rparr>"
    have "getIndexes c Map.empty (LessThan k x) r = (r1, Ok [(ix_Table idx, ?il)])"
      using assms(2,3,5) k(1,3) by (simp add: getIndexes.simps [of _ _ "LessThan k x"] getComparisonIndex_def indexable_sides_def
          comparisonIndexLookup_def or_release_def memory_ops_def some_lookup_def)
    moreover have m: "matchExpression ex (il_lookup ?il) = Ok (LessThan x k)"
      using assms(4,7) by (simp add: matchExpression_def range_expr_def bound_expr_def slice_at_def)
    moreover have ev: "\<forall>row \<in> set rows. EvaluateCondition ?env (LessThan x k) row = Ok (\<exists>a. eval ?env x row = Ok (GInt64 a) \<and> sint a < sint b)"
      using val cmp(2) by (fastforce simp: EvaluateCondition_def simp del: eval.simps)
    moreover obtain ps where ps: "index_positions ?env (LessThan x k) 0 rows = Ok ps" using index_positions_Ok [OF ev] by blast
    moreover have "\<not> accepts ?env (rows ! i) (LessThan k x)" if "i \<in> set ps" for i
    proof -
      have i: "i < length rows" using index_positions_bound [OF ps] that by auto
      then obtain a where a: "eval ?env x (rows ! i) = Ok (GInt64 a)" using val nth_mem by blast
      have "accepts ?env (rows ! i) (LessThan x k)" using index_positions_mem [OF ps i] that by simp
      with a cmp(2) [OF a] cmp'(2) [OF a] show ?thesis by (auto simp: EvaluateCondition_def simp del: eval.simps)
    qed
    ultimately show ?thesis using assms(9) by (intro exI [of _ ?il] exI [of _ ps]) (auto simp: mem_Values_def)
  qed
  show "\<exists>il. getIndexes c Map.empty (Between x k k) r = (r1, Ok [(ix_Table idx, il)])
      \<and> mem_Values ?env ex (il_lookup il) partitions p = Ok []"
  proof -
    let ?l = "MergedUnions [AscendIndexLookup [GInt64 b] [GInt64 b] idx, DescendIndexLookup [GInt64 b] [GInt64 b] idx] idx"
    let ?il = "\<lparr> il_lookup = ?l, il_indexes = [idx] \<rparr>"
    let ?m = "Or (And (LessThan x k) (GreaterThanOrEqual x k)) (And (LessThanOrEqual x k) (GreaterThan x k))"
    have "getIndexes c Map.empty (Between x k k) r = (r1, Ok [(ix_Table idx, ?il)])"
      using assms(2,3,5) k(1,3) by (simp add: getIndexes_simps between_index_def betweenIndexLookup_def or_release_def
          memory_ops_def mem_union_def)
    moreover have m: "matchExpression ex ?l = Ok ?m"
      using assms(4,7) by (simp add: matchExpression_def range_expr_def bound_expr_def slice_at_def)
    moreover have ev: "\<forall>row \<in> set rows. EvaluateCondition ?env ?m row = Ok False"
    proof
      fix row assume "row \<in> set rows"
      then obtain a where a: "eval ?env x row = Ok (GInt64 a)" using val by blast
      from cmp [OF a] show "EvaluateCondition ?env ?m row = Ok False"
        by (auto simp: EvaluateCondition_def Or_Eval_def And_Eval_def truth_is_def simp del: eval.simps(9-13))
    qed
    moreover obtain ps where "index_positions ?env ?m 0 rows = Ok ps" using index_positions_Ok [OF ev] by blast
    moreover have "ps = []" by (rule positions_none [OF ev calculation(4)])
    ultimately show ?thesis using assms(9) by (intro exI [of _ ?il]) (auto simp: mem_Values_def)
  qed
  show "snd (getIndexes c Map.empty (In x (Tuple [k])) r) = Err (AnalyzerErr ErrInvalidInRightEvaluation)"
    using assms(3,5,7) by (simp add: getIndexes_simps in_index_def isEvaluable_def containsColumns_def inspect.simps or_release_def
        in_lookup_def Tuple_Eval_def)
qed

text \<open>(C37) Index lookups that lose rows. A comparison with the constant on the left is looked up as if the column were there:
  \<^verbatim>\<open>5 < x\<close> reads the rows with \<^verbatim>\<open>x < 5\<close>, none of which the filter accepts. A BETWEEN with equal bounds reads no row at all. An
  IN with one element is an error.\<close>

theorem index_loses_rows:
  assumes "cast_laws (ac_env c)" "ac_ops c = memory_ops (\<lambda>_. True)" "index_by_expressions c Map.empty [x] r = (r1, Ok (Some idx))"
    "ex idx = [x]" "\<not> isEvaluable x" "etype x = Ok Int64" "k = Literal (GInt64 b) Int64"
    "\<forall>row \<in> set rows. \<exists>a. eval (ac_env c) x row = Ok (GInt64 a)" "partitions p = Some rows"
  shows "(\<exists>il ps. getIndexes c Map.empty (LessThan k x) r = (r1, Ok [(ix_Table idx, il)])
        \<and> mem_Values (ac_env c) ex (il_lookup il) partitions p = Ok ps
        \<and> (\<forall>i \<in> set ps. \<not> accepts (ac_env c) (rows ! i) (LessThan k x)))
    \<and> (\<exists>il. getIndexes c Map.empty (Between x k k) r = (r1, Ok [(ix_Table idx, il)])
        \<and> mem_Values (ac_env c) ex (il_lookup il) partitions p = Ok [])
    \<and> snd (getIndexes c Map.empty (In x (Tuple [k])) r) = Err (AnalyzerErr ErrInvalidInRightEvaluation)"
  using lost_rows [of c x r r1 idx ex k b rows partitions p] assms by blast

theorem index_loses_rows_witness:
  "\<exists>il. snd (getIndexes mem_ctx Map.empty (Between col_x (Literal (GInt64 5) Int64) (Literal (GInt64 5) Int64)) ready_x) =
       Ok [(''t'', il)]
     \<and> mem_Values cast_env (\<lambda>_. [col_x]) (il_lookup il) [''p'' \<mapsto> [[GInt64 5]]] ''p'' = Ok []"
proof -
  have "mem_Values (ac_env mem_ctx) ex l = mem_Values cast_env ex l" for ex l by (simp add: mem_ctx_def)
  then show ?thesis
    using index_loses_rows [of mem_ctx col_x ready_x "retainIndex ''db'' ''x'' ready_x" index_x "\<lambda>_. [col_x]"
      "Literal (GInt64 5) Int64" 5 "[[GInt64 5]]" "[''p'' \<mapsto> [[GInt64 5]]]" "''p''", OF _ _ found_x]
    by (auto simp: mem_ctx_def cast_env_laws index_x_def col_x_def GetField_Eval_def isEvaluable_def containsColumns_def inspect.simps)
qed

lemma released_retained:
  "ix_Database idx = db \<Longrightarrow> ir_refCounts (ReleaseIndex (retainIndex db (ix_ID idx) r) idx) = ir_refCounts r"
  by (auto simp: ReleaseIndex_def retainIndex_def key_of_def Let_def split: option.splits)

lemma first_match_database: "first_match r db es ks = Some idx \<Longrightarrow> ix_Database idx = db"
  by (induction ks) (auto split: option.splits if_splits)

text \<open>The reference counts are wrong in both directions. The index of a lookup that is returned for a filter is released
  before the query runs, so its count is what it was before and a deletion does not wait for the query. The index that was found
  for one side of an OR whose other side has none is never released, although no lookup uses it.\<close>

lemma index_references:
  assumes "ir_indexLoaders r = Map.empty" "first_match r (ac_db c) [ac_String c x] (ir_indexOrder r) = Some idx"
    "\<not> isEvaluable x" "isEvaluable k" "eval (ac_env c) k [] = Ok v" "io_Get (ac_ops c) idx [v] = Ok l"
    "length (findTables (Or (Equals x k) e)) \<le> 1" "\<forall>r. getIndexes c Map.empty e r = (r, Ok [])"
  shows "(\<exists>r'. assignIndexes c (FilterNode (Equals x k) (PlanNode [])) r =
        (r', Ok [(ix_Table idx, \<lparr> il_lookup = l, il_indexes = [idx] \<rparr>)]) \<and> ir_refCounts r' = ir_refCounts r)
    \<and> (\<exists>r'. assignIndexes c (FilterNode (Or (Equals x k) e) (PlanNode [])) r = (r', Ok [])
        \<and> ir_refCounts r' (key_of idx) = ir_refCounts r (key_of idx) + 1)"
proof -
  let ?r1 = "retainIndex (ac_db c) (ix_ID idx) r"
  have db: "ix_Database idx = ac_db c" using first_match_database [OF assms(2)] .
  have "index_by_expressions c Map.empty [x] r = (?r1, Ok (Some idx))"
    using assms(1,2) by (simp add: index_by_expressions_def IndexByExpression_def register_tables_loaded unifyExpression_def)
  then have g: "getIndexes c Map.empty (Equals x k) r = (?r1, Ok [(ix_Table idx, \<lparr> il_lookup = l, il_indexes = [idx] \<rparr>)])"
    using assms(3-6) by (simp add: getIndexes.simps [of _ _ "Equals x k"] getComparisonIndex_def indexable_sides_def
        comparisonIndexLookup_def or_release_def some_lookup_def)
  then have "assignIndexes c (FilterNode (Equals x k) (PlanNode [])) r =
      (ReleaseIndex ?r1 idx, Ok [(ix_Table idx, \<lparr> il_lookup = l, il_indexes = [idx] \<rparr>)])"
    by (simp add: assign_one_filter release_all_def)
  moreover have "getIndexes c Map.empty (Or (Equals x k) e) r = (?r1, Ok [])"
    using g assms(7,8) by (simp add: getIndexes_simps or_merge_def)
  then have "assignIndexes c (FilterNode (Or (Equals x k) e) (PlanNode [])) r = (?r1, Ok [])"
    by (simp add: assign_one_filter release_all_def)
  ultimately show ?thesis using released_retained [OF db] db by (simp add: retainIndex_def key_of_def)
qed

theorem index_references_witness:
  "\<exists>r'. assignIndexes mem_ctx (FilterNode (Or (Equals col_x (Literal (GInt64 7) Int64)) (IsNull col_x)) (PlanNode [])) ready_x = (r', Ok [])
     \<and> ir_refCounts r' (IndexKey ''db'' ''x'') = 1"
proof -
  have "getIndexes mem_ctx Map.empty (IsNull col_x) r = (r, Ok [])" for r by (simp add: getIndexes.simps [of _ _ "IsNull col_x"])
  then show ?thesis
    using index_references [of ready_x mem_ctx col_x index_x "Literal (GInt64 7) Int64" "GInt64 7" "MergeableIndexLookup [GInt64 7] index_x"
      "IsNull col_x"]
    by (simp add: mem_ctx_def col_x_def col_String_def CanUseIndex_def IsUsable_def index_x_def key_of_def exprListsMatch_iff
        isEvaluable_def containsColumns_def inspect.simps memory_ops_def findTables_def tables_in_def map_filter_simps)
qed

end
