(* ===== verification/Registry_Locks.thy ===== *)
theory Registry_Locks
  imports Main
begin

text \<open>
  The locks of the index registry (\<^verbatim>\<open>sql/index.go\<close>). Each method is the sequence of its operations on the two
  read-write mutexes \<^verbatim>\<open>mut\<close> and \<^verbatim>\<open>rcmut\<close>; what it does in between is in the theory \<open>Index_Registry\<close>. A thread is what it
  has done and what it has left, and who holds a lock follows from what the threads have done. A run interleaves the
  threads; an operation on a lock that is not free waits. (Go lets a waiting writer also stop new readers, which can only
  block more.)
\<close>

datatype mutex = Mut | RcMut

datatype lock_op = RLock mutex | RUnlock mutex | Lock mutex | Unlock mutex

type_synonym thread = "lock_op list \<times> lock_op list"

section \<open>The methods\<close>

text \<open>\<^verbatim>\<open>Index\<close> retains the index under the read lock; \<^verbatim>\<open>IndexByExpression\<close> does the same for an index it finds.\<close>

definition Index_locks :: "lock_op list" where
  "Index_locks = [RLock Mut, Lock RcMut, Unlock RcMut, RUnlock Mut]"

definition ReleaseIndex_locks :: "lock_op list" where
  "ReleaseIndex_locks = [Lock RcMut, Unlock RcMut]"

text \<open>\<^verbatim>\<open>validateIndexToAdd\<close> under the read lock, then the insertion under the write lock.\<close>

definition AddIndex_locks :: "lock_op list" where
  "AddIndex_locks = [RLock Mut, RUnlock Mut, Lock Mut, Unlock Mut]"

text \<open>
  \<^verbatim>\<open>DeleteIndex\<close> of an index that no query uses: the search under the read lock, in which \<^verbatim>\<open>CanRemoveIndex\<close> takes it again,
  then \<^verbatim>\<open>rcmut\<close> and under it \<^verbatim>\<open>mut\<close>; the deferred unlocks run in reverse order.
\<close>

definition DeleteIndex_locks :: "lock_op list" where
  "DeleteIndex_locks =
     [RLock Mut, RLock Mut, RUnlock Mut, RUnlock Mut, Lock RcMut, Lock Mut, Unlock RcMut, Unlock Mut]"

text \<open>\<^verbatim>\<open>DeleteIndex\<close> on a registry without indexes returns with the read lock held.\<close>

definition DeleteIndex_empty_locks :: "lock_op list" where
  "DeleteIndex_empty_locks = [RLock Mut]"

section \<open>Runs\<close>

definition reading :: "mutex \<Rightarrow> thread \<Rightarrow> bool" where
  "reading m t \<longleftrightarrow> count_list (fst t) (RUnlock m) < count_list (fst t) (RLock m)"

definition writing :: "mutex \<Rightarrow> thread \<Rightarrow> bool" where
  "writing m t \<longleftrightarrow> count_list (fst t) (Unlock m) < count_list (fst t) (Lock m)"

fun can_run :: "thread list \<Rightarrow> thread \<Rightarrow> bool" where
  "can_run ths (d, []) = False"
| "can_run ths (d, RLock m # todo) = (\<not> list_ex (writing m) ths)"
| "can_run ths (d, Lock m # todo) = (\<not> list_ex (\<lambda>t. writing m t \<or> reading m t) ths)"
| "can_run ths (d, RUnlock m # todo) = True"
| "can_run ths (d, Unlock m # todo) = True"

fun advance :: "thread \<Rightarrow> thread" where
  "advance (d, []) = (d, [])"
| "advance (d, x # todo) = (d @ [x], todo)"

inductive lock_step :: "thread list \<Rightarrow> thread list \<Rightarrow> bool" where
  "i < length ths \<Longrightarrow> can_run ths (ths ! i) \<Longrightarrow> lock_step ths (ths[i := advance (ths ! i)])"

definition start :: "lock_op list \<Rightarrow> thread" where
  "start p = ([], p)"

definition deadlocked :: "thread list \<Rightarrow> bool" where
  "deadlocked ths \<longleftrightarrow> list_ex (\<lambda>t. snd t \<noteq> []) ths \<and> \<not> list_ex (can_run ths) ths"

section \<open>The methods that take mut before rcmut\<close>

definition ordered_methods :: "lock_op list set" where
  "ordered_methods = {Index_locks, ReleaseIndex_locks, AddIndex_locks}"

definition in_method :: "lock_op list set \<Rightarrow> thread \<Rightarrow> bool" where
  "in_method M t \<longleftrightarrow> fst t @ snd t \<in> M"

lemma advance_in_method: "in_method M t \<Longrightarrow> in_method M (advance t)"
  by (cases t rule: advance.cases) (auto simp: in_method_def)

lemma run_in_method: "lock_step\<^sup>*\<^sup>* ths ths' \<Longrightarrow> \<forall>t \<in> set ths. in_method M t \<Longrightarrow> \<forall>t \<in> set ths'. in_method M t"
proof (induction rule: rtranclp_induct)
  case (step ths' ths'')
  then show ?case
    by (auto simp: lock_step.simps advance_in_method dest!: set_update_subset_insert [THEN subsetD])
qed simp

text \<open>In these methods the holder of a lock can run, or waits for \<^verbatim>\<open>rcmut\<close> with a read lock on \<^verbatim>\<open>mut\<close>.\<close>

definition positions :: "lock_op list \<Rightarrow> thread list" where
  "positions p = map (\<lambda>i. (take i p, drop i p)) [0..<Suc (length p)]"

lemma in_method_positions:
  assumes "in_method ordered_methods t"
  shows "t \<in> set (positions Index_locks @ positions ReleaseIndex_locks @ positions AddIndex_locks)"
proof -
  obtain d todo where t: "t = (d, todo)" by fastforce
  have "(d, todo) \<in> set (positions (d @ todo))" 
    by (auto simp: positions_def simp del: upt_Suc intro!: image_eqI [of _ _ "length d"])
  moreover have "d @ todo = Index_locks \<or> d @ todo = ReleaseIndex_locks \<or> d @ todo = AddIndex_locks"
    using assms by (auto simp: t in_method_def ordered_methods_def)
  ultimately show ?thesis unfolding t by (auto simp del: set_map)
qed

lemma holder_runs:
  assumes "in_method ordered_methods t"
  shows "writing m t \<Longrightarrow> can_run ths t" "\<not> reading RcMut t"
    "reading Mut t \<Longrightarrow> can_run ths t \<or> (\<exists>d todo. t = (d, Lock RcMut # todo))"
  using in_method_positions [OF assms]
  by (auto simp: positions_def upt_rec Index_locks_def ReleaseIndex_locks_def AddIndex_locks_def reading_def writing_def
      split: if_splits)

lemma waiting:
  assumes "in_method ordered_methods t" "snd t \<noteq> []" "\<not> can_run ths t"
  shows "\<exists>m. \<exists>t' \<in> set ths. writing m t' \<or> reading m t'"
  using assms(2,3) by (cases "(ths, t)" rule: can_run.cases) (auto simp: list_ex_iff)

lemma ordered_not_deadlocked:
  assumes "\<forall>t \<in> set ths. in_method ordered_methods t"
  shows "\<not> deadlocked ths"
proof
  assume dead: "deadlocked ths"
  then have stuck: "\<not> can_run ths t" if "t \<in> set ths" for t using that by (auto simp: deadlocked_def list_ex_iff)
  have rc: "\<not> writing RcMut t \<and> \<not> reading RcMut t" if "t \<in> set ths" for t
    using holder_runs(1,2) [of t] assms stuck that by blast
  have "\<not> writing Mut t \<and> \<not> reading Mut t" if t: "t \<in> set ths" for t
  proof -
    have "can_run ths (d, Lock RcMut # todo)" for d todo using rc by (auto simp: list_ex_iff)
    then show ?thesis using holder_runs(1,3) [of t] assms stuck t by metis
  qed
  with rc have free: "\<not> writing m t \<and> \<not> reading m t" if "t \<in> set ths" for m t using that by (cases m) auto
  obtain t where "t \<in> set ths" "snd t \<noteq> []" using dead by (auto simp: deadlocked_def list_ex_iff)
  then show False using waiting [of t ths] assms stuck free by blast
qed

section \<open>Property\<close>

fun run_schedule :: "nat list \<Rightarrow> thread list \<Rightarrow> thread list option" where
  "run_schedule [] ths = Some ths"
| "run_schedule (i # is) ths =
     (if i < length ths \<and> can_run ths (ths ! i) then run_schedule is (ths[i := advance (ths ! i)]) else None)"

lemma run_schedule_steps: "run_schedule is ths = Some ths' \<Longrightarrow> lock_step\<^sup>*\<^sup>* ths ths'"
  by (induction "is" ths rule: run_schedule.induct)
    (auto split: if_splits intro: converse_rtranclp_into_rtranclp lock_step.intros)



end
