(* ===== verification/Catalog.thy ===== *)
theory Catalog
  imports Go_Prelude Similar_Text "HOL-Library.Word"
begin

text \<open>
  The catalog and what it holds: the view registry (\<^verbatim>\<open>sql/viewregistry.go\<close>), the function registry
  (\<^verbatim>\<open>sql/functionregistry.go\<close>), the in-memory database (\<^verbatim>\<open>memory/database.go\<close>), the databases and the table locks of the
  sessions (\<^verbatim>\<open>sql/catalog.go\<close>), and the statements that take and release the locks (\<^verbatim>\<open>sql/plan/lock.go\<close>).

  A registry is an interface: the locale \<open>registry\<close> states what a lookup returns after a registration, and is interpreted
  on the view registry, the function registry and the in-memory database.
\<close>

section \<open>The registry interface\<close>

locale registry =
  fixes reg :: "'r \<Rightarrow> 'k \<Rightarrow> 'v \<Rightarrow> 'r \<times> unit res"
    and lookup :: "'r \<Rightarrow> 'k \<Rightarrow> 'v option"
    and same :: "'k \<Rightarrow> 'k \<Rightarrow> bool"
  assumes same_self: "same k k"
    and reg_new: "lookup r k = None \<Longrightarrow>
      \<exists>r'. reg r k v = (r', Ok ()) \<and> (\<forall>k'. lookup r' k' = (if same k k' then Some v else lookup r k'))"
    and reg_taken: "lookup r k \<noteq> None \<Longrightarrow> fst (reg r k v) = r \<and> \<not> is_Ok (snd (reg r k v))"
begin

lemma reg_Ok_iff: "is_Ok (snd (reg r k v)) \<longleftrightarrow> lookup r k = None"
proof (cases "lookup r k")
  case None
  then show ?thesis using reg_new [of r k v] by auto
qed (use reg_taken [of r k v] in simp)

lemma reg_lookup: "lookup (fst (reg r k v)) k' = (if lookup r k = None \<and> same k k' then Some v else lookup r k')"
proof (cases "lookup r k")
  case None
  then show ?thesis using reg_new [of r k v] by auto
qed (use reg_taken [of r k v] in simp)

lemma lookup_registered: "is_Ok (snd (reg r k v)) \<Longrightarrow> lookup (fst (reg r k v)) k = Some v"
  by (simp add: reg_lookup reg_Ok_iff same_self)

lemma reg_twice: "\<not> is_Ok (snd (reg (fst (reg r k v)) k w))"
proof (cases "lookup r k")
  case None
  then show ?thesis by (simp add: reg_Ok_iff reg_lookup same_self)
next
  case (Some x)
  then show ?thesis using reg_taken [of r k v] reg_taken [of r k w] by simp
qed

end

locale dropping_registry = registry reg lookup same
  for reg :: "'r \<Rightarrow> 'k \<Rightarrow> 'v \<Rightarrow> 'r \<times> unit res" and lookup and same +
  fixes unreg :: "'r \<Rightarrow> 'k \<Rightarrow> 'r \<times> unit res"
  assumes unreg_ok: "lookup r k \<noteq> None \<Longrightarrow>
      \<exists>r'. unreg r k = (r', Ok ()) \<and> (\<forall>k'. lookup r' k' = (if same k k' then None else lookup r k'))"
    and unreg_missing: "lookup r k = None \<Longrightarrow> fst (unreg r k) = r \<and> \<not> is_Ok (snd (unreg r k))"
    and lookup_same: "same k k' \<Longrightarrow> lookup r k = lookup r k'"
begin

lemma reg_unreg: "lookup r k = None \<Longrightarrow> lookup (fst (unreg (fst (reg r k v)) k)) = lookup r"
proof (rule ext)
  fix k'
  assume none: "lookup r k = None"
  obtain r1 where r1: "reg r k v = (r1, Ok ())" "\<forall>k'. lookup r1 k' = (if same k k' then Some v else lookup r k')"
    using reg_new [OF none] by blast
  then obtain r2 where "unreg r1 k = (r2, Ok ())" "\<forall>k'. lookup r2 k' = (if same k k' then None else lookup r1 k')"
    using unreg_ok [of r1 k] same_self by auto
  with r1 show "lookup (fst (unreg (fst (reg r k v)) k)) k' = lookup r k'"
    using none lookup_same [of k k' r] by auto
qed

lemma unreg_twice: "\<not> is_Ok (snd (unreg (fst (unreg r k)) k))"
proof (cases "lookup r k = None")
  case True
  then show ?thesis using unreg_missing [of r k] by simp
next
  case False
  then obtain r1 where "unreg r k = (r1, Ok ())" "lookup r1 k = None" using unreg_ok [of r k] same_self by auto
  then show ?thesis using unreg_missing [of r1 k] by simp
qed

end

section \<open>Views\<close>

text \<open>The plan of a view is of no concern to the registry; a view carries it as a value of any type.\<close>

record 'n view =
  v_name :: string
  v_definition :: 'n
  v_textDefinition :: string

datatype view_key = ViewKey (vk_db: string) (vk_view: string)

type_synonym 'n view_registry = "view_key \<rightharpoonup> 'n view"

definition NewViewKey :: "string \<Rightarrow> string \<Rightarrow> view_key" where
  "NewViewKey db v = ViewKey (ToLower db) (ToLower v)"

definition NewViewRegistry :: "'n view_registry" where
  "NewViewRegistry = Map.empty"

definition view_Register :: "'n view_registry \<Rightarrow> string \<Rightarrow> 'n view \<Rightarrow> 'n view_registry \<times> unit res" where
  "view_Register r db v =
     (let key = NewViewKey db (v_name v) in
      case r key of
        Some _ \<Rightarrow> (r, Err (RegErr (ErrExistingView db (v_name v))))
      | None \<Rightarrow> (r(key \<mapsto> v), Ok ()))"

definition view_Delete :: "'n view_registry \<Rightarrow> string \<Rightarrow> string \<Rightarrow> 'n view_registry \<times> unit res" where
  "view_Delete r db name =
     (let key = NewViewKey db name in
      case r key of
        None \<Rightarrow> (r, Err (RegErr (ErrNonExistingView db name)))
      | Some _ \<Rightarrow> (r(key := None), Ok ()))"

definition view_Exists :: "'n view_registry \<Rightarrow> string \<Rightarrow> string \<Rightarrow> bool" where
  "view_Exists r db name \<longleftrightarrow> r (NewViewKey db name) \<noteq> None"

fun first_missing :: "'n view_registry \<Rightarrow> view_key list \<Rightarrow> view_key option" where
  "first_missing r [] = None"
| "first_missing r (k # ks) = (if view_Exists r (vk_db k) (vk_view k) then first_missing r ks else Some k)"

definition view_DeleteList :: "'n view_registry \<Rightarrow> view_key list \<Rightarrow> bool \<Rightarrow> 'n view_registry \<times> unit res" where
  "view_DeleteList r keys errIfNotExists =
     (case if errIfNotExists then first_missing r keys else None of
        Some k \<Rightarrow> (r, Err (RegErr (ErrNonExistingView (vk_db k) (vk_view k))))
      | None \<Rightarrow> (fold (\<lambda>k r. r(k := None)) keys r, Ok ()))"

definition view_View :: "'n view_registry \<Rightarrow> string \<Rightarrow> string \<Rightarrow> 'n view res" where
  "view_View r db name =
     (case r (NewViewKey db name) of Some v \<Rightarrow> Ok v | None \<Rightarrow> Err (RegErr (ErrNonExistingView db name)))"

text \<open>\<^verbatim>\<open>ViewsInDatabase\<close> ranges over the map in the order \<open>order\<close>, and compares the database name as it is given.\<close>

definition ViewsInDatabase :: "view_key list \<Rightarrow> 'n view_registry \<Rightarrow> string \<Rightarrow> 'n view list" where
  "ViewsInDatabase order r db = List.map_filter (\<lambda>k. if vk_db k = db then r k else None) order"

text \<open>The registry interface on pairs of names.\<close>

definition reg_view :: "'n view_registry \<Rightarrow> string \<times> string \<Rightarrow> ('n \<times> string) \<Rightarrow> 'n view_registry \<times> unit res" where
  "reg_view r k d = view_Register r (fst k) \<lparr> v_name = snd k, v_definition = fst d, v_textDefinition = snd d \<rparr>"

definition find_view :: "'n view_registry \<Rightarrow> string \<times> string \<Rightarrow> ('n \<times> string) option" where
  "find_view r k =
     (case view_View r (fst k) (snd k) of Ok v \<Rightarrow> Some (v_definition v, v_textDefinition v) | _ \<Rightarrow> None)"

definition same_name :: "string \<times> string \<Rightarrow> string \<times> string \<Rightarrow> bool" where
  "same_name k k' \<longleftrightarrow> ToLower (fst k) = ToLower (fst k') \<and> ToLower (snd k) = ToLower (snd k')"

interpretation views: dropping_registry reg_view find_view same_name "\<lambda>r k. view_Delete r (fst k) (snd k)"
  by unfold_locales
    (auto simp: reg_view_def find_view_def same_name_def view_Register_def view_View_def view_Delete_def NewViewKey_def Let_def
      split: option.splits)

section \<open>Functions\<close>

text \<open>\<^verbatim>\<open>Function0\<close> to \<^verbatim>\<open>Function7\<close> take a fixed number of arguments, \<^verbatim>\<open>FunctionN\<close> any.\<close>

datatype 'e fn_body = FixedArgs nat "'e list \<Rightarrow> 'e" | AnyArgs "'e list \<Rightarrow> 'e res"

record 'e function_def =
  fn_name :: string
  fn_Fn :: "'e fn_body"

type_synonym 'e function_registry = "string \<rightharpoonup> 'e function_def"

definition Function_Call :: "'e function_def \<Rightarrow> 'e list \<Rightarrow> 'e res" where
  "Function_Call fn args =
     (case fn_Fn fn of
        FixedArgs n f \<Rightarrow>
          if length args \<noteq> n then Err (RegErr (ErrInvalidArgumentNumber (fn_name fn) n (length args))) else Ok (f args)
      | AnyArgs f \<Rightarrow> f args)"

fun fn_Register :: "'e function_registry \<Rightarrow> 'e function_def list \<Rightarrow> 'e function_registry \<times> unit res" where
  "fn_Register r [] = (r, Ok ())"
| "fn_Register r (f # fs) =
     (if r (fn_name f) \<noteq> None then (r, Err (RegErr (ErrFunctionAlreadyRegistered (fn_name f))))
      else fn_Register (r(fn_name f \<mapsto> f)) fs)"

text \<open>\<open>order\<close> is the order of the keys of the map.\<close>

definition fn_Function :: "string list \<Rightarrow> 'e function_registry \<Rightarrow> string \<Rightarrow> 'e function_def res" where
  "fn_Function order r name =
     (if order = [] then Err (RegErr (ErrFunctionNotFound name))
      else case r name of
        Some f \<Rightarrow> Ok f
      | None \<Rightarrow> Err (RegErr (ErrFunctionNotFound (name @ Find order name))))"

interpretation funs: registry "\<lambda>r k b. fn_Register r [\<lparr> fn_name = k, fn_Fn = b \<rparr>]" "\<lambda>r k. map_option fn_Fn (r k)" "(=)"
  by unfold_locales auto

section \<open>The in-memory database\<close>

text \<open>A table is an in-memory table with its name, or a table of another implementation.\<close>

datatype 't table_obj = MemTable (mt_name: string) 't | OtherTable string 't

record 't mem_database =
  md_name :: string
  md_tables :: "string \<rightharpoonup> 't table_obj"

definition NewDatabase :: "string \<Rightarrow> 't mem_database" where
  "NewDatabase name = \<lparr> md_name = name, md_tables = Map.empty \<rparr>"

text \<open>\<open>order\<close> is the order in which the map of tables is ranged over.\<close>

definition GetTableInsensitive :: "string list \<Rightarrow> string \<Rightarrow> (string \<rightharpoonup> 't) \<Rightarrow> 't option" where
  "GetTableInsensitive order tblName tables =
     (case tables tblName of
        Some t \<Rightarrow> Some t
      | None \<Rightarrow> (case find (\<lambda>k. ToLower tblName = ToLower k) order of None \<Rightarrow> None | Some k \<Rightarrow> tables k))"

definition AddTable :: "'t mem_database \<Rightarrow> string \<Rightarrow> 't table_obj \<Rightarrow> 't mem_database" where
  "AddTable d name t = d \<lparr> md_tables := (md_tables d)(name \<mapsto> t) \<rparr>"

text \<open>\<open>content\<close> is the content of a new table.\<close>

definition CreateTable :: "'t mem_database \<Rightarrow> string \<Rightarrow> 't \<Rightarrow> 't mem_database \<times> unit res" where
  "CreateTable d name content =
     (case md_tables d name of
        Some _ \<Rightarrow> (d, Err (SqlErr (ErrTableAlreadyExists name)))
      | None \<Rightarrow> (d \<lparr> md_tables := (md_tables d)(name \<mapsto> MemTable name content) \<rparr>, Ok ()))"

definition DropTable :: "'t mem_database \<Rightarrow> string \<Rightarrow> 't mem_database \<times> unit res" where
  "DropTable d name =
     (case md_tables d name of
        None \<Rightarrow> (d, Err (SqlErr (ErrTableNotFound name)))
      | Some _ \<Rightarrow> (d \<lparr> md_tables := (md_tables d)(name := None) \<rparr>, Ok ()))"

definition RenameTable :: "'t mem_database \<Rightarrow> string \<Rightarrow> string \<Rightarrow> 't mem_database \<times> unit res" where
  "RenameTable d oldName newName =
     (case md_tables d oldName of
        None \<Rightarrow> (d, Err (SqlErr (ErrTableNotFound oldName)))
      | Some tbl \<Rightarrow>
          (case md_tables d newName of
             Some _ \<Rightarrow> (d, Err (SqlErr (ErrTableAlreadyExists newName)))
           | None \<Rightarrow>
               (case tbl of
                  OtherTable _ _ \<Rightarrow> (d, Panic)
                | MemTable _ c \<Rightarrow>
                    (d \<lparr> md_tables := ((md_tables d)(newName \<mapsto> MemTable newName c))(oldName := None) \<rparr>, Ok ()))))"

definition table_content :: "'t table_obj \<Rightarrow> 't" where
  "table_content t = (case t of MemTable _ c \<Rightarrow> c | OtherTable _ c \<Rightarrow> c)"

interpretation tables: dropping_registry CreateTable "\<lambda>d k. map_option table_content (md_tables d k)" "(=)" DropTable
  by unfold_locales (auto simp: CreateTable_def DropTable_def table_content_def split: option.splits)

section \<open>Databases\<close>

text \<open>
  The engine sees a database through its interface: its name, the lookup of a table, the names of its tables, and for a
  \<^verbatim>\<open>VersionedDatabase\<close> the lookup and the names as of a point in time.
\<close>

record ('t, 'time) database =
  db_Name :: string
  db_GetTableInsensitive :: "string \<Rightarrow> 't option res"
  db_GetTableNames :: "string list res"
  db_AsOf :: "('time \<Rightarrow> (string \<Rightarrow> 't option res) \<times> string list res) option"

fun find_db :: "('t, 'time) database list \<Rightarrow> string \<Rightarrow> string list \<Rightarrow> ('t, 'time) database res" where
  "find_db [] name dbNames = Err (SqlErr (ErrDatabaseNotFound (name @ Find dbNames name)))"
| "find_db (db # dbs) name dbNames =
     (if ToLower (db_Name db) = name then Ok db else find_db dbs name (dbNames @ [db_Name db]))"

definition Databases_Database :: "('t, 'time) database list \<Rightarrow> string \<Rightarrow> ('t, 'time) database res" where
  "Databases_Database dbs name =
     (if dbs = [] then Err (SqlErr (ErrDatabaseNotFound name)) else find_db dbs (ToLower name) [])"

definition table_or_suggestion :: "(string \<Rightarrow> 't option res) \<times> string list res \<Rightarrow> string \<Rightarrow> 't res" where
  "table_or_suggestion db tableName =
     rbind (fst db tableName) (\<lambda>t. case t of
       Some tbl \<Rightarrow> Ok tbl
     | None \<Rightarrow> rbind (snd db) (\<lambda>names. Err (SqlErr (ErrTableNotFound (tableName @ Find names tableName)))))"

definition Databases_Table :: "('t, 'time) database list \<Rightarrow> string \<Rightarrow> string \<Rightarrow> 't res" where
  "Databases_Table dbs dbName tableName =
     rbind (Databases_Database dbs dbName) (\<lambda>db.
       table_or_suggestion (db_GetTableInsensitive db, db_GetTableNames db) tableName)"

definition Databases_TableAsOf :: "('t, 'time) database list \<Rightarrow> string \<Rightarrow> string \<Rightarrow> 'time \<Rightarrow> 't res" where
  "Databases_TableAsOf dbs dbName tableName asOf =
     rbind (Databases_Database dbs dbName) (\<lambda>db.
       case db_AsOf db of
         None \<Rightarrow> Err (SqlErr (ErrAsOfNotSupported tableName))
       | Some versions \<Rightarrow> table_or_suggestion (versions asOf) tableName)"

text \<open>The in-memory database behind the interface.\<close>

definition mem_as_database :: "string list \<Rightarrow> 't mem_database \<Rightarrow> ('t table_obj, 'time) database" where
  "mem_as_database order d =
     \<lparr> db_Name = md_name d, db_GetTableInsensitive = (\<lambda>n. Ok (GetTableInsensitive order n (md_tables d))),
       db_GetTableNames = Ok order, db_AsOf = None \<rparr>"

definition history_as_database ::
  "string list \<Rightarrow> ('time \<rightharpoonup> string list \<times> 't mem_database) \<Rightarrow> 't mem_database \<Rightarrow> ('t table_obj, 'time) database" where
  "history_as_database order revisions current =
     (mem_as_database order current) \<lparr> db_AsOf := Some (\<lambda>time.
        case revisions time of
          None \<Rightarrow> (\<lambda>_. Err (ErrOther ''No database revision for time''), Err (ErrOther ''No database revision for time''))
        | Some (names, d) \<Rightarrow> (\<lambda>n. Ok (GetTableInsensitive names n (md_tables d)), Ok names)) \<rparr>"

section \<open>Table locks\<close>

text \<open>\<^verbatim>\<open>sessionLocks\<close>: for each session and database the set of locked tables.\<close>

type_synonym session_locks = "32 word \<rightharpoonup> (string \<rightharpoonup> string set)"

definition LockTable :: "session_locks \<Rightarrow> 32 word \<Rightarrow> string \<Rightarrow> string \<Rightarrow> session_locks" where
  "LockTable locks sid db tbl =
     (let l1 = (if locks sid = None then locks(sid \<mapsto> Map.empty) else locks);
          dbs = the (l1 sid);
          dbs1 = (if dbs db = None then dbs(db \<mapsto> {}) else dbs)
      in l1(sid \<mapsto> dbs1(db \<mapsto> insert tbl (the (dbs1 db)))))"

text \<open>
  \<^verbatim>\<open>UnlockTables\<close> ranges over the databases and tables in map order, the list \<open>order\<close> of their pairs. \<open>find_table\<close> is
  \<^verbatim>\<open>c.dbs.Table\<close>, with \<open>None\<close> for a table that is not \<^verbatim>\<open>Lockable\<close>, and \<open>unlock\<close> is what the \<^verbatim>\<open>Unlock\<close> of a lockable table
  does with the state of the tables.
\<close>

fun unlock_loop ::
  "(string \<Rightarrow> string \<Rightarrow> gerror + 'l option) \<Rightarrow> ('l \<Rightarrow> 'w \<Rightarrow> 'w \<times> gerror option) \<Rightarrow> (string \<times> string) list \<Rightarrow> 'w \<Rightarrow>
   gerror list \<Rightarrow> 'w \<times> gerror list" where
  "unlock_loop find_table unlock [] w errs = (w, errs)"
| "unlock_loop find_table unlock ((db, t) # order) w errs =
     (case find_table db t of
        Inr None \<Rightarrow> unlock_loop find_table unlock order w errs
      | Inr (Some l) \<Rightarrow>
          (case unlock l w of
             (w', None) \<Rightarrow> unlock_loop find_table unlock order w' errs
           | (w', Some e) \<Rightarrow> unlock_loop find_table unlock order w' (errs @ [e]))
      | Inl e \<Rightarrow> unlock_loop find_table unlock order w (errs @ [e]))"

definition UnlockTables ::
  "(string \<Rightarrow> string \<Rightarrow> gerror + 'l option) \<Rightarrow> ('l \<Rightarrow> 'w \<Rightarrow> 'w \<times> gerror option) \<Rightarrow> (string \<times> string) list \<Rightarrow>
   session_locks \<Rightarrow> 'w \<Rightarrow> 32 word \<Rightarrow> (session_locks \<times> 'w) \<times> unit res" where
  "UnlockTables find_table unlock order locks w sid =
     (let (w', errs) = unlock_loop find_table unlock order w [] in
      ((locks(sid := None), w'), if errs \<noteq> [] then Err (ErrUnlockTables sid errs) else Ok ()))"

text \<open>
  \<^verbatim>\<open>LockTables.RowIter\<close>: a table that is not lockable, or that cannot be locked, is skipped. A lock request is the
  lockable table with its name, if there is one, and the write flag.
\<close>

fun LockTables_RowIter ::
  "('l \<Rightarrow> bool \<Rightarrow> 'w \<Rightarrow> 'w \<times> gerror option) \<Rightarrow> 32 word \<Rightarrow> string \<Rightarrow> (('l \<times> string) option \<times> bool) list \<Rightarrow>
   session_locks \<times> 'w \<Rightarrow> session_locks \<times> 'w" where
  "LockTables_RowIter lock sid db [] s = s"
| "LockTables_RowIter lock sid db ((None, wr) # reqs) s = LockTables_RowIter lock sid db reqs s"
| "LockTables_RowIter lock sid db ((Some (l, name), wr) # reqs) (locks, w) =
     (case lock l wr w of
        (w', Some e) \<Rightarrow> LockTables_RowIter lock sid db reqs (locks, w')
      | (w', None) \<Rightarrow> LockTables_RowIter lock sid db reqs (LockTable locks sid db name, w'))"

section \<open>Properties\<close>

text \<open>Views and tables are registries. A registered view is found under its names in any case and no other view is
  affected; a second registration fails; deleting restores the registry. Creating a table and dropping it, and renaming a
  table back and forth, restore the database.\<close>

lemma registries:
  fixes d :: "'t mem_database" and vr :: "'n view_registry"
  assumes "md_tables d tname = Some (MemTable tname c)" "md_tables d tnew = None" "find_view vr (db, v) = None"
  shows "find_view (fst (reg_view vr (db, v) def)) (db', v') =
       (if same_name (db, v) (db', v') then Some def else find_view vr (db', v'))
    \<and> \<not> is_Ok (snd (reg_view (fst (reg_view vr (db, v) def)) (db, v) def'))
    \<and> find_view (fst (view_Delete (fst (reg_view vr (db, v) def)) db v)) = find_view vr
    \<and> fst (DropTable (fst (CreateTable d tnew c')) tnew) = d
    \<and> fst (RenameTable (fst (RenameTable d tname tnew)) tnew tname) = d"
proof (intro conjI)
  show "find_view (fst (reg_view vr (db, v) def)) (db', v') =
       (if same_name (db, v) (db', v') then Some def else find_view vr (db', v'))"
    using assms(3) by (simp add: views.reg_lookup)
  show "\<not> is_Ok (snd (reg_view (fst (reg_view vr (db, v) def)) (db, v) def'))" by (rule views.reg_twice)
  show "find_view (fst (view_Delete (fst (reg_view vr (db, v) def)) db v)) = find_view vr"
    using views.reg_unreg [OF assms(3)] by simp
  show "fst (DropTable (fst (CreateTable d tnew c')) tnew) = d"
    using assms(2) by (simp add: DropTable_def CreateTable_def fun_upd_idem)
  have "tname \<noteq> tnew" using assms by auto
  moreover have "(md_tables d)(tnew := None) = md_tables d" "(md_tables d)(tname \<mapsto> MemTable tname c) = md_tables d"
    using assms by (simp_all add: fun_upd_idem)
  ultimately show "fst (RenameTable (fst (RenameTable d tname tnew)) tnew tname) = d"
    using assms by (simp add: RenameTable_def fun_upd_twist)
qed

theorem registries_witness:
  "find_view (fst (reg_view NewViewRegistry (''db'', ''V'') (0::nat, ''SELECT 1''))) (''DB'', ''v'') = Some (0, ''SELECT 1'')"
proof -
  have "same_name (''db'', ''V'') (''DB'', ''v'')" by code_simp
  moreover have "find_view (NewViewRegistry :: nat view_registry) (''db'', ''V'') = None"
    by (simp add: find_view_def view_View_def NewViewRegistry_def)
  ultimately show ?thesis
    using registries [of "fst (CreateTable (NewDatabase ''db'') ''t'' ())" "''t''" "()" "''u''"
    "NewViewRegistry :: nat view_registry" "''db''" "''V''" "(0, ''SELECT 1'')" "''DB''" "''v''"]
    by (simp add: CreateTable_def NewDatabase_def)
qed

definition locked :: "session_locks \<Rightarrow> 32 word \<Rightarrow> (string \<times> string) set" where
  "locked locks sid = {(db, t). \<exists>m ts. locks sid = Some m \<and> m db = Some ts \<and> t \<in> ts}"

lemma LockTable_locked [simp]: "locked (LockTable locks sid db t) sid = insert (db, t) (locked locks sid)"
  by (auto simp: locked_def LockTable_def Let_def split: if_splits)

lemma locked_empty [simp]: "locked Map.empty sid = {}"
  by (simp add: locked_def)

lemma LockTable_other [simp]: "sid' \<noteq> sid \<Longrightarrow> LockTable locks sid db t sid' = locks sid'"
  by (simp add: LockTable_def Let_def)

text \<open>Tables that can always be locked and unlocked; the state is the set of the locked ones.\<close>

definition set_lock :: "'l \<Rightarrow> bool \<Rightarrow> 'l set \<Rightarrow> 'l set \<times> gerror option" where
  "set_lock l wr w = (insert l w, None)"

definition set_unlock :: "'l \<Rightarrow> 'l set \<Rightarrow> 'l set \<times> gerror option" where
  "set_unlock l w = (w - {l}, None)"

definition requested :: "(('l \<times> string) option \<times> bool) list \<Rightarrow> ('l \<times> string) set" where
  "requested reqs = {p. \<exists>wr. (Some p, wr) \<in> set reqs}"

lemma LockTables_result:
  "LockTables_RowIter set_lock sid db reqs (locks, w) = (locks', w') \<Longrightarrow>
   w' = w \<union> fst ` requested reqs \<and> locked locks' sid = locked locks sid \<union> Pair db ` snd ` requested reqs
   \<and> (\<forall>sid'. sid' \<noteq> sid \<longrightarrow> locks' sid' = locks sid')"
proof (induction reqs arbitrary: locks w)
  case (Cons req reqs)
  obtain r wr where req: "req = (r, wr)" by fastforce
  show ?case
  proof (cases r)
    case None
    then have "requested (req # reqs) = requested reqs" by (auto simp: requested_def req)
    with None Cons show ?thesis by (simp add: req)
  next
    case (Some p)
    then obtain l n where p: "r = Some (l, n)" by fastforce
    then have "requested (req # reqs) = insert (l, n) (requested reqs)" by (auto simp: requested_def req)
    moreover have step: "LockTables_RowIter set_lock sid db reqs (LockTable locks sid db n, insert l w) = (locks', w')"
      using Cons.prems p by (simp add: req set_lock_def [of l])
    ultimately show ?thesis using Cons.IH [OF step] by auto
  qed
qed (simp add: requested_def)

lemma unlock_loop_result:
  assumes "\<forall>(db, t) \<in> set order. \<exists>l. find_table db t = Inr (Some l)"
  shows "unlock_loop find_table set_unlock order w errs =
    (w - {l. \<exists>(db, t) \<in> set order. find_table db t = Inr (Some l)}, errs)"
  using assms
proof (induction order arbitrary: w)
  case (Cons p order)
  obtain db t where p: "p = (db, t)" by fastforce
  with Cons.prems obtain l where l: "find_table db t = Inr (Some l)" by auto
  have "w - {l} - {l. \<exists>(db, t) \<in> set order. find_table db t = Inr (Some l)} =
      w - {l. \<exists>(db, t) \<in> set (p # order). find_table db t = Inr (Some l)}"
    using l by (auto simp: p)
  with Cons l show ?case by (simp add: p set_unlock_def)
qed simp

text \<open>A session that locks tables and then unlocks them releases exactly the tables it locked, leaves no entry behind and
  does not touch the locks of other sessions, whatever the order in which the maps are visited.\<close>

lemma lock_unlock:
  assumes "locks sid = None" "\<forall>(l, n) \<in> requested reqs. find_table db n = Inr (Some l) \<and> l \<notin> w"
    "LockTables_RowIter set_lock sid db reqs (locks, w) = (locks', w')" "set order = locked locks' sid"
  shows "w' = w \<union> fst ` requested reqs \<and> UnlockTables find_table set_unlock order locks' w' sid = ((locks, w), Ok ())"
proof -
  note lt = LockTables_result [OF assms(3)]
  have "locked locks sid = {}" using assms(1) by (simp add: locked_def)
  with lt assms(4) have ord: "set order = Pair db ` snd ` requested reqs" by simp
  have "{l. \<exists>(d, t) \<in> set order. find_table d t = Inr (Some l)} = fst ` requested reqs"
    unfolding ord using assms(2) by force
  moreover have "\<forall>(d, t) \<in> set order. \<exists>l. find_table d t = Inr (Some l)" unfolding ord using assms(2) by force
  moreover have "locks'(sid := None) = locks" using lt assms(1) by auto
  moreover have "w \<union> fst ` requested reqs - fst ` requested reqs = w" using assms(2) by force
  ultimately show ?thesis using lt by (simp add: UnlockTables_def unlock_loop_result)
qed

theorem lock_unlock_witness:
  "UnlockTables (\<lambda>_ n. Inr (Some n)) set_unlock [(''db'', ''t'')]
     (fst (LockTables_RowIter set_lock 1 ''db'' [(None, True), (Some (''t'', ''t''), True)] (Map.empty, {}))) {''t''} 1 =
   ((Map.empty, {}), Ok ())"
proof -
  have "requested [(None, True), (Some (''t'', ''t''), True)] = {(''t'', ''t'')}" by (auto simp: requested_def)
  then show ?thesis
    using lock_unlock [of Map.empty 1 "[(None, True), (Some (''t'', ''t''), True)]" "\<lambda>_ n. Inr (Some n)" "''db''" "{}"
      "LockTable Map.empty 1 ''db'' ''t''" "{''t''}" "[(''db'', ''t'')]"]
    by (simp add: set_lock_def)
qed

end
