(* ===== verification/Analyzer_Batch.thy ===== *)
theory Analyzer_Batch
  imports Go_Prelude
begin

text \<open>
  The driver of the analyzer: batches of rules that are applied until the plan does not change
  (\<^verbatim>\<open>sql/analyzer/batch.go\<close>) and the sequence of batches (\<^verbatim>\<open>Analyze\<close> of \<^verbatim>\<open>sql/analyzer/analyzer.go\<close>). The plan nodes, the
  rules and the comparison of nodes are parameters. A Go pair of a node and an error is an optional node and a result.
\<close>

type_synonym 'n rule = "'n \<Rightarrow> 'n res"

record 'n batch =
  bt_Iterations :: int
  bt_Rules :: "'n rule list"

fun evalOnce :: "'n rule list \<Rightarrow> 'n \<Rightarrow> 'n res" where
  "evalOnce [] n = Ok n"
| "evalOnce (rule # rules) n = rbind (rule n) (evalOnce rules)"

function batch_loop :: "('n \<Rightarrow> 'n \<Rightarrow> bool) \<Rightarrow> 'n batch \<Rightarrow> int \<Rightarrow> 'n \<Rightarrow> 'n \<Rightarrow> 'n option \<times> unit res" where
  "batch_loop nodesEqual b i prev cur =
     (if nodesEqual prev cur then (Some cur, Ok ())
      else case evalOnce (bt_Rules b) cur of
        Err e \<Rightarrow> (None, Err e)
      | Panic \<Rightarrow> (None, Panic)
      | Ok cur' \<Rightarrow>
          if i + 1 \<ge> bt_Iterations b then (Some cur', Err (ErrMaxAnalysisIters (nat (bt_Iterations b))))
          else batch_loop nodesEqual b (i + 1) cur cur')"
  by pat_completeness auto
termination
  by (relation "measure (\<lambda>(eq, b, i, prev, cur). nat (bt_Iterations b - i))") auto

declare batch_loop.simps [simp del]

definition Batch_Eval :: "('n \<Rightarrow> 'n \<Rightarrow> bool) \<Rightarrow> 'n batch \<Rightarrow> 'n \<Rightarrow> 'n option \<times> unit res" where
  "Batch_Eval nodesEqual b n =
     (if bt_Iterations b = 0 then (Some n, Ok ())
      else case evalOnce (bt_Rules b) n of
        Err e \<Rightarrow> (None, Err e)
      | Panic \<Rightarrow> (None, Panic)
      | Ok cur \<Rightarrow> if bt_Iterations b = 1 then (Some cur, Ok ()) else batch_loop nodesEqual b 1 n cur)"

text \<open>\<^verbatim>\<open>Analyze\<close> goes on after a batch that did not converge; the error of the last batch is returned with the node.\<close>

fun is_max_iters :: "'a res \<Rightarrow> bool" where
  "is_max_iters (Err (ErrMaxAnalysisIters _)) = True"
| "is_max_iters _ = False"

fun analyze_loop :: "('n \<Rightarrow> 'n \<Rightarrow> bool) \<Rightarrow> 'n batch list \<Rightarrow> 'n \<Rightarrow> unit res \<Rightarrow> 'n option \<times> unit res" where
  "analyze_loop nodesEqual [] prev err = (Some prev, err)"
| "analyze_loop nodesEqual (b # bs) prev err =
     (case Batch_Eval nodesEqual b prev of
        (Some n, r) \<Rightarrow> if is_Ok r \<or> is_max_iters r then analyze_loop nodesEqual bs n r else (None, r)
      | (None, r) \<Rightarrow> (None, r))"

definition Analyze :: "('n \<Rightarrow> 'n \<Rightarrow> bool) \<Rightarrow> 'n batch list \<Rightarrow> 'n \<Rightarrow> 'n option \<times> unit res" where
  "Analyze nodesEqual bs n = analyze_loop nodesEqual bs n (Ok ())"

section \<open>Properties\<close>

text \<open>\<open>rounds rules n k\<close> is the plan after \<open>k\<close> rounds of the rules, if none fails.\<close>

primrec rounds :: "'n rule list \<Rightarrow> 'n \<Rightarrow> nat \<Rightarrow> 'n res" where
  "rounds rules n 0 = Ok n"
| "rounds rules n (Suc k) = rbind (rounds rules n k) (evalOnce rules)"

text \<open>\<open>settled\<close>: the plan did not change in round \<open>k\<close>.\<close>

definition settled :: "('n \<Rightarrow> 'n \<Rightarrow> bool) \<Rightarrow> 'n rule list \<Rightarrow> 'n \<Rightarrow> nat \<Rightarrow> bool" where
  "settled eq rules n k \<longleftrightarrow>
     0 < k \<and> (\<exists>p c. rounds rules n (k - 1) = Ok p \<and> rounds rules n k = Ok c \<and> eq p c)"

lemma rounds_defined:
  assumes "rounds rules n k = Ok c" "j \<le> k"
  shows "\<exists>c'. rounds rules n j = Ok c'"
  using assms(2)
proof (induction rule: inc_induct)
  case (step m)
  then show ?case by (auto simp: rbind_eq_Ok)
qed (simp add: assms(1))

lemma batch_loop_settles:
  assumes "\<forall>j < k. \<not> settled eq (bt_Rules b) n j" "settled eq (bt_Rules b) n k" "int k < bt_Iterations b"
    "rounds (bt_Rules b) n k = Ok fin"
    "0 < i" "i \<le> k" "rounds (bt_Rules b) n (i - 1) = Ok prev" "rounds (bt_Rules b) n i = Ok cur"
  shows "batch_loop eq b (int i) prev cur = (Some fin, Ok ())"
  using assms(5-8)
proof (induction "k - i" arbitrary: i prev cur)
  case 0
  then have "i = k" by simp
  with 0 assms(2,4) show ?case by (auto simp: batch_loop.simps [of eq b] settled_def)
next
  case (Suc m)
  then have "i < k" by simp
  then have "\<not> eq prev cur" using assms(1) Suc.prems by (auto simp: settled_def)
  moreover have "\<exists>cur'. rounds (bt_Rules b) n (Suc i) = Ok cur'"
    using rounds_defined [OF assms(4)] \<open>i < k\<close> Suc_leI by blast
  then obtain cur' where cur': "rounds (bt_Rules b) n (Suc i) = Ok cur'" by blast
  then have "evalOnce (bt_Rules b) cur = Ok cur'" using Suc.prems by simp
  moreover have "batch_loop eq b (int (Suc i)) cur cur' = (Some fin, Ok ())"
    using Suc.hyps(1) [of "Suc i" cur cur'] Suc.hyps(2) Suc.prems(4) cur' \<open>i < k\<close> by simp
  moreover have "\<not> int i + 1 \<ge> bt_Iterations b" using assms(3) \<open>i < k\<close> by linarith
  ultimately show ?case by (simp add: batch_loop.simps [of eq b "int i"] add.commute)
qed

lemma batch_loop_exhausts:
  assumes "\<forall>j < iters. \<not> settled eq (bt_Rules b) n j" "int iters = bt_Iterations b" "rounds (bt_Rules b) n iters = Ok fin"
    "0 < i" "i < iters" "rounds (bt_Rules b) n (i - 1) = Ok prev" "rounds (bt_Rules b) n i = Ok cur"
    "\<forall>j \<le> iters. \<exists>c. rounds (bt_Rules b) n j = Ok c"
  shows "batch_loop eq b (int i) prev cur = (Some fin, Err (ErrMaxAnalysisIters iters))"
  using assms(4-7)
proof (induction "iters - i" arbitrary: i prev cur)
  case (Suc m)
  then have "\<not> eq prev cur" using assms(1) by (auto simp: settled_def)
  moreover obtain cur' where cur': "rounds (bt_Rules b) n (Suc i) = Ok cur'" using assms(8) Suc.prems(2) Suc_leI by blast
  then have step: "evalOnce (bt_Rules b) cur = Ok cur'" using Suc.prems by simp
  show ?case
  proof (cases "Suc i = iters")
    case True
    then show ?thesis using \<open>\<not> eq prev cur\<close> step cur' assms(2,3) by (simp add: batch_loop.simps [of eq b "int i"])
  next
    case False
    then have "batch_loop eq b (int (Suc i)) cur cur' = (Some fin, Err (ErrMaxAnalysisIters iters))"
      using Suc.hyps(1) [of "Suc i" cur cur'] Suc.hyps(2) Suc.prems cur' by simp
    moreover have "\<not> int i + 1 \<ge> bt_Iterations b" using assms(2) False Suc.prems(2) by linarith
    ultimately show ?thesis using \<open>\<not> eq prev cur\<close> step by (simp add: batch_loop.simps [of eq b "int i"] add.commute)
  qed
qed simp

text \<open>(C19) A batch stops: it returns the plan of the first round that changed nothing, if that round comes before the limit,
  and otherwise, after exactly the limit of rounds, the last plan with the error; a batch whose last allowed round changes
  nothing counts as not converged.\<close>

theorem batch_stops:
  assumes "bt_Iterations b = int iters" "2 \<le> iters" "\<forall>k \<le> iters. \<exists>c. rounds (bt_Rules b) n k = Ok c"
  shows "Batch_Eval eq b n =
    (if \<exists>k < iters. settled eq (bt_Rules b) n k
     then (case rounds (bt_Rules b) n (LEAST k. settled eq (bt_Rules b) n k) of Ok c \<Rightarrow> (Some c, Ok ()) | _ \<Rightarrow> (None, Panic))
     else (case rounds (bt_Rules b) n iters of Ok c \<Rightarrow> (Some c, Err (ErrMaxAnalysisIters iters)) | _ \<Rightarrow> (None, Panic)))"
proof -
  obtain c1 where c1: "rounds (bt_Rules b) n 1 = Ok c1" using assms(2,3) by (meson one_le_numeral order_trans)
  then have eval: "Batch_Eval eq b n = batch_loop eq b 1 n c1" using assms(1,2) by (auto simp: Batch_Eval_def)
  show ?thesis
  proof (cases "\<exists>k < iters. settled eq (bt_Rules b) n k")
    case True
    define k where "k = (LEAST k. settled eq (bt_Rules b) n k)"
    have k: "settled eq (bt_Rules b) n k" "\<forall>j < k. \<not> settled eq (bt_Rules b) n j" "k < iters"
      unfolding k_def using True not_less_Least by (auto intro: LeastI le_less_trans Least_le)
    obtain fin where "rounds (bt_Rules b) n k = Ok fin" using k(3) assms(3) by (meson less_imp_le)
    moreover have "0 < k" using k(1) by (simp add: settled_def)
    ultimately have "batch_loop eq b (int 1) n c1 = (Some fin, Ok ())"
      using batch_loop_settles [OF k(2,1), of fin 1 n c1] k(3) assms(1) c1 by simp
    with eval True \<open>rounds (bt_Rules b) n k = Ok fin\<close> show ?thesis by (simp add: k_def)
  next
    case False
    obtain fin where "rounds (bt_Rules b) n iters = Ok fin" using assms(3) by blast
    then show ?thesis
      using batch_loop_exhausts [of iters eq b n fin 1 n c1] False assms c1 eval by auto
  qed
qed

text \<open>Example: a rule that counts down.\<close>

definition countdown :: "nat rule" where
  "countdown n = Ok (n - 1)"

theorem batch_stops_witness:
  "Batch_Eval (=) \<lparr> bt_Iterations = 5, bt_Rules = [countdown] \<rparr> 2 = (Some 0, Ok ())"
proof -
  have r: "rounds [countdown] 2 k = Ok (2 - k)" for k by (induction k) (simp_all add: countdown_def)
  have s: "settled (=) [countdown] 2 k \<longleftrightarrow> 2 < k" for k by (auto simp: settled_def r simp del: rounds.simps)
  have "(LEAST k. settled (=) [countdown] 2 k) = 3" by (rule Least_equality) (simp_all add: s)
  moreover have "\<exists>k < 5. settled (=) [countdown] 2 k" by (rule exI [of _ 3]) (simp add: s)
  ultimately show ?thesis
    using batch_stops [of "\<lparr> bt_Iterations = 5, bt_Rules = [countdown] \<rparr>" 5 2 "(=)"] r by (simp del: rounds.simps)
qed

end
