(* ===== verification/Memory_Manager.thy ===== *)
theory Memory_Manager
  imports Go_Values
begin

text \<open>
  The memory manager (\<^verbatim>\<open>sql/memory.go\<close>), its caches (\<^verbatim>\<open>sql/cache.go\<close>) and the session (\<^verbatim>\<open>sql/session.go\<close>).

  Caches are objects: the state holds them by an address that is never reused, with a flag for a disposed one, and the
  manager maps its tokens to addresses. The memory in use is a function \<open>used\<close> of the state, given by the reporter. The LRU
  cache of \<^verbatim>\<open>hashicorp/golang-lru\<close> is the parameter \<open>lru\<close>.
\<close>

section \<open>State\<close>

record 'c lru_impl =
  lru_New :: "nat \<Rightarrow> 'c"
  lru_Add :: "'c \<Rightarrow> 64 word \<Rightarrow> gval \<Rightarrow> 'c"
  lru_Get :: "'c \<Rightarrow> 64 word \<Rightarrow> 'c \<times> gval option"

datatype 'c cache_data =
    LruCache nat "'c option"
  | RowsCache "row list"
  | HistoryCache "64 word \<rightharpoonup> gval"

record 'c cache =
  ca_data :: "'c cache_data"
  ca_disposed :: bool

record 'c manager =
  mm_objects :: "'c cache list"
  mm_caches :: "64 word \<rightharpoonup> nat"
  mm_token :: "64 word"

record 'c reporter =
  rp_MaxMemory :: "64 word"
  rp_UsedMemory :: "'c manager \<Rightarrow> 64 word"

definition NewMemoryManager :: "'c manager" where
  "NewMemoryManager = \<lparr> mm_objects = [], mm_caches = Map.empty, mm_token = 0 \<rparr>"

section \<open>Registration\<close>

definition HasAvailableMemory :: "'c reporter \<Rightarrow> 'c manager \<Rightarrow> bool" where
  "HasAvailableMemory r m \<longleftrightarrow> (if rp_MaxMemory r = 0 then True else rp_UsedMemory r m < rp_MaxMemory r)"

definition addCache :: "nat \<Rightarrow> 'c manager \<Rightarrow> 'c manager \<times> 64 word" where
  "addCache c m = (let t = mm_token m + 1 in (m \<lparr> mm_token := t, mm_caches := (mm_caches m)(t \<mapsto> c) \<rparr>, t))"

definition removeCache :: "64 word \<Rightarrow> 'c manager \<Rightarrow> 'c manager" where
  "removeCache pos m =
     (let m1 = m \<lparr> mm_caches := (mm_caches m)(pos := None) \<rparr> in
      if mm_caches m1 = Map.empty then m1 \<lparr> mm_token := 0 \<rparr> else m1)"

text \<open>\<^verbatim>\<open>NewLRUCache\<close>, \<^verbatim>\<open>NewHistoryCache\<close> and \<^verbatim>\<open>NewRowsCache\<close>: the new object's address and the token its dispose function knows.\<close>

definition new_cache :: "'c cache_data \<Rightarrow> 'c manager \<Rightarrow> 'c manager \<times> nat \<times> 64 word" where
  "new_cache d m =
     (let c = length (mm_objects m);
          m1 = m \<lparr> mm_objects := mm_objects m @ [\<lparr> ca_data = d, ca_disposed = False \<rparr>] \<rparr>;
          (m2, pos) = addCache c m1
      in (m2, c, pos))"

definition NewLRUCache :: "'c lru_impl \<Rightarrow> nat \<Rightarrow> 'c manager \<Rightarrow> 'c manager \<times> nat \<times> 64 word" where
  "NewLRUCache lru sz = new_cache (LruCache sz (Some (lru_New lru sz)))"

definition NewHistoryCache :: "'c manager \<Rightarrow> 'c manager \<times> nat \<times> 64 word" where
  "NewHistoryCache = new_cache (HistoryCache Map.empty)"

definition NewRowsCache :: "'c manager \<Rightarrow> 'c manager \<times> nat \<times> 64 word" where
  "NewRowsCache = new_cache (RowsCache [])"

definition set_object :: "nat \<Rightarrow> 'c cache \<Rightarrow> 'c manager \<Rightarrow> 'c manager" where
  "set_object c x m = m \<lparr> mm_objects := (mm_objects m)[c := x] \<rparr>"

text \<open>
  \<^verbatim>\<open>Dispose\<close> of a cache drops its content and its manager; the dispose function of a cache also removes it from the manager.
  A nil LRU cache is \<open>None\<close>.
\<close>

fun no_content :: "'c cache_data \<Rightarrow> 'c cache_data" where
  "no_content (LruCache sz _) = LruCache sz None"
| "no_content (RowsCache _) = RowsCache []"
| "no_content (HistoryCache _) = HistoryCache Map.empty"

definition cache_Dispose :: "'c cache \<Rightarrow> 'c cache" where
  "cache_Dispose x = \<lparr> ca_data = no_content (ca_data x), ca_disposed = True \<rparr>"

definition dispose :: "nat \<Rightarrow> 64 word \<Rightarrow> 'c manager \<Rightarrow> 'c manager" where
  "dispose c pos m = removeCache pos (set_object c (cache_Dispose (mm_objects m ! c)) m)"

section \<open>Freeing\<close>

definition free_object :: "'c lru_impl \<Rightarrow> 'c cache \<Rightarrow> 'c cache" where
  "free_object lru x =
     (case ca_data x of LruCache sz _ \<Rightarrow> x \<lparr> ca_data := LruCache sz (Some (lru_New lru sz)) \<rparr> | _ \<Rightarrow> x)"

text \<open>\<^verbatim>\<open>Free\<close> of the manager: every registered cache that is \<^verbatim>\<open>Freeable\<close> (the LRU ones) is emptied. \<open>order\<close> is the map order.\<close>

definition manager_Free :: "'c lru_impl \<Rightarrow> 64 word list \<Rightarrow> 'c manager \<Rightarrow> 'c manager" where
  "manager_Free lru order m =
     fold (\<lambda>t m. case mm_caches m t of
             None \<Rightarrow> m
           | Some c \<Rightarrow> set_object c (free_object lru (mm_objects m ! c)) m) order m"

fun releaseMemoryIfNeeded :: "'c reporter \<Rightarrow> ('c manager \<Rightarrow> 'c manager) list \<Rightarrow> 'c manager \<Rightarrow> 'c manager \<times> bool" where
  "releaseMemoryIfNeeded r [] m = (m, HasAvailableMemory r m)"
| "releaseMemoryIfNeeded r (s # steps) m =
     (if HasAvailableMemory r m then (m, True) else releaseMemoryIfNeeded r steps (s m))"

section \<open>The caches\<close>

text \<open>
  \<^verbatim>\<open>Put\<close>, \<^verbatim>\<open>Get\<close> and \<^verbatim>\<open>Add\<close> at the cache with the given address. A disposed cache has a nil manager, whose \<^verbatim>\<open>Free\<close> cannot be
  taken: \<^verbatim>\<open>Put\<close> and \<^verbatim>\<open>Add\<close> panic.
\<close>

definition lru_Put ::
  "'c reporter \<Rightarrow> 'c lru_impl \<Rightarrow> 64 word list \<Rightarrow> nat \<Rightarrow> 64 word \<Rightarrow> gval \<Rightarrow> 'c manager \<Rightarrow> 'c manager \<times> unit res" where
  "lru_Put r lru order c k v m =
     (if ca_disposed (mm_objects m ! c) then (m, Panic)
      else
        let (m1, ok) = releaseMemoryIfNeeded r
              [\<lambda>m. set_object c (free_object lru (mm_objects m ! c)) m, manager_Free lru order] m in
        if \<not> ok then (m1, Ok ())
        else case ca_data (mm_objects m1 ! c) of
          LruCache sz (Some x) \<Rightarrow>
            (set_object c ((mm_objects m1 ! c) \<lparr> ca_data := LruCache sz (Some (lru_Add lru x k v)) \<rparr>) m1, Ok ())
        | _ \<Rightarrow> (m1, Panic))"

definition lru_cache_Get :: "'c lru_impl \<Rightarrow> nat \<Rightarrow> 64 word \<Rightarrow> 'c manager \<Rightarrow> 'c manager \<times> gval res" where
  "lru_cache_Get lru c k m =
     (case ca_data (mm_objects m ! c) of
        LruCache sz (Some x) \<Rightarrow>
          (case lru_Get lru x k of
             (x', None) \<Rightarrow> (set_object c ((mm_objects m ! c) \<lparr> ca_data := LruCache sz (Some x') \<rparr>) m, Err (RegErr (ErrKeyNotFound k)))
           | (x', Some v) \<Rightarrow> (set_object c ((mm_objects m ! c) \<lparr> ca_data := LruCache sz (Some x') \<rparr>) m, Ok v))
      | _ \<Rightarrow> (m, Panic))"

definition rows_Add :: "'c reporter \<Rightarrow> 'c lru_impl \<Rightarrow> 64 word list \<Rightarrow> nat \<Rightarrow> row \<Rightarrow> 'c manager \<Rightarrow> 'c manager \<times> unit res" where
  "rows_Add r lru order c row m =
     (if ca_disposed (mm_objects m ! c) then (m, Panic)
      else
        let (m1, ok) = releaseMemoryIfNeeded r [manager_Free lru order] m in
        if \<not> ok then (m1, Err (RegErr ErrNoMemoryAvailable))
        else case ca_data (mm_objects m1 ! c) of
          RowsCache rows \<Rightarrow> (set_object c ((mm_objects m1 ! c) \<lparr> ca_data := RowsCache (rows @ [row]) \<rparr>) m1, Ok ())
        | _ \<Rightarrow> (m1, Panic))"

definition history_Put ::
  "'c reporter \<Rightarrow> 'c lru_impl \<Rightarrow> 64 word list \<Rightarrow> nat \<Rightarrow> 64 word \<Rightarrow> gval \<Rightarrow> 'c manager \<Rightarrow> 'c manager \<times> unit res" where
  "history_Put r lru order c k v m =
     (if ca_disposed (mm_objects m ! c) then (m, Panic)
      else
        let (m1, ok) = releaseMemoryIfNeeded r [manager_Free lru order] m in
        if \<not> ok then (m1, Err (RegErr ErrNoMemoryAvailable))
        else case ca_data (mm_objects m1 ! c) of
          HistoryCache h \<Rightarrow> (set_object c ((mm_objects m1 ! c) \<lparr> ca_data := HistoryCache (h(k \<mapsto> v)) \<rparr>) m1, Ok ())
        | _ \<Rightarrow> (m1, Panic))"

definition history_Get :: "nat \<Rightarrow> 64 word \<Rightarrow> 'c manager \<Rightarrow> gval res" where
  "history_Get c k m =
     (case ca_data (mm_objects m ! c) of
        HistoryCache h \<Rightarrow>
          (case h k of None \<Rightarrow> Err (RegErr (ErrKeyNotFound k)) | Some v \<Rightarrow> Ok v)
      | _ \<Rightarrow> Panic)"

section \<open>Sessions\<close>

record warning =
  wa_Level :: string
  wa_Message :: string
  wa_Code :: int

record 'ty session =
  se_config :: "string \<rightharpoonup> 'ty \<times> gval"
  se_currentDB :: string
  se_warnings :: "warning list"
  se_warncnt :: "16 word"

definition session_Set :: "'ty session \<Rightarrow> string \<Rightarrow> 'ty \<Rightarrow> gval \<Rightarrow> 'ty session" where
  "session_Set s k t v = s \<lparr> se_config := (se_config s)(k \<mapsto> (t, v)) \<rparr>"

definition session_Get :: "'ty \<Rightarrow> 'ty session \<Rightarrow> string \<Rightarrow> 'ty \<times> gval" where
  "session_Get null s k = (case se_config s k of None \<Rightarrow> (null, GNil) | Some p \<Rightarrow> p)"

definition session_Warn :: "'ty session \<Rightarrow> warning \<Rightarrow> 'ty session" where
  "session_Warn s w = s \<lparr> se_warnings := se_warnings s @ [w] \<rparr>"

definition session_Warnings :: "'ty session \<Rightarrow> warning list" where
  "session_Warnings s = rev (se_warnings s)"

definition ClearWarnings :: "'ty session \<Rightarrow> 'ty session" where
  "ClearWarnings s =
     (let cnt = word_of_nat (length (se_warnings s)) in
      if se_warncnt s = cnt then s \<lparr> se_warnings := [], se_warncnt := 0 \<rparr> else s \<lparr> se_warncnt := cnt \<rparr>)"

definition WarningCount :: "'ty session \<Rightarrow> 16 word" where
  "WarningCount s = word_of_nat (length (se_warnings s))"

section \<open>Runs\<close>

text \<open>
  \<open>held\<close> are the dispose functions that have not been called, as pairs of address and token. The run in which each is called
  once is \<open>mm_run\<close>. Creating a cache needs a token that has not wrapped around.
\<close>

inductive mm_run :: "'c manager \<Rightarrow> (nat \<times> 64 word) set \<Rightarrow> bool" where
  start: "mm_run NewMemoryManager {}"
| create: "mm_run m held \<Longrightarrow> mm_token m \<noteq> -1 \<Longrightarrow> new_cache d m = (m', c, pos) \<Longrightarrow> mm_run m' (insert (c, pos) held)"
| dispose: "mm_run m held \<Longrightarrow> (c, pos) \<in> held \<Longrightarrow> mm_run (dispose c pos m) (held - {(c, pos)})"
| free: "mm_run m held \<Longrightarrow> mm_run (manager_Free lru order m) held"

text \<open>The invariant: the manager holds exactly the caches whose dispose function is held, under their tokens.\<close>

definition mm_inv :: "'c manager \<Rightarrow> (nat \<times> 64 word) set \<Rightarrow> bool" where
  "mm_inv m held \<longleftrightarrow> (\<forall>c pos. mm_caches m pos = Some c \<longleftrightarrow> (c, pos) \<in> held)
     \<and> (\<forall>pos \<in> dom (mm_caches m). pos \<le> mm_token m)
     \<and> (\<forall>(c, pos) \<in> held. c < length (mm_objects m)) \<and> inj_on fst held"

lemma manager_Free_caches [simp]:
  "mm_caches (manager_Free lru order m) = mm_caches m" "mm_token (manager_Free lru order m) = mm_token m"
  "length (mm_objects (manager_Free lru order m)) = length (mm_objects m)"
  unfolding manager_Free_def
  by (induction order arbitrary: m) (auto simp: set_object_def split: option.splits)

lemma mm_inv_create:
  assumes "mm_inv m held" "mm_token m \<noteq> -1" "new_cache d m = (m', c, pos)"
  shows "mm_inv m' (insert (c, pos) held)" "mm_caches m pos = None"
proof -
  have less: "mm_token m < mm_token m + 1" 
  proof -
    have "1 + mm_token m \<noteq> 0" using assms(2) by (metis add.commute eq_neg_iff_add_eq_0)
    then show ?thesis by (simp add: word_less_nat_alt unatSuc add.commute)
  qed
  have m': "pos = mm_token m + 1" "c = length (mm_objects m)" "mm_caches m' = (mm_caches m)(pos \<mapsto> c)" "mm_token m' = pos"
    "length (mm_objects m') = Suc (length (mm_objects m))"
    using assms(3) by (auto simp: new_cache_def addCache_def Let_def)
  show none: "mm_caches m pos = None"
  proof (rule ccontr)
    assume "mm_caches m pos \<noteq> None"
    then have "pos \<le> mm_token m" using assms(1) by (auto simp: mm_inv_def)
    with less m'(1) show False by simp
  qed
  have "(c', pos) \<notin> held" for c' using assms(1) none unfolding mm_inv_def by (metis option.distinct(1))
  moreover have "(c, pos') \<notin> held" for pos' using assms(1) m'(2) by (auto simp: mm_inv_def)
  ultimately have new: "(c', pos) \<notin> held" "(c, pos') \<notin> held" for c' pos' by blast+
  have "pos' \<le> pos" if "pos' \<in> dom (mm_caches m)" for pos'
    using assms(1) that less m'(1) unfolding mm_inv_def by (meson less_imp_le order_trans)
  then show "mm_inv m' (insert (c, pos) held)"
    using assms(1) m' new unfolding mm_inv_def by (auto simp: inj_on_def)
qed

lemma mm_inv_dispose:
  assumes "mm_inv m held" "(c, pos) \<in> held"
  shows "mm_inv (dispose c pos m) (held - {(c, pos)})"
proof -
  let ?m = "dispose c pos m"
  have m: "mm_caches ?m = (mm_caches m)(pos := None)" "length (mm_objects ?m) = length (mm_objects m)"
    "mm_token ?m = (if (mm_caches m)(pos := None) = Map.empty then 0 else mm_token m)"
    by (simp_all add: dispose_def removeCache_def set_object_def Let_def)
  have held: "mm_caches m p = Some x \<longleftrightarrow> (x, p) \<in> held" for x p using assms(1) by (simp add: mm_inv_def)
  have "(x, pos) \<in> held \<Longrightarrow> x = c" for x using held [of pos] assms(2) by (metis option.inject)
  then have "mm_caches ?m p = Some x \<longleftrightarrow> (x, p) \<in> held - {(c, pos)}" for x p using held [of p x] m(1) by auto
  moreover have "p \<le> mm_token ?m" if "p \<in> dom (mm_caches ?m)" for p
  proof -
    have "p \<in> dom ((mm_caches m)(pos := None))" using that m(1) by simp
    then have "(mm_caches m)(pos := None) \<noteq> Map.empty" "p \<in> dom (mm_caches m)" by (metis dom_eq_empty_conv empty_iff, simp)
    then show ?thesis using assms(1) m(3) by (simp add: mm_inv_def)
  qed
  moreover have "inj_on fst (held - {(c, pos)})" using assms(1) by (auto simp: mm_inv_def intro: inj_on_subset)
  moreover have "\<forall>(x, p) \<in> held - {(c, pos)}. x < length (mm_objects ?m)" using assms(1) m(2) by (auto simp: mm_inv_def)
  ultimately show ?thesis unfolding mm_inv_def by blast
qed

lemma mm_inv_run: "mm_run m held \<Longrightarrow> mm_inv m held"
proof (induction rule: mm_run.induct)
  case start
  show ?case by (simp add: mm_inv_def NewMemoryManager_def)
next
  case (create m held d m' c pos)
  then show ?case using mm_inv_create(1) by blast
next
  case (dispose m held c pos)
  then show ?case using mm_inv_dispose by blast
next
  case (free m held lru order)
  then show ?case by (simp add: mm_inv_def)
qed

section \<open>Properties\<close>

text \<open>As long as every dispose function is called at most once, the manager holds exactly the live caches: a new cache never
  takes the token of a live one, and disposing of one cache keeps all the others registered. A dispose function that is called
  twice can unregister a cache that was created in between, because tokens start again when the last cache goes.\<close>

lemma cache_registration:
  assumes "mm_run m held" "(c, pos) \<in> held" "mm_token m \<noteq> -1" "new_cache d m = (m', c', pos')"
  shows "mm_caches m pos = Some c \<and> mm_caches m pos' = None
    \<and> (\<forall>(c2, pos2) \<in> held - {(c, pos)}. mm_caches (dispose c pos m) pos2 = Some c2)
    \<and> (\<exists>m1 c1 p1 m2 c2 p2. new_cache d NewMemoryManager = (m1, c1, p1)
         \<and> new_cache d (dispose c1 p1 m1) = (m2, c2, p2) \<and> c1 \<noteq> c2
         \<and> mm_caches m2 p2 = Some c2 \<and> mm_caches (dispose c1 p1 m2) p2 = None)"
proof (intro conjI)
  have inv: "mm_inv m held" using mm_inv_run [OF assms(1)] .
  then show "mm_caches m pos = Some c" using assms(2) by (simp add: mm_inv_def)
  show "mm_caches m pos' = None" using mm_inv_create(2) [OF inv assms(3,4)] .
  show "\<forall>(c2, pos2) \<in> held - {(c, pos)}. mm_caches (dispose c pos m) pos2 = Some c2"
    using mm_inv_dispose [OF inv assms(2)] by (auto simp: mm_inv_def)
  show "\<exists>m1 c1 p1 m2 c2 p2. new_cache d NewMemoryManager = (m1, c1, p1)
      \<and> new_cache d (dispose c1 p1 m1) = (m2, c2, p2) \<and> c1 \<noteq> c2
      \<and> mm_caches m2 p2 = Some c2 \<and> mm_caches (dispose c1 p1 m2) p2 = None"
    by (simp add: new_cache_def addCache_def NewMemoryManager_def dispose_def removeCache_def set_object_def Let_def)
qed

theorem cache_registration_witness:
  "mm_caches (dispose 0 1 (fst (NewRowsCache (fst (NewHistoryCache (NewMemoryManager :: nat manager)))))) 2 = Some 1"
proof -
  let ?m1 = "fst (NewHistoryCache (NewMemoryManager :: nat manager))"
  let ?m2 = "fst (NewRowsCache ?m1)"
  have "mm_run ?m1 {(0, 1)}"
    using mm_run.create [OF mm_run.start, of "HistoryCache Map.empty" ?m1 0 1]
    by (simp add: NewHistoryCache_def new_cache_def addCache_def NewMemoryManager_def Let_def)
  then have "mm_run ?m2 {(1, 2), (0, 1)}"
    using mm_run.create [of ?m1 "{(0, 1)}" "RowsCache []" ?m2 1 2]
    by (simp add: NewHistoryCache_def NewRowsCache_def new_cache_def addCache_def NewMemoryManager_def Let_def)
  moreover obtain m' c' pos' where "new_cache (RowsCache []) ?m2 = (m', c', pos')" by (metis prod_cases3)
  moreover have "mm_token ?m2 = 2"
    by (simp add: NewHistoryCache_def NewRowsCache_def new_cache_def addCache_def NewMemoryManager_def Let_def)
  ultimately show ?thesis
    using cache_registration [of ?m2 "{(1, 2), (0, 1)}" 0 1 "RowsCache []" m' c' pos'] by auto
qed

text \<open>Warnings live for one more statement: the statements clear the warnings when they start, and a statement sees the
  warnings of the one before it, most recent first; the next one clears them, unless the count of warnings wraps around to 0.\<close>

lemma warnings_lifetime:
  assumes "se_warnings s = []" "se_warncnt s = 0" "ws \<noteq> []" "length ws < 2 ^ 16"
  shows "session_Warnings (ClearWarnings (foldl session_Warn s ws)) = rev ws
    \<and> session_Warnings (ClearWarnings (ClearWarnings (foldl session_Warn s ws))) = []
    \<and> (length ws' = 2 ^ 16 \<longrightarrow> session_Warnings (ClearWarnings (foldl session_Warn s ws')) = [])"
proof -
  have ws: "se_warnings (foldl session_Warn s xs) = se_warnings s @ xs \<and> se_warncnt (foldl session_Warn s xs) = se_warncnt s" for xs
    by (induction xs arbitrary: s) (simp_all add: session_Warn_def)
  have "word_of_nat (length ws) \<noteq> (0 :: 16 word)"
    using assms(3,4) by (simp add: word_of_nat_eq_0_iff nat_dvd_not_less)
  moreover have "length ws' = 2 ^ 16 \<Longrightarrow> word_of_nat (length ws') = (0 :: 16 word)" by simp
  ultimately show ?thesis
    using ws [of ws] ws [of ws'] assms(1,2) by (simp add: ClearWarnings_def session_Warnings_def Let_def)
qed

definition fresh_session :: "nat session" where
  "fresh_session = \<lparr> se_config = Map.empty, se_currentDB = [], se_warnings = [], se_warncnt = 0 \<rparr>"

theorem warnings_lifetime_witness:
  "session_Warnings (ClearWarnings (session_Warn fresh_session \<lparr> wa_Level = ''Warning'', wa_Message = ''m'', wa_Code = 0 \<rparr>)) =
   [\<lparr> wa_Level = ''Warning'', wa_Message = ''m'', wa_Code = 0 \<rparr>]"
  using warnings_lifetime [of fresh_session "[\<lparr> wa_Level = ''Warning'', wa_Message = ''m'', wa_Code = 0 \<rparr>]" "[]"]
  by (simp add: fresh_session_def)

end
