(* ===== verification/Process_List.thy ===== *)
theory Process_List
  imports Go_Prelude
begin

text \<open>
  The list of running processes (\<^verbatim>\<open>sql/processlist.go\<close>). Every process runs under a context of its own that the list
  cancels when the process is done or killed. A context is the number of its creation; the state records how many were
  created and which the list has cancelled. The methods hold the list's mutex, so each is one atomic step, and a run of
  the server is a sequence of steps. Go ranges over the map of processes in an unspecified order, the argument \<open>order\<close>.
\<close>

section \<open>State\<close>

record progress =
  pg_Name :: string
  pg_Done :: "64 word"
  pg_Total :: "64 word"

record table_progress =
  tp_Progress :: progress
  tp_Partitions :: "string \<rightharpoonup> progress"

datatype process_type = QueryProcess | CreateIndexProcess

record process =
  pr_Pid :: "64 word"
  pr_Connection :: "32 word"
  pr_User :: string
  pr_Type :: process_type
  pr_Query :: string
  pr_Progress :: "string \<rightharpoonup> table_progress"
  pr_StartedAt :: int
  pr_Kill :: nat

record process_list =
  pl_procs :: "64 word \<rightharpoonup> process"
  pl_contexts :: nat
  pl_cancelled :: "nat set"

definition NewTableProgress :: "string \<Rightarrow> 64 word \<Rightarrow> table_progress" where
  "NewTableProgress name tot =
     \<lparr> tp_Progress = \<lparr> pg_Name = name, pg_Done = 0, pg_Total = tot \<rparr>, tp_Partitions = Map.empty \<rparr>"

definition NewProcessList :: process_list where
  "NewProcessList = \<lparr> pl_procs = Map.empty, pl_contexts = 0, pl_cancelled = {} \<rparr>"

section \<open>Operations\<close>

text \<open>\<^verbatim>\<open>AddProcess\<close> returns the new context.\<close>

definition AddProcess ::
  "process_list \<Rightarrow> 64 word \<Rightarrow> 32 word \<Rightarrow> string \<Rightarrow> process_type \<Rightarrow> string \<Rightarrow> int \<Rightarrow> process_list \<times> nat res" where
  "AddProcess pl pid conn user typ query now =
     (case pl_procs pl pid of
        Some _ \<Rightarrow> (pl, Err (RegErr (ErrPidAlreadyUsed pid)))
      | None \<Rightarrow>
          (let c = pl_contexts pl in
           (pl \<lparr> pl_procs := (pl_procs pl)(pid \<mapsto>
                   \<lparr> pr_Pid = pid, pr_Connection = conn, pr_User = user, pr_Type = typ, pr_Query = query,
                     pr_Progress = Map.empty, pr_StartedAt = now, pr_Kill = c \<rparr>),
                 pl_contexts := Suc c \<rparr>, Ok c)))"

definition on_process :: "process_list \<Rightarrow> 64 word \<Rightarrow> (process \<Rightarrow> process) \<Rightarrow> process_list" where
  "on_process pl pid f =
     (case pl_procs pl pid of None \<Rightarrow> pl | Some p \<Rightarrow> pl \<lparr> pl_procs := (pl_procs pl)(pid \<mapsto> f p) \<rparr>)"

definition on_table :: "string \<Rightarrow> (table_progress \<Rightarrow> table_progress) \<Rightarrow> process \<Rightarrow> process" where
  "on_table name f p =
     (case pr_Progress p name of None \<Rightarrow> p | Some t \<Rightarrow> p \<lparr> pr_Progress := (pr_Progress p)(name \<mapsto> f t) \<rparr>)"

definition add_done :: "64 word \<Rightarrow> progress \<Rightarrow> progress" where
  "add_done delta g = g \<lparr> pg_Done := pg_Done g + delta \<rparr>"

definition UpdateTableProgress :: "process_list \<Rightarrow> 64 word \<Rightarrow> string \<Rightarrow> 64 word \<Rightarrow> process_list" where
  "UpdateTableProgress pl pid name delta =
     on_process pl pid (\<lambda>p.
       let t = (case pr_Progress p name of Some t \<Rightarrow> t | None \<Rightarrow> NewTableProgress name (-1)) in
       p \<lparr> pr_Progress := (pr_Progress p)(name \<mapsto> t \<lparr> tp_Progress := add_done delta (tp_Progress t) \<rparr>) \<rparr>)"

definition UpdatePartitionProgress :: "process_list \<Rightarrow> 64 word \<Rightarrow> string \<Rightarrow> string \<Rightarrow> 64 word \<Rightarrow> process_list" where
  "UpdatePartitionProgress pl pid tableName partitionName delta =
     on_process pl pid (on_table tableName (\<lambda>t.
       let g = (case tp_Partitions t partitionName of Some g \<Rightarrow> g
                | None \<Rightarrow> \<lparr> pg_Name = partitionName, pg_Done = 0, pg_Total = -1 \<rparr>) in
       t \<lparr> tp_Partitions := (tp_Partitions t)(partitionName \<mapsto> add_done delta g) \<rparr>))"

definition AddTableProgress :: "process_list \<Rightarrow> 64 word \<Rightarrow> string \<Rightarrow> 64 word \<Rightarrow> process_list" where
  "AddTableProgress pl pid name tot =
     on_process pl pid (\<lambda>p. p \<lparr> pr_Progress := (pr_Progress p)(name \<mapsto>
       (case pr_Progress p name of
          Some t \<Rightarrow> t \<lparr> tp_Progress := (tp_Progress t) \<lparr> pg_Total := tot \<rparr> \<rparr>
        | None \<Rightarrow> NewTableProgress name tot)) \<rparr>)"

definition AddPartitionProgress :: "process_list \<Rightarrow> 64 word \<Rightarrow> string \<Rightarrow> string \<Rightarrow> 64 word \<Rightarrow> process_list" where
  "AddPartitionProgress pl pid tableName partitionName tot =
     on_process pl pid (on_table tableName (\<lambda>t. t \<lparr> tp_Partitions := (tp_Partitions t)(partitionName \<mapsto>
       (case tp_Partitions t partitionName of
          Some g \<Rightarrow> g \<lparr> pg_Total := tot \<rparr>
        | None \<Rightarrow> \<lparr> pg_Name = partitionName, pg_Done = 0, pg_Total = tot \<rparr>)) \<rparr>))"

definition RemoveTableProgress :: "process_list \<Rightarrow> 64 word \<Rightarrow> string \<Rightarrow> process_list" where
  "RemoveTableProgress pl pid name =
     on_process pl pid (\<lambda>p. p \<lparr> pr_Progress := (pr_Progress p)(name := None) \<rparr>)"

definition RemovePartitionProgress :: "process_list \<Rightarrow> 64 word \<Rightarrow> string \<Rightarrow> string \<Rightarrow> process_list" where
  "RemovePartitionProgress pl pid tableName partitionName =
     on_process pl pid (on_table tableName (\<lambda>t. t \<lparr> tp_Partitions := (tp_Partitions t)(partitionName := None) \<rparr>))"

text \<open>\<^verbatim>\<open>proc.Done()\<close> cancels the context, then the process is deleted.\<close>

definition finish_process :: "64 word \<Rightarrow> process_list \<Rightarrow> process_list" where
  "finish_process pid pl =
     (case pl_procs pl pid of
        None \<Rightarrow> pl
      | Some p \<Rightarrow> pl \<lparr> pl_procs := (pl_procs pl)(pid := None), pl_cancelled := insert (pr_Kill p) (pl_cancelled pl) \<rparr>)"

fun kill_where :: "(process \<Rightarrow> bool) \<Rightarrow> 64 word list \<Rightarrow> process_list \<Rightarrow> process_list" where
  "kill_where P [] pl = pl"
| "kill_where P (pid # order) pl =
     kill_where P order
       (case pl_procs pl pid of None \<Rightarrow> pl | Some p \<Rightarrow> if P p then finish_process pid pl else pl)"

definition Kill :: "64 word list \<Rightarrow> process_list \<Rightarrow> 32 word \<Rightarrow> process_list" where
  "Kill order pl connID = kill_where (\<lambda>p. pr_Connection p = connID) order pl"

definition KillOnlyQueries :: "64 word list \<Rightarrow> process_list \<Rightarrow> 32 word \<Rightarrow> process_list" where
  "KillOnlyQueries order pl connID =
     kill_where (\<lambda>p. pr_Connection p = connID \<and> pr_Type p = QueryProcess) order pl"

definition Done :: "process_list \<Rightarrow> 64 word \<Rightarrow> process_list" where
  "Done pl pid = finish_process pid pl"

section \<open>Runs\<close>

inductive pl_step :: "process_list \<Rightarrow> process_list \<Rightarrow> bool" where
  add: "pl_step pl (fst (AddProcess pl pid conn user typ query now))"
| update_table: "pl_step pl (UpdateTableProgress pl pid name delta)"
| update_partition: "pl_step pl (UpdatePartitionProgress pl pid name part delta)"
| add_table: "pl_step pl (AddTableProgress pl pid name tot)"
| add_partition: "pl_step pl (AddPartitionProgress pl pid name part tot)"
| remove_table: "pl_step pl (RemoveTableProgress pl pid name)"
| remove_partition: "pl_step pl (RemovePartitionProgress pl pid name part)"
| kill: "set order = dom (pl_procs pl) \<Longrightarrow> pl_step pl (Kill order pl conn)"
| kill_queries: "set order = dom (pl_procs pl) \<Longrightarrow> pl_step pl (KillOnlyQueries order pl conn)"
| finished: "pl_step pl (Done pl pid)"

inductive pl_reachable :: "process_list \<Rightarrow> bool" where
  start: "pl_reachable NewProcessList"
| step: "pl_reachable pl \<Longrightarrow> pl_step pl pl' \<Longrightarrow> pl_reachable pl'"

text \<open>
  The invariant: a process is listed under its pid, no two share a context, and of the contexts created so far exactly
  those of listed processes are alive.
\<close>

definition pl_inv :: "process_list \<Rightarrow> bool" where
  "pl_inv pl \<longleftrightarrow>
     (\<forall>pid p. pl_procs pl pid = Some p \<longrightarrow> pr_Pid p = pid)
     \<and> (\<forall>pid pid' p p'. pl_procs pl pid = Some p \<and> pl_procs pl pid' = Some p' \<and> pr_Kill p = pr_Kill p' \<longrightarrow> pid = pid')
     \<and> {..<pl_contexts pl} - pl_cancelled pl = pr_Kill ` ran (pl_procs pl)
     \<and> pl_cancelled pl \<subseteq> {..<pl_contexts pl}"

lemma pl_inv_kill:
  assumes "pl_inv pl" "pl_procs pl pid = Some p"
  shows "pr_Kill p < pl_contexts pl" "pr_Kill p \<notin> pl_cancelled pl"
proof -
  have "pr_Kill p \<in> {..<pl_contexts pl} - pl_cancelled pl"
    using assms by (auto simp: pl_inv_def intro: ranI)
  then show "pr_Kill p < pl_contexts pl" "pr_Kill p \<notin> pl_cancelled pl" by auto
qed

lemma pl_inv_on_process:
  assumes "pl_inv pl" "\<And>p. pr_Pid (f p) = pr_Pid p \<and> pr_Kill (f p) = pr_Kill p"
  shows "pl_inv (on_process pl pid f)"
proof (cases "pl_procs pl pid")
  case None
  then show ?thesis using assms(1) by (simp add: on_process_def)
next
  case (Some p)
  have "pr_Kill ` ran ((pl_procs pl)(pid \<mapsto> f p)) = pr_Kill ` ran (pl_procs pl)"
  proof (intro set_eqI iffI)
    fix c assume "c \<in> pr_Kill ` ran (pl_procs pl)"
    then obtain a q where "pl_procs pl a = Some q" "c = pr_Kill q" by (auto simp: ran_def)
    then have "((pl_procs pl)(pid \<mapsto> f p)) a = Some (if a = pid then f p else q) \<and> c = pr_Kill (if a = pid then f p else q)"
      using Some assms(2) by auto
    then show "c \<in> pr_Kill ` ran ((pl_procs pl)(pid \<mapsto> f p))" by (metis imageI ranI)
  qed (use Some assms(2) in \<open>auto simp: ran_def split: if_splits\<close>)
  with assms Some show ?thesis
    by (auto simp: on_process_def pl_inv_def split: if_splits)
qed

lemma on_table_fields [simp]: "pr_Pid (on_table nm f p) = pr_Pid p" "pr_Kill (on_table nm f p) = pr_Kill p"
  by (auto simp: on_table_def split: option.splits)

lemma pl_inv_add:
  assumes "pl_inv pl"
  shows "pl_inv (fst (AddProcess pl pid conn user typ query now))"
proof (cases "pl_procs pl pid")
  case None
  have kills: "pr_Kill p < pl_contexts pl" if "pl_procs pl pid' = Some p" for pid' p
    using pl_inv_kill(1) [OF assms that] .
  have "pl_contexts pl \<notin> pl_cancelled pl" using assms by (auto simp: pl_inv_def)
  then have "{..<Suc (pl_contexts pl)} - pl_cancelled pl = insert (pl_contexts pl) ({..<pl_contexts pl} - pl_cancelled pl)"
    by auto
  with assms None show ?thesis
    by (auto simp: pl_inv_def AddProcess_def Let_def dest: kills)
qed (simp add: AddProcess_def assms)

lemma pl_inv_finish:
  assumes "pl_inv pl"
  shows "pl_inv (finish_process pid pl)"
proof (cases "pl_procs pl pid")
  case (Some p)
  have inj: "pr_Kill q \<noteq> pr_Kill p" if "pl_procs pl pid' = Some q" "pid' \<noteq> pid" for pid' q
    using assms Some that by (auto simp: pl_inv_def)
  have "pr_Kill ` ran ((pl_procs pl)(pid := None)) = pr_Kill ` ran (pl_procs pl) - {pr_Kill p}"
  proof (intro set_eqI iffI)
    fix c assume "c \<in> pr_Kill ` ran (pl_procs pl) - {pr_Kill p}"
    then obtain pid' q where "pl_procs pl pid' = Some q" "c = pr_Kill q" "c \<noteq> pr_Kill p" by (auto simp: ran_def)
    with Some show "c \<in> pr_Kill ` ran ((pl_procs pl)(pid := None))"
      by (auto simp: ran_def image_def intro!: exI [of _ q] exI [of _ pid'])
  qed (use inj in \<open>auto simp: ran_def split: if_splits\<close>)
  moreover have "{..<pl_contexts pl} - insert (pr_Kill p) (pl_cancelled pl) =
      ({..<pl_contexts pl} - pl_cancelled pl) - {pr_Kill p}" by auto
  moreover have "pr_Kill p < pl_contexts pl" using pl_inv_kill(1) [OF assms Some] .
  ultimately show ?thesis
    using assms Some by (auto simp: pl_inv_def finish_process_def)
qed (simp add: finish_process_def assms)

lemma pl_inv_kill_where: "pl_inv pl \<Longrightarrow> pl_inv (kill_where P order pl)"
  by (induction P order pl rule: kill_where.induct) (auto simp: pl_inv_finish split: option.splits)

lemmas progress_defs = UpdateTableProgress_def UpdatePartitionProgress_def AddTableProgress_def AddPartitionProgress_def
  RemoveTableProgress_def RemovePartitionProgress_def

lemma pl_inv_step: "pl_step pl pl' \<Longrightarrow> pl_inv pl \<Longrightarrow> pl_inv pl'"
  by (induction rule: pl_step.induct)
    (auto simp: progress_defs Kill_def KillOnlyQueries_def Done_def Let_def pl_inv_add pl_inv_finish pl_inv_kill_where
      intro!: pl_inv_on_process)

lemma pl_inv_reachable: "pl_reachable pl \<Longrightarrow> pl_inv pl"
proof (induction rule: pl_reachable.induct)
  case start
  show ?case by (simp add: pl_inv_def NewProcessList_def)
qed (rule pl_inv_step)

section \<open>Properties\<close>

text \<open>(C18) In every state a server can reach, no context leaks and none is cancelled early: a context the list has created is
  cancelled exactly when no listed process runs under it, and every process is listed under its own pid.\<close>

theorem contexts_tracked:
  assumes "pl_reachable pl" "c < pl_contexts pl"
  shows "(c \<in> pl_cancelled pl \<longleftrightarrow> (\<forall>pid p. pl_procs pl pid = Some p \<longrightarrow> pr_Kill p \<noteq> c))
    \<and> (\<forall>pid p. pl_procs pl pid = Some p \<longrightarrow> pr_Pid p = pid \<and> pr_Kill p < pl_contexts pl)"
proof -
  have inv: "pl_inv pl" using pl_inv_reachable [OF assms(1)] .
  have "{..<pl_contexts pl} - pl_cancelled pl = pr_Kill ` ran (pl_procs pl)" using inv by (simp add: pl_inv_def)
  from arg_cong [where f = "\<lambda>S. c \<in> S", OF this] have "c \<notin> pl_cancelled pl \<longleftrightarrow> c \<in> pr_Kill ` ran (pl_procs pl)"
    using assms(2) by simp
  moreover have "c \<in> pr_Kill ` ran (pl_procs pl) \<longleftrightarrow> (\<exists>pid p. pl_procs pl pid = Some p \<and> pr_Kill p = c)"
    by (auto simp: ran_def)
  ultimately have "c \<in> pl_cancelled pl \<longleftrightarrow> \<not> (\<exists>pid p. pl_procs pl pid = Some p \<and> pr_Kill p = c)" by argo
  then have "c \<in> pl_cancelled pl \<longleftrightarrow> (\<forall>pid p. pl_procs pl pid = Some p \<longrightarrow> pr_Kill p \<noteq> c)"
    by (simp only: not_ex de_Morgan_conj imp_conv_disj)
  moreover have "pr_Pid p = pid" if "pl_procs pl pid = Some p" for pid p using inv that by (simp add: pl_inv_def)
  ultimately show ?thesis using pl_inv_kill(1) [OF inv] by simp
qed

definition query1 :: process_list where
  "query1 = fst (AddProcess NewProcessList 7 1 ''root'' QueryProcess ''SELECT 1'' 0)"

theorem contexts_tracked_witness:
  "0 \<in> pl_cancelled (Kill [7] query1 1) \<longleftrightarrow>
     (\<forall>pid p. pl_procs (Kill [7] query1 1) pid = Some p \<longrightarrow> pr_Kill p \<noteq> 0)"
proof -
  have "pl_reachable query1" unfolding query1_def
    by (rule pl_reachable.step [OF pl_reachable.start pl_step.add])
  moreover have "pl_step query1 (Kill [7] query1 1)"
    by (rule pl_step.kill) (simp add: query1_def AddProcess_def NewProcessList_def Let_def)
  ultimately have "pl_reachable (Kill [7] query1 1)" by (rule pl_reachable.step)
  moreover have "pl_contexts (Kill [7] query1 1) = 1"
    by (simp add: query1_def AddProcess_def NewProcessList_def Kill_def finish_process_def Let_def)
  ultimately show ?thesis using contexts_tracked [of "Kill [7] query1 1" 0] by (simp only: zero_less_one)
qed

lemma finish_other [simp]: "pid' \<noteq> pid \<Longrightarrow> pl_procs (finish_process pid pl) pid' = pl_procs pl pid'"
  by (simp add: finish_process_def split: option.splits)

lemma kill_where_procs:
  "pl_procs (kill_where P order pl) pid =
     (case pl_procs pl pid of None \<Rightarrow> None | Some p \<Rightarrow> if pid \<in> set order \<and> P p then None else Some p)"
proof (induction P order pl rule: kill_where.induct)
  case (2 P a order pl)
  show ?case
  proof (cases "pl_procs pl a")
    case None
    with 2 show ?thesis by (cases "pid = a") (auto split: option.splits)
  next
    case (Some p)
    with 2 show ?thesis
      by (cases "pid = a"; cases "P p") (auto simp: finish_process_def split: option.splits)
  qed
qed (simp split: option.splits)

lemma kill_where_cancelled:
  "pl_cancelled (kill_where P order pl) =
     pl_cancelled pl \<union> {pr_Kill p |pid p. pid \<in> set order \<and> pl_procs pl pid = Some p \<and> P p}"
proof (induction P order pl rule: kill_where.induct)
  case (2 P a order pl)
  show ?case
  proof (cases "\<exists>p. pl_procs pl a = Some p \<and> P p")
    case True
    then obtain p where p: "pl_procs pl a = Some p" "P p" by blast
    have "{pr_Kill q |pid q. pid \<in> set (a # order) \<and> pl_procs pl pid = Some q \<and> P q} = insert (pr_Kill p)
        {pr_Kill q |pid q. pid \<in> set order \<and> pl_procs (finish_process a pl) pid = Some q \<and> P q}"
    proof (intro set_eqI iffI)
      fix c assume "c \<in> {pr_Kill q |pid q. pid \<in> set (a # order) \<and> pl_procs pl pid = Some q \<and> P q}"
      then obtain pid q where q: "pid \<in> set (a # order)" "pl_procs pl pid = Some q" "P q" "c = pr_Kill q" by blast
      show "c \<in> insert (pr_Kill p)
        {pr_Kill q |pid q. pid \<in> set order \<and> pl_procs (finish_process a pl) pid = Some q \<and> P q}"
      proof (cases "pid = a")
        case False
        with q have "pid \<in> set order" "pl_procs (finish_process a pl) pid = Some q" by auto
        with q show ?thesis by blast
      qed (use p q in simp)
    qed (use p in \<open>auto simp: finish_process_def split: if_splits\<close>)
    with 2 p show ?thesis by (simp add: finish_process_def)
  next
    case False
    then have "kill_where P (a # order) pl = kill_where P order pl" by (auto split: option.splits)
    moreover have "{pr_Kill q |pid q. pid \<in> set (a # order) \<and> pl_procs pl pid = Some q \<and> P q} =
        {pr_Kill q |pid q. pid \<in> set order \<and> pl_procs pl pid = Some q \<and> P q}" using False by auto
    ultimately show ?thesis using 2 False by (auto split: option.splits)
  qed
qed simp

text \<open>KILL removes all processes of the connection and no other and cancels their contexts, in whatever order the map
  is visited; KILL QUERY spares the processes that create an index.\<close>

lemma kill_connection:
  assumes "set order = dom (pl_procs pl)"
  shows "pl_procs (Kill order pl conn) pid =
      (case pl_procs pl pid of None \<Rightarrow> None | Some p \<Rightarrow> if pr_Connection p = conn then None else Some p)
    \<and> pl_procs (KillOnlyQueries order pl conn) pid =
      (case pl_procs pl pid of None \<Rightarrow> None
       | Some p \<Rightarrow> if pr_Connection p = conn \<and> pr_Type p \<noteq> CreateIndexProcess then None else Some p)
    \<and> pl_cancelled (Kill order pl conn) =
      pl_cancelled pl \<union> {pr_Kill p |pid p. pl_procs pl pid = Some p \<and> pr_Connection p = conn}"
proof -
  have "pid \<in> set order \<longleftrightarrow> (\<exists>p. pl_procs pl pid = Some p)" for pid using assms by auto
  moreover have "t = QueryProcess \<longleftrightarrow> t \<noteq> CreateIndexProcess" for t by (cases t) auto
  ultimately show ?thesis
    by (auto simp: Kill_def KillOnlyQueries_def kill_where_procs kill_where_cancelled split: option.splits)
qed

theorem kill_connection_witness: "pl_procs (Kill [7] query1 1) 7 = None"
  using kill_connection [of "[7]" query1 1 7]
  by (simp add: query1_def AddProcess_def NewProcessList_def Let_def)

text \<open>Progress is kept per process, table and partition: an update adds its delta to the item's count and to nothing
  else, creating a missing table with unknown total; partition updates of an untracked table, and all updates of an
  unknown process, are ignored.\<close>

lemma progress_updates:
  assumes "pl_procs pl pid = Some p"
  shows "(\<exists>p' t'. pl_procs (UpdateTableProgress pl pid name delta) pid = Some p' \<and> pr_Progress p' name = Some t'
        \<and> pg_Done (tp_Progress t') = (case pr_Progress p name of None \<Rightarrow> 0 | Some t \<Rightarrow> pg_Done (tp_Progress t)) + delta
        \<and> (pr_Progress p name = None \<longrightarrow> pg_Total (tp_Progress t') = -1)
        \<and> (\<forall>n. n \<noteq> name \<longrightarrow> pr_Progress p' n = pr_Progress p n))
    \<and> (pr_Progress p name = None \<longrightarrow> UpdatePartitionProgress pl pid name part delta = pl)
    \<and> (\<forall>t. pr_Progress p name = Some t \<longrightarrow>
         (\<exists>p' t' g'. pl_procs (UpdatePartitionProgress pl pid name part delta) pid = Some p' \<and> pr_Progress p' name = Some t'
           \<and> tp_Partitions t' part = Some g' \<and> tp_Progress t' = tp_Progress t
           \<and> pg_Done g' = (case tp_Partitions t part of None \<Rightarrow> 0 | Some g \<Rightarrow> pg_Done g) + delta))
    \<and> (\<forall>pid'. pid' \<noteq> pid \<longrightarrow> pl_procs (UpdateTableProgress pl pid name delta) pid' = pl_procs pl pid')
    \<and> (\<forall>pid'. pl_procs pl pid' = None \<longrightarrow> UpdateTableProgress pl pid' name delta = pl)"
proof -
  have same: "pl \<lparr> pl_procs := (pl_procs pl)(pid \<mapsto> p) \<rparr> = pl" using assms by (simp add: fun_upd_idem)
  show ?thesis
    using assms same
    by (auto simp: progress_defs on_process_def on_table_def add_done_def NewTableProgress_def Let_def split: option.splits)
qed

theorem progress_updates_witness:
  "\<exists>p' t'. pl_procs (UpdateTableProgress query1 7 ''t'' 3) 7 = Some p' \<and> pr_Progress p' ''t'' = Some t'
     \<and> pg_Done (tp_Progress t') = 3"
  using progress_updates [of query1 7 _ "''t''" 3 "''p''"]
  by (auto simp: query1_def AddProcess_def NewProcessList_def Let_def)

end
