(* ===== verification/Engine.thy ===== *)
theory Engine
  imports Process_List
begin

unbundle bit_operations_syntax

text \<open>
  Authentication and authorization (\<^verbatim>\<open>auth/auth.go\<close>, \<^verbatim>\<open>auth/native.go\<close>, \<^verbatim>\<open>auth/none.go\<close>, \<^verbatim>\<open>auth/audit.go\<close>) and the life of a
  query in the engine (\<^verbatim>\<open>Query\<close> of \<^verbatim>\<open>engine.go\<close>): parse, check the permission, enter the process list, analyze, start the
  iterator, and leave the process list on an error. Parsing, analysis and the start of the iterator are parameters.
\<close>

section \<open>Permissions\<close>

type_synonym permission = "64 word"

definition ReadPerm :: permission where
  "ReadPerm = 1"

definition WritePerm :: permission where
  "WritePerm = 2"

definition AllPermissions :: permission where
  "AllPermissions = ReadPerm OR WritePerm"

definition DefaultPermissions :: permission where
  "DefaultPermissions = ReadPerm"

definition PermissionNames :: "string \<rightharpoonup> permission" where
  "PermissionNames = [''read'' \<mapsto> ReadPerm, ''write'' \<mapsto> WritePerm]"

record native_user =
  nu_Name :: string
  nu_Password :: string
  nu_JSONPermissions :: "string list"
  nu_Permissions :: permission

definition user_Allowed :: "native_user \<Rightarrow> permission \<Rightarrow> unit res" where
  "user_Allowed u p =
     (if nu_Permissions u AND p = p then Ok () else Err (AuthErr (ErrNoPermission ((NOT (nu_Permissions u)) AND p))))"

definition native_Allowed :: "(string \<rightharpoonup> native_user) \<Rightarrow> string \<Rightarrow> permission \<Rightarrow> unit res" where
  "native_Allowed users name p =
     (case users name of None \<Rightarrow> Err (AuthErr (ErrNoPermission p)) | Some u \<Rightarrow> user_Allowed u p)"

text \<open>\<open>regNative\<close> is the match of \<^verbatim>\<open>^\*[0-9A-F]{40}$\<close>; \<open>native\<close> is \<^verbatim>\<open>NativePassword\<close>, the doubled SHA-1 of the password.\<close>

definition regNative :: "string \<Rightarrow> bool" where
  "regNative s \<longleftrightarrow> length s = 41 \<and> hd s = CHR ''*'' \<and> set (tl s) \<subseteq> set ''0123456789ABCDEF''"

fun add_permissions :: "string list \<Rightarrow> permission \<Rightarrow> permission res" where
  "add_permissions [] acc = Ok acc"
| "add_permissions (p # ps) acc =
     (case PermissionNames (ToLower p) of
        None \<Rightarrow> Err (AuthErr (ErrUnknownPermission p))
      | Some perm \<Rightarrow> add_permissions ps (acc OR perm))"

text \<open>The loop of \<^verbatim>\<open>NewNativeFile\<close> over the users that were read from the file.\<close>

fun load_users :: "(string \<Rightarrow> string) \<Rightarrow> native_user list \<Rightarrow> (string \<rightharpoonup> native_user) \<Rightarrow> (string \<rightharpoonup> native_user) res" where
  "load_users native [] users = Ok users"
| "load_users native (u # us) users =
     (if users (nu_Name u) \<noteq> None then Err (AuthErr (ErrDuplicateUser (nu_Name u)))
      else
        let u1 = (if regNative (nu_Password u) then u else u \<lparr> nu_Password := native (nu_Password u) \<rparr>);
            start = (if nu_JSONPermissions u1 = [] then DefaultPermissions else nu_Permissions u1) in
        rbind (add_permissions (nu_JSONPermissions u1) start) (\<lambda>p.
          load_users native us (users(nu_Name u \<mapsto> u1 \<lparr> nu_Permissions := p \<rparr>))))"

definition NewNativeSingle :: "(string \<Rightarrow> string) \<Rightarrow> string \<Rightarrow> string \<Rightarrow> permission \<Rightarrow> (string \<rightharpoonup> native_user)" where
  "NewNativeSingle native name pw perm =
     [name \<mapsto> \<lparr> nu_Name = name, nu_Password = native pw, nu_JSONPermissions = [], nu_Permissions = perm \<rparr>]"

text \<open>An \<^verbatim>\<open>Audit\<close> proxy sends the outcome to its method, the proxies inside first. The trail is the list of the events.\<close>

datatype auth = AuthNone | AuthNative "string \<rightharpoonup> native_user" | AuthAudit auth string

type_synonym audit_log = "(string \<times> string \<times> permission \<times> unit res) list"

fun Allowed :: "auth \<Rightarrow> string \<Rightarrow> permission \<Rightarrow> audit_log \<Rightarrow> audit_log \<times> unit res" where
  "Allowed AuthNone user p trail = (trail, Ok ())"
| "Allowed (AuthNative users) user p trail = (trail, native_Allowed users user p)"
| "Allowed (AuthAudit a method) user p trail =
     (let (log1, r) = Allowed a user p trail in (log1 @ [(method, user, p, r)], r))"

section \<open>Queries\<close>

datatype statement =
    CreateIndex | InsertInto | DeleteFrom | Update | DropIndex | UnlockTables | LockTables | CreateView | DropView
  | CreateTable | DropTable | RenameTable | AddColumn | DropColumn | RenameColumn | ModifyColumn
  | OtherStatement

text \<open>The type switch of \<^verbatim>\<open>Query\<close> on the parsed node.\<close>

definition query_perm :: "statement \<Rightarrow> permission" where
  "query_perm st =
     (if st = CreateIndex \<or> st \<in> {InsertInto, DeleteFrom, Update, DropIndex, UnlockTables, LockTables, CreateView, DropView}
      then ReadPerm OR WritePerm else ReadPerm)"

definition query_type :: "statement \<Rightarrow> process_type" where
  "query_type st = (if st = CreateIndex then CreateIndexProcess else QueryProcess)"

record client =
  cl_pid :: "64 word"
  cl_conn :: "32 word"
  cl_user :: string
  cl_now :: int

text \<open>
  \<open>parse\<close> gives the kind of the parsed statement and its node, \<open>analyze\<close> and \<open>rowIter\<close> work on nodes. The deferred function
  removes the process when a later step has failed; a failed \<^verbatim>\<open>AddProcess\<close> leaves a nil context.
\<close>

definition engine_Query ::
  "auth \<Rightarrow> (string \<Rightarrow> (statement \<times> 'n) res) \<Rightarrow> ('n \<Rightarrow> 'n res) \<Rightarrow> ('n \<Rightarrow> 'it res) \<Rightarrow> client \<Rightarrow> string \<Rightarrow>
   process_list \<times> audit_log \<Rightarrow> (process_list \<times> audit_log) \<times> ('n \<times> 'it) res" where
  "engine_Query au parse analyze rowIter cl query s =
     (case parse query of
        Err e \<Rightarrow> (s, Err e)
      | Panic \<Rightarrow> (s, Panic)
      | Ok (st, parsed) \<Rightarrow>
          (case Allowed au (cl_user cl) (query_perm st) (snd s) of
             (trail, Err e) \<Rightarrow> ((fst s, trail), Err e)
           | (trail, Panic) \<Rightarrow> ((fst s, trail), Panic)
           | (trail, Ok _) \<Rightarrow>
               (case AddProcess (fst s) (cl_pid cl) (cl_conn cl) (cl_user cl) (query_type st) query (cl_now cl) of
                  (pl, Err e) \<Rightarrow> ((pl, trail), Err e)
                | (pl, Panic) \<Rightarrow> ((pl, trail), Panic)
                | (pl, Ok c) \<Rightarrow>
                    (case rbind (analyze parsed) (\<lambda>n. rbind (rowIter n) (\<lambda>it. Ok (n, it))) of
                       Err e \<Rightarrow> ((Done pl (cl_pid cl), trail), Err e)
                     | r \<Rightarrow> ((pl, trail), r)))))"

section \<open>Properties\<close>





end
