(* ===== verification/Sorting.thy ===== *)
theory Sorting
  imports Row_Iters
begin

text \<open>
  ORDER BY (\<^verbatim>\<open>sql/plan/sort.go\<close>): the row comparison \<^verbatim>\<open>sorter.Less\<close>, the sort and the iterator over the sorted rows.

  Go's \<^verbatim>\<open>sort.Stable\<close> is an insertion sort up to its block size of 20 rows, which is what is modelled here. For more rows it
  merges sorted blocks; \<open>stable_sort_unique\<close> shows that for an order relation the result of a stable sort is the same
  whatever the algorithm.
\<close>

section \<open>Rows in order\<close>

datatype (plugins only: code size) sort_order = Ascending | Descending

datatype (plugins only: code size) null_ordering = NullsFirst | NullsLast

record sort_field =
  sf_Column :: expr
  sf_Order :: sort_order
  sf_NullOrdering :: null_ordering

definition sort_eval :: "genv \<Rightarrow> expr \<Rightarrow> row \<Rightarrow> gval res" where
  "sort_eval env e r = (case eval env e r of Err x \<Rightarrow> Err (ErrUnableSort x) | v \<Rightarrow> v)"

fun Less :: "genv \<Rightarrow> sort_field list \<Rightarrow> row \<Rightarrow> row \<Rightarrow> bool res" where
  "Less env [] a b = Ok False"
| "Less env (sf # sfs) a b = rbind (etype (sf_Column sf)) (\<lambda>typ.
     rbind (sort_eval env (sf_Column sf) a) (\<lambda>av0. rbind (sort_eval env (sf_Column sf) b) (\<lambda>bv0.
       let av = (if sf_Order sf = Descending then bv0 else av0);
           bv = (if sf_Order sf = Descending then av0 else bv0)
       in if av = GNil \<and> bv = GNil then Less env sfs a b
          else if av = GNil then Ok (sf_NullOrdering sf = NullsFirst)
          else if bv = GNil then Ok (sf_NullOrdering sf \<noteq> NullsFirst)
          else rbind (sql_compare env typ av bv) (\<lambda>cmp.
            if cmp = -1 then Ok True else if cmp = 1 then Ok False else Less env sfs a b))))"

section \<open>Sorting\<close>

text \<open>
  One round of the insertion sort sinks the next row into the sorted prefix, kept here in reverse; the sort stops at
  the first failing comparison, after which \<^verbatim>\<open>Less\<close> answers false and \<^verbatim>\<open>computeSortedRows\<close> returns the error.
\<close>

fun sink :: "('a \<Rightarrow> 'a \<Rightarrow> bool res) \<Rightarrow> 'a \<Rightarrow> 'a list \<Rightarrow> 'a list res" where
  "sink before x [] = Ok [x]"
| "sink before x (y # ys) = rbind (before x y) (\<lambda>b.
     if b then rbind (sink before x ys) (\<lambda>zs. Ok (y # zs)) else Ok (x # y # ys))"

fun insert_all :: "('a \<Rightarrow> 'a \<Rightarrow> bool res) \<Rightarrow> 'a list \<Rightarrow> 'a list \<Rightarrow> 'a list res" where
  "insert_all before prefix [] = Ok prefix"
| "insert_all before prefix (x # xs) = rbind (sink before x prefix) (\<lambda>prefix'. insert_all before prefix' xs)"

definition sort_Stable :: "('a \<Rightarrow> 'a \<Rightarrow> bool res) \<Rightarrow> 'a list \<Rightarrow> 'a list res" where
  "sort_Stable before xs = rbind (insert_all before [] xs) (\<lambda>prefix. Ok (rev prefix))"

text \<open>\<open>avail n\<close>: the rows cache finds memory for one more row when it holds \<open>n\<close>.\<close>

partial_function (option) cache_rows ::
  "(nat \<Rightarrow> bool) \<Rightarrow> ('s, row) nextfn \<Rightarrow> 's \<Rightarrow> row list \<Rightarrow> ('s \<times> row list res) option"
where
  "cache_rows avail nx s acc =
     (case nx s of
        None \<Rightarrow> None
      | Some (s', Err e) \<Rightarrow> Some (s', if e = EOF then Ok acc else Err e)
      | Some (s', Panic) \<Rightarrow> Some (s', Panic)
      | Some (s', Ok row) \<Rightarrow>
          if avail (length acc) then cache_rows avail nx s' (acc @ [row])
          else Some (s', Err (RegErr ErrNoMemoryAvailable)))"

definition computeSortedRows ::
  "genv \<Rightarrow> sort_field list \<Rightarrow> (nat \<Rightarrow> bool) \<Rightarrow> ('s, row) nextfn \<Rightarrow> 's \<Rightarrow> ('s \<times> row list res) option" where
  "computeSortedRows env sfs avail nx s =
     (case cache_rows avail nx s [] of
        None \<Rightarrow> None
      | Some (s', r) \<Rightarrow> Some (s', rbind r (sort_Stable (Less env sfs))))"

record 's sort_iter =
  so_childIter :: 's
  so_sortedRows :: "row list"
  so_idx :: int

definition newSortIter :: "'s \<Rightarrow> 's sort_iter" where
  "newSortIter child = \<lparr> so_childIter = child, so_sortedRows = [], so_idx = -1 \<rparr>"

definition sort_emit :: "'s sort_iter \<Rightarrow> 's sort_iter \<times> row res" where
  "sort_emit i =
     (if so_idx i \<ge> int (length (so_sortedRows i)) then (i, Err EOF)
      else (i \<lparr> so_idx := so_idx i + 1 \<rparr>, Ok (so_sortedRows i ! nat (so_idx i))))"

definition sort_Next ::
  "genv \<Rightarrow> sort_field list \<Rightarrow> (nat \<Rightarrow> bool) \<Rightarrow> ('s, row) nextfn \<Rightarrow> ('s sort_iter, row) nextfn" where
  "sort_Next env sfs avail nx i =
     (if so_idx i = -1 then
        (case computeSortedRows env sfs avail nx (so_childIter i) of
           None \<Rightarrow> None
         | Some (s', Ok rows) \<Rightarrow> Some (sort_emit (i \<lparr> so_childIter := s', so_sortedRows := rows, so_idx := 0 \<rparr>))
         | Some (s', Err e) \<Rightarrow> Some (i \<lparr> so_childIter := s' \<rparr>, Err e)
         | Some (s', Panic) \<Rightarrow> Some (i \<lparr> so_childIter := s' \<rparr>, Panic))
      else Some (sort_emit i))"

section \<open>Building comparers\<close>

lemma comparer_flip:
  assumes "comparer cmp D"
  shows "comparer (\<lambda>a b. cmp b a) D"
proof (rule comparer.intro)
  fix a b c x y
  assume *: "D a" "D b" "D c" "cmp b a = Ok x" "x \<le> 0" "cmp c b = Ok y" "y \<le> 0"
  from comparer.cmp_trans [OF assms *(3,2,1,6,7,4,5)]
  show "\<exists>z. cmp c a = Ok z \<and> z \<le> 0 \<and> (z = 0 \<longrightarrow> x = 0 \<and> y = 0)" by blast
qed (use comparer.cmp_total [OF assms] comparer.cmp_swap [OF assms] in blast)+

lemma comparer_vimage:
  assumes "comparer cmp D"
  shows "comparer (\<lambda>a b. cmp (f a) (f b)) (\<lambda>a. D (f a))"
proof (rule comparer.intro)
  fix a b c x y
  assume "D (f a)" "D (f b)" "D (f c)" "cmp (f a) (f b) = Ok x" "x \<le> 0" "cmp (f b) (f c) = Ok y" "y \<le> 0"
  from comparer.cmp_trans [OF assms this]
  show "\<exists>z. cmp (f a) (f c) = Ok z \<and> z \<le> 0 \<and> (z = 0 \<longrightarrow> x = 0 \<and> y = 0)" .
qed (use comparer.cmp_total [OF assms] comparer.cmp_swap [OF assms] in blast)+

lemma comparer_cong:
  assumes "comparer cmp D" "\<And>a b. D' a \<Longrightarrow> D' b \<Longrightarrow> cmp' a b = cmp a b" "\<And>a. D' a \<Longrightarrow> D a"
  shows "comparer cmp' D'"
proof (rule comparer.intro)
  fix a b c x y
  assume *: "D' a" "D' b" "D' c" "cmp' a b = Ok x" "x \<le> 0" "cmp' b c = Ok y" "y \<le> 0"
  then show "\<exists>z. cmp' a c = Ok z \<and> z \<le> 0 \<and> (z = 0 \<longrightarrow> x = 0 \<and> y = 0)"
    using comparer.cmp_trans [OF assms(1), of a b c x y] assms(2,3) by simp
qed (use assms comparer.cmp_total [OF assms(1)] comparer.cmp_swap [OF assms(1)] in simp_all)

definition null_cmp :: "null_ordering \<Rightarrow> (gval \<Rightarrow> gval \<Rightarrow> int res) \<Rightarrow> gval \<Rightarrow> gval \<Rightarrow> int res" where
  "null_cmp no cmp a b =
     (if a = GNil \<and> b = GNil then Ok 0
      else if a = GNil then Ok (if no = NullsFirst then -1 else 1)
      else if b = GNil then Ok (if no = NullsFirst then 1 else -1)
      else cmp a b)"

lemma comparer_nulls:
  assumes "comparer cmp D"
  shows "comparer (null_cmp no cmp) (\<lambda>v. v = GNil \<or> D v)"
proof (rule comparer.intro)
  fix a b c x y
  assume "a = GNil \<or> D a" "b = GNil \<or> D b" "c = GNil \<or> D c" "null_cmp no cmp a b = Ok x" "x \<le> 0"
    "null_cmp no cmp b c = Ok y" "y \<le> 0"
  then show "\<exists>z. null_cmp no cmp a c = Ok z \<and> z \<le> 0 \<and> (z = 0 \<longrightarrow> x = 0 \<and> y = 0)"
    using comparer.cmp_trans [OF assms, of a b c x y]
    by (cases "a = GNil"; cases "b = GNil"; cases "c = GNil") (simp_all add: null_cmp_def split: if_splits)
next
  fix a b assume "a = GNil \<or> D a" "b = GNil \<or> D b"
  then show "\<exists>c. null_cmp no cmp a b = Ok c \<and> c \<in> {-1, 0, 1}"
    using comparer.cmp_total [OF assms, of a b] by (auto simp: null_cmp_def)
next
  fix a b x assume "a = GNil \<or> D a" "b = GNil \<or> D b" "null_cmp no cmp a b = Ok x"
  then show "null_cmp no cmp b a = Ok (- x)"
    using comparer.cmp_swap [OF assms, of a b x] by (auto simp: null_cmp_def split: if_splits)
qed

definition lex_cmp :: "('a \<Rightarrow> 'a \<Rightarrow> int res) \<Rightarrow> ('a \<Rightarrow> 'a \<Rightarrow> int res) \<Rightarrow> 'a \<Rightarrow> 'a \<Rightarrow> int res" where
  "lex_cmp c1 c2 a b = rbind (c1 a b) (\<lambda>x. if x \<noteq> 0 then Ok x else c2 a b)"

lemma comparer_lex:
  assumes "comparer c1 D" "comparer c2 D"
  shows "comparer (lex_cmp c1 c2) D"
proof (rule comparer.intro)
  fix a b c x y
  assume D: "D a" "D b" "D c" and le: "x \<le> 0" "y \<le> 0"
    and xy: "lex_cmp c1 c2 a b = Ok x" "lex_cmp c1 c2 b c = Ok y"
  from xy le obtain x1 y1 where x1: "c1 a b = Ok x1" "x1 \<le> 0" "if x1 \<noteq> 0 then x = x1 else c2 a b = Ok x"
    and y1: "c1 b c = Ok y1" "y1 \<le> 0" "if y1 \<noteq> 0 then y = y1 else c2 b c = Ok y"
    by (auto simp: lex_cmp_def res_simps split: if_splits)
  from comparer.cmp_trans [OF assms(1) D x1(1,2) y1(1,2)] obtain z1 where
    z1: "c1 a c = Ok z1" "z1 \<le> 0" "z1 = 0 \<longrightarrow> x1 = 0 \<and> y1 = 0" by blast
  show "\<exists>z. lex_cmp c1 c2 a c = Ok z \<and> z \<le> 0 \<and> (z = 0 \<longrightarrow> x = 0 \<and> y = 0)"
  proof (cases "z1 = 0")
    case True
    with z1 x1 y1 have "c2 a b = Ok x" "c2 b c = Ok y" by auto
    from comparer.cmp_trans [OF assms(2) D this(1) le(1) this(2) le(2)] True z1(1) show ?thesis
      by (simp add: lex_cmp_def)
  qed (use z1 in \<open>simp add: lex_cmp_def\<close>)
next
  fix a b assume "D a" "D b"
  then show "\<exists>c. lex_cmp c1 c2 a b = Ok c \<and> c \<in> {-1, 0, 1}"
    using comparer.cmp_total [OF assms(1), of a b] comparer.cmp_total [OF assms(2), of a b]
    by (auto simp: lex_cmp_def)
next
  fix a b x assume "D a" "D b" "lex_cmp c1 c2 a b = Ok x"
  then show "lex_cmp c1 c2 b a = Ok (- x)"
    using comparer.cmp_swap [OF assms(1), of a b] comparer.cmp_swap [OF assms(2), of a b x]
    by (auto simp: lex_cmp_def res_simps split: if_splits)
qed

section \<open>The order of the sort fields\<close>

text \<open>
  One sort field as a comparison of rows: NULLs by the null ordering, then by the column's type, all of it
  reversed for a descending field.
\<close>

definition field_cmp :: "genv \<Rightarrow> sort_field \<Rightarrow> stype \<Rightarrow> (row \<Rightarrow> gval) \<Rightarrow> row \<Rightarrow> row \<Rightarrow> int res" where
  "field_cmp env sf t val a b =
     (if sf_Order sf = Descending
      then null_cmp (sf_NullOrdering sf) (sql_compare env t) (val b) (val a)
      else null_cmp (sf_NullOrdering sf) (sql_compare env t) (val a) (val b))"

text \<open>
  The columns \<^verbatim>\<open>Less\<close> can order: the column evaluates on every row to NULL or to a value on which the type's
  comparison is an order.
\<close>

definition sortable :: "genv \<Rightarrow> row set \<Rightarrow> sort_field \<Rightarrow> bool" where
  "sortable env A sf \<longleftrightarrow> (\<exists>t D. etype (sf_Column sf) = Ok t \<and> comparer (sql_compare env t) D
     \<and> (\<forall>r \<in> A. \<exists>v. eval env (sf_Column sf) r = Ok v \<and> (v = GNil \<or> D v)))"

lemma field_cmp_comparer:
  assumes "comparer (sql_compare env t) D" "\<And>r. r \<in> A \<Longrightarrow> val r = GNil \<or> D (val r)"
  shows "comparer (field_cmp env sf t val) (\<lambda>r. r \<in> A)"
proof -
  have n: "comparer (null_cmp (sf_NullOrdering sf) (sql_compare env t)) (\<lambda>v. v = GNil \<or> D v)"
    by (rule comparer_nulls [OF assms(1)])
  have "comparer (field_cmp env sf t val) (\<lambda>r. val r = GNil \<or> D (val r))"
    unfolding field_cmp_def using comparer_vimage [OF n, of val] comparer_vimage [OF comparer_flip [OF n], of val]
    by (cases "sf_Order sf") simp_all
  then show ?thesis by (rule comparer_cong) (use assms(2) in auto)
qed

lemma Less_Cons:
  assumes "etype (sf_Column sf) = Ok t" "eval env (sf_Column sf) a = Ok (val a)" "eval env (sf_Column sf) b = Ok (val b)"
  shows "Less env (sf # sfs) a b = rbind (field_cmp env sf t val a b) (\<lambda>c.
     if c = -1 then Ok True else if c = 1 then Ok False else Less env sfs a b)"
  using assms by (auto simp: sort_eval_def field_cmp_def null_cmp_def Let_def)

lemma Less_comparer:
  assumes "\<forall>sf \<in> set sfs. sortable env A sf"
  shows "\<exists>cmp. comparer cmp (\<lambda>r. r \<in> A) \<and> (\<forall>a \<in> A. \<forall>b \<in> A. Less env sfs a b = Ok (cmp a b = Ok (-1)))"
  using assms
proof (induction sfs)
  case Nil
  have "comparer (\<lambda>_ _. Ok 0) (\<lambda>r. r \<in> A)" by (rule comparer.intro) auto
  then show ?case by fastforce
next
  case (Cons sf sfs)
  then obtain c2 where c2: "comparer c2 (\<lambda>r. r \<in> A)" "\<forall>a \<in> A. \<forall>b \<in> A. Less env sfs a b = Ok (c2 a b = Ok (-1))"
    by auto
  from Cons.prems obtain t D where t: "etype (sf_Column sf) = Ok t" "comparer (sql_compare env t) D"
    "\<forall>r \<in> A. \<exists>v. eval env (sf_Column sf) r = Ok v \<and> (v = GNil \<or> D v)" by (auto simp: sortable_def)
  define val where "val = (\<lambda>r. case eval env (sf_Column sf) r of Ok v \<Rightarrow> v | _ \<Rightarrow> GNil)"
  have val: "\<And>r. r \<in> A \<Longrightarrow> eval env (sf_Column sf) r = Ok (val r)" "\<And>r. r \<in> A \<Longrightarrow> val r = GNil \<or> D (val r)"
    using t(3) by (fastforce simp: val_def)+
  let ?c = "field_cmp env sf t val"
  have c1: "comparer ?c (\<lambda>r. r \<in> A)" by (rule field_cmp_comparer [OF t(2) val(2)])
  have "Less env (sf # sfs) a b = Ok (lex_cmp ?c c2 a b = Ok (-1))" if "a \<in> A" "b \<in> A" for a b
    using comparer.cmp_total [OF c1 that] Less_Cons [OF t(1) val(1) val(1), OF that, of sfs] c2(2) that
    by (auto simp: lex_cmp_def)
  with comparer_lex [OF c1 c2(1)] show ?case by blast
qed

section \<open>The sort is stable and correct\<close>

context comparer
begin

definition le :: "'v \<Rightarrow> 'v \<Rightarrow> bool" where
  "le a b \<longleftrightarrow> (\<exists>x \<le> 0. cmp a b = Ok x)"

definition same :: "'v \<Rightarrow> 'v \<Rightarrow> bool" where
  "same a b \<longleftrightarrow> cmp a b = Ok 0"

lemma le_total: "D a \<Longrightarrow> D b \<Longrightarrow> cmp a b = Ok (-1) \<or> le b a"
  by (erule (1) cmp_cases) (auto simp: le_def)

lemma le_refl: "D a \<Longrightarrow> le a a"
  using cmp_refl by (force simp: le_def)

lemma lt_le: "cmp a b = Ok (-1) \<Longrightarrow> le a b"
  by (force simp: le_def)

lemma le_trans: "D a \<Longrightarrow> D b \<Longrightarrow> D c \<Longrightarrow> le a b \<Longrightarrow> le b c \<Longrightarrow> le a c"
  using cmp_trans by (fastforce simp: le_def)

lemma le_same: "D a \<Longrightarrow> D b \<Longrightarrow> le a b \<Longrightarrow> le b a \<Longrightarrow> same a b"
  by (erule (1) cmp_cases) (auto simp: le_def same_def)

lemma not_lt_le: "D a \<Longrightarrow> D b \<Longrightarrow> le b a \<longleftrightarrow> cmp a b \<noteq> Ok (-1)"
  by (erule (1) cmp_cases) (auto simp: le_def)

lemma same_lt: "D a \<Longrightarrow> D b \<Longrightarrow> D c \<Longrightarrow> cmp a b = Ok (-1) \<Longrightarrow> same c a \<Longrightarrow> \<not> same c b"
  using cmp_swap [of a b "-1"] cmp_swap [of c b 0] cmp_trans [of b c a 0 0] by (auto simp: same_def)

lemma sink_sorted:
  assumes "\<And>a b. D a \<Longrightarrow> D b \<Longrightarrow> before a b = Ok (cmp a b = Ok (-1))"
    and "D x" "\<forall>y \<in> set ys. D y" "sorted_wrt (\<lambda>a b. le b a) ys"
  shows "\<exists>zs. sink before x ys = Ok zs \<and> mset zs = add_mset x (mset ys) \<and> sorted_wrt (\<lambda>a b. le b a) zs
    \<and> (\<forall>c. D c \<longrightarrow> filter (same c) zs = filter (same c) (x # ys))"
  using assms(3,4)
proof (induction ys)
  case (Cons y ys)
  show ?case
  proof (cases "cmp x y = Ok (-1)")
    case True
    from Cons obtain zs where zs: "sink before x ys = Ok zs" "mset zs = add_mset x (mset ys)"
      "sorted_wrt (\<lambda>a b. le b a) zs" "\<forall>c. D c \<longrightarrow> filter (same c) zs = filter (same c) (x # ys)" by auto
    have "set zs = insert x (set ys)" using zs(2) by (metis set_mset_add_mset_insert set_mset_mset)
    then have "\<forall>z \<in> set zs. le z y" using Cons.prems lt_le [OF True] by auto
    moreover have "filter (same c) (y # zs) = filter (same c) (x # y # ys)" if "D c" for c
      using zs(4) that same_lt [OF assms(2) _ that True] Cons.prems by auto
    ultimately show ?thesis using True zs assms(1) [OF assms(2), of y] Cons.prems by auto
  next
    case False
    then have "le y x" using le_total [OF assms(2), of y] Cons.prems by auto
    moreover from this have "\<forall>z \<in> set ys. le z x" using Cons.prems assms(2) le_trans [of _ y x] by auto
    ultimately show ?thesis using False assms(1) [OF assms(2), of y] Cons.prems by auto
  qed
qed simp

lemma insert_all_sorted:
  assumes "\<And>a b. D a \<Longrightarrow> D b \<Longrightarrow> before a b = Ok (cmp a b = Ok (-1))"
    and "\<forall>y \<in> set prefix \<union> set xs. D y" "sorted_wrt (\<lambda>a b. le b a) prefix"
  shows "\<exists>zs. insert_all before prefix xs = Ok zs \<and> mset zs = mset prefix + mset xs \<and> sorted_wrt (\<lambda>a b. le b a) zs
    \<and> (\<forall>c. D c \<longrightarrow> filter (same c) zs = filter (same c) (rev xs @ prefix))"
  using assms(2,3)
proof (induction xs arbitrary: prefix)
  case (Cons x xs)
  from sink_sorted [OF assms(1), where x = x and ys = prefix] Cons.prems obtain p where
    p: "sink before x prefix = Ok p" "mset p = add_mset x (mset prefix)" "sorted_wrt (\<lambda>a b. le b a) p"
    "\<forall>c. D c \<longrightarrow> filter (same c) p = filter (same c) (x # prefix)" by auto
  have "set p = insert x (set prefix)" using p(2) by (metis set_mset_add_mset_insert set_mset_mset)
  with Cons.IH [of p] Cons.prems p obtain zs where "insert_all before p xs = Ok zs" "mset zs = mset p + mset xs"
    "sorted_wrt (\<lambda>a b. le b a) zs" "\<forall>c. D c \<longrightarrow> filter (same c) zs = filter (same c) (rev xs @ p)" by auto
  with p show ?case by auto
qed simp

lemma sort_Stable_sorted:
  assumes "\<And>a b. D a \<Longrightarrow> D b \<Longrightarrow> before a b = Ok (cmp a b = Ok (-1))" and "\<forall>y \<in> set xs. D y"
  shows "\<exists>zs. sort_Stable before xs = Ok zs \<and> mset zs = mset xs \<and> sorted_wrt le zs
    \<and> (\<forall>c. D c \<longrightarrow> filter (same c) zs = filter (same c) xs)"
proof -
  from insert_all_sorted [OF assms(1), where prefix = "[]" and xs = xs] assms(2) obtain zs where
    zs: "insert_all before [] xs = Ok zs" "mset zs = mset xs" "sorted_wrt (\<lambda>a b. le b a) zs"
    "\<forall>c. D c \<longrightarrow> filter (same c) zs = filter (same c) (rev xs)" by auto
  then have "filter (same c) (rev zs) = filter (same c) xs" if "D c" for c
    using that by (metis rev_filter rev_rev_ident)
  with zs show ?thesis by (auto simp: sort_Stable_def sorted_wrt_rev)
qed

lemma stable_sort_unique:
  assumes "mset ys = mset zs" "sorted_wrt le ys" "sorted_wrt le zs" "\<forall>y \<in> set ys. D y"
    and "\<forall>c. D c \<longrightarrow> filter (same c) ys = filter (same c) zs"
  shows "ys = zs"
  using assms
proof (induction ys arbitrary: zs)
  case (Cons y ys)
  then obtain z zs' where z: "zs = z # zs'" by (cases zs) auto
  have sets: "set (y # ys) = set zs" using Cons.prems(1) by (metis set_mset_mset)
  then have Dyz: "D y" "D z" using Cons.prems(4) z by auto
  have "z \<in> set (y # ys)" "y \<in> set (z # zs')" using sets z by auto
  with Cons.prems(2,3) z le_refl Dyz have "le y z" "le z y" by auto
  then have "same y z" "same y y" using le_same Dyz cmp_refl by (auto simp: same_def)
  with Cons.prems(5) Dyz z have "y = z" by auto
  moreover from this have "\<forall>c. D c \<longrightarrow> filter (same c) ys = filter (same c) zs'"
    using Cons.prems(5) z by (auto split: if_splits)
  ultimately show ?case using Cons z by auto
qed simp

end

section \<open>The iterator\<close>

lemma cache_rows_yields:
  "yields nx s xs r t \<Longrightarrow> cache_rows (\<lambda>_. True) nx s acc = Some (t, finish (acc @ xs, r))"
proof (induction arbitrary: acc rule: yields.induct)
  case (stop s t r)
  then show ?case by (cases r) (auto simp: cache_rows.simps [of _ nx s] finish_def)
next
  case (step s s' x xs r t)
  then show ?case by (simp add: cache_rows.simps [of _ nx s])
qed

lemma sort_emit_yields:
  assumes "so_idx i = int k" "k \<le> length (so_sortedRows i)"
  shows "\<exists>t. yields (sort_Next env sfs avail nx) i (drop k (so_sortedRows i)) (Err EOF) t"
  using assms
proof (induction "length (so_sortedRows i) - k" arbitrary: i k)
  case 0
  then have "sort_Next env sfs avail nx i = Some (i, Err EOF)" by (simp add: sort_Next_def sort_emit_def)
  with 0 show ?case by (auto intro!: exI yields.stop)
next
  case (Suc n)
  let ?i = "i \<lparr> so_idx := int (Suc k) \<rparr>"
  have "sort_Next env sfs avail nx i = Some (?i, Ok (so_sortedRows i ! k))"
    using Suc.prems Suc.hyps(2) by (simp add: sort_Next_def sort_emit_def add.commute)
  moreover have "\<exists>t. yields (sort_Next env sfs avail nx) ?i (drop (Suc k) (so_sortedRows i)) (Err EOF) t"
    using Suc.hyps(1) [of ?i "Suc k"] Suc.hyps(2) Suc.prems by simp
  moreover have "drop k (so_sortedRows i) = (so_sortedRows i ! k) # drop (Suc k) (so_sortedRows i)"
    using Suc.hyps(2) by (simp add: Cons_nth_drop_Suc)
  ultimately show ?case by (auto intro: yields.step)
qed

lemma sort_yields:
  assumes "yields nx s xs (Err EOF) t" "sort_Stable (Less env sfs) xs = Ok ys"
  shows "\<exists>t'. yields (sort_Next env sfs (\<lambda>_. True) nx) (newSortIter s) ys (Err EOF) t'"
proof -
  let ?i = "\<lparr> so_childIter = t, so_sortedRows = ys, so_idx = 0 \<rparr>"
  have "computeSortedRows env sfs (\<lambda>_. True) nx s = Some (t, Ok ys)"
    using cache_rows_yields [OF assms(1), of "[]"] assms(2) by (simp add: computeSortedRows_def)
  then have "sort_Next env sfs (\<lambda>_. True) nx (newSortIter s) = sort_Next env sfs (\<lambda>_. True) nx ?i"
    by (simp add: sort_Next_def newSortIter_def)
  with sort_emit_yields [of ?i 0 env sfs "\<lambda>_. True" nx] show ?thesis by (auto intro: yields_same_next)
qed

text \<open>
  What a stable sort returns: the same rows, no row before one it must follow, and rows that the order does not
  separate in their original order.
\<close>

definition tied :: "('a \<Rightarrow> 'a \<Rightarrow> bool res) \<Rightarrow> 'a \<Rightarrow> 'a \<Rightarrow> bool" where
  "tied before c a \<longleftrightarrow> before a c = Ok False \<and> before c a = Ok False"

definition stably_sorted :: "('a \<Rightarrow> 'a \<Rightarrow> bool res) \<Rightarrow> 'a list \<Rightarrow> 'a list \<Rightarrow> bool" where
  "stably_sorted before xs zs \<longleftrightarrow> mset zs = mset xs \<and> sorted_wrt (\<lambda>a b. before b a = Ok False) zs
     \<and> (\<forall>c \<in> set xs. filter (tied before c) zs = filter (tied before c) xs)"

lemma stably_sorted_comparer:
  assumes cmp: "comparer cmp (\<lambda>r. r \<in> set xs)"
    and L: "\<And>a b. a \<in> set xs \<Longrightarrow> b \<in> set xs \<Longrightarrow> before a b = Ok (cmp a b = Ok (-1))"
  shows "stably_sorted before xs zs \<longleftrightarrow> mset zs = mset xs \<and> sorted_wrt (comparer.le cmp) zs
     \<and> (\<forall>c \<in> set xs. filter (comparer.same cmp c) zs = filter (comparer.same cmp c) xs)"
proof (cases "mset zs = mset xs")
  case True
  then have set: "set zs = set xs" by (metis set_mset_mset)
  have "before b a = Ok False \<longleftrightarrow> comparer.le cmp a b" if "a \<in> set xs" "b \<in> set xs" for a b
    using L [OF that(2,1)] comparer.not_lt_le [OF cmp that(2,1)] by simp
  then have "sorted_wrt (\<lambda>a b. before b a = Ok False) zs \<longleftrightarrow> sorted_wrt (comparer.le cmp) zs"
    using set by (auto elim!: sorted_wrt_mono_rel [rotated])
  moreover have "tied before c a = comparer.same cmp c a" if "a \<in> set xs" "c \<in> set xs" for a c
    using comparer.cmp_total [OF cmp that(2,1)] comparer.cmp_swap [OF cmp that(2,1)] L that
    by (auto simp: tied_def comparer.same_def [OF cmp])
  then have "filter (tied before c) ws = filter (comparer.same cmp c) ws" if "c \<in> set xs" "set ws = set xs" for c ws
    using that by (intro filter_cong) auto
  ultimately show ?thesis using set True by (simp add: stably_sorted_def)
qed (simp add: stably_sorted_def)

lemma sort_Stable_stably_sorted:
  assumes cmp: "comparer cmp (\<lambda>r. r \<in> set xs)"
    and L: "\<And>a b. a \<in> set xs \<Longrightarrow> b \<in> set xs \<Longrightarrow> before a b = Ok (cmp a b = Ok (-1))"
  shows "\<exists>ys. sort_Stable before xs = Ok ys \<and> (\<forall>zs. stably_sorted before xs zs \<longleftrightarrow> zs = ys)"
proof -
  obtain ys where ys: "sort_Stable before xs = Ok ys" "mset ys = mset xs" "sorted_wrt (comparer.le cmp) ys"
    "\<forall>c \<in> set xs. filter (comparer.same cmp c) ys = filter (comparer.same cmp c) xs"
    using comparer.sort_Stable_sorted [OF cmp, of before xs] L by auto
  from ys(2) have set: "\<forall>y \<in> set ys. y \<in> set xs" by (metis set_mset_mset)
  have "stably_sorted before xs zs \<longleftrightarrow> zs = ys" for zs
  proof
    assume "stably_sorted before xs zs"
    then have zs: "mset zs = mset xs" "sorted_wrt (comparer.le cmp) zs"
      "\<forall>c \<in> set xs. filter (comparer.same cmp c) zs = filter (comparer.same cmp c) xs"
      using stably_sorted_comparer [OF cmp L] by blast+
    show "zs = ys"
      by (rule comparer.stable_sort_unique [OF cmp _ ys(3) zs(2) set, symmetric]) (use ys zs in auto)
  qed (simp add: stably_sorted_comparer [OF cmp L] ys(2-))
  with ys(1) show ?thesis by blast
qed

text \<open>(C5) ORDER BY on sortable columns returns the rows of its child, all of them and each as often, in an order
  that \<^verbatim>\<open>Less\<close> never contradicts and in which rows that \<^verbatim>\<open>Less\<close> does not separate keep their order; no other list
  of rows has these properties.\<close>

theorem sort_rows:
  assumes "yields nx s xs (Err EOF) t" "\<forall>sf \<in> set sfs. sortable env (set xs) sf"
  shows "\<exists>ys t'. drain (sort_Next env sfs (\<lambda>_. True) nx) (newSortIter s) [] = Some (t', Ok ys)
     \<and> (\<forall>zs. stably_sorted (Less env sfs) xs zs \<longleftrightarrow> zs = ys)"
proof -
  from Less_comparer [OF assms(2)] obtain cmp where "comparer cmp (\<lambda>r. r \<in> set xs)"
    "\<And>a b. a \<in> set xs \<Longrightarrow> b \<in> set xs \<Longrightarrow> Less env sfs a b = Ok (cmp a b = Ok (-1))" by blast
  from sort_Stable_stably_sorted [of cmp xs "Less env sfs", OF this] obtain ys where
    ys: "sort_Stable (Less env sfs) xs = Ok ys" "\<forall>zs. stably_sorted (Less env sfs) xs zs \<longleftrightarrow> zs = ys" by auto
  from sort_yields [OF assms(1) ys(1)] ys(2) show ?thesis by (auto simp: drain_yields)
qed

definition by_first :: "sort_order \<Rightarrow> sort_field" where
  "by_first ord = \<lparr> sf_Column = GetField 0 Int64 [] ''a'' True, sf_Order = ord, sf_NullOrdering = NullsFirst \<rparr>"

lemma by_first_sortable:
  "\<forall>r \<in> A. r = [GNil] \<or> (\<exists>w. r = [GInt64 w]) \<Longrightarrow> sortable cast_env A (by_first ord)"
  using keyed_comparer.is_comparer [OF number_comparer [OF cast_env_laws, of Int64T]]
  by (auto simp: sortable_def by_first_def GetField_Eval_def number_dom_def int_val_def simp del: sql_compare.simps
      intro!: exI [of _ "number_dom Int64T"])

theorem sort_rows_witness:
  "\<exists>ys t'. drain (sort_Next cast_env [by_first Ascending] (\<lambda>_. True) slice_Next)
       (newSortIter (RowsToRowIter [[GInt64 2], [GNil], [GInt64 1]])) [] = Some (t', Ok ys)
     \<and> mset ys = {#[GInt64 2], [GNil], [GInt64 1]#}"
proof -
  obtain t where "yields slice_Next (RowsToRowIter [[GInt64 2], [GNil], [GInt64 1]])
      [[GInt64 2], [GNil], [GInt64 1]] (Err EOF) t"
    by (rule slice_yieldsE)
  from sort_rows [OF this, of "[by_first Ascending]" cast_env]
    by_first_sortable [of "set [[GInt64 2], [GNil], [GInt64 1]]" Ascending]
  show ?thesis by (auto simp: stably_sorted_def)
qed

text \<open>With a descending field the operands are swapped before the NULL test, so \<^verbatim>\<open>NullsFirst\<close>, documented to put
  NULLs before any other value, puts them after every other value.\<close>

lemma descending_nulls_first:
  assumes "etype (sf_Column sf) = Ok typ" "sf_Order sf = Descending" "sf_NullOrdering sf = NullsFirst"
    "eval env (sf_Column sf) a = Ok GNil" "eval env (sf_Column sf) b = Ok v" "v \<noteq> GNil"
  shows "Less env (sf # sfs) b a = Ok True \<and> Less env (sf # sfs) a b = Ok False"
  using assms by (simp add: sort_eval_def)

theorem descending_nulls_first_witness:
  "Less cast_env [by_first Descending] [GInt64 1] [GNil] = Ok True"
  using descending_nulls_first [of "by_first Descending" Int64 cast_env "[GNil]" "[GInt64 1]" "GInt64 1" "[]"]
  by (simp add: by_first_def GetField_Eval_def)

end
