(* ===== verification/Plan_Rules.thy ===== *)
theory Plan_Rules
  imports Sorting Optimizer
begin

text \<open>
  Rules on plans that meet the iterators: the optimization of DISTINCT over sorted rows (\<^verbatim>\<open>optimizeDistinct\<close> of
  \<^verbatim>\<open>sql/analyzer/optimization_rules.go\<close>) and the composition of a query from the iterators of its nodes, with the condition
  as it was written or folded by \<^verbatim>\<open>evalFilter\<close>.
\<close>

section \<open>DISTINCT over sorted rows\<close>

text \<open>
  Of the plan below DISTINCT the rule looks only at the sort nodes. \<^verbatim>\<open>Inspect\<close> visits in depth-first order; the first sort
  whose first field is a column gives \<^verbatim>\<open>sortField\<close>, and the search does not go below a sort until one is found.
\<close>

datatype pnode = SortNode "sort_field list" pnode | OtherNode "pnode list"

fun find_sort :: "pnode \<Rightarrow> expr option \<Rightarrow> expr option res" and find_sorts :: "pnode list \<Rightarrow> expr option \<Rightarrow> expr option res" where
  "find_sort (SortNode sfs child) found =
     (case found of
        None \<Rightarrow> rbind (slice_at sfs 0) (\<lambda>sf. Ok (if is_GetField (sf_Column sf) then Some (sf_Column sf) else None))
      | Some c \<Rightarrow> find_sort child found)"
| "find_sort (OtherNode cs) found = find_sorts cs found"
| "find_sorts [] found = Ok found"
| "find_sorts (c # cs) found = rbind (find_sort c found) (find_sorts cs)"

datatype distinct_node = DistinctNode | OrderedDistinctNode

definition optimizeDistinct :: "schema \<Rightarrow> pnode \<Rightarrow> distinct_node res" where
  "optimizeDistinct sch child =
     rbind (find_sort child None) (\<lambda>f. case f of
       Some (GetField _ _ tbl name _) \<Rightarrow> Ok (if Contains sch name tbl then OrderedDistinctNode else DistinctNode)
     | _ \<Rightarrow> Ok DistinctNode)"

section \<open>Properties\<close>

text \<open>Two integer columns, sorted by the first one.\<close>

definition int_column :: "string \<Rightarrow> column" where
  "int_column name = \<lparr> col_Name = name, col_Type = Int64, col_Default = GNil, col_Nullable = False, col_Source = ''t'',
     col_PrimaryKey = False, col_Comment = [] \<rparr>"

definition by_a :: sort_field where
  "by_a = \<lparr> sf_Column = GetField 0 Int64 ''t'' ''a'' False, sf_Order = Ascending, sf_NullOrdering = NullsFirst \<rparr>"

definition ab_rows :: "row list" where
  "ab_rows = [[GInt64 1, GInt64 1], [GInt64 1, GInt64 2], [GInt64 1, GInt64 1]]"

lemma Row_Equals_ab:
  "Row_Equals cast_env [GInt64 a, GInt64 b] [GInt64 c, GInt64 d] [int_column ''a'', int_column ''b''] =
   Ok (sint a = sint c \<and> sint b = sint d)"
  by (simp add: Row_Equals_def int_column_def int64_compare [OF cast_env_laws] cmp_int_def del: sql_compare.simps)

lemma ab_sorted: "sort_Stable (Less cast_env [by_a]) ab_rows = Ok ab_rows"
  by (simp add: ab_rows_def sort_Stable_def by_a_def sort_eval_def GetField_Eval_def int64_compare [OF cast_env_laws] cmp_int_def
      del: sql_compare.simps)

text \<open>(C34) The rule is unsound: it replaces DISTINCT by the duplicate elimination of neighbours when the first sort column is in
  the schema, although rows that agree on that column need not be neighbours of their duplicates. On two columns sorted by the
  first one DISTINCT returns two rows, and the plan that the rule makes returns three.\<close>

theorem optimizeDistinct_unsound:
  fixes hash :: "row \<Rightarrow> 64 word"
  assumes "inj_on hash (set ab_rows)"
  shows "optimizeDistinct [int_column ''a'', int_column ''b''] (SortNode [by_a] (OtherNode [])) = Ok OrderedDistinctNode
    \<and> (\<exists>t. drain (distinct_Next (\<lambda>_. True) hash (sort_Next cast_env [by_a] (\<lambda>_. True) slice_Next))
         (Some {}, newSortIter (RowsToRowIter ab_rows)) [] = Some (t, Ok [[GInt64 1, GInt64 1], [GInt64 1, GInt64 2]]))
    \<and> (\<exists>t. drain (ordered_distinct_Next cast_env [int_column ''a'', int_column ''b'']
           (sort_Next cast_env [by_a] (\<lambda>_. True) slice_Next)) (None, newSortIter (RowsToRowIter ab_rows)) [] =
         Some (t, Ok ab_rows))"
proof (intro conjI)
  show "optimizeDistinct [int_column ''a'', int_column ''b''] (SortNode [by_a] (OtherNode [])) = Ok OrderedDistinctNode"
    by (simp add: optimizeDistinct_def by_a_def int_column_def Contains_iff slice_at_def)
  obtain t where t: "yields slice_Next (RowsToRowIter ab_rows) ab_rows (Err EOF) t" by (rule slice_yieldsE)
  obtain u where u: "yields (sort_Next cast_env [by_a] (\<lambda>_. True) slice_Next) (newSortIter (RowsToRowIter ab_rows)) ab_rows (Err EOF) u"
    using sort_yields [OF t ab_sorted] by blast
  have "first_seen hash {} ab_rows = [[GInt64 1, GInt64 1], [GInt64 1, GInt64 2]]"
    using assms by (auto simp: ab_rows_def)
  with yield_pair_drain [OF distinct_yields [OF u, of hash "{}"]]
  show "\<exists>t. drain (distinct_Next (\<lambda>_. True) hash (sort_Next cast_env [by_a] (\<lambda>_. True) slice_Next))
         (Some {}, newSortIter (RowsToRowIter ab_rows)) [] = Some (t, Ok [[GInt64 1, GInt64 1], [GInt64 1, GInt64 2]])"
    by simp
  have "yield_pair (ordered_distinct_Next cast_env [int_column ''a'', int_column ''b''] (sort_Next cast_env [by_a] (\<lambda>_. True) slice_Next))
      (None, newSortIter (RowsToRowIter ab_rows)) (drop_repeats (=) None ab_rows, Err EOF)"
    by (rule ordered_distinct_yields [OF u]) (auto simp: ab_rows_def Row_Equals_ab)
  from yield_pair_drain [OF this]
  show "\<exists>t. drain (ordered_distinct_Next cast_env [int_column ''a'', int_column ''b'']
           (sort_Next cast_env [by_a] (\<lambda>_. True) slice_Next)) (None, newSortIter (RowsToRowIter ab_rows)) [] =
         Some (t, Ok ab_rows)"
    by (simp add: ab_rows_def)
qed

theorem optimizeDistinct_unsound_witness:
  "\<exists>t. drain (ordered_distinct_Next cast_env [int_column ''a'', int_column ''b'']
     (sort_Next cast_env [by_a] (\<lambda>_. True) slice_Next)) (None, newSortIter (RowsToRowIter ab_rows)) [] = Some (t, Ok ab_rows)"
proof -
  have "inj_on (\<lambda>r. case r of [GInt64 a, GInt64 b] \<Rightarrow> b | _ \<Rightarrow> 0) (set ab_rows)"
    by (simp add: ab_rows_def inj_on_def)
  from optimizeDistinct_unsound [OF this] show ?thesis by blast
qed

text \<open>The rows of a query: the composition of the iterators of its plan.\<close>

definition select_query ::
  "genv \<Rightarrow> ('s, row) nextfn \<Rightarrow> expr \<Rightarrow> expr list \<Rightarrow> sort_field list \<Rightarrow> int \<Rightarrow> int \<Rightarrow> 's \<Rightarrow> ((int \<times> int \<times> 's sort_iter) \<times> row list res) option" where
  "select_query env nx cond es sfs n m s =
     drain (limit_Next n (offset_Next (sort_Next env sfs (\<lambda>_. True) (project_Next env es (filter_Next env cond nx)))))
       (0, m, newSortIter s) []"

lemma map_filter_guard: "List.map_filter (\<lambda>x. if acc x then Some x else None) xs = filter acc xs"
  by (induction xs) (simp_all add: List.map_filter_simps)

lemma filter_project_yields:
  assumes "yields nx s xs (Err EOF) t" "\<forall>x \<in> set xs. EvaluateCondition env cond x = Ok (acc x)"
    "\<forall>x \<in> set xs. acc x \<longrightarrow> projectRow env es x = Ok (p x)"
  shows "\<exists>t'. yields (project_Next env es (filter_Next env cond nx)) s (map p (filter acc xs)) (Err EOF) t'"
proof -
  have f: "process (\<lambda>x. rbind (EvaluateCondition env cond x) (\<lambda>b. Ok (if b then Some x else None))) xs (Err EOF) = (filter acc xs, Err EOF)"
  proof -
    have "process (\<lambda>x. rbind (EvaluateCondition env cond x) (\<lambda>b. Ok (if b then Some x else None))) xs (Err EOF) =
        (List.map_filter (\<lambda>x. if acc x then Some x else None) xs, Err EOF)"
      by (rule process_total) (use assms(2) in simp)
    then show ?thesis by (simp add: map_filter_guard)
  qed
  have "\<exists>u. yields (filter_Next env cond nx) s (filter acc xs) (Err EOF) u"
    using filter_yields [OF assms(1), of "EvaluateCondition env cond"] f by (auto simp: filter_Next_def yield_pair_def)
  then obtain u where "yields (filter_Next env cond nx) s (filter acc xs) (Err EOF) u" by blast
  from project_yields [OF this, of env es]
  have "yield_pair (project_Next env es (filter_Next env cond nx)) s
      (process (\<lambda>x. rbind (projectRow env es x) (\<lambda>y. Ok (Some y))) (filter acc xs) (Err EOF))" .
  moreover have "process (\<lambda>x. rbind (projectRow env es x) (\<lambda>y. Ok (Some y))) (filter acc xs) (Err EOF) =
      (List.map_filter (\<lambda>x. Some (p x)) (filter acc xs), Err EOF)"
    by (rule process_total) (use assms(3) in simp)
  ultimately show ?thesis by (auto simp: List.map_filter_def comp_def yield_pair_def)
qed

lemma select_query_rows:
  assumes "yields nx s xs (Err EOF) t" "\<forall>x \<in> set xs. EvaluateCondition env cond x = Ok (acc x)"
    "\<forall>x \<in> set xs. acc x \<longrightarrow> projectRow env es x = Ok (p x)"
    "sort_Stable (Less env sfs) (map p (filter acc xs)) = Ok ys"
  shows "\<exists>t'. select_query env nx cond es sfs n m s = Some (t', Ok (take (nat n) (drop (nat m) ys)))"
proof -
  obtain t1 where "yields (project_Next env es (filter_Next env cond nx)) s (map p (filter acc xs)) (Err EOF) t1"
    using filter_project_yields [OF assms(1-3)] by blast
  from sort_yields [OF this assms(4)] obtain t2 where
    "yields (sort_Next env sfs (\<lambda>_. True) (project_Next env es (filter_Next env cond nx))) (newSortIter s) ys (Err EOF) t2"
    by blast
  from offset_yields [OF this, of m] obtain t3 where
    "yields (offset_Next (sort_Next env sfs (\<lambda>_. True) (project_Next env es (filter_Next env cond nx)))) (m, newSortIter s)
       (drop (nat m) ys) (Err EOF) t3" by (auto simp: yield_pair_def)
  from yield_pair_drain [OF limit_yields [OF this, of n 0]] show ?thesis by (simp add: select_query_def)
qed



end
