(* ===== verification/Go_Strings.thy ===== *)
theory Go_Strings
  imports Go_Values
begin

text \<open>
  The parts of Go's packages \<^verbatim>\<open>strings\<close>, \<^verbatim>\<open>strconv\<close> and \<^verbatim>\<open>math/bits\<close> that the types, the functions and the parser
  use, with the facts about them that the proofs share: splitting and joining, trimming, integers in decimal, powers of two.
\<close>

section \<open>Splitting and joining\<close>

definition TrimRight :: "char \<Rightarrow> string \<Rightarrow> string" where
  "TrimRight c s = rev (dropWhile (\<lambda>x. x = c) (rev s))"

definition TrimLeft :: "char \<Rightarrow> string \<Rightarrow> string" where
  "TrimLeft c s = dropWhile (\<lambda>x. x = c) s"

fun Split :: "char \<Rightarrow> string \<Rightarrow> string list" where
  "Split c [] = [[]]"
| "Split c (x # xs) =
     (if x = c then [] # Split c xs
      else case Split c xs of [] \<Rightarrow> [[x]] | y # ys \<Rightarrow> (x # y) # ys)"

fun Join :: "string \<Rightarrow> string list \<Rightarrow> string" where
  "Join sep [] = []"
| "Join sep [s] = s"
| "Join sep (s # t # ss) = s @ sep @ Join sep (t # ss)"

lemma TrimRight_idem [simp]: "TrimRight c (TrimRight c s) = TrimRight c s"
proof -
  have "dropWhile P (dropWhile P xs) = dropWhile P xs" for P and xs :: string
    by (induction xs) auto
  then show ?thesis by (simp add: TrimRight_def)
qed

lemma TrimRight_set: "set (TrimRight c s) \<subseteq> set s"
  by (auto simp: TrimRight_def dest: set_dropWhileD)

lemma Split_not_Nil [simp]: "Split c s \<noteq> []"
  by (induction s) (auto split: list.splits)

lemma Split_plain: "c \<notin> set s \<Longrightarrow> Split c s = [s]"
  by (induction s) auto

lemma Split_append: "c \<notin> set s \<Longrightarrow> Split c (s @ c # t) = s # Split c t"
  by (induction s) auto

lemma Split_Join: "ss \<noteq> [] \<Longrightarrow> \<forall>s \<in> set ss. c \<notin> set s \<Longrightarrow> Split c (Join [c] ss) = ss"
  by (induction "[c]" ss rule: Join.induct) (auto simp: Split_plain Split_append)

lemma Join_Split [simp]: "Join [c] (Split c s) = s"
proof (induction s)
  case (Cons x xs)
  then obtain y ys where "Split c xs = y # ys" by (cases "Split c xs") auto
  with Cons show ?case by (cases ys) auto
qed simp

lemma Join_Nil_iff: "Join [c] ss = [] \<longleftrightarrow> ss = [] \<or> ss = [[]]"
  by (induction "[c]" ss rule: Join.induct) auto

section \<open>Decimal integers\<close>

definition syntax_error :: gerror where "syntax_error = ErrOther ''invalid syntax''"
definition range_error :: gerror where "range_error = ErrOther ''value out of range''"

text \<open>The digit loop of \<^verbatim>\<open>strconv.ParseUint\<close> in base 10 stops at the first character that is no digit or digit that overflows.\<close>

fun parse_digits :: "int \<Rightarrow> int \<Rightarrow> string \<Rightarrow> int res" where
  "parse_digits maxVal n [] = Ok n"
| "parse_digits maxVal n (c # cs) =
     (if \<not> is_digit c then Err syntax_error
      else let n1 = 10 * n + int (of_char c - 48) in
        if n1 > maxVal then Err range_error else parse_digits maxVal n1 cs)"

definition ParseInt :: "nat \<Rightarrow> string \<Rightarrow> int res" where
  "ParseInt bitSize s0 =
     (let (neg, s) = strip_sign s0; cutoff = 2 ^ (bitSize - 1) in
      if s = [] then Err syntax_error
      else rbind (parse_digits (2 ^ bitSize - 1) 0 s) (\<lambda>un.
        if \<not> neg \<and> un \<ge> cutoff \<or> neg \<and> un > cutoff then Err range_error
        else Ok (if neg then - un else un)))"

lemma parse_digits_range: "parse_digits m n s = Ok i \<Longrightarrow> 0 \<le> n \<Longrightarrow> n \<le> m \<Longrightarrow> 0 \<le> i \<and> i \<le> m"
  by (induction m n s rule: parse_digits.induct) (auto simp: Let_def split: if_splits)

lemma ParseInt_range:
  assumes "ParseInt b s = Ok i"
  shows "- (2 ^ (b - 1)) \<le> i \<and> i < 2 ^ (b - 1)"
proof -
  define k where "k = (2 :: int) ^ (b - 1)"
  have k: "0 < k" by (simp add: k_def)
  obtain neg t where t: "strip_sign s = (neg, t)" by (cases "strip_sign s")
  with assms have "rbind (parse_digits (2 ^ b - 1) 0 t) (\<lambda>un.
      if \<not> neg \<and> un \<ge> k \<or> neg \<and> un > k then Err range_error else Ok (if neg then - un else un)) = Ok i"
    by (simp add: ParseInt_def Let_def k_def split: if_splits)
  then obtain un where "parse_digits (2 ^ b - 1) 0 t = Ok un" "i = (if neg then - un else un)"
    "\<not> (\<not> neg \<and> un \<ge> k \<or> neg \<and> un > k)"
    by (auto simp: res_simps split: if_splits)
  moreover from this have "0 \<le> un" using parse_digits_range by fastforce
  ultimately show ?thesis unfolding k_def [symmetric] using k by (auto split: if_splits)
qed

lemma parse_digits_no_panic [simp]: "parse_digits m n s \<noteq> Panic"
  by (induction m n s rule: parse_digits.induct) (auto simp: Let_def)

lemma rbind_no_panic: "m \<noteq> Panic \<Longrightarrow> (\<And>x. m = Ok x \<Longrightarrow> f x \<noteq> Panic) \<Longrightarrow> rbind m f \<noteq> Panic"
  by (cases m) auto

lemma ParseInt_no_panic [simp]: "ParseInt b s \<noteq> Panic"
  by (simp add: ParseInt_def Let_def rbind_no_panic split: prod.split)

text \<open>\<^verbatim>\<open>strconv.AppendUint\<close> and \<^verbatim>\<open>strconv.AppendInt\<close> in base 10.\<close>

definition digit_char :: "nat \<Rightarrow> char" where
  "digit_char d = char_of (48 + d)"

fun dec_nat :: "nat \<Rightarrow> string" where
  "dec_nat n = (if n < 10 then [digit_char n] else dec_nat (n div 10) @ [digit_char (n mod 10)])"

declare dec_nat.simps [simp del]

definition dec_int :: "int \<Rightarrow> string" where
  "dec_int i = (if i < 0 then CHR ''-'' # dec_nat (nat (- i)) else dec_nat (nat i))"

lemma digit_char_val: "d < 10 \<Longrightarrow> of_char (digit_char d) = 48 + d"
  by (simp add: digit_char_def take_bit_eq_mod)

lemma is_digit_char: "d < 10 \<Longrightarrow> is_digit (digit_char d)"
  by (simp add: is_digit_def digit_char_val)

lemma parse_digits_append:
  "parse_digits m n (s @ t) = rbind (parse_digits m n s) (\<lambda>k. parse_digits m k t)"
  by (induction m n s rule: parse_digits.induct) (auto simp: Let_def)

lemma parse_dec_nat: "int n \<le> m \<Longrightarrow> parse_digits m 0 (dec_nat n) = Ok (int n)"
proof (induction n rule: dec_nat.induct)
  case (1 n)
  show ?case
  proof (cases "n < 10")
    case True
    with 1(2) show ?thesis by (simp add: dec_nat.simps [of n] is_digit_char digit_char_val)
  next
    case False
    have "int n = 10 * int (n div 10) + int (n mod 10)" by presburger
    moreover from False 1 have "parse_digits m 0 (dec_nat (n div 10)) = Ok (int (n div 10))" by simp
    ultimately show ?thesis using False "1.prems"
      by (simp add: dec_nat.simps [of n] parse_digits_append is_digit_char digit_char_val Let_def)
  qed
qed

lemma dec_nat_not_Nil [simp]: "dec_nat n \<noteq> []"
  by (simp add: dec_nat.simps [of n])

lemma dec_nat_digits: "c \<in> set (dec_nat n) \<Longrightarrow> is_digit c"
proof (induction n rule: dec_nat.induct)
  case (1 n)
  then show ?case by (auto simp: dec_nat.simps [of n] is_digit_char split: if_splits)
qed

lemma strip_sign_digits: "s \<noteq> [] \<Longrightarrow> is_digit (hd s) \<Longrightarrow> strip_sign s = (False, s)"
  by (cases s) (auto simp: strip_sign_def is_digit_def)

lemma ParseInt_dec_int:
  assumes "- (2 ^ (b - 1)) \<le> i" "i < 2 ^ (b - 1)" "0 < b"
  shows "ParseInt b (dec_int i) = Ok i"
proof -
  have "(2 :: int) ^ b = 2 * 2 ^ (b - 1)" "(1 :: int) \<le> 2 ^ (b - 1)" using assms(3) by (cases b; simp)+
  with assms have "int (nat \<bar>i\<bar>) \<le> 2 ^ b - 1" by auto
  then have "parse_digits (2 ^ b - 1) 0 (dec_nat (nat \<bar>i\<bar>)) = Ok \<bar>i\<bar>" using parse_dec_nat by auto
  moreover have "strip_sign (dec_int i) = (i < 0, dec_nat (nat \<bar>i\<bar>))"
    using strip_sign_digits [OF dec_nat_not_Nil dec_nat_digits [OF hd_in_set [OF dec_nat_not_Nil]], of "nat i"]
    by (auto simp: dec_int_def strip_sign_def [of "_ # _"])
  ultimately show ?thesis using assms(1,2) by (auto simp: ParseInt_def Let_def)
qed

section \<open>Machine integers\<close>

text \<open>
  \<^verbatim>\<open>uint64(f)\<close> of a float truncates; below 2^63 it goes through \<^verbatim>\<open>int64\<close>, so a negative number wraps around. Out of
  range the result is the one amd64 gives.
\<close>

definition f64_trunc_uint :: "64 word \<Rightarrow> 64 word" where
  "f64_trunc_uint b =
     (if f64_nan b then 0
      else if f64_inf b then (if f64_sign b then int64_min else 0)
      else let q = f64_to_rat b in
        if q < 2 ^ 63 then f64_trunc_int b else xor (int_of_rat_go (\<lfloor>q\<rfloor> - 2 ^ 63)) int64_min)"

text \<open>\<^verbatim>\<open>64 - bits.LeadingZeros64(x)\<close>: the number of bits up to the highest one that is set.\<close>

definition bit_edge :: "64 word \<Rightarrow> nat" where
  "bit_edge x = nat (bitlen (uint x))"

lemma bit_edge_less: "bit x i \<Longrightarrow> i < bit_edge x"
proof -
  assume "bit x i"
  then have "bit (uint x) i" using bit_imp_le_length [of x i] by (simp add: bit_uint_iff)
  then have "odd (uint x div 2 ^ i)" by (simp add: bit_iff_odd)
  then have "uint x div 2 ^ i \<noteq> 0" by (metis even_zero)
  then have "(2 :: int) ^ i \<le> uint x" by (metis div_pos_pos_trivial linorder_not_le uint_nonnegative)
  moreover from this have "0 < uint x" by (metis less_le_trans zero_less_numeral zero_less_power)
  ultimately have "(2 :: int) ^ i < 2 ^ nat (bitlen (uint x))" using bitlen_bounds [of "uint x"] by linarith
  then show ?thesis by (simp add: bit_edge_def)
qed

lemma bit_edge_64: "bit_edge x \<le> 64"
  using uint_bounded [of x] bitlen_le_iff_power [of "uint x" 64] by (simp add: bit_edge_def nat_le_iff)

end
