(* ===== verification/Enum_Set_Types.thy ===== *)
theory Enum_Set_Types
  imports Sql_Types Go_Strings "HOL-Library.AList"
begin

text \<open>
  The types ENUM (\<^verbatim>\<open>sql/enumtype.go\<close>), SET (\<^verbatim>\<open>sql/settype.go\<close>), BIT (\<^verbatim>\<open>sql/bit.go\<close>) and YEAR (\<^verbatim>\<open>sql/yeartype.go\<close>). A Go map
  of the source is an association list with distinct keys, whose length is the map's length.
\<close>

section \<open>Integers of interface values\<close>

text \<open>
  The recursive calls \<^verbatim>\<open>t.Convert(int(value))\<close> and \<^verbatim>\<open>t.Convert(uint64(value))\<close> of the type switches: the value converted to
  a Go integer of 64 bits.
\<close>

definition go_int :: "gval \<Rightarrow> 64 word option" where
  "go_int v = (case v of
     GFloat32 w \<Rightarrow> Some (f64_trunc_int (f64_of_f32 w))
   | GFloat64 w \<Rightarrow> Some (f64_trunc_int w)
   | _ \<Rightarrow> map_option word_of_int (int_val v))"

definition go_uint64 :: "gval \<Rightarrow> 64 word option" where
  "go_uint64 v = (case v of
     GFloat32 w \<Rightarrow> Some (f64_trunc_uint (f64_of_f32 w))
   | GFloat64 w \<Rightarrow> Some (f64_trunc_uint w)
   | _ \<Rightarrow> map_option word_of_int (int_val v))"

definition go_text :: "gval \<Rightarrow> string option" where
  "go_text v = (case v of GString s \<Rightarrow> Some s | GBytes s \<Rightarrow> Some s | _ \<Rightarrow> None)"

text \<open>A value for the wire: \<^verbatim>\<open>sqltypes.NULL\<close> or \<^verbatim>\<open>sqltypes.MakeTrusted\<close> of a column type and a text.\<close>

datatype (plugins only: code size) query_type = EnumQ | SetQ | BitQ | YearQ

datatype (plugins only: code size) sql_value = SqlNULL | MakeTrusted query_type string

section \<open>ENUM\<close>

record enum_type =
  et_collation :: collation
  et_valToIndex :: "(string \<times> int) list"
  et_indexToVal :: "string list"

definition EnumTypeMinElements :: nat where "EnumTypeMinElements = 1"
definition EnumTypeMaxElements :: nat where "EnumTypeMaxElements = 65535"

text \<open>
  The loop of \<^verbatim>\<open>CreateEnumType\<close> writes the trimmed values back into the caller's slice, which the new type keeps. The result
  has the slice as the call leaves it.
\<close>

fun enum_loop :: "collation \<Rightarrow> string list \<Rightarrow> (string \<times> int) list \<Rightarrow> string list \<Rightarrow> string list \<times> (string \<times> int) list res"
where
  "enum_loop coll seen m [] = (seen, Ok m)"
| "enum_loop coll seen m (v0 # vs) =
     (let v = (if coll \<noteq> Collation_binary then TrimRight (CHR '' '') v0 else v0) in
      if map_of m v \<noteq> None then (seen @ v # vs, Err (ErrOther ''duplicate entry''))
      else enum_loop coll (seen @ [v]) (AList.update v (int (length seen) + 1) m) vs)"

definition CreateEnumType :: "string list \<Rightarrow> collation \<Rightarrow> string list \<times> enum_type res" where
  "CreateEnumType vs coll =
     (if length vs < EnumTypeMinElements then (vs, Err (ErrOther ''number of values may not be zero''))
      else if length vs > EnumTypeMaxElements then (vs, Err (ErrOther ''number of values is too large''))
      else case enum_loop coll [] [] vs of (vs', r) \<Rightarrow>
        (vs', rbind r (\<lambda>m. Ok \<lparr> et_collation = coll, et_valToIndex = m, et_indexToVal = vs' \<rparr>)))"

definition enum_At :: "enum_type \<Rightarrow> int \<Rightarrow> string option" where
  "enum_At t i0 =
     (let i = wrap64 (i0 - 1) in
      if i < 0 \<or> i \<ge> int (length (et_indexToVal t)) then None else Some (et_indexToVal t ! nat i))"

definition enum_IndexOf :: "enum_type \<Rightarrow> string \<Rightarrow> int" where
  "enum_IndexOf t v =
     (case map_of (et_valToIndex t) v of
        Some i \<Rightarrow> i
      | None \<Rightarrow>
          (case ParseInt 32 v of
             Ok p \<Rightarrow> (case enum_At t p of
                 Some realV \<Rightarrow> (case map_of (et_valToIndex t) realV of Some i \<Rightarrow> i | None \<Rightarrow> -1)
               | None \<Rightarrow> -1)
           | _ \<Rightarrow> -1))"

definition enum_Convert :: "enum_type \<Rightarrow> gval \<Rightarrow> gval res" where
  "enum_Convert t v =
     (if v = GNil then Ok GNil
      else case go_int v of
        Some i \<Rightarrow> (case enum_At t (sint i) of Some s \<Rightarrow> Ok (GString s) | None \<Rightarrow> Err (TypeErr ErrConvertingToEnum))
      | None \<Rightarrow>
          (case go_text v of
             Some s \<Rightarrow>
               (let i = enum_IndexOf t s in
                if i \<noteq> -1 then Ok (GString (case enum_At t i of Some r \<Rightarrow> r | None \<Rightarrow> []))
                else Err (TypeErr ErrConvertingToEnum))
           | None \<Rightarrow> Err (TypeErr ErrConvertingToEnum)))"

definition enum_ConvertToIndex :: "enum_type \<Rightarrow> gval \<Rightarrow> int res" where
  "enum_ConvertToIndex t v =
     (case go_int v of
        Some i \<Rightarrow> if enum_At t (sint i) \<noteq> None then Ok (sint i) else Err (TypeErr ErrConvertingToEnum)
      | None \<Rightarrow>
          (case go_text v of
             Some s \<Rightarrow> (let i = enum_IndexOf t s in if i \<noteq> -1 then Ok i else Err (TypeErr ErrConvertingToEnum))
           | None \<Rightarrow> Err (TypeErr ErrConvertingToEnum)))"

definition enum_Compare :: "enum_type \<Rightarrow> gval \<Rightarrow> gval \<Rightarrow> int res" where
  "enum_Compare t a b =
     (case compareNulls a b of Some r \<Rightarrow> Ok r | None \<Rightarrow>
        rbind (enum_ConvertToIndex t a) (\<lambda>ai. rbind (enum_ConvertToIndex t b) (\<lambda>bi.
          Ok (if ai < bi then -1 else if ai > bi then 1 else 0))))"

definition enum_SQL :: "enum_type \<Rightarrow> gval \<Rightarrow> sql_value res" where
  "enum_SQL t v =
     (if v = GNil then Ok SqlNULL
      else rbind (enum_Convert t v) (\<lambda>x. case x of GString s \<Rightarrow> Ok (MakeTrusted EnumQ s) | _ \<Rightarrow> Panic))"

definition enum_Zero :: "enum_type \<Rightarrow> gval res" where
  "enum_Zero t = rbind (slice_at (et_indexToVal t) 0) (\<lambda>s. Ok (GString s))"

definition enum_NumberOfElements :: "enum_type \<Rightarrow> 16 word" where
  "enum_NumberOfElements t = of_nat (length (et_indexToVal t))"

section \<open>SET\<close>

record set_type =
  st_collation :: collation
  st_compareToOriginal :: "(string \<times> string) list"
  st_valToBit :: "(string \<times> 64 word) list"
  st_bitToVal :: "(64 word \<times> string) list"

definition SetTypeMaxElements :: nat where "SetTypeMaxElements = 64"

definition set_key :: "collation \<Rightarrow> string \<Rightarrow> string" where
  "set_key coll v = (if coll = Collation_binary then v else ToLower (TrimRight (CHR '' '') v))"

definition set_member :: "collation \<Rightarrow> string \<Rightarrow> string" where
  "set_member coll v = (if coll = Collation_binary then v else TrimRight (CHR '' '') v)"

text \<open>\<^verbatim>\<open>uint64(1 << uint64(i))\<close>: a shift of 64 and more gives 0.\<close>

definition bit_at :: "nat \<Rightarrow> 64 word" where
  "bit_at i = push_bit i 1"

fun set_loop :: "nat \<Rightarrow> set_type \<Rightarrow> string list \<Rightarrow> set_type res" where
  "set_loop i t [] = Ok t"
| "set_loop i t (v0 # vs) =
     (if CHR '','' \<in> set v0 then Err (ErrOther ''values cannot contain a comma'')
      else let k = set_key (st_collation t) v0; v = set_member (st_collation t) v0; b = bit_at i in
        if map_of (st_compareToOriginal t) k \<noteq> None then Err (TypeErr (ErrDuplicateEntrySet v))
        else set_loop (Suc i)
          (t \<lparr> st_compareToOriginal := AList.update k v (st_compareToOriginal t),
               st_valToBit := AList.update v b (st_valToBit t),
               st_bitToVal := AList.update b v (st_bitToVal t) \<rparr>) vs)"

definition CreateSetType :: "string list \<Rightarrow> collation \<Rightarrow> set_type res" where
  "CreateSetType vs coll =
     (if vs = [] then Err (ErrOther ''number of values may not be zero'')
      else if length vs > SetTypeMaxElements then Err (ErrOther ''number of values is too large'')
      else set_loop 0 \<lparr> st_collation = coll, st_compareToOriginal = [], st_valToBit = [], st_bitToVal = [] \<rparr> vs)"

definition upperBound :: "set_type \<Rightarrow> 64 word" where
  "upperBound t = bit_at (length (st_valToBit t))"

definition allValuesBitField :: "set_type \<Rightarrow> 64 word" where
  "allValuesBitField t = upperBound t - 1"

definition set_Values :: "set_type \<Rightarrow> string list" where
  "set_Values t =
     map (\<lambda>i. case map_of (st_bitToVal t) (bit_at i) of Some v \<Rightarrow> v | None \<Rightarrow> []) [0..<bit_edge (allValuesBitField t)]"

definition set_NumberOfElements :: "set_type \<Rightarrow> 16 word" where
  "set_NumberOfElements t = of_nat (length (st_valToBit t))"

text \<open>The members of a bit field, written into the string builder one after the other with commas between them.\<close>

fun field_members :: "set_type \<Rightarrow> 64 word \<Rightarrow> nat list \<Rightarrow> string list res" where
  "field_members t f [] = Ok []"
| "field_members t f (i # is) =
     (if and (bit_at i) f \<noteq> 0 then
        (case map_of (st_bitToVal t) (bit_at i) of
           None \<Rightarrow> Err (TypeErr ErrInvalidSetValue)
         | Some v \<Rightarrow> rbind (field_members t f is) (\<lambda>vs. Ok (v # vs)))
      else field_members t f is)"

definition convertBitFieldToString :: "set_type \<Rightarrow> 64 word \<Rightarrow> string res" where
  "convertBitFieldToString t f = rbind (field_members t f [0..<bit_edge f]) (\<lambda>vs. Ok (Join '','' vs))"

fun or_members :: "set_type \<Rightarrow> 64 word \<Rightarrow> string list \<Rightarrow> 64 word res" where
  "or_members t f [] = Ok f"
| "or_members t f (v # vs) =
     (case map_of (st_compareToOriginal t) (set_key (st_collation t) v) of
        Some orig \<Rightarrow> or_members t (or f (case map_of (st_valToBit t) orig of Some b \<Rightarrow> b | None \<Rightarrow> 0)) vs
      | None \<Rightarrow> Err (TypeErr ErrInvalidSetValue))"

definition convertStringToBitField :: "set_type \<Rightarrow> string \<Rightarrow> 64 word res" where
  "convertStringToBitField t s = (if s = [] then Ok 0 else or_members t 0 (Split (CHR '','') s))"

definition set_Convert :: "set_type \<Rightarrow> gval \<Rightarrow> gval res" where
  "set_Convert t v =
     (let field_string = (\<lambda>f. case convertBitFieldToString t f of Ok s \<Rightarrow> GString s | _ \<Rightarrow> GString []) in
      if v = GNil then Ok GNil
      else case go_uint64 v of
        Some u \<Rightarrow> if u \<ge> upperBound t then Err (TypeErr ErrConvertingToSet) else Ok (field_string u)
      | None \<Rightarrow>
          (case go_text v of
             Some s \<Rightarrow> rbind (convertStringToBitField t s) (\<lambda>f. Ok (field_string f))
           | None \<Rightarrow> Err (TypeErr ErrConvertingToSet)))"

definition ConvertToBits :: "set_type \<Rightarrow> gval \<Rightarrow> 64 word res" where
  "ConvertToBits t v =
     (case go_uint64 v of
        Some u \<Rightarrow> if u < upperBound t then Ok u else Err (TypeErr ErrConvertingToSet)
      | None \<Rightarrow>
          (case go_text v of
             Some s \<Rightarrow> convertStringToBitField t s
           | None \<Rightarrow> Err (TypeErr ErrConvertingToSet)))"

definition set_Compare :: "set_type \<Rightarrow> gval \<Rightarrow> gval \<Rightarrow> int res" where
  "set_Compare t a b =
     (case compareNulls a b of Some r \<Rightarrow> Ok r | None \<Rightarrow>
        rbind (ConvertToBits t a) (\<lambda>ai. rbind (ConvertToBits t b) (\<lambda>bi.
          Ok (if ai < bi then -1 else if ai > bi then 1 else 0))))"

definition set_SQL :: "set_type \<Rightarrow> gval \<Rightarrow> sql_value res" where
  "set_SQL t v =
     (if v = GNil then Ok SqlNULL
      else rbind (set_Convert t v) (\<lambda>x. case x of GString s \<Rightarrow> Ok (MakeTrusted SetQ s) | _ \<Rightarrow> Panic))"

section \<open>BIT\<close>

definition CreateBitType :: "8 word \<Rightarrow> 8 word res" where
  "CreateBitType numOfBits =
     (if numOfBits < 1 \<or> numOfBits > 64 then Err (ErrOther ''invalid number of bits'') else Ok numOfBits)"

text \<open>\<^verbatim>\<open>binary.BigEndian.Uint64\<close> of the bytes, padded with zero bytes on the left.\<close>

definition big_endian :: "string \<Rightarrow> 64 word" where
  "big_endian s = foldl (\<lambda>n c. 256 * n + of_char c) 0 s"

definition max_bits :: "8 word \<Rightarrow> 64 word" where
  "max_bits n = bit_at (unat n) - 1"

definition bits_beyond :: gerror where
  "bits_beyond = ErrOther ''beyond the maximum value that can be held by the bits''"

definition bit_value :: "gval \<Rightarrow> 64 word res" where
  "bit_value v =
     (case v of
        GBool b \<Rightarrow> Ok (if b then 1 else 0)
      | GFloat32 w \<Rightarrow> if f64_lt (f64_of_f32 w) 0 then Err (ErrOther ''negative floats cannot become bit values'')
                     else Ok (f64_trunc_uint (f64_of_f32 w))
      | GFloat64 w \<Rightarrow> if f64_lt w 0 then Err (ErrOther ''negative floats cannot become bit values'')
                     else Ok (f64_trunc_uint w)
      | GString s \<Rightarrow> if length s > 8 then Err bits_beyond else Ok (big_endian s)
      | GBytes s \<Rightarrow> if length s > 8 then Err bits_beyond else Ok (big_endian s)
      | _ \<Rightarrow> (case int_val v of Some i \<Rightarrow> Ok (word_of_int i) | None \<Rightarrow> Err (SqlErr ErrInvalidType)))"

definition bit_Convert :: "8 word \<Rightarrow> gval \<Rightarrow> gval res" where
  "bit_Convert n v =
     (if v = GNil then Ok GNil
      else rbind (bit_value v) (\<lambda>u. if u > max_bits n then Err bits_beyond else Ok (GUint64 u)))"

definition as_uint64 :: "gval \<Rightarrow> 64 word res" where
  "as_uint64 v = (case v of GUint64 w \<Rightarrow> Ok w | _ \<Rightarrow> Panic)"

definition bit_Compare :: "8 word \<Rightarrow> gval \<Rightarrow> gval \<Rightarrow> int res" where
  "bit_Compare n a b =
     (case compareNulls a b of Some r \<Rightarrow> Ok r | None \<Rightarrow>
        rbind (bit_Convert n a) (\<lambda>ac. rbind (bit_Convert n b) (\<lambda>bc.
          rbind (as_uint64 ac) (\<lambda>ai. rbind (as_uint64 bc) (\<lambda>bi.
            Ok (if ai < bi then -1 else if ai > bi then 1 else 0))))))"

definition bit_SQL :: "8 word \<Rightarrow> gval \<Rightarrow> sql_value res" where
  "bit_SQL n v =
     (if v = GNil then Ok SqlNULL
      else rbind (bit_Convert n v) (\<lambda>x. rbind (as_uint64 x) (\<lambda>u. Ok (MakeTrusted BitQ (dec_nat (unat u))))))"

section \<open>YEAR\<close>

text \<open>\<^verbatim>\<open>time.Time.Year\<close> depends on the location of the time, so it is an argument.\<close>

definition year_of_int :: "int \<Rightarrow> gval res" where
  "year_of_int i =
     (if i = 0 then Ok (GInt16 0)
      else if 1 \<le> i \<and> i \<le> 69 then Ok (GInt16 (word_of_int (i + 2000)))
      else if 70 \<le> i \<and> i \<le> 99 then Ok (GInt16 (word_of_int (i + 1900)))
      else if 1901 \<le> i \<and> i \<le> 2155 then Ok (GInt16 (word_of_int i))
      else Err (TypeErr ErrConvertingToYear))"

definition year_Convert :: "(int \<Rightarrow> nat \<Rightarrow> int) \<Rightarrow> gval \<Rightarrow> gval res" where
  "year_Convert timeYear v =
     (if v = GNil then Ok GNil
      else case go_int v of
        Some i \<Rightarrow> year_of_int (sint i)
      | None \<Rightarrow>
          (case v of
             GString s \<Rightarrow>
               if length s \<in> {1, 2, 4} then
                 rbind (ParseInt 64 s) (\<lambda>i. if i = 0 then Ok (GInt16 2000) else year_of_int i)
               else Err (TypeErr ErrConvertingToYear)
           | GTime ns tag \<Rightarrow>
               (let y = timeYear ns tag in
                if y = 0 \<or> 1901 \<le> y \<and> y \<le> 2155 then Ok (GInt16 (word_of_int y)) else Err (TypeErr ErrConvertingToYear))
           | _ \<Rightarrow> Err (TypeErr ErrConvertingToYear)))"

definition as_int16 :: "gval \<Rightarrow> int res" where
  "as_int16 v = (case v of GInt16 w \<Rightarrow> Ok (sint w) | _ \<Rightarrow> Panic)"

definition year_Compare :: "(int \<Rightarrow> nat \<Rightarrow> int) \<Rightarrow> gval \<Rightarrow> gval \<Rightarrow> int res" where
  "year_Compare timeYear a b =
     (case compareNulls a b of Some r \<Rightarrow> Ok r | None \<Rightarrow>
        rbind (year_Convert timeYear a) (\<lambda>as. rbind (year_Convert timeYear b) (\<lambda>bs.
          rbind (as_int16 as) (\<lambda>ai. rbind (as_int16 bs) (\<lambda>bi. Ok (cmp_int ai bi))))))"

definition year_SQL :: "(int \<Rightarrow> nat \<Rightarrow> int) \<Rightarrow> gval \<Rightarrow> sql_value res" where
  "year_SQL timeYear v =
     rbind (year_Convert timeYear v) (\<lambda>x. rbind (as_int16 x) (\<lambda>i. Ok (MakeTrusted YearQ (dec_int i))))"

section \<open>Created types\<close>

definition enum_of :: "collation \<Rightarrow> string list \<Rightarrow> enum_type" where
  "enum_of coll ms = \<lparr> et_collation = coll, et_valToIndex = zip ms (map (\<lambda>i. int i + 1) [0..<length ms]), et_indexToVal = ms \<rparr>"

definition enum_member :: "collation \<Rightarrow> string \<Rightarrow> string" where
  "enum_member coll v = (if coll \<noteq> Collation_binary then TrimRight (CHR '' '') v else v)"

lemma update_fresh: "k \<notin> fst ` set m \<Longrightarrow> AList.update k v m = m @ [(k, v)]"
  by (induction m) auto

lemma fst_set_zip: "length xs = length ys \<Longrightarrow> fst ` set (zip xs ys) = set xs"
  by (metis map_fst_zip set_map)

lemma enum_loop_result:
  assumes "enum_loop coll seen (et_valToIndex (enum_of coll seen)) vs = (vs', Ok m)" "distinct seen"
  shows "vs' = seen @ map (enum_member coll) vs \<and> distinct vs' \<and> m = et_valToIndex (enum_of coll vs')"
  using assms
proof (induction vs arbitrary: seen)
  case (Cons v vs)
  let ?v = "enum_member coll v"
  have fst: "fst ` set (et_valToIndex (enum_of coll seen)) = set seen"
    by (simp add: enum_of_def fst_set_zip)
  from Cons.prems(1) have new: "?v \<notin> set seen"
    by (auto simp: enum_member_def Let_def map_of_eq_None_iff fst split: if_splits)
  then have "AList.update ?v (int (length seen) + 1) (et_valToIndex (enum_of coll seen)) = et_valToIndex (enum_of coll (seen @ [?v]))"
    by (simp add: update_fresh fst) (simp add: enum_of_def)
  with Cons.prems new have "enum_loop coll (seen @ [?v]) (et_valToIndex (enum_of coll (seen @ [?v]))) vs = (vs', Ok m)"
    by (auto simp: enum_member_def Let_def map_of_eq_None_iff fst split: if_splits)
  moreover have "distinct (seen @ [?v])" "(seen @ [?v]) @ map (enum_member coll) vs = seen @ map (enum_member coll) (v # vs)"
    using new Cons.prems(2) by simp_all
  ultimately show ?case using Cons.IH by metis
qed simp

lemma CreateEnumType_result:
  assumes "CreateEnumType vs coll = (vs', Ok t)"
  shows "vs' = map (enum_member coll) vs \<and> distinct vs' \<and> t = enum_of coll vs' \<and> vs' \<noteq> [] \<and> length vs' \<le> 65535"
proof -
  have "\<not> length vs < 1" "\<not> length vs > 65535"
    using assms by (auto simp: CreateEnumType_def EnumTypeMinElements_def EnumTypeMaxElements_def split: if_splits)
  moreover obtain m where "enum_loop coll [] [] vs = (vs', Ok m)" "t = \<lparr> et_collation = coll, et_valToIndex = m, et_indexToVal = vs' \<rparr>"
    using assms by (auto simp: CreateEnumType_def res_simps split: if_splits prod.splits)
  ultimately show ?thesis using enum_loop_result [of coll "[]" vs vs' m] by (auto simp: enum_of_def)
qed

definition set_of :: "collation \<Rightarrow> string list \<Rightarrow> set_type" where
  "set_of coll ms = \<lparr> st_collation = coll, st_compareToOriginal = zip (map (set_key coll) ms) ms,
     st_valToBit = zip ms (map bit_at [0..<length ms]), st_bitToVal = zip (map bit_at [0..<length ms]) ms \<rparr>"

lemma bit_at_inj: "i < 64 \<Longrightarrow> j < 64 \<Longrightarrow> bit_at i = bit_at j \<longleftrightarrow> i = j"
  by (auto simp: bit_at_def bit_eq_iff bit_simps)

lemma set_key_member [simp]: "set_key coll (set_member coll v) = set_key coll v"
  by (simp add: set_key_def set_member_def)

lemma set_member_set: "set (set_member coll v) \<subseteq> set v"
  using TrimRight_set by (auto simp: set_member_def)

lemma set_loop_Cons:
  assumes "length ms < 64"
  shows "set_loop (length ms) (set_of coll ms) (v # vs) =
    (if CHR '','' \<in> set v then Err (ErrOther ''values cannot contain a comma'')
     else if set_key coll v \<in> set_key coll ` set ms then Err (TypeErr (ErrDuplicateEntrySet (set_member coll v)))
     else set_loop (length (ms @ [set_member coll v])) (set_of coll (ms @ [set_member coll v])) vs)"
proof -
  let ?v = "set_member coll v"
  have fst: "fst ` set (st_compareToOriginal (set_of coll ms)) = set_key coll ` set ms"
    "fst ` set (st_valToBit (set_of coll ms)) = set ms"
    "fst ` set (st_bitToVal (set_of coll ms)) = bit_at ` {0..<length ms}"
    by (simp_all add: set_of_def fst_set_zip)
  have bits: "bit_at (length ms) \<notin> bit_at ` {0..<length ms}" using assms by (auto simp: bit_at_inj)
  have "set_of coll ms \<lparr> st_compareToOriginal := AList.update (set_key coll v) ?v (st_compareToOriginal (set_of coll ms)),
      st_valToBit := AList.update ?v (bit_at (length ms)) (st_valToBit (set_of coll ms)),
      st_bitToVal := AList.update (bit_at (length ms)) ?v (st_bitToVal (set_of coll ms)) \<rparr> = set_of coll (ms @ [?v])"
    if new: "set_key coll v \<notin> set_key coll ` set ms"
  proof -
    have "?v \<notin> set ms" using new by (metis image_eqI set_key_member)
    then show ?thesis using new bits by (simp add: update_fresh fst) (simp add: set_of_def)
  qed
  moreover have "st_collation (set_of coll ms) = coll" by (simp add: set_of_def)
  ultimately show ?thesis by (simp only: set_loop.simps Let_def map_of_eq_None_iff fst) simp
qed

lemma set_loop_result:
  "set_loop (length ms) (set_of coll ms) vs = Ok t \<Longrightarrow> distinct (map (set_key coll) ms) \<Longrightarrow> length ms + length vs \<le> 64 \<Longrightarrow>
   t = set_of coll (ms @ map (set_member coll) vs) \<and> distinct (map (set_key coll) (ms @ map (set_member coll) vs))
    \<and> (\<forall>v \<in> set vs. CHR '','' \<notin> set v)"
proof (induction vs arbitrary: ms)
  case (Cons v vs)
  then have l: "length ms < 64" by simp
  from Cons.prems(1) have p: "set_key coll v \<notin> set_key coll ` set ms" "CHR '','' \<notin> set v"
    "set_loop (length (ms @ [set_member coll v])) (set_of coll (ms @ [set_member coll v])) vs = Ok t"
    unfolding set_loop_Cons [OF l] by (simp_all split: if_splits)
  from Cons.IH [OF p(3)] p(1,2) Cons.prems(2,3) show ?case by auto
qed simp

lemma set_loop_creates:
  "distinct (map (set_key coll) (ms @ vs)) \<Longrightarrow> length ms + length vs \<le> 64 \<Longrightarrow> \<forall>v \<in> set vs. CHR '','' \<notin> set v \<Longrightarrow>
   is_Ok (set_loop (length ms) (set_of coll ms) vs)"
proof (induction vs arbitrary: ms)
  case (Cons v vs)
  then have "length ms < 64" by simp
  from set_loop_Cons [OF this, of coll v vs] Cons.IH [of "ms @ [set_member coll v]"] Cons.prems show ?case
    by (simp add: image_Un)
qed simp

lemma CreateSetType_result:
  assumes "CreateSetType vs coll = Ok t"
  shows "\<exists>ms. ms = map (set_member coll) vs \<and> t = set_of coll ms \<and> distinct (map (set_key coll) ms) \<and> ms \<noteq> []
    \<and> length ms \<le> 64 \<and> (\<forall>m \<in> set ms. CHR '','' \<notin> set m)"
proof -
  have n: "vs \<noteq> []" "length vs \<le> 64"
    using assms by (auto simp: CreateSetType_def SetTypeMaxElements_def split: if_splits)
  with assms have "set_loop (length ([] :: string list)) (set_of coll []) vs = Ok t"
    by (simp add: CreateSetType_def SetTypeMaxElements_def set_of_def)
  from set_loop_result [OF this] n set_member_set show ?thesis by fastforce
qed

lemma CreateSetType_creates:
  assumes "vs \<noteq> []" "length vs \<le> 64" "distinct (map (set_key coll) vs)" "\<forall>v \<in> set vs. CHR '','' \<notin> set v"
  shows "is_Ok (CreateSetType vs coll)"
  using set_loop_creates [of coll "[]" vs] assms by (simp add: CreateSetType_def SetTypeMaxElements_def set_of_def)

text \<open>The bit fields of a set type and the members they stand for.\<close>

definition field_ok :: "string list \<Rightarrow> 64 word \<Rightarrow> bool" where
  "field_ok ms f \<longleftrightarrow> (\<forall>i. bit f i \<longrightarrow> i < length ms)"

definition chosen :: "string list \<Rightarrow> 64 word \<Rightarrow> string list" where
  "chosen ms f = map (\<lambda>i. ms ! i) (filter (bit f) [0..<length ms])"

definition created :: "collation \<Rightarrow> string list \<Rightarrow> bool" where
  "created coll ms \<longleftrightarrow> distinct (map (set_key coll) ms) \<and> length ms \<le> 64 \<and> (\<forall>m \<in> set ms. CHR '','' \<notin> set m)"

lemma and_bit_at: "i < 64 \<Longrightarrow> and (bit_at i) f \<noteq> 0 \<longleftrightarrow> bit f i"
proof -
  assume "i < 64"
  then have "and (bit_at i) f = (if bit f i then bit_at i else 0)" "bit (bit_at i) i"
    by (auto simp: bit_at_def bit_simps intro!: bit_word_eqI)
  then show ?thesis by auto
qed

lemma map_of_zip_nth: "distinct ks \<Longrightarrow> length ks = length vs \<Longrightarrow> i < length ks \<Longrightarrow> map_of (zip ks vs) (ks ! i) = Some (vs ! i)"
  by (simp add: map_of_zip_is_Some map_of_zip_nth)

lemma bitToVal_at: "created coll ms \<Longrightarrow> i < length ms \<Longrightarrow> map_of (st_bitToVal (set_of coll ms)) (bit_at i) = Some (ms ! i)"
  using map_of_zip_nth [of "map bit_at [0..<length ms]" ms i]
  by (auto simp: created_def set_of_def distinct_map bit_at_inj inj_on_def)

lemma valToBit_at: "created coll ms \<Longrightarrow> i < length ms \<Longrightarrow> map_of (st_valToBit (set_of coll ms)) (ms ! i) = Some (bit_at i)"
  using map_of_zip_nth [of ms "map bit_at [0..<length ms]" i] distinct_map [of "set_key coll" ms]
  by (auto simp: created_def set_of_def)

lemma compareToOriginal_at:
  "created coll ms \<Longrightarrow> i < length ms \<Longrightarrow> map_of (st_compareToOriginal (set_of coll ms)) (set_key coll (ms ! i)) = Some (ms ! i)"
  using map_of_zip_nth [of "map (set_key coll) ms" ms i] by (auto simp: created_def set_of_def)

lemma field_members_of:
  "created coll ms \<Longrightarrow> \<forall>i \<in> set is. i < 64 \<and> (bit f i \<longrightarrow> i < length ms) \<Longrightarrow>
   field_members (set_of coll ms) f is = Ok (map (\<lambda>i. ms ! i) (filter (bit f) is))"
  by (induction "is") (auto simp: and_bit_at bitToVal_at)

lemma filter_upt_same: "\<forall>i. P i \<longrightarrow> i < m \<and> i < n \<Longrightarrow> filter P [0..<m] = filter P [0..<n]"
  by (rule sorted_distinct_set_unique) (auto simp: sorted_wrt_filter)

lemma field_to_string: "created coll ms \<Longrightarrow> field_ok ms f \<Longrightarrow> convertBitFieldToString (set_of coll ms) f = Ok (Join '','' (chosen ms f))"
  using filter_upt_same [of "bit f" "bit_edge f" "length ms"] bit_edge_less [of f] bit_edge_64 [of f]
  by (subst convertBitFieldToString_def, subst field_members_of)
    (auto simp: field_ok_def chosen_def created_def dest: bit_imp_le_length)

lemma or_members_of:
  assumes "created coll ms" "\<forall>i \<in> set is. i < length ms"
  shows "\<exists>g. or_members (set_of coll ms) f (map (\<lambda>i. ms ! i) is) = Ok g \<and> (\<forall>j. bit g j \<longleftrightarrow> bit f j \<or> j \<in> set is)"
  using assms(2)
proof (induction "is" arbitrary: f)
  case (Cons i "is")
  then have i: "i < length ms" "i < 64" using assms(1) by (auto simp: created_def)
  have coll: "st_collation (set_of coll ms) = coll" by (simp add: set_of_def)
  from Cons obtain g where "or_members (set_of coll ms) (or f (bit_at i)) (map (\<lambda>i. ms ! i) is) = Ok g"
    "\<forall>j. bit g j \<longleftrightarrow> bit (or f (bit_at i)) j \<or> j \<in> set is" by (meson list.set_intros(2))
  moreover have "bit (or f (bit_at i)) j \<longleftrightarrow> bit f j \<or> j = i" for j
    using i(2) by (auto simp: bit_at_def bit_simps)
  ultimately show ?case using assms(1) i(1) by (auto simp: coll compareToOriginal_at valToBit_at)
qed simp

lemma or_members_field_ok:
  assumes "created coll ms"
  shows "or_members (set_of coll ms) f vs = Ok g \<Longrightarrow> field_ok ms f \<Longrightarrow> field_ok ms g"
proof (induction vs arbitrary: f)
  case (Cons v vs)
  from Cons.prems(1) obtain orig where o: "map_of (st_compareToOriginal (set_of coll ms)) (set_key coll v) = Some orig"
    "or_members (set_of coll ms) (or f (case map_of (st_valToBit (set_of coll ms)) orig of Some b \<Rightarrow> b | None \<Rightarrow> 0)) vs = Ok g"
    by (auto simp: set_of_def split: option.splits)
  then obtain i where i: "i < length ms" "orig = ms ! i"
    by (auto simp: set_of_def in_set_conv_nth dest!: map_of_SomeD set_zip_rightD)
  then have "field_ok ms (or f (case map_of (st_valToBit (set_of coll ms)) orig of Some b \<Rightarrow> b | None \<Rightarrow> 0))"
    using Cons.prems(2) assms by (auto simp: valToBit_at field_ok_def bit_at_def bit_simps)
  with Cons.IH o(2) show ?case by blast
qed simp

lemma string_field_ok:
  "created coll ms \<Longrightarrow> convertStringToBitField (set_of coll ms) s = Ok f \<Longrightarrow> field_ok ms f"
  by (auto simp: convertStringToBitField_def field_ok_def [of ms 0] intro: or_members_field_ok split: if_splits)

lemma field_string_field:
  assumes "created coll ms" "field_ok ms f"
  shows "convertStringToBitField (set_of coll ms) (Join '','' (chosen ms f)) = Ok (if Join '','' (chosen ms f) = [] then 0 else f)"
proof (cases "Join '','' (chosen ms f) = []")
  case False
  then have "chosen ms f \<noteq> []" by auto
  moreover have "\<forall>s \<in> set (chosen ms f). CHR '','' \<notin> set s" using assms(1) by (auto simp: chosen_def created_def)
  ultimately have "Split (CHR '','') (Join '','' (chosen ms f)) = chosen ms f" by (rule Split_Join)
  moreover obtain g where "or_members (set_of coll ms) 0 (chosen ms f) = Ok g"
    "\<forall>j. bit g j \<longleftrightarrow> j \<in> set (filter (bit f) [0..<length ms])"
    using or_members_of [OF assms(1), of "filter (bit f) [0..<length ms]" 0] by (auto simp: chosen_def)
  moreover from this(2) assms(2) have "g = f" by (auto simp: field_ok_def bit_eq_iff)
  ultimately show ?thesis using False by (simp add: convertStringToBitField_def)
qed (simp add: convertStringToBitField_def)

lemma uint_bit_at: "i < 64 \<Longrightarrow> uint (bit_at i) = 2 ^ i"
proof -
  assume i: "i < 64"
  then have "(2 :: int) ^ i < 2 ^ 64" by (intro power_strict_increasing) auto
  then show ?thesis using uint_word_of_int_eq [of "2 ^ i", where 'a = 64]
    by (simp add: bit_at_def push_bit_eq_mult take_bit_int_eq_self i)
qed

lemma upperBound_field_ok:
  assumes "f < upperBound (set_of coll ms)"
  shows "field_ok ms f"
proof (cases "length ms < 64")
  case True
  have n: "length (st_valToBit (set_of coll ms)) = length ms" by (simp add: set_of_def)
  have "uint (bit_at (length ms)) = 2 ^ length ms"
    by (rule uint_bit_at [OF True])
  with assms have "uint f < 2 ^ length ms" by (simp add: upperBound_def n word_less_def)
  then have "take_bit (length ms) (uint f) = uint f" by (simp add: take_bit_int_eq_self)
  then have "f = take_bit (length ms) f" by (simp add: word_uint_eq_iff unsigned_take_bit_eq)
  then show ?thesis by (metis bit_take_bit_iff field_ok_def)
next
  case False
  then show ?thesis by (auto simp: field_ok_def dest: bit_imp_le_length)
qed

section \<open>Conversion into a type\<close>

text \<open>
  What \<^verbatim>\<open>Convert\<close> promises: NULL stays NULL, every other value becomes a value of the type or is refused, and the values of
  the type are left alone.
\<close>

locale value_type =
  fixes convert :: "gval \<Rightarrow> gval res"
    and belongs :: "gval \<Rightarrow> bool"
  assumes keeps_nil: "convert GNil = Ok GNil"
    and into: "convert v = Ok w \<Longrightarrow> v \<noteq> GNil \<Longrightarrow> belongs w"
    and keeps: "belongs w \<Longrightarrow> convert w = Ok w"
begin

lemma into_or_nil: "convert v = Ok w \<Longrightarrow> w = GNil \<or> belongs w"
  using into [of v w] keeps_nil by (cases "v = GNil") auto

lemma convert_again: "convert v = Ok w \<Longrightarrow> convert w = Ok w"
  using into_or_nil keeps keeps_nil by blast

lemma converted: "(\<exists>v. convert v = Ok w) \<longleftrightarrow> w = GNil \<or> belongs w"
  using into_or_nil keeps keeps_nil by blast

end

definition year_value :: "gval \<Rightarrow> bool" where
  "year_value w = (case w of GInt16 y \<Rightarrow> sint y = 0 \<or> 1901 \<le> sint y \<and> sint y \<le> 2155 | _ \<Rightarrow> False)"

lemma sint_int16: "- (2 ^ 15) \<le> i \<Longrightarrow> i < 2 ^ 15 \<Longrightarrow> sint (word_of_int i :: 16 word) = i"
  by (simp add: signed_take_bit_int_eq_self sint_sbintrunc')

lemma sint_int64: "- (2 ^ 63) \<le> i \<Longrightarrow> i < 2 ^ 63 \<Longrightarrow> sint (word_of_int i :: 64 word) = i"
  by (simp add: signed_take_bit_int_eq_self sint_sbintrunc')

lemma year_value_in: "y = 0 \<or> 1901 \<le> y \<and> y \<le> 2155 \<Longrightarrow> year_value (GInt16 (word_of_int y))"
  using sint_int16 [of y] by (auto simp: year_value_def)

lemma year_of_int_value: "year_of_int i = Ok w \<Longrightarrow> year_value w"
  using year_value_in [of "i + 2000"] year_value_in [of "i + 1900"] year_value_in [of i] year_value_in [of 0]
  by (auto simp: year_of_int_def split: if_splits)

interpretation year: value_type "year_Convert timeYear" year_value for timeYear
proof unfold_locales
  fix v w assume "year_Convert timeYear v = Ok w" "v \<noteq> GNil"
  then consider i where "year_of_int i = Ok w" | "w = GInt16 2000" | "w = GInt16 0"
      | y where "w = GInt16 (word_of_int y)" "1901 \<le> y" "y \<le> 2155"
    by (cases v) (auto simp: year_Convert_def go_int_def int_val_def Let_def res_simps split: if_splits)
  then show "year_value w" using year_value_in [of 2000] year_value_in [of 0] by cases (auto dest: year_of_int_value intro: year_value_in)
next
  fix w assume w: "year_value w"
  then obtain y where y: "w = GInt16 y" "sint y = 0 \<or> 1901 \<le> sint y \<and> sint y \<le> 2155"
    by (auto simp: year_value_def split: gval.splits)
  then have "sint (word_of_int (sint y) :: 64 word) = sint y" by (intro sint_int64) auto
  with y have "year_Convert timeYear w = Ok (GInt16 (word_of_int (sint y)))"
    by (auto simp: year_Convert_def go_int_def int_val_def year_of_int_def signed_eq_0_iff)
  with y(1) show "year_Convert timeYear w = Ok w" by simp
qed (simp add: year_Convert_def)

definition bit_val :: "8 word \<Rightarrow> gval \<Rightarrow> bool" where
  "bit_val n w = (case w of GUint64 u \<Rightarrow> u \<le> max_bits n | _ \<Rightarrow> False)"

interpretation bit: value_type "bit_Convert n" "bit_val n" for n
proof unfold_locales
  fix v w assume "bit_Convert n v = Ok w" "v \<noteq> GNil"
  then show "bit_val n w" by (auto simp: bit_Convert_def bit_val_def res_simps split: if_splits)
next
  fix w assume "bit_val n w"
  then show "bit_Convert n w = Ok w" by (cases w) (auto simp: bit_Convert_def bit_val_def bit_value_def int_val_def)
qed (simp add: bit_Convert_def)

lemma enum_At_index: "0 \<le> i \<Longrightarrow> i < int (length ms) \<Longrightarrow> length ms \<le> 65535 \<Longrightarrow> enum_At (enum_of coll ms) (i + 1) = Some (ms ! nat i)"
  by (simp add: enum_At_def enum_of_def wrap64_def sint_int64)

lemma enum_At_member: "enum_At t i = Some s \<Longrightarrow> s \<in> set (et_indexToVal t)"
  by (auto simp: enum_At_def Let_def split: if_splits)

lemma enum_index_At: "distinct ms \<Longrightarrow> length ms \<le> 65535 \<Longrightarrow> map_of (et_valToIndex (enum_of coll ms)) s = Some i \<Longrightarrow>
  1 \<le> i \<and> i \<le> int (length ms) \<and> enum_At (enum_of coll ms) i = Some s"
  using enum_At_index [of "i - 1" ms coll]
  by (auto simp: enum_of_def set_zip dest!: map_of_SomeD)

lemma enum_IndexOf_member:
  "distinct ms \<Longrightarrow> i < length ms \<Longrightarrow> enum_IndexOf (enum_of coll ms) (ms ! i) = int i + 1"
  using map_of_zip_nth [of ms "map (\<lambda>i. int i + 1) [0..<length ms]" i]
  by (simp add: enum_IndexOf_def enum_of_def)

lemma enum_IndexOf_At: "distinct ms \<Longrightarrow> length ms \<le> 65535 \<Longrightarrow> enum_IndexOf (enum_of coll ms) s \<noteq> -1 \<Longrightarrow>
  enum_At (enum_of coll ms) (enum_IndexOf (enum_of coll ms) s) \<noteq> None"
  by (auto simp: enum_IndexOf_def split: option.splits res.splits dest!: enum_index_At)

definition enum_value :: "string list \<Rightarrow> gval \<Rightarrow> bool" where
  "enum_value ms w = (case w of GString s \<Rightarrow> s \<in> set ms | _ \<Rightarrow> False)"

lemma enum_value_type:
  assumes "distinct ms" "length ms \<le> 65535"
  shows "value_type (enum_Convert (enum_of coll ms)) (enum_value ms)"
proof
  fix v w assume "enum_Convert (enum_of coll ms) v = Ok w" "v \<noteq> GNil"
  moreover have "et_indexToVal (enum_of coll ms) = ms" by (simp add: enum_of_def)
  ultimately show "enum_value ms w"
    using enum_IndexOf_At [OF assms, of coll] enum_At_member [of "enum_of coll ms"]
    by (fastforce simp: enum_Convert_def Let_def enum_value_def split: if_splits option.splits)
next
  fix w assume "enum_value ms w"
  then obtain i where i: "w = GString (ms ! i)" "i < length ms"
    by (auto simp: enum_value_def in_set_conv_nth split: gval.splits)
  with enum_At_index [of "int i" ms coll] assms show "enum_Convert (enum_of coll ms) w = Ok w"
    by (simp add: enum_Convert_def go_int_def int_val_def go_text_def enum_IndexOf_member)
qed (simp add: enum_Convert_def)

definition set_value :: "string list \<Rightarrow> gval \<Rightarrow> bool" where
  "set_value ms w = (case w of GString s \<Rightarrow> \<exists>f. field_ok ms f \<and> s = Join '','' (chosen ms f) | _ \<Rightarrow> False)"

lemma chosen_0 [simp]: "chosen ms 0 = []"
  by (simp add: chosen_def)

lemma set_value_type:
  assumes "created coll ms"
  shows "value_type (set_Convert (set_of coll ms)) (set_value ms)"
proof
  fix v w assume "set_Convert (set_of coll ms) v = Ok w" "v \<noteq> GNil"
  then obtain f where "field_ok ms f"
      "w = (case convertBitFieldToString (set_of coll ms) f of Ok s \<Rightarrow> GString s | _ \<Rightarrow> GString [])"
    using string_field_ok [OF assms] upperBound_field_ok [of _ coll ms]
    by (auto simp: set_Convert_def res_simps not_le split: if_splits option.splits)
  then show "set_value ms w" by (auto simp: field_to_string [OF assms] set_value_def)
next
  fix w assume "set_value ms w"
  then obtain f where f: "field_ok ms f" "w = GString (Join '','' (chosen ms f))"
    by (auto simp: set_value_def split: gval.splits)
  have "field_ok ms 0" by (simp add: field_ok_def)
  with f show "set_Convert (set_of coll ms) w = Ok w"
    by (simp add: set_Convert_def go_uint64_def int_val_def go_text_def field_string_field [OF assms] field_to_string [OF assms])
qed (simp add: set_Convert_def)

lemma value_iffs:
  "enum_value ms w \<longleftrightarrow> (\<exists>s \<in> set ms. w = GString s)"
  "set_value ms w \<longleftrightarrow> (\<exists>f. field_ok ms f \<and> w = GString (Join '','' (chosen ms f)))"
  "bit_val n w \<longleftrightarrow> (\<exists>u. w = GUint64 u \<and> u \<le> max_bits n)"
  "year_value w \<longleftrightarrow> (\<exists>y. w = GInt16 y \<and> (sint y = 0 \<or> 1901 \<le> sint y \<and> sint y \<le> 2155))"
  by (cases w; auto simp: enum_value_def set_value_def bit_val_def year_value_def)+

section \<open>Comparison\<close>

text \<open>All four types compare by a number: NULLs first, then by index, bit field, value or year.\<close>

definition res_key :: "('a \<Rightarrow> 'k) \<Rightarrow> (gval \<Rightarrow> 'a res) \<Rightarrow> gval \<Rightarrow> 'k option" where
  "res_key k f v = (if v = GNil then None else case f v of Ok x \<Rightarrow> Some (k x) | _ \<Rightarrow> None)"

definition has_key :: "(gval \<Rightarrow> 'a res) \<Rightarrow> gval \<Rightarrow> bool" where
  "has_key f v \<longleftrightarrow> v = GNil \<or> is_Ok (f v)"

lemmas key_simps = res_key_def compareNulls_def cmp_lin_def

interpretation enum: keyed_comparer "enum_Compare t" "has_key (enum_ConvertToIndex t)" "res_key id (enum_ConvertToIndex t)" for t
  by unfold_locales (auto simp: enum_Compare_def key_simps has_key_def is_Ok_iff)

interpretation set: keyed_comparer "set_Compare t" "has_key (ConvertToBits t)" "res_key uint (ConvertToBits t)" for t
  by unfold_locales (auto simp: set_Compare_def key_simps has_key_def is_Ok_iff word_less_def)

lemma bit_has_key: "has_key (bit_Convert n) v \<Longrightarrow> v = GNil \<or> v \<noteq> GNil \<and> (\<exists>u. bit_Convert n v = Ok (GUint64 u))"
  using bit.into [of n v] by (auto simp: has_key_def is_Ok_iff value_iffs)

lemma year_has_key: "has_key (year_Convert timeYear) v \<Longrightarrow> v = GNil \<or> v \<noteq> GNil \<and> (\<exists>u. year_Convert timeYear v = Ok (GInt16 u))"
  using year.into [of timeYear v] by (auto simp: has_key_def is_Ok_iff value_iffs)

interpretation bit: keyed_comparer "bit_Compare n" "has_key (bit_Convert n)"
  "res_key (\<lambda>w. case w of GUint64 u \<Rightarrow> uint u | _ \<Rightarrow> 0) (bit_Convert n)" for n
proof unfold_locales
  fix a b assume "has_key (bit_Convert n) a" "has_key (bit_Convert n) b"
  then show "bit_Compare n a b = Ok (cmp_lin (res_key (\<lambda>w. case w of GUint64 u \<Rightarrow> uint u | _ \<Rightarrow> 0) (bit_Convert n) a)
      (res_key (\<lambda>w. case w of GUint64 u \<Rightarrow> uint u | _ \<Rightarrow> 0) (bit_Convert n) b))"
    by (auto simp: bit_Compare_def key_simps as_uint64_def word_less_def dest!: bit_has_key)
qed

interpretation year: keyed_comparer "year_Compare timeYear" "has_key (year_Convert timeYear)"
  "res_key (\<lambda>w. case w of GInt16 u \<Rightarrow> sint u | _ \<Rightarrow> 0) (year_Convert timeYear)" for timeYear
proof unfold_locales
  fix a b assume "has_key (year_Convert timeYear) a" "has_key (year_Convert timeYear) b"
  then show "year_Compare timeYear a b = Ok (cmp_lin (res_key (\<lambda>w. case w of GInt16 u \<Rightarrow> sint u | _ \<Rightarrow> 0) (year_Convert timeYear) a)
      (res_key (\<lambda>w. case w of GInt16 u \<Rightarrow> sint u | _ \<Rightarrow> 0) (year_Convert timeYear) b))"
    by (auto simp: year_Compare_def key_simps as_int16_def cmp_int_def dest!: year_has_key)
qed

section \<open>Properties\<close>

lemma max_bits_less:
  assumes "u \<le> max_bits n" "CreateBitType n = Ok bt"
  shows "uint u < 2 ^ unat n"
proof (cases "unat n < 64")
  case True
  have "uint (max_bits n) = 2 ^ unat n - 1"
    using uint_bit_at [OF True] by (simp add: max_bits_def uint_sub_if')
  with assms(1) show ?thesis by (simp add: word_le_def)
next
  case False
  have "uint u < 2 ^ 64" using uint_bounded [of u] by simp
  also have "\<dots> \<le> 2 ^ unat n" using False by (intro power_increasing) auto
  finally show ?thesis .
qed


lemma small_set: "CreateSetType [''x'', ''y''] Collation_Default = Ok (set_of Collation_Default [''x'', ''y''])"
  by (simp add: CreateSetType_def SetTypeMaxElements_def Collation_Default_def Collation_binary_def set_key_def set_member_def
      TrimRight_def Let_def set_of_def ToLower_def lower_char_def bit_at_def)


lemma chosen_empty:
  assumes "field_ok ms f" "Join '','' (chosen ms f) = []" "[] \<notin> set ms"
  shows "f = 0"
proof -
  have "set (chosen ms f) \<subseteq> set ms" by (auto simp: chosen_def)
  with assms(3) have "chosen ms f \<noteq> [[]]" by auto
  with assms(2) have "filter (bit f) [0..<length ms] = []" by (auto simp: Join_Nil_iff chosen_def)
  with assms(1) show ?thesis by (auto simp: field_ok_def filter_empty_conv bit_eq_iff)
qed

text \<open>(C22) Members and numbers correspond. In an ENUM the member at position i has index i + 1, \<^verbatim>\<open>At\<close> and \<^verbatim>\<open>IndexOf\<close> are inverse
  to each other, and \<^verbatim>\<open>Convert\<close> of the index and of the member agree; in a SET without the empty string as member every bit
  field below the upper bound has a text that is read back as the same bit field.\<close>

theorem members_roundtrip:
  assumes "CreateEnumType evs ecoll = (evs', Ok et)" "i < length evs" "CreateSetType svs scoll = Ok st"
    "\<forall>s \<in> set svs. set_member scoll s \<noteq> []" "f < upperBound st"
  shows "enum_At et (int i + 1) = Some (evs' ! i) \<and> enum_IndexOf et (evs' ! i) = int i + 1
    \<and> enum_Convert et (GInt64 (of_nat i + 1)) = enum_Convert et (GString (evs' ! i))
    \<and> (\<exists>s. convertBitFieldToString st f = Ok s \<and> convertStringToBitField st s = Ok f
           \<and> set_Convert st (GUint64 f) = set_Convert st (GString s))"
proof -
  obtain e: "length evs' = length evs" "distinct evs'" "et = enum_of ecoll evs'" "length evs' \<le> 65535"
    using CreateEnumType_result [OF assms(1)] by auto
  obtain ms where ms: "ms = map (set_member scoll) svs" "st = set_of scoll ms" "created scoll ms"
    using CreateSetType_result [OF assms(3)] by (auto simp: created_def)
  have f: "field_ok ms f" using upperBound_field_ok assms(5) ms(2) by blast
  have "[] \<notin> set ms" using assms(4) ms(1) by auto
  then have "Join '','' (chosen ms f) = [] \<longrightarrow> f = 0" using chosen_empty [OF f] by blast
  then have s: "convertStringToBitField st (Join '','' (chosen ms f)) = Ok f"
    using field_string_field [OF ms(3) f] ms(2) by auto
  have at: "enum_At et (int i + 1) = Some (evs' ! i)" "enum_IndexOf et (evs' ! i) = int i + 1"
    using enum_At_index [of "int i" evs' ecoll] enum_IndexOf_member [OF e(2), of i ecoll] assms(2) e by simp_all
  moreover have "sint (of_nat i + 1 :: 64 word) = int i + 1"
    using sint_int64 [of "int i + 1"] assms(2) e by simp
  ultimately show ?thesis using field_to_string [OF ms(3) f] s assms(5) ms(2)
    by (simp add: enum_Convert_def set_Convert_def go_int_def go_uint64_def int_val_def go_text_def not_le [symmetric])
qed

theorem members_roundtrip_witness:
  "\<exists>s. convertBitFieldToString (set_of Collation_Default [''x'', ''y'']) 2 = Ok s
     \<and> convertStringToBitField (set_of Collation_Default [''x'', ''y'']) s = Ok 2"
proof -
  have e: "CreateEnumType [''a''] Collation_binary = ([''a''], Ok (enum_of Collation_binary [''a'']))"
    by (simp add: CreateEnumType_def EnumTypeMinElements_def EnumTypeMaxElements_def Let_def enum_of_def)
  have "upperBound (set_of Collation_Default [''x'', ''y'']) = 4" by (simp add: upperBound_def set_of_def bit_at_def)
  with members_roundtrip [OF e _ small_set, of 0 2] show ?thesis
    by (auto simp: set_member_def TrimRight_def Collation_Default_def Collation_binary_def)
qed

text \<open>A SET of 64 members, the largest number that \<^verbatim>\<open>CreateSetType\<close> allows, rejects every number: its upper bound
  \<^verbatim>\<open>1 << 64\<close> is 0. The texts of the same bit fields are accepted.\<close>

lemma full_set_rejects_numbers:
  assumes "CreateSetType svs coll = Ok st" "length svs = 64" "go_uint64 v = Some u"
  shows "set_Convert st v = Err (TypeErr ErrConvertingToSet) \<and> ConvertToBits st v = Err (TypeErr ErrConvertingToSet)
    \<and> (\<exists>s. convertBitFieldToString st u = Ok s \<and> set_Convert st (GString s) = Ok (GString s))"
proof -
  define ms where "ms = map (set_member coll) svs"
  have ms: "length ms = 64" "st = set_of coll ms" "created coll ms"
    using CreateSetType_result [OF assms(1)] assms(2) by (simp_all add: created_def ms_def)
  have "upperBound st = 0" using ms(1) by (simp add: upperBound_def ms(2) set_of_def bit_at_def)
  moreover have "v \<noteq> GNil" using assms(3) by (auto simp: go_uint64_def int_val_def)
  moreover have f: "field_ok ms u" using ms(1) by (auto simp: field_ok_def dest: bit_imp_le_length)
  then have "set_value ms (GString (Join '','' (chosen ms u)))" by (auto simp: value_iffs)
  then have "set_Convert st (GString (Join '','' (chosen ms u))) = Ok (GString (Join '','' (chosen ms u)))"
    using value_type.keeps [OF set_value_type [OF ms(3)]] ms(2) by simp
  ultimately show ?thesis using field_to_string [OF ms(3) f] ms(2) assms(3)
    by (simp add: set_Convert_def ConvertToBits_def)
qed

definition many_members :: "string list" where
  "many_members = map (\<lambda>i. [char_of i]) (upt 100 164)"

theorem full_set_rejects_numbers_witness:
  "\<exists>st. CreateSetType many_members Collation_binary = Ok st \<and> set_Convert st (GInt64 0) = Err (TypeErr ErrConvertingToSet)"
proof -
  have "inj_on (\<lambda>i. [char_of i]) {100..<164 :: nat}" by (auto simp: inj_on_def take_bit_eq_mod dest!: arg_cong [where f = of_char])
  then have "is_Ok (CreateSetType many_members Collation_binary)"
    by (intro CreateSetType_creates) (auto simp: many_members_def set_key_def [abs_def] distinct_map take_bit_eq_mod
        dest!: arg_cong [where f = "of_char :: char \<Rightarrow> nat"])
  then obtain st where st: "CreateSetType many_members Collation_binary = Ok st" by (auto simp: is_Ok_iff)
  have "length many_members = 64" by (simp add: many_members_def)
  from st full_set_rejects_numbers [OF st this, of "GInt64 0"] show ?thesis by (simp add: go_uint64_def int_val_def)
qed

end
