(* ===== verification/Charset.thy ===== *)
theory Charset
  imports Sql_Types
begin

text \<open>
  Character sets and collations (\<^verbatim>\<open>sql/charsetcollation.go\<close>): the tables of the names that the engine knows and the
  functions that look them up. A Go map literal is the association list of its entries, with the constants replaced by
  their texts; a lookup that panics on a missing entry returns \<open>Panic\<close>.
\<close>

section \<open>Tables\<close>

text \<open>The constants of the source. \<^verbatim>\<open>utf8\<close> and its collations are further names for \<^verbatim>\<open>utf8mb3\<close>.\<close>

definition charset_names :: "string list" where
  "charset_names = [
    ''armscii8'', ''ascii'', ''big5'', ''binary'', ''cp1250'', ''cp1251'', ''cp1256'', ''cp1257'', ''cp850'', ''cp852'',
    ''cp866'', ''cp932'', ''dec8'', ''eucjpms'', ''euckr'', ''gb18030'', ''gb2312'', ''gbk'', ''geostd8'', ''greek'',
    ''hebrew'', ''hp8'', ''keybcs2'', ''koi8r'', ''koi8u'', ''latin1'', ''latin2'', ''latin5'', ''latin7'', ''macce'',
    ''macroman'', ''sjis'', ''swe7'', ''tis620'', ''ucs2'', ''ujis'', ''utf16'', ''utf16le'', ''utf32'', ''utf8mb3'',
    ''utf8mb4'']"

definition collation_names :: "string list" where
  "collation_names = [
    ''armscii8_general_ci'', ''armscii8_bin'', ''ascii_general_ci'', ''ascii_bin'', ''big5_chinese_ci'', ''big5_bin'',
    ''binary'', ''cp1250_general_ci'', ''cp1250_czech_cs'', ''cp1250_croatian_ci'', ''cp1250_bin'', ''cp1250_polish_ci'',
    ''cp1251_bulgarian_ci'', ''cp1251_ukrainian_ci'', ''cp1251_bin'', ''cp1251_general_ci'', ''cp1251_general_cs'',
    ''cp1256_general_ci'', ''cp1256_bin'', ''cp1257_lithuanian_ci'', ''cp1257_bin'', ''cp1257_general_ci'',
    ''cp850_general_ci'', ''cp850_bin'', ''cp852_general_ci'', ''cp852_bin'', ''cp866_general_ci'', ''cp866_bin'',
    ''cp932_japanese_ci'', ''cp932_bin'', ''dec8_swedish_ci'', ''dec8_bin'', ''eucjpms_japanese_ci'', ''eucjpms_bin'',
    ''euckr_korean_ci'', ''euckr_bin'', ''gb18030_chinese_ci'', ''gb18030_bin'', ''gb18030_unicode_520_ci'',
    ''gb2312_chinese_ci'', ''gb2312_bin'', ''gbk_chinese_ci'', ''gbk_bin'', ''geostd8_general_ci'', ''geostd8_bin'',
    ''greek_general_ci'', ''greek_bin'', ''hebrew_general_ci'', ''hebrew_bin'', ''hp8_english_ci'', ''hp8_bin'',
    ''keybcs2_general_ci'', ''keybcs2_bin'', ''koi8r_general_ci'', ''koi8r_bin'', ''koi8u_general_ci'', ''koi8u_bin'',
    ''latin1_german1_ci'', ''latin1_swedish_ci'', ''latin1_danish_ci'', ''latin1_german2_ci'', ''latin1_bin'',
    ''latin1_general_ci'', ''latin1_general_cs'', ''latin1_spanish_ci'', ''latin2_czech_cs'', ''latin2_general_ci'',
    ''latin2_hungarian_ci'', ''latin2_croatian_ci'', ''latin2_bin'', ''latin5_turkish_ci'', ''latin5_bin'',
    ''latin7_estonian_cs'', ''latin7_general_ci'', ''latin7_general_cs'', ''latin7_bin'', ''macce_general_ci'',
    ''macce_bin'', ''macroman_general_ci'', ''macroman_bin'', ''sjis_japanese_ci'', ''sjis_bin'', ''swe7_swedish_ci'',
    ''swe7_bin'', ''tis620_thai_ci'', ''tis620_bin'', ''ucs2_general_ci'', ''ucs2_bin'', ''ucs2_unicode_ci'',
    ''ucs2_icelandic_ci'', ''ucs2_latvian_ci'', ''ucs2_romanian_ci'', ''ucs2_slovenian_ci'', ''ucs2_polish_ci'',
    ''ucs2_estonian_ci'', ''ucs2_spanish_ci'', ''ucs2_swedish_ci'', ''ucs2_turkish_ci'', ''ucs2_czech_ci'',
    ''ucs2_danish_ci'', ''ucs2_lithuanian_ci'', ''ucs2_slovak_ci'', ''ucs2_spanish2_ci'', ''ucs2_roman_ci'',
    ''ucs2_persian_ci'', ''ucs2_esperanto_ci'', ''ucs2_hungarian_ci'', ''ucs2_sinhala_ci'', ''ucs2_german2_ci'',
    ''ucs2_croatian_ci'', ''ucs2_unicode_520_ci'', ''ucs2_vietnamese_ci'', ''ucs2_general_mysql500_ci'',
    ''ujis_japanese_ci'', ''ujis_bin'', ''utf16_general_ci'', ''utf16_bin'', ''utf16_unicode_ci'', ''utf16_icelandic_ci'',
    ''utf16_latvian_ci'', ''utf16_romanian_ci'', ''utf16_slovenian_ci'', ''utf16_polish_ci'', ''utf16_estonian_ci'',
    ''utf16_spanish_ci'', ''utf16_swedish_ci'', ''utf16_turkish_ci'', ''utf16_czech_ci'', ''utf16_danish_ci'',
    ''utf16_lithuanian_ci'', ''utf16_slovak_ci'', ''utf16_spanish2_ci'', ''utf16_roman_ci'', ''utf16_persian_ci'',
    ''utf16_esperanto_ci'', ''utf16_hungarian_ci'', ''utf16_sinhala_ci'', ''utf16_german2_ci'', ''utf16_croatian_ci'',
    ''utf16_unicode_520_ci'', ''utf16_vietnamese_ci'', ''utf16le_general_ci'', ''utf16le_bin'', ''utf32_general_ci'',
    ''utf32_bin'', ''utf32_unicode_ci'', ''utf32_icelandic_ci'', ''utf32_latvian_ci'', ''utf32_romanian_ci'',
    ''utf32_slovenian_ci'', ''utf32_polish_ci'', ''utf32_estonian_ci'', ''utf32_spanish_ci'', ''utf32_swedish_ci'',
    ''utf32_turkish_ci'', ''utf32_czech_ci'', ''utf32_danish_ci'', ''utf32_lithuanian_ci'', ''utf32_slovak_ci'',
    ''utf32_spanish2_ci'', ''utf32_roman_ci'', ''utf32_persian_ci'', ''utf32_esperanto_ci'', ''utf32_hungarian_ci'',
    ''utf32_sinhala_ci'', ''utf32_german2_ci'', ''utf32_croatian_ci'', ''utf32_unicode_520_ci'', ''utf32_vietnamese_ci'',
    ''utf8mb3_general_ci'', ''utf8mb3_tolower_ci'', ''utf8mb3_bin'', ''utf8mb3_unicode_ci'', ''utf8mb3_icelandic_ci'',
    ''utf8mb3_latvian_ci'', ''utf8mb3_romanian_ci'', ''utf8mb3_slovenian_ci'', ''utf8mb3_polish_ci'',
    ''utf8mb3_estonian_ci'', ''utf8mb3_spanish_ci'', ''utf8mb3_swedish_ci'', ''utf8mb3_turkish_ci'', ''utf8mb3_czech_ci'',
    ''utf8mb3_danish_ci'', ''utf8mb3_lithuanian_ci'', ''utf8mb3_slovak_ci'', ''utf8mb3_spanish2_ci'', ''utf8mb3_roman_ci'',
    ''utf8mb3_persian_ci'', ''utf8mb3_esperanto_ci'', ''utf8mb3_hungarian_ci'', ''utf8mb3_sinhala_ci'',
    ''utf8mb3_german2_ci'', ''utf8mb3_croatian_ci'', ''utf8mb3_unicode_520_ci'', ''utf8mb3_vietnamese_ci'',
    ''utf8mb3_general_mysql500_ci'', ''utf8mb4_general_ci'', ''utf8mb4_bin'', ''utf8mb4_unicode_ci'',
    ''utf8mb4_icelandic_ci'', ''utf8mb4_latvian_ci'', ''utf8mb4_romanian_ci'', ''utf8mb4_slovenian_ci'',
    ''utf8mb4_polish_ci'', ''utf8mb4_estonian_ci'', ''utf8mb4_spanish_ci'', ''utf8mb4_swedish_ci'', ''utf8mb4_turkish_ci'',
    ''utf8mb4_czech_ci'', ''utf8mb4_danish_ci'', ''utf8mb4_lithuanian_ci'', ''utf8mb4_slovak_ci'', ''utf8mb4_spanish2_ci'',
    ''utf8mb4_roman_ci'', ''utf8mb4_persian_ci'', ''utf8mb4_esperanto_ci'', ''utf8mb4_hungarian_ci'', ''utf8mb4_sinhala_ci'',
    ''utf8mb4_german2_ci'', ''utf8mb4_croatian_ci'', ''utf8mb4_unicode_520_ci'', ''utf8mb4_vietnamese_ci'',
    ''utf8mb4_0900_ai_ci'', ''utf8mb4_de_pb_0900_ai_ci'', ''utf8mb4_is_0900_ai_ci'', ''utf8mb4_lv_0900_ai_ci'',
    ''utf8mb4_ro_0900_ai_ci'', ''utf8mb4_sl_0900_ai_ci'', ''utf8mb4_pl_0900_ai_ci'', ''utf8mb4_et_0900_ai_ci'',
    ''utf8mb4_es_0900_ai_ci'', ''utf8mb4_sv_0900_ai_ci'', ''utf8mb4_tr_0900_ai_ci'', ''utf8mb4_cs_0900_ai_ci'',
    ''utf8mb4_da_0900_ai_ci'', ''utf8mb4_lt_0900_ai_ci'', ''utf8mb4_sk_0900_ai_ci'', ''utf8mb4_es_trad_0900_ai_ci'',
    ''utf8mb4_la_0900_ai_ci'', ''utf8mb4_eo_0900_ai_ci'', ''utf8mb4_hu_0900_ai_ci'', ''utf8mb4_hr_0900_ai_ci'',
    ''utf8mb4_vi_0900_ai_ci'', ''utf8mb4_0900_as_cs'', ''utf8mb4_de_pb_0900_as_cs'', ''utf8mb4_is_0900_as_cs'',
    ''utf8mb4_lv_0900_as_cs'', ''utf8mb4_ro_0900_as_cs'', ''utf8mb4_sl_0900_as_cs'', ''utf8mb4_pl_0900_as_cs'',
    ''utf8mb4_et_0900_as_cs'', ''utf8mb4_es_0900_as_cs'', ''utf8mb4_sv_0900_as_cs'', ''utf8mb4_tr_0900_as_cs'',
    ''utf8mb4_cs_0900_as_cs'', ''utf8mb4_da_0900_as_cs'', ''utf8mb4_lt_0900_as_cs'', ''utf8mb4_sk_0900_as_cs'',
    ''utf8mb4_es_trad_0900_as_cs'', ''utf8mb4_la_0900_as_cs'', ''utf8mb4_eo_0900_as_cs'', ''utf8mb4_hu_0900_as_cs'',
    ''utf8mb4_hr_0900_as_cs'', ''utf8mb4_vi_0900_as_cs'', ''utf8mb4_ja_0900_as_cs'', ''utf8mb4_ja_0900_as_cs_ks'',
    ''utf8mb4_0900_as_ci'', ''utf8mb4_ru_0900_ai_ci'', ''utf8mb4_ru_0900_as_cs'', ''utf8mb4_zh_0900_as_cs'',
    ''utf8mb4_0900_bin'']"

definition utf8_names :: "string list" where
  "utf8_names = [
    ''_general_ci'', ''_tolower_ci'', ''_bin'', ''_unicode_ci'', ''_icelandic_ci'', ''_latvian_ci'', ''_romanian_ci'',
    ''_slovenian_ci'', ''_polish_ci'', ''_estonian_ci'', ''_spanish_ci'', ''_swedish_ci'', ''_turkish_ci'', ''_czech_ci'',
    ''_danish_ci'', ''_lithuanian_ci'', ''_slovak_ci'', ''_spanish2_ci'', ''_roman_ci'', ''_persian_ci'', ''_esperanto_ci'',
    ''_hungarian_ci'', ''_sinhala_ci'', ''_german2_ci'', ''_croatian_ci'', ''_unicode_520_ci'', ''_vietnamese_ci'',
    ''_general_mysql500_ci'']"

definition characterSets :: "(string \<times> string) list" where
  "characterSets = map (\<lambda>c. (c, c)) charset_names @ [(''utf8'', ''utf8mb3'')]"

definition collations :: "(string \<times> string) list" where
  "collations = map (\<lambda>c. (c, c)) collation_names @ map (\<lambda>c. (''utf8'' @ c, ''utf8mb3'' @ c)) utf8_names"

definition characterSetDefaults :: "(string \<times> string) list" where
  "characterSetDefaults = [
    (''armscii8'', ''armscii8_general_ci''), (''ascii'', ''ascii_general_ci''), (''big5'', ''big5_chinese_ci''),
    (''binary'', ''binary''), (''cp1250'', ''cp1250_general_ci''), (''cp1251'', ''cp1251_general_ci''),
    (''cp1256'', ''cp1256_general_ci''), (''cp1257'', ''cp1257_general_ci''), (''cp850'', ''cp850_general_ci''),
    (''cp852'', ''cp852_general_ci''), (''cp866'', ''cp866_general_ci''), (''cp932'', ''cp932_japanese_ci''),
    (''dec8'', ''dec8_swedish_ci''), (''eucjpms'', ''eucjpms_japanese_ci''), (''euckr'', ''euckr_korean_ci''),
    (''gb18030'', ''gb18030_chinese_ci''), (''gb2312'', ''gb2312_chinese_ci''), (''gbk'', ''gbk_chinese_ci''),
    (''geostd8'', ''geostd8_general_ci''), (''greek'', ''greek_general_ci''), (''hebrew'', ''hebrew_general_ci''),
    (''hp8'', ''hp8_english_ci''), (''keybcs2'', ''keybcs2_general_ci''), (''koi8r'', ''koi8r_general_ci''),
    (''koi8u'', ''koi8u_general_ci''), (''latin1'', ''latin1_swedish_ci''), (''latin2'', ''latin2_general_ci''),
    (''latin5'', ''latin5_turkish_ci''), (''latin7'', ''latin7_general_ci''), (''macce'', ''macce_general_ci''),
    (''macroman'', ''macroman_general_ci''), (''sjis'', ''sjis_japanese_ci''), (''swe7'', ''swe7_swedish_ci''),
    (''tis620'', ''tis620_thai_ci''), (''ucs2'', ''ucs2_general_ci''), (''ujis'', ''ujis_japanese_ci''),
    (''utf16'', ''utf16_general_ci''), (''utf16le'', ''utf16le_general_ci''), (''utf32'', ''utf32_general_ci''),
    (''utf8mb3'', ''utf8mb3_general_ci''), (''utf8mb4'', ''utf8mb4_0900_ai_ci'')]"

definition characterSetDefaultBinaryColl :: "(string \<times> string) list" where
  "characterSetDefaultBinaryColl = [
    (''armscii8'', ''armscii8_bin''), (''ascii'', ''ascii_bin''), (''big5'', ''big5_bin''), (''binary'', ''binary''),
    (''cp1250'', ''cp1250_bin''), (''cp1251'', ''cp1251_bin''), (''cp1256'', ''cp1256_bin''), (''cp1257'', ''cp1257_bin''),
    (''cp850'', ''cp850_bin''), (''cp852'', ''cp852_bin''), (''cp866'', ''cp866_bin''), (''cp932'', ''cp932_bin''),
    (''dec8'', ''dec8_bin''), (''eucjpms'', ''eucjpms_bin''), (''euckr'', ''euckr_bin''), (''gb18030'', ''gb18030_bin''),
    (''gb2312'', ''gb2312_bin''), (''gbk'', ''gbk_bin''), (''geostd8'', ''geostd8_bin''), (''greek'', ''greek_bin''),
    (''hebrew'', ''hebrew_bin''), (''hp8'', ''hp8_bin''), (''keybcs2'', ''keybcs2_bin''), (''koi8r'', ''koi8r_bin''),
    (''koi8u'', ''koi8u_bin''), (''latin1'', ''latin1_bin''), (''latin2'', ''latin2_bin''), (''latin5'', ''latin5_bin''),
    (''latin7'', ''latin7_bin''), (''macce'', ''macce_bin''), (''macroman'', ''macroman_bin''), (''sjis'', ''sjis_bin''),
    (''swe7'', ''swe7_bin''), (''tis620'', ''tis620_bin''), (''ucs2'', ''ucs2_bin''), (''ujis'', ''ujis_bin''),
    (''utf16'', ''utf16_bin''), (''utf16le'', ''utf16le_bin''), (''utf32'', ''utf32_bin''), (''utf8mb3'', ''utf8mb3_bin''),
    (''utf8mb4'', ''utf8mb4_bin'')]"

definition collationToCharacterSet :: "(string \<times> string) list" where
  "collationToCharacterSet = [
    (''armscii8_general_ci'', ''armscii8''), (''armscii8_bin'', ''armscii8''), (''ascii_general_ci'', ''ascii''),
    (''ascii_bin'', ''ascii''), (''big5_chinese_ci'', ''big5''), (''big5_bin'', ''big5''), (''binary'', ''binary''),
    (''cp1250_general_ci'', ''cp1250''), (''cp1250_czech_cs'', ''cp1250''), (''cp1250_croatian_ci'', ''cp1250''),
    (''cp1250_bin'', ''cp1250''), (''cp1250_polish_ci'', ''cp1250''), (''cp1251_bulgarian_ci'', ''cp1251''),
    (''cp1251_ukrainian_ci'', ''cp1251''), (''cp1251_bin'', ''cp1251''), (''cp1251_general_ci'', ''cp1251''),
    (''cp1251_general_cs'', ''cp1251''), (''cp1256_general_ci'', ''cp1256''), (''cp1256_bin'', ''cp1256''),
    (''cp1257_lithuanian_ci'', ''cp1257''), (''cp1257_bin'', ''cp1257''), (''cp1257_general_ci'', ''cp1257''),
    (''cp850_general_ci'', ''cp850''), (''cp850_bin'', ''cp850''), (''cp852_general_ci'', ''cp852''),
    (''cp852_bin'', ''cp852''), (''cp866_general_ci'', ''cp866''), (''cp866_bin'', ''cp866''),
    (''cp932_japanese_ci'', ''cp932''), (''cp932_bin'', ''cp932''), (''dec8_swedish_ci'', ''dec8''),
    (''dec8_bin'', ''dec8''), (''eucjpms_japanese_ci'', ''eucjpms''), (''eucjpms_bin'', ''eucjpms''),
    (''euckr_korean_ci'', ''euckr''), (''euckr_bin'', ''euckr''), (''gb18030_chinese_ci'', ''gb18030''),
    (''gb18030_bin'', ''gb18030''), (''gb18030_unicode_520_ci'', ''gb18030''), (''gb2312_chinese_ci'', ''gb2312''),
    (''gb2312_bin'', ''gb2312''), (''gbk_chinese_ci'', ''gbk''), (''gbk_bin'', ''gbk''),
    (''geostd8_general_ci'', ''geostd8''), (''geostd8_bin'', ''geostd8''), (''greek_general_ci'', ''greek''),
    (''greek_bin'', ''greek''), (''hebrew_general_ci'', ''hebrew''), (''hebrew_bin'', ''hebrew''),
    (''hp8_english_ci'', ''hp8''), (''hp8_bin'', ''hp8''), (''keybcs2_general_ci'', ''keybcs2''),
    (''keybcs2_bin'', ''keybcs2''), (''koi8r_general_ci'', ''koi8r''), (''koi8r_bin'', ''koi8r''),
    (''koi8u_general_ci'', ''koi8u''), (''koi8u_bin'', ''koi8u''), (''latin1_german1_ci'', ''latin1''),
    (''latin1_swedish_ci'', ''latin1''), (''latin1_danish_ci'', ''latin1''), (''latin1_german2_ci'', ''latin1''),
    (''latin1_bin'', ''latin1''), (''latin1_general_ci'', ''latin1''), (''latin1_general_cs'', ''latin1''),
    (''latin1_spanish_ci'', ''latin1''), (''latin2_czech_cs'', ''latin2''), (''latin2_general_ci'', ''latin2''),
    (''latin2_hungarian_ci'', ''latin2''), (''latin2_croatian_ci'', ''latin2''), (''latin2_bin'', ''latin2''),
    (''latin5_turkish_ci'', ''latin5''), (''latin5_bin'', ''latin5''), (''latin7_estonian_cs'', ''latin7''),
    (''latin7_general_ci'', ''latin7''), (''latin7_general_cs'', ''latin7''), (''latin7_bin'', ''latin7''),
    (''macce_general_ci'', ''macce''), (''macce_bin'', ''macce''), (''macroman_general_ci'', ''macroman''),
    (''macroman_bin'', ''macroman''), (''sjis_japanese_ci'', ''sjis''), (''sjis_bin'', ''sjis''),
    (''swe7_swedish_ci'', ''swe7''), (''swe7_bin'', ''swe7''), (''tis620_thai_ci'', ''tis620''),
    (''tis620_bin'', ''tis620''), (''ucs2_general_ci'', ''ucs2''), (''ucs2_bin'', ''ucs2''), (''ucs2_unicode_ci'', ''ucs2''),
    (''ucs2_icelandic_ci'', ''ucs2''), (''ucs2_latvian_ci'', ''ucs2''), (''ucs2_romanian_ci'', ''ucs2''),
    (''ucs2_slovenian_ci'', ''ucs2''), (''ucs2_polish_ci'', ''ucs2''), (''ucs2_estonian_ci'', ''ucs2''),
    (''ucs2_spanish_ci'', ''ucs2''), (''ucs2_swedish_ci'', ''ucs2''), (''ucs2_turkish_ci'', ''ucs2''),
    (''ucs2_czech_ci'', ''ucs2''), (''ucs2_danish_ci'', ''ucs2''), (''ucs2_lithuanian_ci'', ''ucs2''),
    (''ucs2_slovak_ci'', ''ucs2''), (''ucs2_spanish2_ci'', ''ucs2''), (''ucs2_roman_ci'', ''ucs2''),
    (''ucs2_persian_ci'', ''ucs2''), (''ucs2_esperanto_ci'', ''ucs2''), (''ucs2_hungarian_ci'', ''ucs2''),
    (''ucs2_sinhala_ci'', ''ucs2''), (''ucs2_german2_ci'', ''ucs2''), (''ucs2_croatian_ci'', ''ucs2''),
    (''ucs2_unicode_520_ci'', ''ucs2''), (''ucs2_vietnamese_ci'', ''ucs2''), (''ucs2_general_mysql500_ci'', ''ucs2''),
    (''ujis_japanese_ci'', ''ujis''), (''ujis_bin'', ''ujis''), (''utf16_general_ci'', ''utf16''),
    (''utf16_bin'', ''utf16''), (''utf16_unicode_ci'', ''utf16''), (''utf16_icelandic_ci'', ''utf16''),
    (''utf16_latvian_ci'', ''utf16''), (''utf16_romanian_ci'', ''utf16''), (''utf16_slovenian_ci'', ''utf16''),
    (''utf16_polish_ci'', ''utf16''), (''utf16_estonian_ci'', ''utf16''), (''utf16_spanish_ci'', ''utf16''),
    (''utf16_swedish_ci'', ''utf16''), (''utf16_turkish_ci'', ''utf16''), (''utf16_czech_ci'', ''utf16''),
    (''utf16_danish_ci'', ''utf16''), (''utf16_lithuanian_ci'', ''utf16''), (''utf16_slovak_ci'', ''utf16''),
    (''utf16_spanish2_ci'', ''utf16''), (''utf16_roman_ci'', ''utf16''), (''utf16_persian_ci'', ''utf16''),
    (''utf16_esperanto_ci'', ''utf16''), (''utf16_hungarian_ci'', ''utf16''), (''utf16_sinhala_ci'', ''utf16''),
    (''utf16_german2_ci'', ''utf16''), (''utf16_croatian_ci'', ''utf16''), (''utf16_unicode_520_ci'', ''utf16''),
    (''utf16_vietnamese_ci'', ''utf16''), (''utf16le_general_ci'', ''utf16le''), (''utf16le_bin'', ''utf16le''),
    (''utf32_general_ci'', ''utf32''), (''utf32_bin'', ''utf32''), (''utf32_unicode_ci'', ''utf32''),
    (''utf32_icelandic_ci'', ''utf32''), (''utf32_latvian_ci'', ''utf32''), (''utf32_romanian_ci'', ''utf32''),
    (''utf32_slovenian_ci'', ''utf32''), (''utf32_polish_ci'', ''utf32''), (''utf32_estonian_ci'', ''utf32''),
    (''utf32_spanish_ci'', ''utf32''), (''utf32_swedish_ci'', ''utf32''), (''utf32_turkish_ci'', ''utf32''),
    (''utf32_czech_ci'', ''utf32''), (''utf32_danish_ci'', ''utf32''), (''utf32_lithuanian_ci'', ''utf32''),
    (''utf32_slovak_ci'', ''utf32''), (''utf32_spanish2_ci'', ''utf32''), (''utf32_roman_ci'', ''utf32''),
    (''utf32_persian_ci'', ''utf32''), (''utf32_esperanto_ci'', ''utf32''), (''utf32_hungarian_ci'', ''utf32''),
    (''utf32_sinhala_ci'', ''utf32''), (''utf32_german2_ci'', ''utf32''), (''utf32_croatian_ci'', ''utf32''),
    (''utf32_unicode_520_ci'', ''utf32''), (''utf32_vietnamese_ci'', ''utf32''), (''utf8mb3_general_ci'', ''utf8mb3''),
    (''utf8mb3_tolower_ci'', ''utf8mb3''), (''utf8mb3_bin'', ''utf8mb3''), (''utf8mb3_unicode_ci'', ''utf8mb3''),
    (''utf8mb3_icelandic_ci'', ''utf8mb3''), (''utf8mb3_latvian_ci'', ''utf8mb3''), (''utf8mb3_romanian_ci'', ''utf8mb3''),
    (''utf8mb3_slovenian_ci'', ''utf8mb3''), (''utf8mb3_polish_ci'', ''utf8mb3''), (''utf8mb3_estonian_ci'', ''utf8mb3''),
    (''utf8mb3_spanish_ci'', ''utf8mb3''), (''utf8mb3_swedish_ci'', ''utf8mb3''), (''utf8mb3_turkish_ci'', ''utf8mb3''),
    (''utf8mb3_czech_ci'', ''utf8mb3''), (''utf8mb3_danish_ci'', ''utf8mb3''), (''utf8mb3_lithuanian_ci'', ''utf8mb3''),
    (''utf8mb3_slovak_ci'', ''utf8mb3''), (''utf8mb3_spanish2_ci'', ''utf8mb3''), (''utf8mb3_roman_ci'', ''utf8mb3''),
    (''utf8mb3_persian_ci'', ''utf8mb3''), (''utf8mb3_esperanto_ci'', ''utf8mb3''), (''utf8mb3_hungarian_ci'', ''utf8mb3''),
    (''utf8mb3_sinhala_ci'', ''utf8mb3''), (''utf8mb3_german2_ci'', ''utf8mb3''), (''utf8mb3_croatian_ci'', ''utf8mb3''),
    (''utf8mb3_unicode_520_ci'', ''utf8mb3''), (''utf8mb3_vietnamese_ci'', ''utf8mb3''),
    (''utf8mb3_general_mysql500_ci'', ''utf8mb3''), (''utf8mb4_general_ci'', ''utf8mb4''), (''utf8mb4_bin'', ''utf8mb4''),
    (''utf8mb4_unicode_ci'', ''utf8mb4''), (''utf8mb4_icelandic_ci'', ''utf8mb4''), (''utf8mb4_latvian_ci'', ''utf8mb4''),
    (''utf8mb4_romanian_ci'', ''utf8mb4''), (''utf8mb4_slovenian_ci'', ''utf8mb4''), (''utf8mb4_polish_ci'', ''utf8mb4''),
    (''utf8mb4_estonian_ci'', ''utf8mb4''), (''utf8mb4_spanish_ci'', ''utf8mb4''), (''utf8mb4_swedish_ci'', ''utf8mb4''),
    (''utf8mb4_turkish_ci'', ''utf8mb4''), (''utf8mb4_czech_ci'', ''utf8mb4''), (''utf8mb4_danish_ci'', ''utf8mb4''),
    (''utf8mb4_lithuanian_ci'', ''utf8mb4''), (''utf8mb4_slovak_ci'', ''utf8mb4''), (''utf8mb4_spanish2_ci'', ''utf8mb4''),
    (''utf8mb4_roman_ci'', ''utf8mb4''), (''utf8mb4_persian_ci'', ''utf8mb4''), (''utf8mb4_esperanto_ci'', ''utf8mb4''),
    (''utf8mb4_hungarian_ci'', ''utf8mb4''), (''utf8mb4_sinhala_ci'', ''utf8mb4''), (''utf8mb4_german2_ci'', ''utf8mb4''),
    (''utf8mb4_croatian_ci'', ''utf8mb4''), (''utf8mb4_unicode_520_ci'', ''utf8mb4''),
    (''utf8mb4_vietnamese_ci'', ''utf8mb4''), (''utf8mb4_0900_ai_ci'', ''utf8mb4''),
    (''utf8mb4_de_pb_0900_ai_ci'', ''utf8mb4''), (''utf8mb4_is_0900_ai_ci'', ''utf8mb4''),
    (''utf8mb4_lv_0900_ai_ci'', ''utf8mb4''), (''utf8mb4_ro_0900_ai_ci'', ''utf8mb4''),
    (''utf8mb4_sl_0900_ai_ci'', ''utf8mb4''), (''utf8mb4_pl_0900_ai_ci'', ''utf8mb4''),
    (''utf8mb4_et_0900_ai_ci'', ''utf8mb4''), (''utf8mb4_es_0900_ai_ci'', ''utf8mb4''),
    (''utf8mb4_sv_0900_ai_ci'', ''utf8mb4''), (''utf8mb4_tr_0900_ai_ci'', ''utf8mb4''),
    (''utf8mb4_cs_0900_ai_ci'', ''utf8mb4''), (''utf8mb4_da_0900_ai_ci'', ''utf8mb4''),
    (''utf8mb4_lt_0900_ai_ci'', ''utf8mb4''), (''utf8mb4_sk_0900_ai_ci'', ''utf8mb4''),
    (''utf8mb4_es_trad_0900_ai_ci'', ''utf8mb4''), (''utf8mb4_la_0900_ai_ci'', ''utf8mb4''),
    (''utf8mb4_eo_0900_ai_ci'', ''utf8mb4''), (''utf8mb4_hu_0900_ai_ci'', ''utf8mb4''),
    (''utf8mb4_hr_0900_ai_ci'', ''utf8mb4''), (''utf8mb4_vi_0900_ai_ci'', ''utf8mb4''),
    (''utf8mb4_0900_as_cs'', ''utf8mb4''), (''utf8mb4_de_pb_0900_as_cs'', ''utf8mb4''),
    (''utf8mb4_is_0900_as_cs'', ''utf8mb4''), (''utf8mb4_lv_0900_as_cs'', ''utf8mb4''),
    (''utf8mb4_ro_0900_as_cs'', ''utf8mb4''), (''utf8mb4_sl_0900_as_cs'', ''utf8mb4''),
    (''utf8mb4_pl_0900_as_cs'', ''utf8mb4''), (''utf8mb4_et_0900_as_cs'', ''utf8mb4''),
    (''utf8mb4_es_0900_as_cs'', ''utf8mb4''), (''utf8mb4_sv_0900_as_cs'', ''utf8mb4''),
    (''utf8mb4_tr_0900_as_cs'', ''utf8mb4''), (''utf8mb4_cs_0900_as_cs'', ''utf8mb4''),
    (''utf8mb4_da_0900_as_cs'', ''utf8mb4''), (''utf8mb4_lt_0900_as_cs'', ''utf8mb4''),
    (''utf8mb4_sk_0900_as_cs'', ''utf8mb4''), (''utf8mb4_es_trad_0900_as_cs'', ''utf8mb4''),
    (''utf8mb4_la_0900_as_cs'', ''utf8mb4''), (''utf8mb4_eo_0900_as_cs'', ''utf8mb4''),
    (''utf8mb4_hu_0900_as_cs'', ''utf8mb4''), (''utf8mb4_hr_0900_as_cs'', ''utf8mb4''),
    (''utf8mb4_vi_0900_as_cs'', ''utf8mb4''), (''utf8mb4_ja_0900_as_cs'', ''utf8mb4''),
    (''utf8mb4_ja_0900_as_cs_ks'', ''utf8mb4''), (''utf8mb4_0900_as_ci'', ''utf8mb4''),
    (''utf8mb4_ru_0900_ai_ci'', ''utf8mb4''), (''utf8mb4_ru_0900_as_cs'', ''utf8mb4''),
    (''utf8mb4_zh_0900_as_cs'', ''utf8mb4''), (''utf8mb4_0900_bin'', ''utf8mb4'')]"

definition characterSetDescriptions :: "(string \<times> string) list" where
  "characterSetDescriptions = [
    (''armscii8'', ''ARMSCII-8 Armenian''), (''ascii'', ''US ASCII''), (''big5'', ''Big5 Traditional Chinese''),
    (''binary'', ''Binary pseudo charset''), (''cp1250'', ''Windows Central European''), (''cp1251'', ''Windows Cyrillic''),
    (''cp1256'', ''Windows Arabic''), (''cp1257'', ''Windows Baltic''), (''cp850'', ''DOS West European''),
    (''cp852'', ''DOS Central European''), (''cp866'', ''DOS Russian''), (''cp932'', ''SJIS for Windows Japanese''),
    (''dec8'', ''DEC West European''), (''eucjpms'', ''UJIS for Windows Japanese''), (''euckr'', ''EUC-KR Korean''),
    (''gb18030'', ''China National Standard GB18030''), (''gb2312'', ''GB2312 Simplified Chinese''),
    (''gbk'', ''GBK Simplified Chinese''), (''geostd8'', ''GEOSTD8 Georgian''), (''greek'', ''ISO 8859-7 Greek''),
    (''hebrew'', ''ISO 8859-8 Hebrew''), (''hp8'', ''HP West European''), (''keybcs2'', ''DOS Kamenicky Czech-Slovak''),
    (''koi8r'', ''KOI8-R Relcom Russian''), (''koi8u'', ''KOI8-U Ukrainian''), (''latin1'', ''cp1252 West European''),
    (''latin2'', ''ISO 8859-2 Central European''), (''latin5'', ''ISO 8859-9 Turkish''),
    (''latin7'', ''ISO 8859-13 Baltic''), (''macce'', ''Mac Central European''), (''macroman'', ''Mac West European''),
    (''sjis'', ''Shift-JIS Japanese''), (''swe7'', ''7bit Swedish''), (''tis620'', ''TIS620 Thai''),
    (''ucs2'', ''UCS-2 Unicode''), (''ujis'', ''EUC-JP Japanese''), (''utf16'', ''UTF-16 Unicode''),
    (''utf16le'', ''UTF-16LE Unicode''), (''utf32'', ''UTF-32 Unicode''), (''utf8mb3'', ''UTF-8 Unicode''),
    (''utf8mb4'', ''UTF-8 Unicode'')]"

definition characterSetMaxLengths :: "(string \<times> int) list" where
  "characterSetMaxLengths = [
    (''armscii8'', 1), (''ascii'', 1), (''big5'', 2), (''binary'', 1), (''cp1250'', 1), (''cp1251'', 1), (''cp1256'', 1),
    (''cp1257'', 1), (''cp850'', 1), (''cp852'', 1), (''cp866'', 1), (''cp932'', 2), (''dec8'', 1), (''eucjpms'', 3),
    (''euckr'', 2), (''gb18030'', 4), (''gb2312'', 2), (''gbk'', 2), (''geostd8'', 1), (''greek'', 1), (''hebrew'', 1),
    (''hp8'', 1), (''keybcs2'', 1), (''koi8r'', 1), (''koi8u'', 1), (''latin1'', 1), (''latin2'', 1), (''latin5'', 1),
    (''latin7'', 1), (''macce'', 1), (''macroman'', 1), (''sjis'', 2), (''swe7'', 1), (''tis620'', 1), (''ucs2'', 2),
    (''ujis'', 3), (''utf16'', 4), (''utf16le'', 4), (''utf32'', 4), (''utf8mb3'', 3), (''utf8mb4'', 4)]"

section \<open>Lookups\<close>

definition found :: "'a option \<Rightarrow> 'a res" where
  "found x = (case x of Some y \<Rightarrow> Ok y | None \<Rightarrow> Panic)"

definition DefaultCollation :: "string \<Rightarrow> string res" where
  "DefaultCollation cs = found (map_of characterSetDefaults cs)"

definition BinaryCollation :: "string \<Rightarrow> string res" where
  "BinaryCollation cs = found (map_of characterSetDefaultBinaryColl cs)"

definition Description :: "string \<Rightarrow> string res" where
  "Description cs = found (map_of characterSetDescriptions cs)"

definition MaxLength :: "string \<Rightarrow> int res" where
  "MaxLength cs = found (map_of characterSetMaxLengths cs)"

definition CharacterSet :: "string \<Rightarrow> string res" where
  "CharacterSet c = found (map_of collationToCharacterSet c)"

definition WorksWithCharacterSet :: "string \<Rightarrow> string \<Rightarrow> bool res" where
  "WorksWithCharacterSet c cs = rbind (CharacterSet c) (\<lambda>x. Ok (x = cs))"

definition default_name :: string where
  "default_name = ''utf8mb4_0900_ai_ci''"

text \<open>On an error the parsers also return a default, which no caller uses.\<close>

definition ParseCharacterSet :: "string \<Rightarrow> string res" where
  "ParseCharacterSet str =
     (case map_of characterSets str of
        Some cs \<Rightarrow> Ok cs
      | None \<Rightarrow> rbind (CharacterSet default_name) (\<lambda>_. Err (TypeErr (ErrCharacterSetNotSupported str))))"

text \<open>An absent name is a nil pointer or the empty string.\<close>

definition given :: "string option \<Rightarrow> string option" where
  "given s = (case s of Some [] \<Rightarrow> None | _ \<Rightarrow> s)"

definition ParseCollation :: "string option \<Rightarrow> string option \<Rightarrow> bool \<Rightarrow> string res" where
  "ParseCollation characterSetStr collationStr binaryAttribute =
     (case given characterSetStr of
        None \<Rightarrow>
          (case given collationStr of
             None \<Rightarrow> if binaryAttribute then rbind (CharacterSet default_name) BinaryCollation else Ok default_name
           | Some c \<Rightarrow>
               (case map_of collations c of
                  Some coll \<Rightarrow> if binaryAttribute then rbind (CharacterSet coll) BinaryCollation else Ok coll
                | None \<Rightarrow> Err (TypeErr (ErrCollationNotSupported c))))
      | Some s \<Rightarrow>
          rbind (ParseCharacterSet s) (\<lambda>cs.
            case given collationStr of
              None \<Rightarrow> if binaryAttribute then BinaryCollation cs else DefaultCollation cs
            | Some c \<Rightarrow>
                (case map_of collations c of
                   None \<Rightarrow> Err (TypeErr (ErrCollationNotSupported c))
                 | Some coll \<Rightarrow> rbind (WorksWithCharacterSet coll cs) (\<lambda>ok.
                     if \<not> ok then Err (ErrOther ''not a valid character set for the collation'') else Ok coll))))"

section \<open>The tables fit together\<close>

text \<open>
  The name of a collation starts with the name of its character set, up to the first underscore, and every table lists the
  character sets and their collations in the same order. Each of these facts is checked in one pass over the tables.
\<close>

definition charset_part :: "string \<Rightarrow> string" where
  "charset_part c = takeWhile (\<lambda>x. x \<noteq> CHR ''_'') c"

fun in_order :: "'a list \<Rightarrow> 'a list \<Rightarrow> bool" where
  "in_order [] ys = True"
| "in_order (x # xs) [] = False"
| "in_order (x # xs) (y # ys) = (if x = y then in_order xs ys else in_order (x # xs) ys)"

lemma in_order_subset: "in_order xs ys \<Longrightarrow> set xs \<subseteq> set ys"
  by (induction xs ys rule: in_order.induct) (auto split: if_splits)

lemma table_names:
  "map fst collationToCharacterSet = collation_names" "map fst characterSetDefaults = charset_names"
  "map fst characterSetDefaultBinaryColl = charset_names" "map fst characterSetMaxLengths = charset_names"
  "map fst characterSetDescriptions = charset_names"
  by (simp_all add: collationToCharacterSet_def collation_names_def characterSetDefaults_def charset_names_def
      characterSetDefaultBinaryColl_def characterSetMaxLengths_def characterSetDescriptions_def)

lemma charset_parts:
  "list_all (\<lambda>(c, cs). charset_part c = cs) collationToCharacterSet"
  "list_all (\<lambda>(cs, c). charset_part c = cs) characterSetDefaults"
  "list_all (\<lambda>(cs, c). charset_part c = cs) characterSetDefaultBinaryColl"
  by (simp_all add: charset_part_def collationToCharacterSet_def characterSetDefaults_def characterSetDefaultBinaryColl_def)

lemma tables_in_order:
  "in_order (map snd characterSetDefaults) collation_names"
  "in_order (map snd characterSetDefaultBinaryColl) collation_names"
  "in_order (map (\<lambda>c. ''utf8mb3'' @ c) utf8_names) collation_names"
  "in_order (remdups_adj (map snd collationToCharacterSet)) charset_names"
  by code_simp+

lemma map_of_name: "k \<in> set (map fst t) \<Longrightarrow> \<exists>v. map_of t k = Some v \<and> (k, v) \<in> set t"
  by (induction t) auto

lemma collation_charset:
  assumes "c \<in> set collation_names"
  shows "CharacterSet c = Ok (charset_part c) \<and> charset_part c \<in> set charset_names"
proof -
  obtain cs where cs: "map_of collationToCharacterSet c = Some cs" "(c, cs) \<in> set collationToCharacterSet"
    using map_of_name assms table_names(1) by metis
  then have "cs \<in> set (remdups_adj (map snd collationToCharacterSet))" by force
  with in_order_subset [OF tables_in_order(4)] have "cs \<in> set charset_names" by blast
  moreover have "cs = charset_part c" using cs(2) charset_parts(1) by (auto simp: list_all_iff)
  ultimately show ?thesis using cs(1) by (simp add: CharacterSet_def found_def)
qed

lemma charset_collations:
  assumes "cs \<in> set charset_names"
  shows "\<exists>d \<in> set collation_names. DefaultCollation cs = Ok d \<and> charset_part d = cs"
    and "\<exists>d \<in> set collation_names. BinaryCollation cs = Ok d \<and> charset_part d = cs"
    and "\<exists>n. MaxLength cs = Ok n" and "\<exists>s. Description cs = Ok s"
proof -
  obtain d where d: "map_of characterSetDefaults cs = Some d" "(cs, d) \<in> set characterSetDefaults"
    using map_of_name assms table_names(2) by metis
  then have "d \<in> set collation_names" using in_order_subset [OF tables_in_order(1)] by force
  with d charset_parts(2) show "\<exists>d \<in> set collation_names. DefaultCollation cs = Ok d \<and> charset_part d = cs"
    by (auto simp: DefaultCollation_def found_def list_all_iff)
  obtain b where b: "map_of characterSetDefaultBinaryColl cs = Some b" "(cs, b) \<in> set characterSetDefaultBinaryColl"
    using map_of_name assms table_names(3) by metis
  then have "b \<in> set collation_names" using in_order_subset [OF tables_in_order(2)] by force
  with b charset_parts(3) show "\<exists>d \<in> set collation_names. BinaryCollation cs = Ok d \<and> charset_part d = cs"
    by (auto simp: BinaryCollation_def found_def list_all_iff)
  show "\<exists>n. MaxLength cs = Ok n" "\<exists>s. Description cs = Ok s"
    using map_of_name [of cs characterSetMaxLengths] map_of_name [of cs characterSetDescriptions] assms table_names(4,5)
    by (auto simp: MaxLength_def Description_def found_def)
qed

lemma collations_known: "map_of collations c = Some x \<Longrightarrow> x \<in> set collation_names"
proof -
  assume "map_of collations c = Some x"
  then have "x \<in> snd ` set collations" by (force dest: map_of_SomeD)
  then show ?thesis using in_order_subset [OF tables_in_order(3)] by (auto simp: collations_def image_image)
qed

lemma charsets_known: "map_of characterSets s = Some cs \<Longrightarrow> cs \<in> set charset_names"
proof -
  have "''utf8mb3'' \<in> set charset_names" by (simp add: charset_names_def)
  moreover have "map_of characterSets s = Some cs \<Longrightarrow> cs \<in> snd ` set characterSets" by (force dest: map_of_SomeD)
  ultimately show "map_of characterSets s = Some cs \<Longrightarrow> cs \<in> set charset_names" by (auto simp: characterSets_def)
qed

lemma default_known: "default_name \<in> set collation_names"
  by (simp add: default_name_def collation_names_def)

lemma ParseCharacterSet_cases:
  "(\<exists>cs \<in> set charset_names. ParseCharacterSet s = Ok cs) \<or> ParseCharacterSet s = Err (TypeErr (ErrCharacterSetNotSupported s))"
  using charsets_known [of s] collation_charset [OF default_known]
  by (cases "map_of characterSets s") (auto simp: ParseCharacterSet_def)

lemma binary_known: "x \<in> set collation_names \<Longrightarrow> \<exists>d \<in> set collation_names. rbind (CharacterSet x) BinaryCollation = Ok d"
  using collation_charset [of x] charset_collations(2) [of "charset_part x"] by auto

lemma ParseCollation_without_charset:
  assumes "given cs = None"
  shows "(\<exists>e. ParseCollation cs c b = Err e) \<or> (\<exists>x \<in> set collation_names. ParseCollation cs c b = Ok x)"
proof (cases "given c")
  case None
  with assms binary_known [OF default_known] default_known show ?thesis by (auto simp: ParseCollation_def)
next
  case n: (Some n)
  show ?thesis
  proof (cases "map_of collations n")
    case (Some x)
    with assms n binary_known [OF collations_known [OF Some]] collations_known [OF Some] show ?thesis
      by (auto simp: ParseCollation_def)
  qed (use assms n in \<open>simp add: ParseCollation_def\<close>)
qed

lemma ParseCollation_with_charset:
  assumes "given cs = Some s"
  shows "(\<exists>e. ParseCollation cs c b = Err e) \<or>
    (\<exists>x \<in> set collation_names. ParseCollation cs c b = Ok x \<and> ParseCharacterSet s = Ok (charset_part x))"
proof (cases "ParseCharacterSet s")
  case (Ok k)
  then have k: "k \<in> set charset_names" using ParseCharacterSet_cases [of s] by auto
  show ?thesis
  proof (cases "given c")
    case None
    with assms Ok charset_collations(1,2) [OF k] show ?thesis by (auto simp: ParseCollation_def)
  next
    case c: (Some n)
    show ?thesis
    proof (cases "map_of collations n")
      case None
      with c assms Ok show ?thesis by (auto simp: ParseCollation_def)
    next
      case x: (Some x)
      from collation_charset [OF collations_known [OF x]] collations_known [OF x] x c assms Ok show ?thesis
        by (auto simp: ParseCollation_def WorksWithCharacterSet_def)
    qed
  qed
qed (use ParseCharacterSet_cases [of s] assms in \<open>auto simp: ParseCollation_def\<close>)

text \<open>(C26) Parsing a character set and a collation never panics: every lookup in the tables succeeds. What is returned is a known
  collation with a character set and a maximum length of a character, and of the character set that was asked for.\<close>

theorem parse_collation:
  "ParseCollation cs c b \<noteq> Panic \<and> (\<forall>x. ParseCollation cs c b = Ok x \<longrightarrow>
     x \<in> set collation_names \<and> CharacterSet x = Ok (charset_part x) \<and> (\<exists>n. MaxLength (charset_part x) = Ok n)
     \<and> (\<forall>s. given cs = Some s \<longrightarrow> ParseCharacterSet s = Ok (charset_part x)))"
proof -
  have "(\<exists>e. ParseCollation cs c b = Err e) \<or> (\<exists>x \<in> set collation_names. ParseCollation cs c b = Ok x \<and>
      (\<forall>s. given cs = Some s \<longrightarrow> ParseCharacterSet s = Ok (charset_part x)))"
    using ParseCollation_without_charset [of cs c b] ParseCollation_with_charset [of cs _ c b] by (cases "given cs") auto
  then show ?thesis
  proof (elim disjE exE bexE conjE)
    fix x
    assume x: "x \<in> set collation_names" "ParseCollation cs c b = Ok x"
      "\<forall>s. given cs = Some s \<longrightarrow> ParseCharacterSet s = Ok (charset_part x)"
    have k: "CharacterSet x = Ok (charset_part x)" "charset_part x \<in> set charset_names"
      using collation_charset [OF x(1)] by simp_all
    with x charset_collations(3) [OF k(2)] show ?thesis by simp
  qed simp
qed

theorem parse_collation_witness:
  "ParseCollation (Some ''latin1'') None True = Ok ''latin1_bin'' \<and> MaxLength (charset_part ''latin1_bin'') \<noteq> Panic"
proof -
  have e: "ParseCollation (Some ''latin1'') None True = Ok ''latin1_bin''" by code_simp
  with parse_collation [of "Some ''latin1''" None True] show ?thesis by auto
qed

end
