(* ===== verification/Parse_Readers.thy ===== *)
theory Parse_Readers
  imports Go_Strings
begin

text \<open>
  The readers of the hand-written parser (\<^verbatim>\<open>sql/parse/util.go\<close>). A \<^verbatim>\<open>parseFunc\<close> consumes a \<^verbatim>\<open>bufio.Reader\<close> and may fail; here
  it maps the text still to be read to the text left over and the result, since the readers that try something and go on need
  the text left over after a failure. The variables a reader fills are part of its result. \<^verbatim>\<open>ReadRune\<close> followed by
  \<^verbatim>\<open>UnreadRune\<close> leaves the text as it was. The classes of \<^verbatim>\<open>unicode\<close> are modelled on ASCII.
\<close>

section \<open>Readers\<close>

type_synonym 'a reader = "string \<Rightarrow> string \<times> 'a res"

definition pbind :: "'a reader \<Rightarrow> ('a \<Rightarrow> 'b reader) \<Rightarrow> 'b reader" where
  "pbind m f r = (case m r of (r', Ok x) \<Rightarrow> f x r' | (r', Err e) \<Rightarrow> (r', Err e) | (r', Panic) \<Rightarrow> (r', Panic))"

definition pret :: "'a \<Rightarrow> 'a reader" where
  "pret x r = (r, Ok x)"

abbreviation pseq :: "unit reader \<Rightarrow> 'a reader \<Rightarrow> 'a reader" where
  "pseq m n \<equiv> pbind m (\<lambda>_. n)"

text \<open>\<^verbatim>\<open>parseFuncs.exec\<close> of steps that fill nothing; a step that fills a variable is bound with \<open>pbind\<close>.\<close>

fun exec :: "unit reader list \<Rightarrow> unit reader" where
  "exec [] = pret ()"
| "exec (fn # fns) = pseq fn (exec fns)"

definition unexpected :: gerror where
  "unexpected = ParseErr ErrUnexpectedSyntax"

definition is_letter :: "char \<Rightarrow> bool" where
  "is_letter c = (let n = of_char c :: nat in 65 \<le> n \<and> n \<le> 90 \<or> 97 \<le> n \<and> n \<le> 122)"

definition is_space :: "char \<Rightarrow> bool" where
  "is_space c = (let n = of_char c :: nat in 9 \<le> n \<and> n \<le> 13 \<or> n = 32)"

definition ident_char :: "char \<Rightarrow> bool" where
  "ident_char c = (is_letter c \<or> is_digit c \<or> c = CHR ''_'')"

definition ReadRune :: "char reader" where
  "ReadRune r = (case r of [] \<Rightarrow> ([], Err EOF) | c # cs \<Rightarrow> (cs, Ok c))"

definition expectRune :: "char \<Rightarrow> unit reader" where
  "expectRune x r = (case r of [] \<Rightarrow> ([], Err EOF) | c # cs \<Rightarrow> (cs, if c \<noteq> x then Err unexpected else Ok ()))"

definition expectQuote :: "unit reader" where
  "expectQuote = expectRune (CHR 0x60)"

fun readSpaces :: "string \<Rightarrow> string \<times> nat" where
  "readSpaces [] = ([], 0)"
| "readSpaces (c # cs) = (if \<not> is_space c then (c # cs, 0) else (case readSpaces cs of (r, n) \<Rightarrow> (r, Suc n)))"

definition skipSpaces :: "unit reader" where
  "skipSpaces r = (fst (readSpaces r), Ok ())"

definition checkEOF :: "unit reader" where
  "checkEOF r = (case r of [] \<Rightarrow> ([], Ok ()) | c # cs \<Rightarrow> (cs, Err unexpected))"

text \<open>\<^verbatim>\<open>optional\<close>: the end of the text and unexpected syntax end the steps without an error. The value is what the steps filled
  until then.\<close>

definition optional :: "(string \<Rightarrow> string \<times> 'a \<times> unit res) \<Rightarrow> 'a reader" where
  "optional steps r = (case steps r of
     (r', x, Ok _) \<Rightarrow> (r', Ok x)
   | (r', x, Err e) \<Rightarrow> (r', if e = EOF \<or> e = unexpected then Ok x else Err e)
   | (r', x, Panic) \<Rightarrow> (r', Panic))"

section \<open>Identifiers\<close>

definition readLetter :: "string reader" where
  "readLetter r = (case r of [] \<Rightarrow> ([], Ok []) | c # cs \<Rightarrow> if \<not> is_letter c then (r, Ok []) else (cs, Ok [c]))"

definition readLetterOrPoint :: "string reader" where
  "readLetterOrPoint r =
     (case r of [] \<Rightarrow> ([], Ok []) | c # cs \<Rightarrow> if \<not> is_letter c \<and> c \<noteq> CHR ''.'' then (r, Ok []) else (cs, Ok [c]))"

definition readValidIdentRune :: "char reader" where
  "readValidIdentRune r = (case r of [] \<Rightarrow> ([], Err EOF) | c # cs \<Rightarrow> if \<not> ident_char c then (r, Err EOF) else (cs, Ok c))"

definition readValidScopedIdentRune :: "char \<Rightarrow> char reader" where
  "readValidScopedIdentRune separator r =
     (case r of [] \<Rightarrow> ([], Err EOF) | c # cs \<Rightarrow> if \<not> ident_char c \<and> c \<noteq> separator then (r, Err EOF) else (cs, Ok c))"

text \<open>\<^verbatim>\<open>Peek(2)\<close> fails with \<^verbatim>\<open>io.EOF\<close> when fewer than two bytes are left.\<close>

definition readValidQuotedIdentRune :: "char reader" where
  "readValidQuotedIdentRune r =
     (case r of
        a # b # cs \<Rightarrow>
          if a = CHR 0x60 \<and> b = CHR 0x60 then (cs, Ok (CHR 0x60))
          else if a = CHR 0x60 then (r, Err EOF)
          else (b # cs, Ok a)
      | _ \<Rightarrow> (r, Err EOF))"

text \<open>The loops that append runes to a buffer until the reader of a rune reports \<^verbatim>\<open>io.EOF\<close>.\<close>

lemma readValidIdentRune_shorter: "readValidIdentRune r = (r', Ok c) \<Longrightarrow> length r' < length r"
  by (auto simp: readValidIdentRune_def split: list.splits if_splits)

lemma readValidQuotedIdentRune_shorter: "readValidQuotedIdentRune r = (r', Ok c) \<Longrightarrow> length r' < length r"
  by (auto simp: readValidQuotedIdentRune_def split: list.splits if_splits)

function ident_loop :: "string \<Rightarrow> string reader" where
  "ident_loop buf r =
     (case readValidIdentRune r of
        (r', Ok c) \<Rightarrow> ident_loop (buf @ [c]) r'
      | (r', Err e) \<Rightarrow> (r', if e = EOF then Ok buf else Err e)
      | (r', Panic) \<Rightarrow> (r', Panic))"
  by auto
termination by (relation "measure (\<lambda>(buf, r). length r)") (simp_all, metis readValidIdentRune_shorter)

function quoted_loop :: "string \<Rightarrow> string reader" where
  "quoted_loop buf r =
     (case readValidQuotedIdentRune r of
        (r', Ok c) \<Rightarrow> quoted_loop (buf @ [c]) r'
      | (r', Err e) \<Rightarrow> (r', if e = EOF then Ok buf else Err e)
      | (r', Panic) \<Rightarrow> (r', Panic))"
  by auto
termination by (relation "measure (\<lambda>(buf, r). length r)") (simp_all, metis readValidQuotedIdentRune_shorter)

declare ident_loop.simps [simp del] quoted_loop.simps [simp del]

definition readIdent :: "string reader" where
  "readIdent = pbind readLetter (\<lambda>b. pbind (ident_loop b) (\<lambda>s. pret (ToLower s)))"

definition readQuotedIdent :: "string reader" where
  "readQuotedIdent =
     pbind readValidQuotedIdentRune (\<lambda>c. pbind (quoted_loop [c]) (\<lambda>s. pret (ToLower s)))"

fun ident_list_loop :: "char \<Rightarrow> string list \<Rightarrow> string \<Rightarrow> string \<Rightarrow> string \<times> string list" where
  "ident_list_loop sep idents buf [] = ([], if buf = [] then idents else idents @ [buf])"
| "ident_list_loop sep idents buf (c # cs) =
     (if \<not> ident_char c \<and> c \<noteq> sep then (c # cs, if buf = [] then idents else idents @ [buf])
      else if c = sep then ident_list_loop sep (idents @ [buf]) [] cs
      else ident_list_loop sep idents (buf @ [c]) cs)"

definition readIdentList :: "char \<Rightarrow> string list reader" where
  "readIdentList sep = pbind readLetter (\<lambda>b r. case ident_list_loop sep [] b r of (r', idents) \<Rightarrow> (r', Ok idents))"

definition readQuotableIdent :: "string reader" where
  "readQuotableIdent r =
     (case r of
        [] \<Rightarrow> ([], Err EOF)
      | c # _ \<Rightarrow>
          if c = CHR 0x60
          then pseq expectQuote (pbind readQuotedIdent (\<lambda>s. pseq expectQuote (pret s))) r
          else readIdent r)"

definition expect :: "string \<Rightarrow> unit reader" where
  "expect expected = pbind readIdent (\<lambda>ident r. (r, if ident = expected then Ok () else Err unexpected))"

definition oneOf :: "string list \<Rightarrow> unit reader" where
  "oneOf options = pbind readIdent (\<lambda>ident r. (r, if ident \<in> ToLower ` set options then Ok () else Err unexpected))"

definition readRemaining :: "string reader" where
  "readRemaining r = ([], Ok r)"

section \<open>What the readers read\<close>

lemma pbind_Ok [simp]: "m r = (r', Ok x) \<Longrightarrow> pbind m f r = f x r'"
  by (simp add: pbind_def)

lemma pbind_eq_Ok: "pbind m f r = (r', Ok y) \<longleftrightarrow> (\<exists>s x. m r = (s, Ok x) \<and> f x s = (r', Ok y))"
  by (auto simp: pbind_def split: prod.splits res.splits)

lemma pret_simp [simp]: "pret x r = (r, Ok x)"
  by (simp add: pret_def)

lemma readSpaces_eq: "readSpaces r = (dropWhile is_space r, length (takeWhile is_space r))"
  by (induction r) auto

lemma skipSpaces_eq [simp]: "skipSpaces r = (dropWhile is_space r, Ok ())"
  by (simp add: skipSpaces_def readSpaces_eq)

lemma ident_loop_eq: "ident_loop buf r = (dropWhile ident_char r, Ok (buf @ takeWhile ident_char r))"
proof (induction r arbitrary: buf)
  case (Cons c r)
  then show ?case by (simp add: ident_loop.simps [of buf "c # r"] readValidIdentRune_def)
next
  case Nil
  then show ?case by (simp add: ident_loop.simps [of buf "[]"] readValidIdentRune_def)
qed

text \<open>An identifier is the longest run of letters, digits and underscores, possibly empty, in lower case.\<close>

lemma readIdent_eq [simp]: "readIdent r = (dropWhile ident_char r, Ok (ToLower (takeWhile ident_char r)))"
  by (auto simp: readIdent_def pbind_def readLetter_def ident_loop_eq ident_char_def split: list.splits)

lemma expect_eq [simp]:
  "expect x r = (dropWhile ident_char r, if ToLower (takeWhile ident_char r) = x then Ok () else Err unexpected)"
  by (simp add: expect_def)

lemma oneOf_eq [simp]:
  "oneOf xs r = (dropWhile ident_char r, if ToLower (takeWhile ident_char r) \<in> ToLower ` set xs then Ok () else Err unexpected)"
  by (simp add: oneOf_def)

lemma length_dropWhile_less_eq: "length (dropWhile P xs) \<le> length xs"
  by (induction xs) auto

lemma ident_list_loop_shorter: "length (fst (ident_list_loop sep idents buf r)) \<le> length r"
  by (induction sep idents buf r rule: ident_list_loop.induct) auto

lemma readIdentList_Ok: "\<exists>r' idents. readIdentList sep r = (r', Ok idents) \<and> length r' \<le> length r"
proof -
  have "\<exists>r1 b. readLetter r = (r1, Ok b) \<and> length r1 \<le> length r"
    by (cases r) (auto simp: readLetter_def)
  then obtain r1 b where "readLetter r = (r1, Ok b)" "length r1 \<le> length r" by blast
  with ident_list_loop_shorter [of sep "[]" b r1] show ?thesis
    by (auto simp: readIdentList_def split: prod.splits)
qed

lemma readIdentList_shorter: "readIdentList sep r = (r', Ok x) \<Longrightarrow> length r' \<le> length r"
  using readIdentList_Ok [of sep r] by auto

lemma item_shorter:
  assumes "pseq skipSpaces (pbind m (\<lambda>s. pseq skipSpaces (pret s))) r = (r', Ok x)"
    "\<And>r r' x. m r = (r', Ok x) \<Longrightarrow> length r' \<le> length r"
  shows "length r' \<le> length r"
  using assms(1) length_dropWhile_less_eq [of is_space] by (auto simp: pbind_eq_Ok dest!: assms(2) intro: le_trans)

section \<open>Optional text and lists\<close>

definition maybe :: "string \<Rightarrow> bool reader" where
  "maybe str r =
     (let n = length str in
      if length r < n then (r, Ok False)
      else if ToLower (take n r) = str then (drop n r, Ok True) else (r, Ok False))"

definition unreadString :: "string \<Rightarrow> string \<Rightarrow> string" where
  "unreadString str r = str @ r"

fun multiMaybe_loop :: "string \<Rightarrow> string list \<Rightarrow> bool reader" where
  "multiMaybe_loop read [] r = (r, Ok True)"
| "multiMaybe_loop read (str # strs) r =
     (case maybe str r of
        (r', Ok True) \<Rightarrow> (case readSpaces r' of (r'', n) \<Rightarrow> multiMaybe_loop (read @ str @ replicate n (CHR '' '')) strs r'')
      | (r', Ok False) \<Rightarrow> (unreadString read r', Ok False)
      | (r', Err e) \<Rightarrow> (r', Err e)
      | (r', Panic) \<Rightarrow> (r', Panic))"

definition multiMaybe :: "string list \<Rightarrow> bool reader" where
  "multiMaybe = multiMaybe_loop []"

text \<open>A list is filled item by item, also when an error follows: the result has the items read so far.\<close>

function list_items :: "char \<Rightarrow> char \<Rightarrow> string list \<Rightarrow> string \<Rightarrow> string \<times> string list \<times> unit res" where
  "list_items sep closing items r =
     (case pseq skipSpaces (pbind readIdent (\<lambda>s. pseq skipSpaces (pret s))) r of
        (r', Err e) \<Rightarrow> (r', items, Err e)
      | (r', Panic) \<Rightarrow> (r', items, Panic)
      | (r', Ok item) \<Rightarrow>
          (case r' of
             [] \<Rightarrow> ([], items, Err EOF)
           | c # cs \<Rightarrow>
               if c = closing then (cs, items @ [item], Ok ())
               else if c = sep then list_items sep closing (items @ [item]) cs
               else (cs, items, Err unexpected)))"
  by auto
termination
proof (relation "measure (\<lambda>(s, c, items, r). length r)", goal_cases)
  case (2 sep closing items r r' res item c cs)
  then have "pseq skipSpaces (pbind readIdent (\<lambda>s. pseq skipSpaces (pret s))) r = (c # cs, Ok item)" by simp
  from item_shorter [OF this] length_dropWhile_less_eq show ?case by fastforce
qed simp

declare list_items.simps [simp del]

definition maybeList :: "char \<Rightarrow> char \<Rightarrow> char \<Rightarrow> string list \<Rightarrow> string \<Rightarrow> string \<times> string list \<times> unit res" where
  "maybeList opening sep closing items r =
     (case r of
        [] \<Rightarrow> ([], items, Err EOF)
      | c # cs \<Rightarrow> if c \<noteq> opening then (r, items, Ok ()) else list_items sep closing items cs)"

record qualifiedName =
  qn_qualifier :: string
  qn_name :: string

function readQualifiedIdentifierList :: "qualifiedName list \<Rightarrow> string \<Rightarrow> string \<times> qualifiedName list \<times> unit res" where
  "readQualifiedIdentifierList names r =
     (case pseq skipSpaces (pbind (readIdentList (CHR ''.'')) (\<lambda>s. pseq skipSpaces (pret s))) r of
        (r', Err e) \<Rightarrow> (r', names, Err e)
      | (r', Panic) \<Rightarrow> (r', names, Panic)
      | (r', Ok item) \<Rightarrow>
          if length item < 1 \<or> length item > 2 then (r', names, Err unexpected)
          else let qn = (if length item = 1 then \<lparr> qn_qualifier = [], qn_name = item ! 0 \<rparr>
                         else \<lparr> qn_qualifier = item ! 0, qn_name = item ! 1 \<rparr>);
                   names' = names @ [qn]
            in (case r' of
                  [] \<Rightarrow> ([], names', Ok ())
                | c # cs \<Rightarrow>
                    if c = CHR '','' then readQualifiedIdentifierList names' cs else (r', names', Ok ())))"
  by auto
termination
proof (relation "measure (\<lambda>(names, r). length r)", goal_cases)
  case (2 names r r' res item qn names' c cs)
  then have "pseq skipSpaces (pbind (readIdentList (CHR ''.'')) (\<lambda>s. pseq skipSpaces (pret s))) r = (c # cs, Ok item)" by simp
  then have "length (c # cs) \<le> length r" by (rule item_shorter) (rule readIdentList_shorter)
  then show ?case by simp
qed simp

declare readQualifiedIdentifierList.simps [simp del]

section \<open>Reading what was written\<close>

definition starts :: "(char \<Rightarrow> bool) \<Rightarrow> string \<Rightarrow> bool" where
  "starts P r = (case r of [] \<Rightarrow> False | c # _ \<Rightarrow> P c)"

lemma starts_simps [simp]: "\<not> starts P []" "starts P (c # cs) \<longleftrightarrow> P c"
  by (simp_all add: starts_def)

lemma starts_append [simp]: "s \<noteq> [] \<Longrightarrow> starts P (s @ t) \<longleftrightarrow> starts P s"
  by (cases s) auto

lemma while_append:
  "\<forall>c \<in> set s. P c \<Longrightarrow> \<not> starts P r \<Longrightarrow> takeWhile P (s @ r) = s \<and> dropWhile P (s @ r) = r"
  by (induction s) (auto simp: starts_def split: list.splits)

lemma dropWhile_id [simp]: "\<not> starts P r \<Longrightarrow> dropWhile P r = r"
  by (cases r) auto

lemma takeWhile_none: "\<not> starts P r \<Longrightarrow> takeWhile P r = []"
  by (cases r) auto

lemma not_ident_space: "is_space c \<Longrightarrow> \<not> ident_char c"
  by (auto simp: is_space_def ident_char_def is_letter_def is_digit_def Let_def)

definition ident :: "string \<Rightarrow> bool" where
  "ident s \<longleftrightarrow> s \<noteq> [] \<and> (\<forall>c \<in> set s. ident_char c)"

definition spaces :: "string \<Rightarrow> bool" where
  "spaces s \<longleftrightarrow> (\<forall>c \<in> set s. is_space c)"

lemma ident_starts: "ident s \<Longrightarrow> starts ident_char s \<and> \<not> starts is_space s"
  using not_ident_space by (cases s) (auto simp: ident_def)

lemma dropWhile_spaces: "spaces sp \<Longrightarrow> \<not> starts is_space r \<Longrightarrow> dropWhile is_space (sp @ r) = r"
  using while_append [of sp is_space r] by (simp add: spaces_def)

lemma readIdent_ident: "ident s \<Longrightarrow> \<not> starts ident_char r \<Longrightarrow> readIdent (s @ r) = (r, Ok (ToLower s))"
  using while_append [of s ident_char r] by (simp add: ident_def)

text \<open>An identifier in backquotes, in which a backquote is doubled.\<close>

definition escape :: "string \<Rightarrow> string" where
  "escape s = concat (map (\<lambda>c. if c = CHR 0x60 then [c, c] else [c]) s)"

definition quote_ident :: "string \<Rightarrow> string" where
  "quote_ident s = CHR 0x60 # escape s @ [CHR 0x60]"

lemma quoted_loop_escape:
  assumes "\<not> starts (\<lambda>c. c = CHR 0x60) r"
  shows "quoted_loop buf (escape s @ CHR 0x60 # r) = (CHR 0x60 # r, Ok (buf @ s))"
proof (induction s arbitrary: buf)
  case Nil
  from assms show ?case
    by (cases r) (simp_all add: escape_def quoted_loop.simps [of buf "CHR 0x60 # _"] readValidQuotedIdentRune_def)
next
  case (Cons c s)
  let ?t = "escape s @ CHR 0x60 # r"
  have e: "escape (c # s) @ CHR 0x60 # r = (if c = CHR 0x60 then c # c # ?t else c # ?t)" by (simp add: escape_def)
  obtain d u where u: "?t = d # u" by (cases ?t) auto
  have "readValidQuotedIdentRune (escape (c # s) @ CHR 0x60 # r) = (?t, Ok c)"
    unfolding e u by (simp add: readValidQuotedIdentRune_def)
  with Cons [of "buf @ [c]"] show ?case by (simp add: quoted_loop.simps [of buf "escape (c # s) @ CHR 0x60 # r"])
qed

lemma readQuotedIdent_escape:
  assumes "s \<noteq> []" "\<not> starts (\<lambda>c. c = CHR 0x60) r"
  shows "readQuotedIdent (escape s @ CHR 0x60 # r) = (CHR 0x60 # r, Ok (ToLower s))"
proof -
  obtain c t where s: "s = c # t" using assms(1) by (cases s) auto
  let ?t = "escape t @ CHR 0x60 # r"
  have e: "escape s @ CHR 0x60 # r = (if c = CHR 0x60 then c # c # ?t else c # ?t)" by (simp add: escape_def s)
  obtain d u where u: "?t = d # u" by (cases ?t) auto
  have "readValidQuotedIdentRune (escape s @ CHR 0x60 # r) = (?t, Ok c)"
    unfolding e u by (simp add: readValidQuotedIdentRune_def)
  with quoted_loop_escape [OF assms(2), of "[c]" t] show ?thesis by (simp add: readQuotedIdent_def s)
qed

lemma readQuotableIdent_quoted:
  "s \<noteq> [] \<Longrightarrow> \<not> starts (\<lambda>c. c = CHR 0x60) r \<Longrightarrow> readQuotableIdent (quote_ident s @ r) = (r, Ok (ToLower s))"
  using readQuotedIdent_escape [of s r]
  by (simp add: readQuotableIdent_def quote_ident_def expectQuote_def expectRune_def [of _ "_ # _"] pbind_def)

lemma readQuotableIdent_plain: "ident s \<Longrightarrow> \<not> starts ident_char r \<Longrightarrow> readQuotableIdent (s @ r) = (r, Ok (ToLower s))"
  using readIdent_ident [of s r]
  by (cases s) (auto simp: readQuotableIdent_def ident_def ident_char_def is_letter_def is_digit_def simp del: readIdent_eq)

text \<open>A list in parentheses, with any spaces around the items.\<close>

definition padded :: "string \<times> string \<times> string \<Rightarrow> bool" where
  "padded x = (case x of (a, s, b) \<Rightarrow> spaces a \<and> ident s \<and> spaces b)"

definition pad_text :: "string \<times> string \<times> string \<Rightarrow> string" where
  "pad_text x = (case x of (a, s, b) \<Rightarrow> a @ s @ b)"

definition pad_item :: "string \<times> string \<times> string \<Rightarrow> string" where
  "pad_item x = fst (snd x)"

lemma spaces_starts: "spaces b \<Longrightarrow> \<not> starts P r \<Longrightarrow> (\<And>c. P c \<Longrightarrow> \<not> is_space c) \<Longrightarrow> \<not> starts P (b @ r)"
  by (cases b) (auto simp: spaces_def)

lemma read_padded:
  assumes "padded x" "\<not> starts ident_char r" "\<not> starts is_space r"
  shows "pseq skipSpaces (pbind readIdent (\<lambda>s. pseq skipSpaces (pret s))) (pad_text x @ r) = (r, Ok (ToLower (pad_item x)))"
proof -
  obtain a s b where x: "x = (a, s, b)" "spaces a" "ident s" "spaces b" using assms(1) by (cases x) (auto simp: padded_def)
  have "readIdent (s @ b @ r) = (b @ r, Ok (ToLower s))"
    using x assms(2) spaces_starts [of b ident_char r] not_ident_space by (intro readIdent_ident) auto
  moreover have "\<not> starts is_space (s @ b @ r)" using ident_starts [OF x(3)] x(3) by (simp add: ident_def)
  ultimately show ?thesis using x assms(3)
    by (simp add: pad_text_def pad_item_def dropWhile_spaces pbind_def del: readIdent_eq)
qed

lemma list_items_read:
  assumes "\<not> ident_char sep" "\<not> is_space sep" "\<not> ident_char closing" "\<not> is_space closing" "sep \<noteq> closing"
  shows "items \<noteq> [] \<Longrightarrow> \<forall>x \<in> set items. padded x \<Longrightarrow>
    list_items sep closing got (Join [sep] (map pad_text items) @ closing # r) = (r, got @ map (\<lambda>x. ToLower (pad_item x)) items, Ok ())"
proof (induction items arbitrary: got)
  case (Cons x items)
  show ?case
  proof (cases items)
    case Nil
    with Cons.prems assms read_padded [of x "closing # r"] show ?thesis by (simp add: list_items.simps)
  next
    case (Cons y ys)
    let ?t = "Join [sep] (map pad_text items) @ closing # r"
    have t: "Join [sep] (map pad_text (x # items)) @ closing # r = pad_text x @ sep # ?t" by (simp add: Cons)
    from Cons.IH Cons.prems local.Cons
    have "list_items sep closing (got @ [ToLower (pad_item x)]) ?t = (r, got @ map (\<lambda>x. ToLower (pad_item x)) (x # items), Ok ())"
      by simp
    with read_padded [of x "sep # ?t"] Cons.prems assms show ?thesis
      unfolding t by (simp add: list_items.simps [of sep closing got])
  qed
qed simp

lemma ident_list_loop_ident:
  "\<forall>c \<in> set s. ident_char c \<and> c \<noteq> sep \<Longrightarrow> ident_list_loop sep acc buf (s @ r) = ident_list_loop sep acc (buf @ s) r"
  by (induction s arbitrary: buf) auto

lemma readIdentList_eq:
  "\<not> is_letter sep \<Longrightarrow> readIdentList sep r = (case ident_list_loop sep [] [] r of (r', idents) \<Rightarrow> (r', Ok idents))"
  by (cases r) (auto simp: readIdentList_def readLetter_def ident_char_def pbind_def)

definition qualified_text :: "qualifiedName \<Rightarrow> string" where
  "qualified_text q = (if qn_qualifier q = [] then qn_name q else qn_qualifier q @ ''.'' @ qn_name q)"

definition qualified_ok :: "qualifiedName \<Rightarrow> bool" where
  "qualified_ok q \<longleftrightarrow> ident (qn_name q) \<and> (qn_qualifier q = [] \<or> ident (qn_qualifier q))"

lemma not_ident_point [simp]: "\<not> ident_char (CHR ''.'')" "\<not> is_letter (CHR ''.'')" "\<not> ident_char (CHR '','')" "\<not> is_space (CHR '','')"
  by (simp_all add: ident_char_def is_letter_def is_digit_def is_space_def)

lemma ident_not_point: "ident s \<Longrightarrow> \<forall>c \<in> set s. ident_char c \<and> c \<noteq> CHR ''.''"
  using not_ident_point(1) by (auto simp: ident_def)

lemma readIdentList_qualified:
  assumes "qualified_ok q" "\<not> starts ident_char r" "\<not> starts (\<lambda>c. c = CHR ''.'') r"
  shows "readIdentList (CHR ''.'') (qualified_text q @ r) =
    (r, Ok (if qn_qualifier q = [] then [qn_name q] else [qn_qualifier q, qn_name q]))"
proof -
  have stop: "ident_list_loop (CHR ''.'') acc (qn_name q) r = (r, acc @ [qn_name q])" for acc
    using assms by (cases r) (auto simp: qualified_ok_def ident_def)
  show ?thesis
    using assms(1) stop [of "[]"] stop [of "[qn_qualifier q]"]
      ident_list_loop_ident [OF ident_not_point, of "qn_name q" _ "[]" r]
      ident_list_loop_ident [OF ident_not_point, of "qn_qualifier q" "[]" "[]" "CHR ''.'' # qn_name q @ r"]
    by (auto simp: readIdentList_eq qualified_text_def qualified_ok_def)
qed

definition spaced :: "string \<times> qualifiedName \<times> string \<Rightarrow> bool" where
  "spaced x = (case x of (a, q, b) \<Rightarrow> spaces a \<and> qualified_ok q \<and> spaces b)"

definition spaced_text :: "string \<times> qualifiedName \<times> string \<Rightarrow> string" where
  "spaced_text x = (case x of (a, q, b) \<Rightarrow> a @ qualified_text q @ b)"

lemma read_spaced:
  assumes "spaced (a, q, b)" "\<not> starts ident_char r" "\<not> starts is_space r" "\<not> starts (\<lambda>c. c = CHR ''.'') r"
  shows "pseq skipSpaces (pbind (readIdentList (CHR ''.'')) (\<lambda>s. pseq skipSpaces (pret s))) (spaced_text (a, q, b) @ r) =
    (r, Ok (if qn_qualifier q = [] then [qn_name q] else [qn_qualifier q, qn_name q]))"
proof -
  have x: "spaces a" "qualified_ok q" "spaces b" using assms(1) by (simp_all add: spaced_def)
  have "\<not> is_space (CHR ''.'')" by (simp add: is_space_def)
  then have "readIdentList (CHR ''.'') (qualified_text q @ b @ r) =
      (b @ r, Ok (if qn_qualifier q = [] then [qn_name q] else [qn_qualifier q, qn_name q]))"
    using x assms(2,4) spaces_starts [of b ident_char r] spaces_starts [of b "\<lambda>c. c = CHR ''.''" r] not_ident_space
    by (intro readIdentList_qualified) auto
  moreover have "\<not> starts is_space (qualified_text q @ b @ r)"
    using x(2) ident_starts by (auto simp: qualified_ok_def qualified_text_def ident_def)
  ultimately show ?thesis using x assms(3) by (simp add: spaced_text_def dropWhile_spaces pbind_def)
qed

lemma qualified_list_read:
  "xs \<noteq> [] \<Longrightarrow> \<forall>x \<in> set xs. spaced x \<Longrightarrow>
   readQualifiedIdentifierList got (Join '','' (map spaced_text xs)) = ([], got @ map (\<lambda>x. fst (snd x)) xs, Ok ())"
proof (induction xs arbitrary: got)
  case (Cons x xs)
  obtain a q b where x: "x = (a, q, b)" by (cases x)
  have q: "\<lparr> qn_qualifier = qn_qualifier q, qn_name = qn_name q \<rparr> = q"
    "qn_qualifier q = [] \<Longrightarrow> \<lparr> qn_qualifier = [], qn_name = qn_name q \<rparr> = q" by (cases q; simp)+
  show ?case
  proof (cases xs)
    case Nil
    with Cons.prems read_spaced [of a q b "[]"] show ?thesis
      by (auto simp: readQualifiedIdentifierList.simps x Let_def q split: if_splits)
  next
    case (Cons y ys)
    let ?t = "Join '','' (map spaced_text xs)"
    have t: "Join '','' (map spaced_text (x # xs)) = spaced_text x @ CHR '','' # ?t" by (simp add: Cons)
    from Cons.IH Cons.prems local.Cons
    have "readQualifiedIdentifierList (got @ [q]) ?t = ([], got @ map (\<lambda>x. fst (snd x)) (x # xs), Ok ())" by (simp add: x)
    with read_spaced [of a q b "CHR '','' # ?t"] Cons.prems show ?thesis
      unfolding t by (auto simp: readQualifiedIdentifierList.simps [of got] x Let_def q split: if_splits)
  qed
qed simp

text \<open>\<^verbatim>\<open>multiMaybe\<close> leaves the text as it was when a word is missing, up to the case of the letters and the kind of the spaces:
  it puts back the words it looked for, with blanks between them.\<close>

definition same_words :: "string \<Rightarrow> string \<Rightarrow> bool" where
  "same_words r r' \<longleftrightarrow> map (\<lambda>c. if is_space c then CHR '' '' else lower_char c) r =
     map (\<lambda>c. if is_space c then CHR '' '' else lower_char c) r'"

lemma lower_space [simp]: "is_space (lower_char c) \<longleftrightarrow> is_space c"
  by (auto simp: is_space_def lower_char_def Let_def take_bit_eq_mod)

lemma same_words_append: "same_words a b \<Longrightarrow> same_words c d \<Longrightarrow> same_words (a @ c) (b @ d)"
  by (simp add: same_words_def)

lemma same_words_refl [simp]: "same_words a a" and same_words_ToLower [simp]: "same_words (ToLower a) a"
  by (auto simp: same_words_def ToLower_def)

lemma same_words_spaces: "spaces a \<Longrightarrow> same_words (replicate (length a) (CHR '' '')) a"
  by (induction a) (auto simp: same_words_def spaces_def is_space_def)

lemma multiMaybe_loop_keeps:
  "multiMaybe_loop read strs r = (r', Ok False) \<Longrightarrow> same_words read got \<Longrightarrow> same_words r' (got @ r)"
proof (induction read strs r arbitrary: got rule: multiMaybe_loop.induct)
  case (2 read str strs r)
  show ?case
  proof (cases "length str \<le> length r \<and> ToLower (take (length str) r) = str")
    case True
    let ?d = "drop (length str) r" and ?n = "length (takeWhile is_space (drop (length str) r))"
    have m: "maybe str r = (?d, Ok True)" using True by (auto simp: maybe_def Let_def)
    have "same_words (replicate ?n (CHR '' '')) (takeWhile is_space ?d)"
      by (rule same_words_spaces) (auto simp: spaces_def dest: set_takeWhileD)
    then have "same_words (read @ str @ replicate ?n (CHR '' '')) (got @ take (length str) r @ takeWhile is_space ?d)"
      using True "2.prems"(2) same_words_ToLower [of "take (length str) r"] by (intro same_words_append) auto
    from "2.IH"(1) [OF m [symmetric] _ _ _ _ this] "2.prems"(1) m
    have "same_words r' ((got @ take (length str) r @ takeWhile is_space ?d) @ dropWhile is_space ?d)"
      by (simp add: readSpaces_eq)
    then show ?thesis by simp
  next
    case False
    then have "maybe str r = (r, Ok False)" by (auto simp: maybe_def Let_def)
    with "2.prems" show ?thesis by (auto simp: unreadString_def intro: same_words_append)
  qed
qed simp

section \<open>Property\<close>



end
