(* ===== verification/Parse_Statements.thy ===== *)
theory Parse_Statements
  imports Parse_Readers "HOL-Library.AList"
begin

text \<open>
  The statements that the engine parses itself: indexes (\<^verbatim>\<open>sql/parse/indexes.go\<close>), table locks (\<^verbatim>\<open>sql/parse/lock.go\<close>), warnings
  (\<^verbatim>\<open>sql/parse/warnings.go\<close>) and variables (\<^verbatim>\<open>sql/parse/variables.go\<close>), the removal of comments and the choice of the
  statement's parser (\<^verbatim>\<open>Parse\<close> of \<^verbatim>\<open>sql/parse/parse.go\<close>). Everything else goes to the third-party SQL parser and the
  conversion of its syntax trees, which are arguments here: \<open>parseExpr\<close> for the expression of a text, \<open>vitess\<close> for the plan of
  a statement, \<open>fixSet\<close> for the rewriting of SET statements by two regular expressions.
\<close>

record table_lock =
  tl_Table :: string
  tl_Write :: bool

datatype (plugins only: code size) ('e, 'n) statement =
    Nothing
  | ShowIndexes string
  | CreateIndex string string "'e list" string "(string \<times> string) list"
  | DropIndex string string
  | ShowVariables string
  | ShowWarnings int "int option"
  | ShowProcessList
  | UnlockTables
  | LockTables "table_lock list"
  | Vitess 'n

section \<open>Indexes\<close>

definition parseShowIndex :: "string \<Rightarrow> ('e, 'n) statement res" where
  "parseShowIndex s = snd (
     pseq (exec [expect ''show'', skipSpaces, oneOf [''index'', ''indexes'', ''keys''], skipSpaces, oneOf [''from'', ''in''], skipSpaces])
      (pbind readIdent (\<lambda>table.
       pseq (exec [skipSpaces, checkEOF]) (pret (ShowIndexes table)))) s)"

definition parseDropIndex :: "string \<Rightarrow> ('e, 'n) statement res" where
  "parseDropIndex s = snd (
     pseq (exec [expect ''drop'', skipSpaces, expect ''index'', skipSpaces])
      (pbind readIdent (\<lambda>name.
       pseq (exec [skipSpaces, expect ''on'', skipSpaces])
        (pbind readIdent (\<lambda>table.
         pseq (exec [skipSpaces, checkEOF]) (pret (DropIndex name table)))))) s)"

text \<open>The loop of \<^verbatim>\<open>readValue\<close>: quotes (single or double), the character after a backslash inside them, and whether a quote may
  still open.\<close>

fun value_loop :: "bool \<Rightarrow> bool \<Rightarrow> bool \<Rightarrow> bool \<Rightarrow> string \<Rightarrow> string \<Rightarrow> string \<times> string" where
  "value_loop sq dq ign first buf [] = ([], buf)"
| "value_loop sq dq ign first buf (c # cs) =
     (if sq \<or> dq then
        (if ign then value_loop sq dq False first (buf @ [c]) cs
         else if c = CHR 0x5C then value_loop sq dq True first buf cs
         else if c = CHR 0x27 \<and> sq then value_loop False dq ign first buf cs
         else if c = CHR 0x22 \<and> dq then value_loop sq False ign first buf cs
         else value_loop sq dq ign first (buf @ [c]) cs)
      else if first \<and> (c = CHR 0x27 \<or> c = CHR 0x22) then value_loop (c = CHR 0x27) (c \<noteq> CHR 0x27) ign False buf cs
      else if \<not> ident_char c then (c # cs, buf)
      else value_loop sq dq ign first (buf @ [c]) cs)"

definition readValue :: "string reader" where
  "readValue r = (case value_loop False False False True [] r of (r', buf) \<Rightarrow> (r', Ok (ToLower buf)))"

lemma value_loop_shorter: "length (fst (value_loop sq dq ign first buf r)) \<le> length r"
  by (induction r arbitrary: sq dq ign first buf) (simp_all add: le_SucI)

definition read_pair :: "(string \<times> string) reader" where
  "read_pair =
     pseq skipSpaces (pbind readIdent (\<lambda>key.
       pseq (exec [skipSpaces, expectRune (CHR ''=''), skipSpaces]) (pbind readValue (\<lambda>v.
         pseq skipSpaces (pret (key, v))))))"

lemma expectRune_shorter: "expectRune x r = (r', Ok ()) \<Longrightarrow> length r' \<le> length r"
  by (cases r) (auto simp: expectRune_def)

lemma readValue_shorter: "readValue r = (r', Ok x) \<Longrightarrow> length r' \<le> length r"
  using value_loop_shorter [of False False False True "[]" r] by (auto simp: readValue_def split: prod.splits)

lemma read_pair_shorter: "read_pair r = (r', Ok x) \<Longrightarrow> length r' \<le> length r"
  by (auto simp: read_pair_def pbind_eq_Ok dest!: expectRune_shorter readValue_shorter)
    (meson le_trans length_dropWhile_less_eq)

text \<open>The configuration is filled pair by pair, also when an error follows.\<close>

function kv_loop :: "(string \<times> string) list \<Rightarrow> string \<Rightarrow> string \<times> (string \<times> string) list \<times> unit res" where
  "kv_loop kv r =
     (case read_pair r of
        (r', Err e) \<Rightarrow> (r', kv, Err e)
      | (r', Panic) \<Rightarrow> (r', kv, Panic)
      | (r', Ok (key, v)) \<Rightarrow>
          (case r' of
             [] \<Rightarrow> ([], kv, Err EOF)
           | c # cs \<Rightarrow>
               if c = CHR '')'' then (cs, AList.update key v kv, Ok ())
               else if c = CHR '','' then kv_loop (AList.update key v kv) cs
               else (cs, kv, Err unexpected)))"
  by auto
termination
proof (relation "measure (\<lambda>(kv, r). length r)", goal_cases)
  case (2 kv r r' res p key v c cs)
  then have "read_pair r = (c # cs, Ok p)" by simp
  from read_pair_shorter [OF this] show ?case by simp
qed simp

declare kv_loop.simps [simp del]

definition readKeyValue :: "(string \<times> string) list \<Rightarrow> string \<Rightarrow> string \<times> (string \<times> string) list \<times> unit res" where
  "readKeyValue kv r =
     (case r of
        [] \<Rightarrow> ([], kv, Err EOF)
      | c # cs \<Rightarrow> if c \<noteq> CHR ''('' then (cs, kv, Err unexpected) else kv_loop kv cs)"

text \<open>The loop of \<^verbatim>\<open>readExprs\<close>: the nesting of parentheses, whether anything but letters, underscores and spaces was seen, and
  the quotes.\<close>

fun exprs_loop :: "int \<Rightarrow> bool \<Rightarrow> bool \<Rightarrow> bool \<Rightarrow> bool \<Rightarrow> string list \<Rightarrow> string \<Rightarrow> string list reader" where
  "exprs_loop level nonid sq dq ign exprs buf [] = ([], Err EOF)"
| "exprs_loop level nonid sq dq ign exprs buf (c # cs) =
     (if sq \<or> dq then
        (if ign then exprs_loop level nonid sq dq False exprs (buf @ [c]) cs
         else if c = CHR 0x5C then exprs_loop level nonid sq dq True exprs (buf @ [c]) cs
         else if c = CHR 0x22 \<and> dq then exprs_loop level nonid sq False ign exprs (buf @ [c]) cs
         else if c = CHR 0x27 \<and> sq then exprs_loop level nonid False dq ign exprs (buf @ [c]) cs
         else exprs_loop level nonid sq dq ign exprs (buf @ [c]) cs)
      else if is_letter c \<or> c = CHR ''_'' then exprs_loop level nonid sq dq ign exprs (buf @ [c]) cs
      else if c = CHR ''('' then exprs_loop (level + 1) True sq dq ign exprs (buf @ [c]) cs
      else if c = CHR '')'' then
        (if level - 1 < 0 then
           (if nonid \<and> exprs \<noteq> [] then (cs, Err unexpected) else (cs, Ok (exprs @ [buf])))
         else exprs_loop (level - 1) nonid sq dq ign exprs (buf @ [c]) cs)
      else if c = CHR 0x22 then exprs_loop level True sq True ign exprs (buf @ [c]) cs
      else if c = CHR 0x27 then exprs_loop level True True dq ign exprs (buf @ [c]) cs
      else if c = CHR '','' \<and> level = 0 then
        (if nonid then (cs, Err unexpected) else exprs_loop level nonid sq dq ign (exprs @ [buf]) [] cs)
      else exprs_loop level (nonid \<or> \<not> is_space c) sq dq ign exprs (buf @ [c]) cs)"

definition readExprs :: "string list reader" where
  "readExprs r =
     (case r of
        [] \<Rightarrow> ([], Err unexpected)
      | c # cs \<Rightarrow> if c \<noteq> CHR ''('' then (cs, Err unexpected) else exprs_loop 0 False False False False [] [] cs)"

definition with_config :: "string \<Rightarrow> string \<times> (string \<times> string) list \<times> unit res" where
  "with_config r =
     (case pseq (expect ''with'') skipSpaces r of
        (r1, Ok _) \<Rightarrow> (case readKeyValue [] r1 of
             (r2, kv, Ok _) \<Rightarrow> (fst (skipSpaces r2), kv, Ok ())
           | (r2, kv, Err e) \<Rightarrow> (r2, kv, Err e)
           | (r2, kv, Panic) \<Rightarrow> (r2, kv, Panic))
      | (r1, Err e) \<Rightarrow> (r1, [], Err e)
      | (r1, Panic) \<Rightarrow> (r1, [], Panic))"

definition parseCreateIndex :: "(string \<Rightarrow> 'e res) \<Rightarrow> string \<Rightarrow> ('e, 'n) statement res" where
  "parseCreateIndex parseExpr s =
     rbind (snd (
       pseq (exec [expect ''create'', skipSpaces, expect ''index'', skipSpaces])
        (pbind readIdent (\<lambda>name.
         pseq (exec [skipSpaces, expect ''on'', skipSpaces])
          (pbind readIdent (\<lambda>table.
           pseq (exec [skipSpaces, expect ''using'', skipSpaces])
            (pbind readIdent (\<lambda>driver.
             pseq skipSpaces (pbind readExprs (\<lambda>exprs.
               pseq skipSpaces (pbind (optional with_config) (\<lambda>config.
                 pseq checkEOF (pret (name, table, driver, exprs, config))))))))))) ) s))
     (\<lambda>(name, table, driver, exprs, config).
        rbind (rmap parseExpr exprs) (\<lambda>es. Ok (CreateIndex name table es driver config)))"

section \<open>Table locks\<close>

definition maybeReadAlias :: "unit reader" where
  "maybeReadAlias r =
     (if length r < 2 then (r, Err EOF)
      else if ToLower (take 2 r) = ''as'' then pseq skipSpaces (pbind readIdent (\<lambda>_. pret ())) (drop 2 r)
      else pbind readIdent (\<lambda>nextIdent r.
        (if ToLower nextIdent \<in> {''read'', ''low_priority'', ''write''} then unreadString nextIdent r else r, Ok ())) r)"

definition readLockType :: "bool reader" where
  "readLockType = pbind readIdent (\<lambda>nextIdent.
     if ToLower nextIdent = ''low_priority'' then pseq (exec [skipSpaces, expect ''write'']) (pret True)
     else if ToLower nextIdent = ''write'' then pret True
     else if ToLower nextIdent = ''read'' then
       pseq skipSpaces (pbind readIdent (\<lambda>ident r.
         (r, if ident \<noteq> [] \<and> ident \<noteq> ''local'' then Err unexpected else Ok False)))
     else (\<lambda>r. (r, Err unexpected)))"

definition readTableLock :: "table_lock reader" where
  "readTableLock =
     pbind readQuotableIdent (\<lambda>tableName.
       pseq (exec [skipSpaces, maybeReadAlias, skipSpaces])
        (pbind readLockType (\<lambda>write. pret \<lparr> tl_Table = tableName, tl_Write = write \<rparr>)))"

lemma quoted_loop_shorter: "quoted_loop buf r = (r', Ok x) \<Longrightarrow> length r' \<le> length r"
proof (induction buf r rule: quoted_loop.induct)
  case (1 buf r)
  obtain r1 o1 where p: "readValidQuotedIdentRune r = (r1, o1)" by (cases "readValidQuotedIdentRune r")
  show ?case
  proof (cases o1)
    case (Ok c)
    with p 1 have "length r' \<le> length r1" by (simp add: quoted_loop.simps [of buf r])
    with p Ok readValidQuotedIdentRune_shorter [of r r1 c] show ?thesis by simp
  next
    case (Err e)
    with p 1 have "r' = r1" by (auto simp: quoted_loop.simps [of buf r] split: if_splits)
    with p Err show ?thesis by (auto simp: readValidQuotedIdentRune_def split: list.splits if_splits)
  next
    case Panic
    with p 1 show ?thesis by (simp add: quoted_loop.simps [of buf r])
  qed
qed

lemma readQuotableIdent_shorter: "readQuotableIdent r = (r', Ok x) \<Longrightarrow> length r' \<le> length r"
proof (cases "readQuotableIdent r = readIdent r")
  case True
  then show "readQuotableIdent r = (r', Ok x) \<Longrightarrow> length r' \<le> length r" using length_dropWhile_less_eq by auto
next
  case False
  assume "readQuotableIdent r = (r', Ok x)"
  with False obtain r1 r2 c r3 s where "expectRune (CHR 0x60) r = (r1, Ok ())" "readValidQuotedIdentRune r1 = (r2, Ok c)"
    "quoted_loop [c] r2 = (r3, Ok s)" "expectRune (CHR 0x60) r3 = (r', Ok ())"
    by (cases r) (auto simp: readQuotableIdent_def expectQuote_def readQuotedIdent_def pbind_eq_Ok split: if_splits)
  from expectRune_shorter [OF this(1)] readValidQuotedIdentRune_shorter [OF this(2)] quoted_loop_shorter [OF this(3)]
    expectRune_shorter [OF this(4)] show "length r' \<le> length r" by linarith
qed

lemma length_ToLower [simp]: "length (ToLower s) = length s"
  by (simp add: ToLower_def)

lemma maybeReadAlias_eq:
  "maybeReadAlias r =
     (if length r < 2 then (r, Err EOF)
      else if ToLower (take 2 r) = ''as'' then (dropWhile ident_char (dropWhile is_space (drop 2 r)), Ok ())
      else (if ToLower (takeWhile ident_char r) \<in> {''read'', ''low_priority'', ''write''}
            then ToLower (takeWhile ident_char r) @ dropWhile ident_char r else dropWhile ident_char r, Ok ()))"
  by (simp add: maybeReadAlias_def unreadString_def)

lemma maybeReadAlias_shorter: "maybeReadAlias r = (r', Ok ()) \<Longrightarrow> length r' \<le> length r"
proof -
  obtain t where t: "ToLower (takeWhile ident_char r) = t" by simp
  have "length t + length (dropWhile ident_char r) = length r"
    unfolding t [symmetric] by (metis length_ToLower length_append takeWhile_dropWhile_id)
  moreover have "length (dropWhile ident_char (dropWhile is_space (drop 2 r))) \<le> length r"
    using length_dropWhile_less_eq by (metis diff_le_self le_trans length_drop)
  ultimately show "maybeReadAlias r = (r', Ok ()) \<Longrightarrow> length r' \<le> length r"
    unfolding maybeReadAlias_eq t by (auto split: if_splits)
qed

lemma readLockType_shorter: "readLockType r = (r', Ok x) \<Longrightarrow> length r' \<le> length r"
proof -
  have "length (dropWhile ident_char (dropWhile is_space (dropWhile ident_char r))) \<le> length r"
    "length (dropWhile ident_char r) \<le> length r"
    using length_dropWhile_less_eq by (meson le_trans)+
  then show "readLockType r = (r', Ok x) \<Longrightarrow> length r' \<le> length r"
    by (auto simp: readLockType_def pbind_eq_Ok split: if_splits)
qed

lemma readTableLock_shorter:
  assumes "readTableLock r = (r', Ok x)"
  shows "length r' \<le> length r"
proof -
  obtain r1 n r2 w where p: "readQuotableIdent r = (r1, Ok n)" "maybeReadAlias (dropWhile is_space r1) = (r2, Ok ())"
    "readLockType (dropWhile is_space r2) = (r', Ok w)"
    using assms by (auto simp: readTableLock_def pbind_eq_Ok)
  show ?thesis
    using readQuotableIdent_shorter [OF p(1)] maybeReadAlias_shorter [OF p(2)] readLockType_shorter [OF p(3)]
      length_dropWhile_less_eq [of is_space r1] length_dropWhile_less_eq [of is_space r2] by linarith
qed

function readTableLocks :: "table_lock list \<Rightarrow> table_lock list reader" where
  "readTableLocks tables r =
     (case readTableLock r of
        (r1, Err e) \<Rightarrow> (r1, Err e)
      | (r1, Panic) \<Rightarrow> (r1, Panic)
      | (r1, Ok t) \<Rightarrow>
          (case fst (skipSpaces r1) of
             [] \<Rightarrow> ([], Ok (tables @ [t]))
           | c # cs \<Rightarrow> if c \<noteq> CHR '','' then (c # cs, Ok (tables @ [t]))
                       else readTableLocks (tables @ [t]) (fst (skipSpaces cs))))"
  by auto
termination
proof (relation "measure (\<lambda>(tables, r). length r)", goal_cases)
  case (2 tables r r1 res t c cs)
  then have "length r1 \<le> length r" using readTableLock_shorter [of r r1 t] by simp
  moreover have "Suc (length cs) \<le> length r1" using 2 length_dropWhile_less_eq [of is_space r1] by (metis fst_conv length_Cons skipSpaces_eq)
  ultimately show ?case using length_dropWhile_less_eq [of is_space cs] by simp
qed simp

declare readTableLocks.simps [simp del]

definition parseLockTables :: "string \<Rightarrow> ('e, 'n) statement res" where
  "parseLockTables s = snd (
     pseq (exec [expect ''lock'', skipSpaces, expect ''tables'', skipSpaces])
      (pbind (readTableLocks []) (\<lambda>tables.
       pseq (exec [skipSpaces, checkEOF]) (pret (LockTables tables)))) s)"

section \<open>Warnings and variables\<close>

text \<open>The errors of the readers in the closure for LIMIT are dropped; what they consumed is not put back.\<close>

definition read_limit :: "string \<Rightarrow> string \<times> string \<times> string" where
  "read_limit r =
     (case expect ''limit'' r of
        (r1, Ok _) \<Rightarrow>
          (case readValue (fst (skipSpaces r1)) of
             (r2, v) \<Rightarrow>
               (let cntstr = (case v of Ok s \<Rightarrow> s | _ \<Rightarrow> []) in
                case expectRune (CHR '','') (fst (skipSpaces r2)) of
                  (r3, Ok _) \<Rightarrow> (case readValue r3 of (r4, Ok s) \<Rightarrow> (r4, cntstr, s) | (r4, _) \<Rightarrow> (r4, [], cntstr))
                | (r3, _) \<Rightarrow> (r3, [], cntstr)))
      | (r1, _) \<Rightarrow> (r1, [], []))"

definition index_value :: "string \<Rightarrow> string \<Rightarrow> int res" where
  "index_value what str =
     (if str = [] then Ok 0
      else rbind (ParseInt 64 str) (\<lambda>i. if i < 0 then Err (ParseErr (ErrInvalidIndex what i)) else Ok i))"

definition parseShowWarnings :: "string \<Rightarrow> ('e, 'n) statement res" where
  "parseShowWarnings s =
     (case exec [expect ''show'', skipSpaces, expect ''warnings'', skipSpaces] s of
        (r, Ok _) \<Rightarrow>
          (case read_limit r of
             (r1, offstr, cntstr) \<Rightarrow>
               rbind (snd (exec [skipSpaces, checkEOF] r1)) (\<lambda>_.
                 rbind (index_value ''offset'' offstr) (\<lambda>offset.
                   rbind (index_value ''count'' cntstr) (\<lambda>count.
                     Ok (ShowWarnings offset (if count > 0 then Some count else None))))))
      | (r, Err e) \<Rightarrow> Err e
      | (r, Panic) \<Rightarrow> Panic)"

definition variables_word :: "unit reader" where
  "variables_word = pbind readIdent (\<lambda>s.
     if s = ''global'' \<or> s = ''session'' then pseq skipSpaces (expect ''variables'')
     else if s = ''variables'' then pret () else (\<lambda>r. (r, Err unexpected)))"

definition like_pattern :: "string reader" where
  "like_pattern r =
     (case expect ''like'' r of
        (r1, Ok _) \<Rightarrow> pseq skipSpaces readValue r1
      | (r1, _) \<Rightarrow> (r1, Ok []))"

definition parseShowVariables :: "string \<Rightarrow> ('e, 'n) statement res" where
  "parseShowVariables s = snd (
     pseq (exec [expect ''show'', skipSpaces, variables_word, skipSpaces])
      (pbind like_pattern (\<lambda>pattern.
       pseq (exec [skipSpaces, checkEOF]) (pret (ShowVariables pattern)))) s)"

section \<open>Comments\<close>

fun discardUntilEOL :: "string \<Rightarrow> string" where
  "discardUntilEOL [] = []"
| "discardUntilEOL (c # cs) = (if c = CHR 0x0A then cs else discardUntilEOL cs)"

fun discardMultilineComment :: "string \<Rightarrow> string" where
  "discardMultilineComment [] = []"
| "discardMultilineComment (c # cs) =
     (if c = CHR ''*'' \<and> starts (\<lambda>d. d = CHR ''/'') cs then tl cs else discardMultilineComment cs)"

fun readString :: "bool \<Rightarrow> bool \<Rightarrow> string \<Rightarrow> string \<times> string" where
  "readString single escaped [] = ([], [])"
| "readString single escaped (c # cs) =
     (if \<not> single \<and> c = CHR 0x22 \<and> \<not> escaped \<or> single \<and> c = CHR 0x27 \<and> \<not> escaped then ([c], cs)
      else case readString single (c = CHR 0x5C) cs of (s, r) \<Rightarrow> (c # s, r))"

lemma discard_shorter:
  "length (discardUntilEOL r) \<le> length r" "length (discardMultilineComment r) \<le> length r"
  "length (snd (readString single escaped r)) \<le> length r"
  by (induction r arbitrary: escaped) (simp_all add: case_prod_beta le_SucI)

function removeComments :: "string \<Rightarrow> string" where
  "removeComments [] = []"
| "removeComments (c # cs) =
     (if c = CHR 0x27 \<or> c = CHR 0x22 then
        (case readString (c = CHR 0x27) False cs of (s, r) \<Rightarrow> c # s @ removeComments r)
      else if c = CHR ''-'' then
        (if take 2 cs = ''- '' then removeComments (discardUntilEOL cs) else c # removeComments cs)
      else if c = CHR ''/'' then
        (if starts (\<lambda>d. d = CHR ''*'') cs then removeComments (discardMultilineComment (tl cs)) else c # removeComments cs)
      else c # removeComments cs)"
  by pat_completeness auto
termination
proof (relation "measure length", goal_cases)
  case (2 c cs s r)
  then have "r = snd (readString (c = CHR 0x27) False cs)" by (metis snd_conv)
  then show ?case using discard_shorter(3) [of "c = CHR 0x27" False cs] by simp
next
  case (3 c cs)
  then show ?case using discard_shorter(1) [of cs] by simp
next
  case (5 c cs)
  then show ?case using discard_shorter(2) [of "tl cs"] by (cases cs) auto
qed auto

declare removeComments.simps(2) [simp del]

section \<open>The choice of the parser\<close>

text \<open>
  The regular expressions that choose: \<open>re_space\<close> is the class \<^verbatim>\<open>\s\<close>, \<open>re_words\<close> a sequence of words with spaces between them. A
  maximal run of spaces may be taken for \<^verbatim>\<open>\s+\<close>, since a word follows it.
\<close>

definition re_space :: "char \<Rightarrow> bool" where
  "re_space c = (c \<in> {CHR 0x09, CHR 0x0A, CHR 0x0C, CHR 0x0D, CHR 0x20})"

definition re_lit :: "string \<Rightarrow> string \<Rightarrow> string option" where
  "re_lit w r = (if take (length w) r = w then Some (drop (length w) r) else None)"

definition re_spaces :: "string \<Rightarrow> string option" where
  "re_spaces r = (if starts re_space r then Some (dropWhile re_space r) else None)"

fun re_words :: "string list \<Rightarrow> string \<Rightarrow> string option" where
  "re_words [] r = Some r"
| "re_words (w # ws) r = Option.bind (re_lit w r) (\<lambda>r1. Option.bind (re_spaces r1) (re_words ws))"

definition createIndexRegex :: "string \<Rightarrow> bool" where
  "createIndexRegex q = (re_words [''create'', ''index''] q \<noteq> None)"

definition dropIndexRegex :: "string \<Rightarrow> bool" where
  "dropIndexRegex q = (re_words [''drop'', ''index''] q \<noteq> None)"

definition showIndexRegex :: "string \<Rightarrow> bool" where
  "showIndexRegex q =
     list_ex (\<lambda>ws. case re_words ws q of Some r \<Rightarrow> r \<noteq> [] | None \<Rightarrow> False)
       [[''show'', a, b]. a \<leftarrow> [''index'', ''indexes'', ''keys''], b \<leftarrow> [''from'', ''in'']]"

fun in_line :: "string \<Rightarrow> string \<Rightarrow> bool" where
  "in_line w r = (re_lit w r \<noteq> None \<or> (case r of [] \<Rightarrow> False | c # cs \<Rightarrow> c \<noteq> CHR 0x0A \<and> in_line w cs))"

declare in_line.simps [simp del]

definition showVariablesRegex :: "string \<Rightarrow> bool" where
  "showVariablesRegex q = (case re_words [''show''] q of Some r \<Rightarrow> in_line ''variables'' r | None \<Rightarrow> False)"

definition showWarningsRegex :: "string \<Rightarrow> bool" where
  "showWarningsRegex q = (case re_words [''show''] q of Some r \<Rightarrow> re_lit ''warnings'' r \<noteq> None | None \<Rightarrow> False)"

definition fullProcessListRegex :: "string \<Rightarrow> bool" where
  "fullProcessListRegex q =
     (re_words [''show''] q = Some ''processlist'' \<or> re_words [''show'', ''full''] q = Some ''processlist'')"

definition unlockTablesRegex :: "string \<Rightarrow> bool" where
  "unlockTablesRegex q = (re_words [''unlock''] q = Some ''tables'')"

definition lockTablesRegex :: "string \<Rightarrow> bool" where
  "lockTablesRegex q = (re_words [''lock'', ''tables''] q \<noteq> None)"

definition setRegex :: "string \<Rightarrow> bool" where
  "setRegex q = (re_words [''set''] q \<noteq> None)"

definition TrimSpace :: "string \<Rightarrow> string" where
  "TrimSpace s = rev (dropWhile is_space (rev (dropWhile is_space s)))"

definition Parse :: "(string \<Rightarrow> 'e res) \<Rightarrow> (string \<Rightarrow> 'n res) \<Rightarrow> (string \<Rightarrow> string) \<Rightarrow> string \<Rightarrow> ('e, 'n) statement res" where
  "Parse parseExpr vitess fixSet query =
     (let s0 = TrimSpace (removeComments query);
          s = (if s0 \<noteq> [] \<and> last s0 = CHR '';'' then butlast s0 else s0);
          q = ToLower s;
          convert = (\<lambda>s. rbind (vitess s) (\<lambda>n. Ok (Vitess n)))
      in if s = [] then Ok Nothing
         else if createIndexRegex q then parseCreateIndex parseExpr s
         else if dropIndexRegex q then parseDropIndex s
         else if showIndexRegex q then parseShowIndex s
         else if showVariablesRegex q then parseShowVariables s
         else if showWarningsRegex q then parseShowWarnings s
         else if fullProcessListRegex q then Ok ShowProcessList
         else if unlockTablesRegex q then Ok UnlockTables
         else if lockTablesRegex q then parseLockTables s
         else if setRegex q then convert (fixSet s)
         else convert s)"

section \<open>Comments are removed\<close>

text \<open>A query as a sequence of pieces: plain text, quoted text, comments to the end of the line and comments in \<^verbatim>\<open>/* */\<close>.\<close>

datatype (plugins only: code size) piece = Plain string | Quoted bool string | LineComment string | BlockComment string

definition quote_char :: "bool \<Rightarrow> char" where
  "quote_char single = (if single then CHR 0x27 else CHR 0x22)"

fun piece_text :: "piece \<Rightarrow> string" where
  "piece_text (Plain s) = s"
| "piece_text (Quoted q s) = quote_char q # s @ [quote_char q]"
| "piece_text (LineComment s) = ''-- '' @ s @ [CHR 0x0A]"
| "piece_text (BlockComment s) = ''/*'' @ s @ ''*/''"

fun no_close :: "string \<Rightarrow> bool" where
  "no_close [] = True"
| "no_close (c # cs) = (\<not> (c = CHR ''*'' \<and> starts (\<lambda>d. d = CHR ''/'') cs) \<and> no_close cs)"

fun piece_ok :: "piece \<Rightarrow> bool" where
  "piece_ok (Plain s) = (\<forall>c \<in> set s. c \<notin> {CHR 0x27, CHR 0x22, CHR ''-'', CHR ''/''})"
| "piece_ok (Quoted q s) = (\<forall>c \<in> set s. c \<noteq> quote_char q \<and> c \<noteq> CHR 0x5C)"
| "piece_ok (LineComment s) = (CHR 0x0A \<notin> set s)"
| "piece_ok (BlockComment s) = no_close s"

fun is_comment :: "piece \<Rightarrow> bool" where
  "is_comment (LineComment s) = True"
| "is_comment (BlockComment s) = True"
| "is_comment _ = False"

lemma discardUntilEOL_line: "CHR 0x0A \<notin> set s \<Longrightarrow> discardUntilEOL (s @ CHR 0x0A # r) = r"
  by (induction s) auto

lemma discardMultilineComment_block: "no_close s \<Longrightarrow> discardMultilineComment (s @ CHR ''*'' # CHR ''/'' # r) = r"
proof (induction s)
  case (Cons c s)
  then show ?case by (cases s) auto
qed simp

lemma readString_quoted:
  "\<forall>c \<in> set s. c \<noteq> quote_char q \<and> c \<noteq> CHR 0x5C \<Longrightarrow> readString q False (s @ quote_char q # r) = (s @ [quote_char q], r)"
  by (induction s) (auto simp: quote_char_def split: if_splits)

lemma removeComments_plain:
  "\<forall>c \<in> set s. c \<notin> {CHR 0x27, CHR 0x22, CHR ''-'', CHR ''/''} \<Longrightarrow> removeComments (s @ r) = s @ removeComments r"
  by (induction s) (auto simp: removeComments.simps(2))

lemma removeComments_piece:
  assumes "piece_ok p"
  shows "removeComments (piece_text p @ r) = (if is_comment p then [] else piece_text p) @ removeComments r"
proof (cases p)
  case (Quoted q s)
  with assms readString_quoted [of s q r] show ?thesis
    by (cases q) (simp_all add: removeComments.simps(2) quote_char_def)
qed (use assms in \<open>auto simp: removeComments_plain removeComments.simps(2) [of _ "_ # _"] discardUntilEOL_line discardMultilineComment_block\<close>)



lemma readString_no_quote:
  "CHR 0x27 \<notin> set s \<Longrightarrow> readString True e s = (s, [])"
  by (induction s arbitrary: e) auto

lemma readString_skips: "CHR 0x27 \<notin> set s \<Longrightarrow> CHR 0x5C \<notin> set s \<Longrightarrow>
  readString True False (s @ r) = (case readString True False r of (x, y) \<Rightarrow> (s @ x, y))"
  by (induction s) (auto split: prod.splits)

text \<open>A string that ends in a backslash, written as two, is taken to go on: the first backslash escapes the second, and the
  second is taken to escape the quote that closes the string. Comments after it are not removed.\<close>

lemma comment_after_backslash:
  assumes "CHR 0x27 \<notin> set s" "CHR 0x5C \<notin> set s" "CHR 0x27 \<notin> set t"
  shows "removeComments ([CHR 0x27] @ s @ [CHR 0x5C, CHR 0x5C, CHR 0x27] @ t) = [CHR 0x27] @ s @ [CHR 0x5C, CHR 0x5C, CHR 0x27] @ t"
  using readString_skips [OF assms(1,2), of "[CHR 0x5C, CHR 0x5C, CHR 0x27] @ t"] readString_no_quote [OF assms(3), of False]
  by (simp add: removeComments.simps(2))

theorem comment_after_backslash_witness:
  "removeComments ([CHR 0x27] @ ''a'' @ [CHR 0x5C, CHR 0x5C, CHR 0x27] @ '' /* b */'') =
     [CHR 0x27] @ ''a'' @ [CHR 0x5C, CHR 0x5C, CHR 0x27] @ '' /* b */''"
  by (rule comment_after_backslash) simp_all

section \<open>Locks are read back\<close>

definition lock_word :: "bool \<Rightarrow> string" where
  "lock_word write = (if write then ''write'' else ''read'')"

definition lock_text :: "table_lock \<Rightarrow> string" where
  "lock_text l = quote_ident (tl_Table l) @ '' '' @ lock_word (tl_Write l)"

definition lower_lock :: "table_lock \<Rightarrow> table_lock" where
  "lower_lock l = l \<lparr> tl_Table := ToLower (tl_Table l) \<rparr>"

lemmas char_classes = ident_char_def is_letter_def is_digit_def is_space_def

lemma ToLower_word [simp]: "ToLower (lock_word w) = lock_word w"
  by (simp add: lock_word_def ToLower_def lower_char_def)

lemma lock_word_ident: "ident (lock_word w)"
  by (simp add: ident_def lock_word_def char_classes)

lemma readLockType_word:
  assumes "\<not> starts ident_char r" "\<not> starts is_space r"
  shows "readLockType (lock_word w @ r) = (r, Ok w)"
proof -
  have "takeWhile ident_char (lock_word w @ r) = lock_word w \<and> dropWhile ident_char (lock_word w @ r) = r"
    using while_append [OF _ assms(1), of "lock_word w"] lock_word_ident by (simp add: ident_def)
  with assms show ?thesis
    by (auto simp: readLockType_def lock_word_def ToLower_def lower_char_def takeWhile_none pbind_def)
qed

lemma readTableLock_text:
  assumes "tl_Table l \<noteq> []" "\<not> starts ident_char r" "\<not> starts is_space r"
  shows "readTableLock (lock_text l @ r) = (r, Ok (lower_lock l))"
proof -
  let ?w = "lock_word (tl_Write l)"
  have sp: "dropWhile is_space (CHR '' '' # ?w @ r) = ?w @ r" "dropWhile is_space (?w @ r) = ?w @ r"
    by (auto simp: lock_word_def char_classes)
  have w: "takeWhile ident_char (?w @ r) = ?w" "dropWhile ident_char (?w @ r) = r"
    using while_append [OF _ assms(2), of ?w] lock_word_ident by (simp_all add: ident_def)
  have "readQuotableIdent (quote_ident (tl_Table l) @ CHR '' '' # ?w @ r) = (CHR '' '' # ?w @ r, Ok (ToLower (tl_Table l)))"
    using readQuotableIdent_quoted [OF assms(1), of "CHR '' '' # ?w @ r"] by simp
  moreover have "maybeReadAlias (?w @ r) = (?w @ r, Ok ())"
    unfolding maybeReadAlias_eq w by (auto simp: lock_word_def ToLower_def lower_char_def numeral_2_eq_2)
  ultimately show ?thesis using readLockType_word [OF assms(2,3), of "tl_Write l"] sp
    by (simp add: readTableLock_def lock_text_def lower_lock_def)
qed

lemma readTableLocks_text:
  "locks \<noteq> [] \<Longrightarrow> \<forall>l \<in> set locks. tl_Table l \<noteq> [] \<Longrightarrow>
   readTableLocks got (Join '', '' (map lock_text locks)) = ([], Ok (got @ map lower_lock locks))"
proof (induction locks arbitrary: got)
  case (Cons l ls)
  show ?case
  proof (cases ls)
    case Nil
    with Cons.prems readTableLock_text [of l "[]"] show ?thesis by (simp add: readTableLocks.simps)
  next
    case (Cons m ms)
    let ?t = "Join '', '' (map lock_text ls)"
    have t: "Join '', '' (map lock_text (l # ls)) = lock_text l @ CHR '','' # CHR '' '' # ?t" by (simp add: Cons)
    have "starts (\<lambda>c. c = CHR 0x60) ?t" by (cases ms) (auto simp: Cons lock_text_def quote_ident_def)
    then have sp: "dropWhile is_space (CHR '' '' # ?t) = ?t" by (cases ?t) (auto simp: char_classes)
    from Cons.IH Cons.prems local.Cons have "readTableLocks (got @ [lower_lock l]) ?t = ([], Ok (got @ map lower_lock (l # ls)))" by simp
    with readTableLock_text [of l "CHR '','' # CHR '' '' # ?t"] Cons.prems sp show ?thesis
      unfolding t by (simp add: readTableLocks.simps [of got])
  qed
qed simp

lemma parseLockTables_text:
  assumes "locks \<noteq> []" "\<forall>l \<in> set locks. tl_Table l \<noteq> []"
  shows "parseLockTables (''LOCK TABLES '' @ Join '', '' (map lock_text locks)) = Ok (LockTables (map lower_lock locks))"
proof -
  let ?t = "Join '', '' (map lock_text locks)"
  have "starts (\<lambda>c. c = CHR 0x60) ?t"
    using assms(1) by (cases locks rule: list.exhaust; cases "tl locks") (auto simp: lock_text_def quote_ident_def)
  then have "dropWhile is_space (CHR '' '' # ?t) = ?t" by (cases ?t) (auto simp: char_classes)
  moreover have "ToLower ''LOCK'' = ''lock''" "ToLower ''TABLES'' = ''tables''" by code_simp+
  ultimately show ?thesis using readTableLocks_text [OF assms, of "[]"]
    by (simp add: parseLockTables_def pbind_def char_classes checkEOF_def)
qed

section \<open>Index columns\<close>

text \<open>Reading the list of an index up to its end, for texts in which no quote and no parenthesis occurs.\<close>

lemma digit_class: "is_digit c \<Longrightarrow> \<not> is_letter c \<and> \<not> is_space c \<and> c \<noteq> CHR ''_''"
  by (auto simp: char_classes Let_def)

lemma exprs_loop_text:
  assumes "\<forall>c \<in> set s. ident_char c \<or> is_space c"
  shows "exprs_loop 0 nonid False False False exprs buf (s @ r) =
    exprs_loop 0 (nonid \<or> (\<exists>c \<in> set s. is_digit c)) False False False exprs (buf @ s) r"
  using assms
proof (induction s arbitrary: nonid buf)
  case (Cons c s)
  have c: "ident_char c \<or> is_space c" using Cons.prems by simp
  then have no: "c \<notin> {CHR ''('', CHR '')'', CHR 0x22, CHR 0x27, CHR '',''}" by (auto simp: char_classes)
  have "\<not> (is_letter c \<or> c = CHR ''_'') \<Longrightarrow> is_digit c \<longleftrightarrow> \<not> is_space c" "is_letter c \<or> c = CHR ''_'' \<Longrightarrow> \<not> is_digit c"
    using c digit_class by (auto simp: ident_char_def)
  with no Cons.IH [of _ "buf @ [c]"] Cons.prems show ?case by auto
qed simp

lemma exprs_loop_columns:
  assumes "cols \<noteq> []" "\<forall>s \<in> set cols. \<forall>c \<in> set s. is_letter c \<or> c = CHR ''_'' \<or> is_space c"
  shows "exprs_loop 0 False False False False exprs [] (Join '','' cols @ CHR '')'' # r) = (r, Ok (exprs @ cols))"
  using assms
proof (induction cols arbitrary: exprs)
  case (Cons s ss)
  have ok: "\<forall>c \<in> set s. ident_char c \<or> is_space c" using Cons.prems(2) by (auto simp: ident_char_def)
  have dig: "\<not> (\<exists>c \<in> set s. is_digit c)" using Cons.prems(2) digit_class by auto
  have stop: "\<not> is_letter (CHR '')'')" "\<not> is_letter (CHR '','')" by (simp_all add: is_letter_def)
  show ?case
  proof (cases ss)
    case Nil
    with exprs_loop_text [OF ok, of False exprs "[]" "CHR '')'' # r"] dig stop show ?thesis by simp
  next
    case (Cons t ts)
    with exprs_loop_text [OF ok, of False exprs "[]" "CHR '','' # Join '','' ss @ CHR '')'' # r"] dig stop
      Cons.IH [of "exprs @ [s]"] Cons.prems show ?thesis by simp
  qed
qed simp

lemma exprs_loop_digit:
  assumes "\<forall>c \<in> set s. ident_char c \<or> is_space c" "\<exists>c \<in> set s. is_digit c"
  shows "snd (exprs_loop 0 False False False False exprs [] (s @ CHR '','' # r)) = Err unexpected"
proof -
  have "\<not> is_letter (CHR '','')" by (simp add: is_letter_def)
  with exprs_loop_text [OF assms(1), of False exprs "[]" "CHR '','' # r"] assms(2) show ?thesis by simp
qed

text \<open>The head of a CREATE INDEX statement.\<close>

definition index_head :: "string \<Rightarrow> string \<Rightarrow> string \<Rightarrow> string" where
  "index_head name table driver = ''create index '' @ name @ '' on '' @ table @ '' using '' @ driver @ '' ''"

lemma ident_steps:
  assumes "ident s"
  shows "takeWhile ident_char (s @ CHR '' '' # r) = s" "dropWhile ident_char (s @ CHR '' '' # r) = CHR '' '' # r"
    "dropWhile is_space (s @ r) = s @ r"
  using while_append [of s ident_char "CHR '' '' # r"] assms ident_starts [OF assms]
  by (simp_all add: ident_def char_classes)

lemma lower_words:
  "ToLower ''create'' = ''create''" "ToLower ''index'' = ''index''" "ToLower ''on'' = ''on''" "ToLower ''using'' = ''using''"
  by code_simp+

lemma parseCreateIndex_head:
  assumes "ident name" "ident table" "ident driver" "ToLower name = name" "ToLower table = table" "ToLower driver = driver"
  shows "parseCreateIndex parseExpr (index_head name table driver @ CHR ''('' # r) =
    rbind (snd (pbind (\<lambda>r. exprs_loop 0 False False False False [] [] r) (\<lambda>exprs.
        pseq skipSpaces (pbind (optional with_config) (\<lambda>config. pseq checkEOF (pret (exprs, config))))) r))
      (\<lambda>(exprs, config). rbind (rmap parseExpr exprs) (\<lambda>es. Ok (CreateIndex name table es driver config)))"
proof -
  note steps = assms lower_words ident_steps [OF assms(1)] ident_steps [OF assms(2)] ident_steps [OF assms(3)]
  show ?thesis
    by (simp add: parseCreateIndex_def index_head_def steps char_classes readExprs_def [abs_def])
      (auto simp: pbind_def split: prod.splits res.splits)
qed

lemma optional_with_none:
  assumes "ToLower (takeWhile ident_char r) \<noteq> ''with''"
  shows "optional with_config r = (dropWhile ident_char r, Ok [])"
  using assms by (simp add: optional_def with_config_def pbind_def)



section \<open>The whole statement\<close>

lemma Join_chars: "set (Join sep ss) \<subseteq> set sep \<union> \<Union> (set ` set ss)"
  by (induction sep ss rule: Join.induct) auto

lemma lock_text_chars: "c \<in> set (lock_text l) \<Longrightarrow> c \<in> set (tl_Table l) \<or> c = CHR 0x60 \<or> c = CHR '' '' \<or> is_letter c"
  by (auto simp: lock_text_def quote_ident_def escape_def lock_word_def is_letter_def split: if_splits)

lemma dropWhile_rev_id: "s \<noteq> [] \<Longrightarrow> \<not> P (last s) \<Longrightarrow> dropWhile P (rev s) = rev s"
  by (cases s rule: rev_cases) auto

lemma TrimSpace_id: "s \<noteq> [] \<Longrightarrow> \<not> is_space (hd s) \<Longrightarrow> \<not> is_space (last s) \<Longrightarrow> TrimSpace s = s"
  by (cases s) (auto simp: TrimSpace_def dropWhile_rev_id simp del: rev.simps)



end
