(* ===== verification/Exchange.thy ===== *)
theory Exchange
  imports Go_Values
begin

text \<open>
  The parallel reading of partitions (\<^verbatim>\<open>sql/plan/exchange.go\<close>). The goroutines of an \<^verbatim>\<open>exchangeRowIter\<close> are step relations on a
  shared state: \<^verbatim>\<open>iterPartitions\<close> (it takes a token and offers the next partition), \<^verbatim>\<open>start\<close> (it starts a worker for each
  partition), one \<^verbatim>\<open>iterPartition\<close> per partition, and the caller of \<^verbatim>\<open>Next\<close> and \<^verbatim>\<open>Close\<close>. A step is one channel operation or
  one call of an iterator; a send on a full channel and a receive from an empty one are not enabled. The iterator over the rows of
  a partition and the iterator over the partitions are given by what they return; that the latter is closed by \<^verbatim>\<open>Close\<close> does not
  change what it returns.

  \<^verbatim>\<open>it.quit()\<close> and \<^verbatim>\<open>it.tokens()\<close> return the channel as it is when a \<^verbatim>\<open>select\<close> is entered, and \<^verbatim>\<open>Close\<close> and \<^verbatim>\<open>closeTokens\<close> set
  the field to nil when they close the channel. So a goroutine notices that a channel was closed only when it had read the field
  before: the states that wait in a \<^verbatim>\<open>select\<close> carry whether it had.
\<close>

section \<open>State\<close>

text \<open>A partition: the error of \<^verbatim>\<open>RowIter\<close>, or the rows that \<^verbatim>\<open>Next\<close> returns, the error after them that is not \<^verbatim>\<open>io.EOF\<close>, and the
  error of \<^verbatim>\<open>Close\<close>.\<close>

record partition_rows =
  pr_open :: "gerror option"
  pr_rows :: "row list"
  pr_end :: "gerror option"
  pr_close :: "gerror option"

text \<open>\<^verbatim>\<open>iterPartitions\<close>: in its \<^verbatim>\<open>select\<close> (with the quit channel, the token channel), before \<^verbatim>\<open>partitions.Next\<close>, sending a
  partition, sending an error, or returned, with the channel of partitions closed.\<close>

datatype (plugins only: code size) producer = PSelect bool bool | PNext | PSend partition_rows | PErr gerror | PDone

text \<open>\<^verbatim>\<open>start\<close>: in its \<^verbatim>\<open>select\<close> (with the quit channel), sending an error, waiting for the workers, or returned.\<close>

datatype (plugins only: code size) starter = SSelect bool | SErr gerror | SWait | SDone

text \<open>\<^verbatim>\<open>iterPartition\<close>: about to read the quit channel, testing it, sending a row, sending an error (with rows to close or without),
  closing the rows, or finished and about to release its token. The rows are those still to come.\<close>

datatype (plugins only: code size) worker =
    WQuit partition_rows
  | WTest bool partition_rows
  | WSend row partition_rows
  | WErr gerror "partition_rows option"
  | WClose partition_rows
  | WRelease

record exchange =
  ex_parallelism :: nat
  ex_partitions :: "partition_rows list"
  ex_partitions_end :: "gerror option"
  ex_tokens :: "nat option"
  ex_rows :: "row list"
  ex_rows_closed :: bool
  ex_err :: "gerror option"
  ex_quit_open :: bool
  ex_cancelled :: bool
  ex_producer :: producer
  ex_starter :: starter
  ex_workers :: "worker list"
  ex_received :: "row list"
  ex_result :: "gerror option option"

text \<open>The state when the first call of \<^verbatim>\<open>Next\<close> has run \<^verbatim>\<open>fillTokens\<close> and started the goroutines. \<open>ex_received\<close> are the rows that
  \<^verbatim>\<open>Next\<close> returned; \<open>ex_result\<close> is the error it returned at the end, or \<open>Some None\<close> when the caller closed the iterator.\<close>

definition newExchangeRowIter :: "nat \<Rightarrow> partition_rows list \<Rightarrow> gerror option \<Rightarrow> exchange" where
  "newExchangeRowIter parallelism ps e = \<lparr>
     ex_parallelism = parallelism, ex_partitions = ps, ex_partitions_end = e,
     ex_tokens = Some parallelism, ex_rows = [], ex_rows_closed = False, ex_err = None, ex_quit_open = True,
     ex_cancelled = False, ex_producer = PSelect True True, ex_starter = SSelect True, ex_workers = [],
     ex_received = [], ex_result = None \<rparr>"

section \<open>Steps\<close>

inductive iterPartitions :: "exchange \<Rightarrow> exchange \<Rightarrow> bool" where
  producer_cancelled: "ex_producer s = PSelect q t \<Longrightarrow> ex_cancelled s \<Longrightarrow>
    iterPartitions s (s \<lparr> ex_producer := PErr Canceled \<rparr>)"
| producer_quit: "ex_producer s = PSelect True t \<Longrightarrow> \<not> ex_quit_open s \<Longrightarrow>
    iterPartitions s (s \<lparr> ex_producer := PDone \<rparr>)"
| token: "ex_producer s = PSelect q True \<Longrightarrow> ex_tokens s = Some (Suc n) \<Longrightarrow>
    iterPartitions s (s \<lparr> ex_tokens := Some n, ex_producer := PNext \<rparr>)"
| token_closed: "ex_producer s = PSelect q True \<Longrightarrow> ex_tokens s = None \<Longrightarrow>
    iterPartitions s (s \<lparr> ex_producer := PNext \<rparr>)"
| next_partition: "ex_producer s = PNext \<Longrightarrow> ex_partitions s = p # ps \<Longrightarrow>
    iterPartitions s (s \<lparr> ex_partitions := ps, ex_producer := PSend p \<rparr>)"
| last_partition: "ex_producer s = PNext \<Longrightarrow> ex_partitions s = [] \<Longrightarrow> ex_partitions_end s = None \<Longrightarrow>
    iterPartitions s (s \<lparr> ex_producer := PDone \<rparr>)"
| partition_error: "ex_producer s = PNext \<Longrightarrow> ex_partitions s = [] \<Longrightarrow> ex_partitions_end s = Some e \<Longrightarrow>
    iterPartitions s (s \<lparr> ex_producer := PErr e \<rparr>)"
| producer_error: "ex_producer s = PErr e \<Longrightarrow> ex_err s = None \<Longrightarrow>
    iterPartitions s (s \<lparr> ex_err := Some e, ex_producer := PDone \<rparr>)"

text \<open>Receiving a partition lets the producer go on; both enter their \<^verbatim>\<open>select\<close> again. \<^verbatim>\<open>wg.Wait\<close> returns when no worker is left
  before \<^verbatim>\<open>wg.Done\<close>.\<close>

definition finished :: "worker \<Rightarrow> bool" where
  "finished w = (case w of WRelease \<Rightarrow> True | _ \<Rightarrow> False)"

definition new_worker :: "partition_rows \<Rightarrow> worker" where
  "new_worker p = (case pr_open p of None \<Rightarrow> WQuit p | Some e \<Rightarrow> WErr e None)"

inductive start :: "exchange \<Rightarrow> exchange \<Rightarrow> bool" where
  start_cancelled: "ex_starter s = SSelect q \<Longrightarrow> ex_cancelled s \<Longrightarrow> start s (s \<lparr> ex_starter := SErr Canceled \<rparr>)"
| start_error: "ex_starter s = SErr e \<Longrightarrow> ex_err s = None \<Longrightarrow>
    start s (s \<lparr> ex_err := Some e, ex_tokens := None, ex_starter := SDone \<rparr>)"
| start_quit: "ex_starter s = SSelect True \<Longrightarrow> \<not> ex_quit_open s \<Longrightarrow>
    start s (s \<lparr> ex_tokens := None, ex_starter := SDone \<rparr>)"
| start_worker: "ex_starter s = SSelect q \<Longrightarrow> ex_producer s = PSend p \<Longrightarrow>
    start s (s \<lparr> ex_starter := SSelect (ex_quit_open s), ex_producer := PSelect (ex_quit_open s) (ex_tokens s \<noteq> None),
                 ex_workers := ex_workers s @ [new_worker p] \<rparr>)"
| partitions_closed: "ex_starter s = SSelect q \<Longrightarrow> ex_producer s = PDone \<Longrightarrow>
    start s (s \<lparr> ex_tokens := None, ex_starter := SWait \<rparr>)"
| close_rows: "ex_starter s = SWait \<Longrightarrow> list_all finished (ex_workers s) \<Longrightarrow>
    start s (s \<lparr> ex_rows_closed := True, ex_starter := SDone \<rparr>)"

definition releaseToken :: "exchange \<Rightarrow> exchange" where
  "releaseToken s = s \<lparr> ex_tokens := map_option Suc (ex_tokens s) \<rparr>"

text \<open>What one worker does: the steps that touch only its own state, and those that send on a channel.\<close>

inductive worker_moves :: "exchange \<Rightarrow> worker \<Rightarrow> worker \<Rightarrow> bool" where
  read_quit: "worker_moves s (WQuit p) (WTest (ex_quit_open s) p)"
| worker_cancelled: "ex_cancelled s \<Longrightarrow> worker_moves s (WTest q p) (WErr Canceled (Some p))"
| worker_quit: "\<not> ex_quit_open s \<Longrightarrow> worker_moves s (WTest True p) (WClose p)"
| next_row: "\<not> ex_cancelled s \<Longrightarrow> \<not> (q \<and> \<not> ex_quit_open s) \<Longrightarrow> pr_rows p = r # rs \<Longrightarrow>
    worker_moves s (WTest q p) (WSend r (p \<lparr> pr_rows := rs \<rparr>))"
| last_row: "\<not> ex_cancelled s \<Longrightarrow> \<not> (q \<and> \<not> ex_quit_open s) \<Longrightarrow> pr_rows p = [] \<Longrightarrow> pr_end p = None \<Longrightarrow>
    worker_moves s (WTest q p) (WClose p)"
| row_error: "\<not> ex_cancelled s \<Longrightarrow> \<not> (q \<and> \<not> ex_quit_open s) \<Longrightarrow> pr_rows p = [] \<Longrightarrow> pr_end p = Some e \<Longrightarrow>
    worker_moves s (WTest q p) (WErr e (Some p))"
| close_ok: "pr_close p = None \<Longrightarrow> worker_moves s (WClose p) WRelease"
| close_error: "pr_close p = Some e \<Longrightarrow> worker_moves s (WClose p) (WErr e None)"

inductive iterPartition :: "exchange \<Rightarrow> exchange \<Rightarrow> bool" where
  own: "ex_workers s = us @ w # vs \<Longrightarrow> worker_moves s w w' \<Longrightarrow>
    iterPartition s (s \<lparr> ex_workers := us @ w' # vs \<rparr>)"
| send_row: "ex_workers s = us @ WSend r p # vs \<Longrightarrow> length (ex_rows s) < ex_parallelism s \<Longrightarrow>
    iterPartition s (s \<lparr> ex_rows := ex_rows s @ [r], ex_workers := us @ WQuit p # vs \<rparr>)"
| send_error: "ex_workers s = us @ WErr e p # vs \<Longrightarrow> ex_err s = None \<Longrightarrow>
    iterPartition s (s \<lparr> ex_err := Some e,
      ex_workers := us @ (case p of None \<Rightarrow> WRelease | Some p' \<Rightarrow> WClose p') # vs \<rparr>)"
| release: "ex_workers s = us @ WRelease # vs \<Longrightarrow>
    iterPartition s (releaseToken (s \<lparr> ex_workers := us @ vs \<rparr>))"

text \<open>The caller: \<^verbatim>\<open>Next\<close> takes whatever is ready, an error or a row or the end of the rows, and closes the iterator on an error; the
  caller may close it at any time. The context may be cancelled at any time.\<close>

inductive caller :: "exchange \<Rightarrow> exchange \<Rightarrow> bool" where
  next_error: "ex_result s = None \<Longrightarrow> ex_err s = Some e \<Longrightarrow>
    caller s (s \<lparr> ex_err := None, ex_quit_open := False, ex_result := Some (Some e) \<rparr>)"
| next_received: "ex_result s = None \<Longrightarrow> ex_rows s = r # rs \<Longrightarrow>
    caller s (s \<lparr> ex_rows := rs, ex_received := ex_received s @ [r] \<rparr>)"
| next_eof: "ex_result s = None \<Longrightarrow> ex_rows s = [] \<Longrightarrow> ex_rows_closed s \<Longrightarrow>
    caller s (s \<lparr> ex_result := Some (Some EOF) \<rparr>)"

inductive disturbance :: "exchange \<Rightarrow> exchange \<Rightarrow> bool" where
  close_early: "ex_result s = None \<Longrightarrow> disturbance s (s \<lparr> ex_quit_open := False, ex_result := Some None \<rparr>)"
| cancel: "disturbance s (s \<lparr> ex_cancelled := True \<rparr>)"

definition exchange_step :: "exchange \<Rightarrow> exchange \<Rightarrow> bool" where
  "exchange_step s s' \<longleftrightarrow> iterPartitions s s' \<or> start s s' \<or> iterPartition s s' \<or> caller s s'"

inductive reaches :: "exchange \<Rightarrow> exchange \<Rightarrow> bool" where
  refl: "reaches s s"
| undisturbed: "reaches s t \<Longrightarrow> exchange_step t u \<Longrightarrow> reaches s u"
| disturbed: "reaches s t \<Longrightarrow> disturbance t u \<Longrightarrow> reaches s u"

section \<open>Bounds\<close>

definition holds_token :: "producer \<Rightarrow> nat" where
  "holds_token p = (case p of PNext \<Rightarrow> 1 | PSend _ \<Rightarrow> 1 | _ \<Rightarrow> 0)"

definition live_producer :: "producer \<Rightarrow> bool" where
  "live_producer p = (case p of PDone \<Rightarrow> False | PErr _ \<Rightarrow> False | _ \<Rightarrow> True)"

definition bounded :: "nat \<Rightarrow> exchange \<Rightarrow> bool" where
  "bounded n s \<longleftrightarrow> ex_parallelism s = n \<and> length (ex_rows s) \<le> n \<and> length (ex_workers s) \<le> n \<and>
     (case ex_tokens s of None \<Rightarrow> ex_starter s = SWait \<or> ex_starter s = SDone
      | Some k \<Rightarrow> ex_starter s \<noteq> SWait \<and> ex_starter s \<noteq> SDone \<and> k + length (ex_workers s) + holds_token (ex_producer s) \<le> n \<and>
          (live_producer (ex_producer s) \<longrightarrow> k + length (ex_workers s) + holds_token (ex_producer s) = n \<and>
             (\<forall>q t. ex_producer s = PSelect q t \<longrightarrow> t)))"

lemmas bounded_simps = bounded_def holds_token_def live_producer_def

lemma bounded_iterPartitions: "iterPartitions s t \<Longrightarrow> bounded n s \<Longrightarrow> bounded n t"
  by (induction rule: iterPartitions.induct) (auto simp: bounded_simps split: option.splits)

lemma bounded_start: "start s t \<Longrightarrow> bounded n s \<Longrightarrow> bounded n t"
  by (induction rule: start.induct) (auto simp: bounded_simps split: option.splits producer.splits)

lemma bounded_iterPartition: "iterPartition s t \<Longrightarrow> bounded n s \<Longrightarrow> bounded n t"
  by (induction rule: iterPartition.induct) (auto simp: bounded_simps releaseToken_def split: option.splits)

lemma bounded_caller: "caller s t \<Longrightarrow> bounded n s \<Longrightarrow> bounded n t"
  by (induction rule: caller.induct) (auto simp: bounded_simps split: option.splits)

lemma bounded_disturbance: "disturbance s t \<Longrightarrow> bounded n s \<Longrightarrow> bounded n t"
  by (induction rule: disturbance.induct) (auto simp: bounded_simps split: option.splits)

lemma bounded_step: "exchange_step s t \<Longrightarrow> bounded n s \<Longrightarrow> bounded n t"
  unfolding exchange_step_def
  using bounded_iterPartitions bounded_start bounded_iterPartition bounded_caller by blast

lemma bounded_new: "bounded n (newExchangeRowIter n ps e)"
  by (simp add: bounded_simps newExchangeRowIter_def)

lemma bounded_reaches: "reaches s t \<Longrightarrow> bounded n s \<Longrightarrow> bounded n t"
  by (induction rule: reaches.induct) (auto intro: bounded_step bounded_disturbance)

section \<open>No row is lost or doubled\<close>

definition sound_partition :: "partition_rows \<Rightarrow> bool" where
  "sound_partition p \<longleftrightarrow> pr_open p = None \<and> pr_end p = None \<and> pr_close p = None"

definition sound_worker :: "worker \<Rightarrow> bool" where
  "sound_worker w = (case w of WQuit p \<Rightarrow> sound_partition p | WTest _ p \<Rightarrow> sound_partition p | WSend _ p \<Rightarrow> sound_partition p
     | WErr _ _ \<Rightarrow> False | WClose p \<Rightarrow> sound_partition p | WRelease \<Rightarrow> True)"

definition sound_producer :: "producer \<Rightarrow> bool" where
  "sound_producer p = (case p of PSend q \<Rightarrow> sound_partition q | PErr _ \<Rightarrow> False | _ \<Rightarrow> True)"

definition worker_rows :: "worker \<Rightarrow> row multiset" where
  "worker_rows w = (case w of WQuit p \<Rightarrow> mset (pr_rows p) | WTest _ p \<Rightarrow> mset (pr_rows p)
     | WSend r p \<Rightarrow> add_mset r (mset (pr_rows p)) | _ \<Rightarrow> {#})"

definition producer_rows :: "producer \<Rightarrow> row multiset" where
  "producer_rows p = (case p of PSend q \<Rightarrow> mset (pr_rows q) | _ \<Rightarrow> {#})"

definition all_rows :: "partition_rows list \<Rightarrow> row multiset" where
  "all_rows ps = sum_list (map (mset \<circ> pr_rows) ps)"

definition accounted :: "exchange \<Rightarrow> row multiset" where
  "accounted s = mset (ex_received s) + mset (ex_rows s) + sum_list (map worker_rows (ex_workers s)) +
     producer_rows (ex_producer s) + all_rows (ex_partitions s)"

text \<open>What holds while nothing fails and the caller has not closed the iterator.\<close>

definition conserves :: "row multiset \<Rightarrow> exchange \<Rightarrow> bool" where
  "conserves m s \<longleftrightarrow> \<not> ex_cancelled s \<and> (ex_result s = None \<or> ex_result s = Some (Some EOF)) \<and> ex_err s = None \<and> ex_quit_open s \<and>
     ex_partitions_end s = None \<and> list_all sound_partition (ex_partitions s) \<and> list_all sound_worker (ex_workers s) \<and>
     sound_producer (ex_producer s) \<and> (\<forall>e. ex_starter s \<noteq> SErr e) \<and>
     (ex_starter s = SWait \<or> ex_starter s = SDone \<longrightarrow> ex_producer s = PDone) \<and>
     (ex_producer s = PDone \<longrightarrow> ex_partitions s = []) \<and>
     (ex_rows_closed s \<longleftrightarrow> ex_starter s = SDone) \<and>
     (ex_rows_closed s \<longrightarrow> list_all finished (ex_workers s)) \<and>
     (ex_result s \<noteq> None \<longrightarrow> ex_rows s = [] \<and> ex_rows_closed s) \<and> accounted s = m"

lemmas sound_simps = sound_worker_def sound_producer_def worker_rows_def producer_rows_def all_rows_def finished_def

lemma conserves_iterPartitions: "iterPartitions s t \<Longrightarrow> conserves m s \<Longrightarrow> conserves m t"
  by (induction rule: iterPartitions.induct) (auto simp: conserves_def accounted_def sound_simps)

lemma new_worker_sound:
  assumes "sound_partition p"
  shows "new_worker p = WQuit p"
  using assms by (simp add: new_worker_def sound_partition_def)

lemma conserves_start: "start s t \<Longrightarrow> conserves m s \<Longrightarrow> conserves m t"
  by (induction rule: start.induct) (auto simp: conserves_def accounted_def sound_simps new_worker_sound)

lemma worker_moves_sound:
  assumes "worker_moves s w w'" "sound_worker w" "\<not> ex_cancelled s" "ex_quit_open s"
  shows "sound_worker w' \<and> worker_rows w' = worker_rows w \<and> \<not> finished w"
  using assms by (induction rule: worker_moves.induct) (auto simp: sound_simps sound_partition_def)

lemma conserves_iterPartition: "iterPartition s t \<Longrightarrow> conserves m s \<Longrightarrow> conserves m t"
proof (induction rule: iterPartition.induct)
  case (own s us w vs w')
  then have "sound_worker w' \<and> worker_rows w' = worker_rows w \<and> \<not> finished w"
    by (intro worker_moves_sound [of s]) (auto simp: conserves_def)
  with own show ?case
    by (auto simp: conserves_def accounted_def)
qed (auto simp: conserves_def accounted_def sound_simps releaseToken_def)

lemma conserves_caller: "caller s t \<Longrightarrow> conserves m s \<Longrightarrow> conserves m t"
  by (induction rule: caller.induct) (auto simp: conserves_def accounted_def)

lemma conserves_step: "exchange_step s t \<Longrightarrow> conserves m s \<Longrightarrow> conserves m t"
  unfolding exchange_step_def
  using conserves_iterPartitions conserves_start conserves_iterPartition conserves_caller by blast

lemma conserves_new:
  assumes "list_all sound_partition ps"
  shows "conserves (all_rows ps) (newExchangeRowIter n ps None)"
  using assms by (simp add: conserves_def accounted_def newExchangeRowIter_def sound_simps)

text \<open>A disturbance is seen in the state: the context is cancelled, or the result is that of a closed iterator, for good.\<close>

definition disturbed_state :: "exchange \<Rightarrow> bool" where
  "disturbed_state s \<longleftrightarrow> ex_cancelled s \<or> ex_result s = Some None"

lemma disturbance_seen: "disturbance s t \<Longrightarrow> disturbed_state t"
  by (induction rule: disturbance.induct) (simp_all add: disturbed_state_def)

lemma disturbed_step: "exchange_step s t \<Longrightarrow> disturbed_state s \<Longrightarrow> disturbed_state t"
  unfolding exchange_step_def disturbed_state_def
  by (auto elim!: iterPartitions.cases start.cases iterPartition.cases caller.cases simp: releaseToken_def)

lemma conserves_reaches:
  assumes "reaches s t" "conserves m s" "\<not> disturbed_state t"
  shows "conserves m t"
  using assms
proof (induction rule: reaches.induct)
  case (undisturbed s t u)
  then show ?case using disturbed_step conserves_step by blast
next
  case (disturbed s t u)
  then show ?case using disturbance_seen by blast
qed simp

lemma conserves_eof:
  assumes "conserves m s" "ex_result s = Some (Some EOF)"
  shows "mset (ex_received s) = m"
proof -
  have "list_all finished ws \<Longrightarrow> sum_list (map worker_rows ws) = {#}" for ws
    by (induction ws) (auto simp: sound_simps split: worker.splits)
  with assms show ?thesis
    by (auto simp: conserves_def accounted_def producer_rows_def all_rows_def)
qed

section \<open>Every run ends\<close>

definition worker_work :: "worker \<Rightarrow> nat" where
  "worker_work w = (case w of WQuit p \<Rightarrow> 4 * length (pr_rows p) + 4 | WTest _ p \<Rightarrow> 4 * length (pr_rows p) + 3
     | WSend _ p \<Rightarrow> 4 * length (pr_rows p) + 6 | WErr _ _ \<Rightarrow> 3 | WClose _ \<Rightarrow> 2 | WRelease \<Rightarrow> 1)"

definition producer_work :: "producer \<Rightarrow> nat" where
  "producer_work p = (case p of PSelect _ _ \<Rightarrow> 3 | PNext \<Rightarrow> 2 | PSend q \<Rightarrow> 8 + 4 * length (pr_rows q) | PErr _ \<Rightarrow> 1 | PDone \<Rightarrow> 0)"

definition starter_work :: "starter \<Rightarrow> nat" where
  "starter_work p = (case p of SSelect _ \<Rightarrow> 2 | SErr _ \<Rightarrow> 1 | SWait \<Rightarrow> 1 | SDone \<Rightarrow> 0)"

definition work :: "exchange \<Rightarrow> nat" where
  "work s = sum_list (map (\<lambda>p. 9 + 4 * length (pr_rows p)) (ex_partitions s)) + producer_work (ex_producer s) +
     starter_work (ex_starter s) + sum_list (map worker_work (ex_workers s)) + length (ex_rows s) +
     (if ex_result s = None then 1 else 0)"

lemmas work_simps = work_def worker_work_def producer_work_def starter_work_def

lemma work_worker_moves: "worker_moves s w w' \<Longrightarrow> sound_worker w \<Longrightarrow> \<not> ex_cancelled s \<Longrightarrow> worker_work w' < worker_work w"
  by (induction rule: worker_moves.induct) (auto simp: work_simps sound_simps sound_partition_def)

lemma work_step:
  assumes "exchange_step s t" "conserves m s"
  shows "work t < work s"
proof -
  consider "iterPartitions s t" | "start s t" | "iterPartition s t" | "caller s t"
    using assms(1) by (auto simp: exchange_step_def)
  then show ?thesis
  proof cases
    case 1
    then show ?thesis using assms(2)
      by cases (auto simp: work_simps conserves_def)
  next
    case 2
    then show ?thesis using assms(2)
      by cases (auto simp: work_simps conserves_def sound_producer_def new_worker_sound)
  next
    case 3
    then show ?thesis using assms(2)
    proof cases
      case (own us w vs w')
      then have "worker_work w' < worker_work w"
        using assms(2) by (intro work_worker_moves [of s]) (auto simp: conserves_def)
      with own show ?thesis by (simp add: work_def)
    qed (auto simp: work_simps conserves_def sound_worker_def releaseToken_def)
  next
    case 4
    then show ?thesis using assms(2)
      by cases (auto simp: work_simps conserves_def)
  qed
qed

lemma worker_enabled:
  assumes "conserves m s" "bounded n s" "0 < n" "ex_rows s = []" "ex_workers s = w # ws"
  shows "\<exists>t. iterPartition s t"
proof -
  have head: "ex_workers s = [] @ w # ws" using assms by simp
  show ?thesis
  proof (cases w)
    case (WSend r p)
    then show ?thesis using iterPartition.send_row [of s "[]" r p ws] head assms by (auto simp: bounded_def)
  next
    case WRelease
    then show ?thesis using iterPartition.release [of s "[]" ws] head by auto
  next
    case (WTest q p)
    then have "\<exists>w'. worker_moves s w w'"
      using assms by (cases "pr_rows p") (auto simp: conserves_def sound_worker_def sound_partition_def
        intro: worker_moves.intros)
    then show ?thesis using iterPartition.own [of s "[]" w ws] head by blast
  next
    case (WQuit p)
    then show ?thesis using iterPartition.own [of s "[]" w ws] head worker_moves.read_quit by blast
  next
    case (WClose p)
    then have "worker_moves s w WRelease"
      using assms by (auto simp: conserves_def sound_worker_def sound_partition_def intro: worker_moves.intros)
    then show ?thesis using iterPartition.own [of s "[]" w ws] head by blast
  next
    case (WErr e p)
    then show ?thesis using assms by (simp add: conserves_def sound_worker_def)
  qed
qed

lemma producer_enabled:
  assumes "conserves m s" "bounded n s" "0 < n" "ex_workers s = []" "ex_starter s = SSelect q"
  shows "\<exists>t. iterPartitions s t \<or> start s t"
proof (cases "ex_producer s")
  case (PSelect q' t)
  then have "ex_producer s = PSelect q' True" "ex_tokens s = Some (Suc (n - 1))"
    using assms by (auto simp: bounded_simps split: option.splits)
  then show ?thesis using iterPartitions.token by blast
next
  case PNext
  then show ?thesis
    using assms(1) iterPartitions.next_partition [OF PNext] iterPartitions.last_partition [OF PNext]
    by (cases "ex_partitions s") (auto simp: conserves_def)
next
  case (PSend p)
  then show ?thesis using start.start_worker assms by blast
next
  case (PErr e)
  then show ?thesis using assms by (simp add: conserves_def sound_producer_def)
next
  case PDone
  then show ?thesis using start.partitions_closed assms by blast
qed

lemma exchange_enabled:
  assumes "conserves m s" "bounded n s" "0 < n" "ex_result s = None"
  shows "\<exists>t. exchange_step s t"
proof (cases "ex_rows s")
  case (Cons r rs)
  then show ?thesis using caller.next_received [OF assms(4)] by (auto simp: exchange_step_def)
next
  case Nil
  show ?thesis
  proof (cases "ex_workers s")
    case (Cons w ws)
    then show ?thesis using worker_enabled [OF assms(1-3) Nil] by (auto simp: exchange_step_def)
  next
    case no_worker: Nil
    show ?thesis
    proof (cases "ex_starter s")
      case (SSelect q)
      then show ?thesis using producer_enabled [OF assms(1-3) no_worker] by (auto simp: exchange_step_def)
    next
      case (SErr e)
      then show ?thesis using assms by (simp add: conserves_def)
    next
      case SWait
      then show ?thesis using start.close_rows no_worker by (force simp: exchange_step_def)
    next
      case SDone
      then show ?thesis using assms caller.next_eof [OF assms(4) Nil] by (auto simp: conserves_def exchange_step_def)
    qed
  qed
qed

lemma runs_to_eof:
  assumes "conserves m s" "bounded n s" "0 < n"
  shows "\<exists>t. exchange_step\<^sup>*\<^sup>* s t \<and> ex_result t = Some (Some EOF) \<and> mset (ex_received t) = m"
  using assms
proof (induction "work s" arbitrary: s rule: less_induct)
  case less
  show ?case
  proof (cases "ex_result s")
    case None
    then obtain t where t: "exchange_step s t" using exchange_enabled less.prems by blast
    then have "\<exists>u. exchange_step\<^sup>*\<^sup>* t u \<and> ex_result u = Some (Some EOF) \<and> mset (ex_received u) = m"
      using less work_step conserves_step bounded_step by blast
    then show ?thesis using converse_rtranclp_into_rtranclp [of exchange_step, OF t] by blast
  next
    case (Some e)
    then have eof: "ex_result s = Some (Some EOF)" using less.prems(1) by (auto simp: conserves_def)
    then show ?thesis using conserves_eof less.prems(1) by blast
  qed
qed

text \<open>(C2) The parallel read returns exactly the rows of the partitions, whatever the order in which the goroutines run: when no
  partition fails, the context is not cancelled and the caller does not close the iterator, a call of \<^verbatim>\<open>Next\<close> that returns \<^verbatim>\<open>io.EOF\<close>
  comes after every row of every partition was returned exactly once, and no other error is returned. The read does not stop: as
  long as \<^verbatim>\<open>io.EOF\<close> was not returned some goroutine can go on, every step leaves less work, and every state goes on to the end.\<close>

theorem exchange_rows:
  assumes "reaches (newExchangeRowIter n ps None) s" "list_all sound_partition ps" "0 < n" "\<not> disturbed_state s"
  shows "(ex_result s = None \<or> ex_result s = Some (Some EOF)) \<and>
    (ex_result s = Some (Some EOF) \<longrightarrow> mset (ex_received s) = all_rows ps) \<and>
    (ex_result s = None \<longrightarrow> (\<exists>t. exchange_step s t)) \<and>
    (\<forall>t. exchange_step s t \<longrightarrow> work t < work s) \<and>
    (\<exists>t. exchange_step\<^sup>*\<^sup>* s t \<and> ex_result t = Some (Some EOF) \<and> mset (ex_received t) = all_rows ps)"
proof -
  have c: "conserves (all_rows ps) s"
    using conserves_reaches [OF assms(1) conserves_new [OF assms(2)] assms(4)] .
  have b: "bounded n s" using bounded_reaches [OF assms(1) bounded_new] .
  have "ex_result s = None \<or> ex_result s = Some (Some EOF)" using c by (simp add: conserves_def)
  then show ?thesis
    using conserves_eof [OF c] exchange_enabled [OF c b assms(3)] work_step [OF _ c] runs_to_eof [OF c b assms(3)] by blast
qed

theorem exchange_rows_witness:
  "\<exists>t. exchange_step\<^sup>*\<^sup>* (newExchangeRowIter 2 [\<lparr> pr_open = None, pr_rows = [[GInt64 1], [GInt64 2]], pr_end = None, pr_close = None \<rparr>,
      \<lparr> pr_open = None, pr_rows = [[GInt64 3]], pr_end = None, pr_close = None \<rparr>] None) t \<and> ex_result t = Some (Some EOF) \<and>
    mset (ex_received t) = {# [GInt64 1], [GInt64 2], [GInt64 3] #}"
  using exchange_rows [OF reaches.refl, of "[\<lparr> pr_open = None, pr_rows = [[GInt64 1], [GInt64 2]], pr_end = None, pr_close = None \<rparr>,
      \<lparr> pr_open = None, pr_rows = [[GInt64 3]], pr_end = None, pr_close = None \<rparr>]" 2]
  by (simp add: sound_partition_def all_rows_def disturbed_state_def newExchangeRowIter_def add_mset_commute)

text \<open>At every moment of a parallel read, also after an error, a cancellation or \<^verbatim>\<open>Close\<close>, at most \<^verbatim>\<open>parallelism\<close> partitions are
  being read and at most so many rows wait in the channel; a goroutine that releases its token finds room in the channel of tokens
  (so that it never blocks holding the mutex).\<close>

lemma exchange_bounds:
  assumes "reaches (newExchangeRowIter n ps e) s"
  shows "length (ex_workers s) \<le> n \<and> length (ex_rows s) \<le> n \<and>
    (\<forall>k w. ex_tokens s = Some k \<and> w \<in> set (ex_workers s) \<longrightarrow> k < n)"
proof -
  have b: "bounded n s" using bounded_reaches [OF assms bounded_new] .
  have "k < n" if "ex_tokens s = Some k" "w \<in> set (ex_workers s)" for k w
  proof -
    have "k + length (ex_workers s) \<le> n" using b that(1) by (simp add: bounded_def)
    then show ?thesis using length_pos_if_in_set [OF that(2)] by linarith
  qed
  then show ?thesis using b by (auto simp: bounded_def)
qed

theorem exchange_bounds_witness:
  "length (ex_workers (newExchangeRowIter 3 [] None)) \<le> 3"
  using exchange_bounds [OF reaches.refl, of 3 "[]" None] by simp

section \<open>Errors that are lost, goroutines that stay\<close>

definition failing_partition :: "row list \<Rightarrow> gerror \<Rightarrow> partition_rows" where
  "failing_partition rs e = \<lparr> pr_open = None, pr_rows = rs, pr_end = Some e, pr_close = None \<rparr>"

lemma step_intros:
  "iterPartitions s t \<Longrightarrow> exchange_step s t"
  "start s t \<Longrightarrow> exchange_step s t"
  "iterPartition s t \<Longrightarrow> exchange_step s t"
  "caller s t \<Longrightarrow> exchange_step s t"
  by (simp_all add: exchange_step_def)

lemma reaches_steps:
  assumes "reaches s t" "exchange_step\<^sup>*\<^sup>* t u"
  shows "reaches s u"
  using assms(2,1) by (induction rule: rtranclp_induct) (auto intro: reaches.undisturbed)

text \<open>A goroutine that waits to send a row after the caller is gone.\<close>

definition stuck :: "exchange \<Rightarrow> bool" where
  "stuck s \<longleftrightarrow> ex_result s \<noteq> None \<and> ex_parallelism s \<le> length (ex_rows s) \<and> (\<exists>r p. WSend r p \<in> set (ex_workers s))"

lemma stuck_step: "exchange_step s t \<Longrightarrow> stuck s \<Longrightarrow> stuck t"
  unfolding exchange_step_def stuck_def
  by (elim disjE iterPartitions.cases start.cases iterPartition.cases caller.cases worker_moves.cases)
    (auto simp: releaseToken_def)

lemma stuck_disturbance: "disturbance s t \<Longrightarrow> stuck s \<Longrightarrow> stuck t"
  unfolding stuck_def by (elim disturbance.cases) auto

lemma stuck_reaches: "reaches s t \<Longrightarrow> stuck s \<Longrightarrow> stuck t"
  by (induction rule: reaches.induct) (auto intro: stuck_step stuck_disturbance)

lemma single_worker: "worker_moves s w w' \<Longrightarrow> ex_workers s = [w] \<Longrightarrow> exchange_step s (s \<lparr> ex_workers := [w'] \<rparr>)"
  using iterPartition.own [of s "[]" w "[]" w'] by (simp add: exchange_step_def)

lemma single_worker_sends:
  "ex_workers s = [WSend r p] \<Longrightarrow> length (ex_rows s) < ex_parallelism s \<Longrightarrow>
    exchange_step s (s \<lparr> ex_rows := ex_rows s @ [r], ex_workers := [WQuit p] \<rparr>)"
  using iterPartition.send_row [of s "[]" r p "[]"] by (simp add: exchange_step_def)

lemma single_worker_fails:
  "ex_workers s = [WErr e (Some p)] \<Longrightarrow> ex_err s = None \<Longrightarrow>
    exchange_step s (s \<lparr> ex_err := Some e, ex_workers := [WClose p] \<rparr>)"
  using iterPartition.send_error [of s "[]" e "Some p" "[]"] by (simp add: exchange_step_def)

text \<open>A read of one partition up to the first test of the quit channel.\<close>

definition first_test :: "nat \<Rightarrow> partition_rows \<Rightarrow> exchange" where
  "first_test n p = (newExchangeRowIter (Suc n) [p] None) \<lparr> ex_partitions := [], ex_tokens := Some n, ex_workers := [WTest True p] \<rparr>"

lemma reaches_first_test:
  assumes "pr_open p = None"
  shows "reaches (newExchangeRowIter (Suc n) [p] None) (first_test n p)"
proof -
  let ?s = "newExchangeRowIter (Suc n) [p] None"
  let ?a = "?s \<lparr> ex_tokens := Some n, ex_producer := PNext \<rparr>"
  let ?b = "?a \<lparr> ex_partitions := [], ex_producer := PSend p \<rparr>"
  let ?c = "?s \<lparr> ex_partitions := [], ex_tokens := Some n, ex_workers := [WQuit p] \<rparr>"
  have "exchange_step ?s ?a"
    by (rule step_intros(1), rule iterPartitions.token) (simp_all add: newExchangeRowIter_def)
  moreover have "exchange_step ?a ?b"
    by (rule step_intros(1), rule iterPartitions.next_partition) (simp_all add: newExchangeRowIter_def)
  moreover have "exchange_step ?b ?c"
    using start.start_worker [of ?b True p] assms by (simp add: exchange_step_def newExchangeRowIter_def new_worker_def)
  moreover have "exchange_step ?c (first_test n p)"
    using single_worker [OF worker_moves.read_quit, of ?c p] by (simp add: first_test_def newExchangeRowIter_def)
  ultimately show ?thesis by (meson reaches.refl reaches.undisturbed)
qed

lemma error_lost: "\<exists>s. exchange_step\<^sup>*\<^sup>* (first_test (Suc n) (failing_partition [] e)) s \<and>
    ex_result s = Some (Some EOF) \<and> ex_received s = [] \<and> ex_err s = Some e"
proof -
  let ?p = "failing_partition [] e"
  let ?s = "first_test (Suc n) ?p"
  let ?a = "?s \<lparr> ex_workers := [WErr e (Some ?p)] \<rparr>"
  let ?b = "?s \<lparr> ex_err := Some e, ex_workers := [WClose ?p] \<rparr>"
  let ?c = "?s \<lparr> ex_err := Some e, ex_workers := [WRelease] \<rparr>"
  let ?d = "?c \<lparr> ex_tokens := Some n, ex_producer := PNext \<rparr>"
  let ?e = "?d \<lparr> ex_producer := PDone \<rparr>"
  let ?f = "?e \<lparr> ex_tokens := None, ex_starter := SWait \<rparr>"
  let ?g = "?f \<lparr> ex_rows_closed := True, ex_starter := SDone \<rparr>"
  let ?h = "?g \<lparr> ex_result := Some (Some EOF) \<rparr>"
  note state = first_test_def newExchangeRowIter_def failing_partition_def
  have "exchange_step ?s ?a"
    by (rule single_worker [OF worker_moves.row_error]) (simp_all add: state)
  moreover have "exchange_step ?a ?b"
    using single_worker_fails [of ?a e ?p] by (simp add: state)
  moreover have "exchange_step ?b ?c"
    using single_worker [OF worker_moves.close_ok, of ?p ?b] by (simp add: state)
  moreover have "exchange_step ?c ?d"
    by (rule step_intros(1), rule iterPartitions.token) (simp_all add: state)
  moreover have "exchange_step ?d ?e"
    by (rule step_intros(1), rule iterPartitions.last_partition) (simp_all add: state)
  moreover have "exchange_step ?e ?f"
    by (rule step_intros(2), rule start.partitions_closed) (simp_all add: state)
  moreover have "exchange_step ?f ?g"
    by (rule step_intros(2), rule start.close_rows) (simp_all add: state finished_def)
  moreover have "exchange_step ?g ?h"
    by (rule step_intros(4), rule caller.next_eof) (simp_all add: state)
  ultimately have "exchange_step\<^sup>*\<^sup>* ?s ?h"
    by (meson rtranclp.rtrancl_into_rtrancl rtranclp.rtrancl_refl)
  then show ?thesis by (rule exI [of _ ?h, OF conjI]) (simp add: state)
qed

lemma worker_left_behind:
  assumes "pr_rows p = a # b # rs"
  shows "\<exists>s. exchange_step\<^sup>*\<^sup>* (first_test 0 p) s \<and> ex_result s = None \<and>
    stuck (s \<lparr> ex_quit_open := False, ex_result := Some None \<rparr>)"
proof -
  let ?p = "p \<lparr> pr_rows := b # rs \<rparr>" and ?q = "p \<lparr> pr_rows := rs \<rparr>"
  let ?s = "first_test 0 p"
  let ?a = "?s \<lparr> ex_workers := [WSend a ?p] \<rparr>"
  let ?b = "?s \<lparr> ex_rows := [a], ex_workers := [WQuit ?p] \<rparr>"
  let ?c = "?s \<lparr> ex_rows := [a], ex_workers := [WTest True ?p] \<rparr>"
  let ?d = "?s \<lparr> ex_rows := [a], ex_workers := [WSend b ?q] \<rparr>"
  note state = first_test_def newExchangeRowIter_def
  have "exchange_step ?s ?a"
    by (rule single_worker [OF worker_moves.next_row]) (simp_all add: state assms)
  moreover have "exchange_step ?a ?b"
    using single_worker_sends [of ?a a ?p] by (simp add: state)
  moreover have "exchange_step ?b ?c"
    using single_worker [OF worker_moves.read_quit, of ?b ?p] by (simp add: state)
  moreover have "exchange_step ?c ?d"
    using single_worker [OF worker_moves.next_row [of ?c True ?p b rs], of] by (simp add: state)
  ultimately have "exchange_step\<^sup>*\<^sup>* ?s ?d"
    by (meson rtranclp.rtrancl_into_rtrancl rtranclp.rtrancl_refl)
  then show ?thesis by (rule exI [of _ ?d, OF conjI]) (auto simp: state stuck_def)
qed

text \<open>(C39) What the parallel read gets wrong. A partition that fails need not be noticed: with two tokens or more there is a run in
  which \<^verbatim>\<open>Next\<close> returns \<^verbatim>\<open>io.EOF\<close> with the error still in its channel, because the \<^verbatim>\<open>select\<close> may take the closed channel of rows. And
  a goroutine can stay for ever: with one token and a partition of two rows or more there is a run in which the caller closes the
  iterator and the worker of the partition never ends, however the run goes on.\<close>

theorem exchange_defects:
  assumes "2 \<le> n" "pr_open p = None" "pr_rows p = a # b # rs"
  shows "(\<exists>s. reaches (newExchangeRowIter n [failing_partition [] e] None) s \<and> \<not> disturbed_state s \<and>
      ex_result s = Some (Some EOF) \<and> ex_received s = [] \<and> ex_err s = Some e) \<and>
    (\<exists>s. reaches (newExchangeRowIter 1 [p] None) s \<and> ex_result s = Some None \<and>
      (\<forall>t. reaches s t \<longrightarrow> (\<exists>r q. WSend r q \<in> set (ex_workers t))))"
proof
  obtain k where n: "n = Suc (Suc k)" using assms(1) by (cases n; cases "n - 1") auto
  obtain s where s: "exchange_step\<^sup>*\<^sup>* (first_test (Suc k) (failing_partition [] e)) s"
      "ex_result s = Some (Some EOF)" "ex_received s = []" "ex_err s = Some e"
    using error_lost by blast
  have "exchange_step\<^sup>*\<^sup>* u v \<Longrightarrow> ex_cancelled v = ex_cancelled u" for u v
    by (induction rule: rtranclp_induct)
      (auto simp: exchange_step_def releaseToken_def elim!: iterPartitions.cases start.cases iterPartition.cases caller.cases)
  from this [OF s(1)] have "\<not> disturbed_state s"
    using s(2) by (simp add: disturbed_state_def first_test_def newExchangeRowIter_def)
  then show "\<exists>s. reaches (newExchangeRowIter n [failing_partition [] e] None) s \<and> \<not> disturbed_state s \<and>
      ex_result s = Some (Some EOF) \<and> ex_received s = [] \<and> ex_err s = Some e"
    using s reaches_steps [OF reaches_first_test s(1)] n by (auto simp: failing_partition_def)
next
  obtain s where s: "exchange_step\<^sup>*\<^sup>* (first_test 0 p) s" "ex_result s = None"
      "stuck (s \<lparr> ex_quit_open := False, ex_result := Some None \<rparr>)"
    using worker_left_behind [OF assms(3)] by blast
  let ?t = "s \<lparr> ex_quit_open := False, ex_result := Some None \<rparr>"
  have "reaches (newExchangeRowIter 1 [p] None) ?t"
    using reaches.disturbed [OF reaches_steps [OF reaches_first_test [OF assms(2)] s(1)] disturbance.close_early [OF s(2)]] by simp
  moreover have "\<forall>u. reaches ?t u \<longrightarrow> (\<exists>r q. WSend r q \<in> set (ex_workers u))"
    using stuck_reaches [OF _ s(3)] by (auto simp: stuck_def)
  ultimately show "\<exists>s. reaches (newExchangeRowIter 1 [p] None) s \<and> ex_result s = Some None \<and>
      (\<forall>t. reaches s t \<longrightarrow> (\<exists>r q. WSend r q \<in> set (ex_workers t)))"
    by (intro exI [of _ ?t]) simp
qed

theorem exchange_defects_witness:
  "\<exists>s. reaches (newExchangeRowIter 2 [failing_partition [] Canceled] None) s \<and> ex_result s = Some (Some EOF) \<and>
    ex_err s = Some Canceled"
  using exchange_defects [of 2 "failing_partition [[], []] EOF" "[]" "[]" "[]" Canceled]
  by (auto simp: failing_partition_def)

end
