(* ===== verification/Text_Functions.thy ===== *)
theory Text_Functions
  imports Sql_Types Go_Strings "HOL-Library.Sublist"
begin

text \<open>
  The text functions (\<^verbatim>\<open>sql/expression/function\<close>): SUBSTRING, SUBSTRING_INDEX, LEFT, INSTR, REVERSE, REPEAT, REPLACE, LPAD and RPAD,
  CONCAT, CONCAT_WS, LENGTH and CHAR_LENGTH. A function is given the results of evaluating its arguments; that an argument is not evaluated once the result is known does not change the result.

  A Go string is a list of bytes; \<open>runes\<close> is the conversion to \<^verbatim>\<open>[]rune\<close>, which decodes UTF-8 and takes each byte that does not fit for
  U+FFFD, and \<open>of_runes\<close> is the conversion back.
\<close>

section \<open>UTF-8\<close>

type_synonym rune = nat

definition RuneError :: rune where "RuneError = 0xFFFD"

definition byte :: "char \<Rightarrow> nat" where "byte c = of_char c"

definition cont :: "nat \<Rightarrow> nat \<Rightarrow> nat \<Rightarrow> bool" where
  "cont lo hi b = (lo \<le> b \<and> b \<le> hi)"

text \<open>\<^verbatim>\<open>utf8.DecodeRune\<close> on the bytes of a nonempty string: the rune and its width.\<close>

definition decode2 :: "nat \<Rightarrow> nat list \<Rightarrow> rune \<times> nat" where
  "decode2 b0 bs = (case bs of b1 # _ \<Rightarrow>
      if cont 0x80 0xBF b1 then ((b0 - 0xC0) * 64 + (b1 - 0x80), 2) else (RuneError, 1) | _ \<Rightarrow> (RuneError, 1))"

definition decode3 :: "nat \<Rightarrow> nat list \<Rightarrow> rune \<times> nat" where
  "decode3 b0 bs = (case bs of b1 # b2 # _ \<Rightarrow>
      if cont (if b0 = 0xE0 then 0xA0 else 0x80) (if b0 = 0xED then 0x9F else 0xBF) b1 \<and> cont 0x80 0xBF b2
      then (((b0 - 0xE0) * 64 + (b1 - 0x80)) * 64 + (b2 - 0x80), 3) else (RuneError, 1) | _ \<Rightarrow> (RuneError, 1))"

definition decode4 :: "nat \<Rightarrow> nat list \<Rightarrow> rune \<times> nat" where
  "decode4 b0 bs = (case bs of b1 # b2 # b3 # _ \<Rightarrow>
      if cont (if b0 = 0xF0 then 0x90 else 0x80) (if b0 = 0xF4 then 0x8F else 0xBF) b1 \<and> cont 0x80 0xBF b2 \<and> cont 0x80 0xBF b3
      then ((((b0 - 0xF0) * 64 + (b1 - 0x80)) * 64 + (b2 - 0x80)) * 64 + (b3 - 0x80), 4) else (RuneError, 1)
    | _ \<Rightarrow> (RuneError, 1))"

definition DecodeRune :: "nat \<Rightarrow> nat list \<Rightarrow> rune \<times> nat" where
  "DecodeRune b0 bs =
     (if b0 < 0x80 then (b0, 1)
      else if cont 0xC2 0xDF b0 then decode2 b0 bs
      else if cont 0xE0 0xEF b0 then decode3 b0 bs
      else if cont 0xF0 0xF4 b0 then decode4 b0 bs
      else (RuneError, 1))"

lemmas decode_defs = DecodeRune_def decode2_def decode3_def decode4_def

lemma DecodeRune_width: "0 < snd (DecodeRune b bs)"
  by (simp add: decode_defs split: list.split)

function decode_all :: "nat list \<Rightarrow> rune list" where
  "decode_all [] = []"
| "decode_all (b # bs) = (case DecodeRune b bs of (r, n) \<Rightarrow> r # decode_all (drop (n - 1) bs))"
  by pat_completeness auto
termination by (relation "measure length") auto

definition runes :: "string \<Rightarrow> rune list" where
  "runes s = decode_all (map byte s)"

definition valid_rune :: "rune \<Rightarrow> bool" where
  "valid_rune r \<longleftrightarrow> r < 0xD800 \<or> 0xDFFF < r \<and> r \<le> 0x10FFFF"

text \<open>\<^verbatim>\<open>utf8.EncodeRune\<close>.\<close>

definition EncodeRune :: "rune \<Rightarrow> nat list" where
  "EncodeRune r0 = (let r = (if valid_rune r0 then r0 else RuneError) in
     if r < 0x80 then [r]
     else if r < 0x800 then [0xC0 + r div 64, 0x80 + r mod 64]
     else if r < 0x10000 then [0xE0 + r div 4096, 0x80 + r div 64 mod 64, 0x80 + r mod 64]
     else [0xF0 + r div 262144, 0x80 + r div 4096 mod 64, 0x80 + r div 64 mod 64, 0x80 + r mod 64])"

definition of_runes :: "rune list \<Rightarrow> string" where
  "of_runes rs = map char_of (concat (map EncodeRune rs))"

lemma digits64:
  fixes r :: nat
  shows "r div 64 * 64 + r mod 64 = r"
    and "(r div 4096 * 64 + r div 64 mod 64) * 64 + r mod 64 = r"
    and "((r div 262144 * 64 + r div 4096 mod 64) * 64 + r div 64 mod 64) * 64 + r mod 64 = r"
proof -
  have b: "r div 4096 = r div 64 div 64" "r div 262144 = r div 4096 div 64" by (simp_all add: div_mult2_eq [symmetric])
  show c: "x div 64 * 64 + x mod 64 = x" for x :: nat by simp
  show d: "(r div 4096 * 64 + r div 64 mod 64) * 64 + r mod 64 = r" by (simp only: b(1) c)
  show "((r div 262144 * 64 + r div 4096 mod 64) * 64 + r div 64 mod 64) * 64 + r mod 64 = r"
    by (simp only: b(2) c d)
qed

text \<open>The digits of a rune in base 64.\<close>

lemma rune_digits3:
  fixes r :: nat
  obtains a b c where "r div 4096 = a" "r div 64 mod 64 = b" "r mod 64 = c" "r = (a * 64 + b) * 64 + c" "b < 64" "c < 64"
  using that [OF refl refl refl digits64(2) [symmetric]] by simp

lemma rune_digits4:
  fixes r :: nat
  obtains a b c d where "r div 262144 = a" "r div 4096 mod 64 = b" "r div 64 mod 64 = c" "r mod 64 = d"
    "r = ((a * 64 + b) * 64 + c) * 64 + d" "b < 64" "c < 64" "d < 64"
  using that [OF refl refl refl refl digits64(3) [symmetric]] by simp

lemma EncodeRune_cases:
  assumes "valid_rune r"
  obtains "r < 0x80" "EncodeRune r = [r]"
  | "0x80 \<le> r" "r < 0x800" "EncodeRune r = [0xC0 + r div 64, 0x80 + r mod 64]"
  | "0x800 \<le> r" "r < 0x10000" "EncodeRune r = [0xE0 + r div 4096, 0x80 + r div 64 mod 64, 0x80 + r mod 64]"
  | "0x10000 \<le> r" "r \<le> 0x10FFFF"
      "EncodeRune r = [0xF0 + r div 262144, 0x80 + r div 4096 mod 64, 0x80 + r div 64 mod 64, 0x80 + r mod 64]"
proof -
  consider "r < 0x80" | "0x80 \<le> r" "r < 0x800" | "0x800 \<le> r" "r < 0x10000" | "0x10000 \<le> r" by linarith
  then show ?thesis
    by cases (use assms that in \<open>auto simp: EncodeRune_def valid_rune_def\<close>)
qed

lemma decode_encode:
  assumes "valid_rune r"
  shows "decode_all (EncodeRune r @ bs) = r # decode_all bs"
  using assms
proof (cases rule: EncodeRune_cases)
  case 1
  then show ?thesis by (simp add: DecodeRune_def)
next
  case 2
  obtain a b where ab: "r div 64 = a" "r mod 64 = b" "r = a * 64 + b" "b < 64"
    using digits64(1) [of r] by (metis mod_less_divisor zero_less_numeral)
  then have "2 \<le> a" "a \<le> 31" using 2 by linarith+
  with ab 2 show ?thesis by (simp add: decode_defs cont_def)
next
  case 3
  obtain a b c where d: "r div 4096 = a" "r div 64 mod 64 = b" "r mod 64 = c" "r = (a * 64 + b) * 64 + c" "b < 64" "c < 64"
    by (rule rune_digits3)
  then have "a \<le> 15" "a = 0 \<longrightarrow> 32 \<le> b" "a = 13 \<longrightarrow> b \<le> 31"
    using 3 assms by (auto simp: valid_rune_def)
  then have "DecodeRune (0xE0 + a) ((0x80 + b) # (0x80 + c) # bs) = (r, 3)"
    using d(4-6) by (auto simp: decode_defs cont_def)
  with 3 d(1-3) show ?thesis by simp
next
  case 4
  obtain a b c d where e: "r div 262144 = a" "r div 4096 mod 64 = b" "r div 64 mod 64 = c" "r mod 64 = d"
      "r = ((a * 64 + b) * 64 + c) * 64 + d" "b < 64" "c < 64" "d < 64"
    by (rule rune_digits4)
  then have "a \<le> 4" "a = 0 \<longrightarrow> 16 \<le> b" "a = 4 \<longrightarrow> b \<le> 15"
    using 4 by auto
  then have "DecodeRune (0xF0 + a) ((0x80 + b) # (0x80 + c) # (0x80 + d) # bs) = (r, 4)"
    using e(5-8) by (auto simp: decode_defs cont_def)
  with 4 e(1-4) show ?thesis by simp
qed

lemma EncodeRune_bytes:
  assumes "b \<in> set (EncodeRune r)"
  shows "b < 256"
proof -
  define q where "q = (if valid_rune r then r else RuneError)"
  have q: "valid_rune q" by (simp add: q_def valid_rune_def RuneError_def)
  have "EncodeRune r = EncodeRune q" by (simp add: EncodeRune_def q_def Let_def)
  with assms have b: "b \<in> set (EncodeRune q)" by simp
  from q show ?thesis
  proof (cases rule: EncodeRune_cases)
    case 3
    then have "q div 4096 \<le> 15" by linarith
    with 3 b show ?thesis using mod_less_divisor [of 64] by fastforce
  next
    case 4
    then have "q div 262144 \<le> 4" by linarith
    with 4 b show ?thesis using mod_less_divisor [of 64] by fastforce
  qed (use b in auto)
qed

lemma runes_of_runes:
  assumes "list_all valid_rune rs"
  shows "runes (of_runes rs) = rs"
proof -
  have "map (byte \<circ> char_of) bs = bs" if "\<forall>b \<in> set bs. b < 256" for bs :: "nat list"
    using that by (induction bs) (auto simp: byte_def take_bit_eq_mod)
  from this [of "concat (map EncodeRune rs)"] have "map byte (of_runes rs) = concat (map EncodeRune rs)"
    unfolding of_runes_def by (auto dest: EncodeRune_bytes)
  moreover have "decode_all (concat (map EncodeRune rs)) = rs"
    using assms by (induction rs) (simp_all add: decode_encode)
  ultimately show ?thesis by (simp add: runes_def)
qed

lemma valid_rune3:
  assumes "x \<le> 15" "y < 64" "z < 64" "x = 13 \<Longrightarrow> y < 32"
  shows "valid_rune ((x * 64 + y) * 64 + z)"
proof -
  consider "x \<le> 12" | "x = 13" | "14 \<le> x" by linarith
  then show ?thesis
  proof cases
    case 1
    then have "(x * 64 + y) * 64 + z < 0xD800" using assms(2,3) by auto
    then show ?thesis by (simp add: valid_rune_def)
  next
    case 2
    then show ?thesis using assms(2-4) by (auto simp: valid_rune_def)
  next
    case 3
    then have "0xDFFF < (x * 64 + y) * 64 + z" "(x * 64 + y) * 64 + z \<le> 0x10FFFF" using assms(1-3) by auto
    then show ?thesis by (simp add: valid_rune_def)
  qed
qed

lemma valid_rune4:
  assumes "x \<le> 4" "y < 64" "z < 64" "w < 64" "x = 0 \<Longrightarrow> 16 \<le> y" "x = 4 \<Longrightarrow> y < 16"
  shows "valid_rune (((x * 64 + y) * 64 + z) * 64 + w)"
proof -
  have "0xDFFF < ((x * 64 + y) * 64 + z) * 64 + w"
    using assms(5) by (cases "x = 0") auto
  moreover have "((x * 64 + y) * 64 + z) * 64 + w \<le> 0x10FFFF"
  proof (cases "x = 4")
    case True
    then have "y \<le> 15" using assms(6) by simp
    then show ?thesis using True assms(3,4) by auto
  next
    case False
    then have "x \<le> 3" using assms(1) by linarith
    then show ?thesis using assms(2-4) by auto
  qed
  ultimately show ?thesis by (simp add: valid_rune_def)
qed

lemma RuneError_valid [simp]: "valid_rune RuneError"
  by (simp add: RuneError_def valid_rune_def)

lemma decode2_valid: "cont 0xC2 0xDF b \<Longrightarrow> valid_rune (fst (decode2 b bs))"
  by (auto simp: decode2_def cont_def valid_rune_def RuneError_def split: list.split)

lemma decode3_valid:
  assumes "cont 0xE0 0xEF b"
  shows "valid_rune (fst (decode3 b bs))"
proof -
  have "valid_rune (((b - 0xE0) * 64 + (c - 0x80)) * 64 + (d - 0x80))"
    if "cont (if b = 0xE0 then 0xA0 else 0x80) (if b = 0xED then 0x9F else 0xBF) c" "cont 0x80 0xBF d" for c d
    by (rule valid_rune3) (use that assms in \<open>auto simp: cont_def split: if_splits\<close>)
  then show ?thesis by (auto simp: decode3_def split: list.split)
qed

lemma decode4_valid:
  assumes "cont 0xF0 0xF4 b"
  shows "valid_rune (fst (decode4 b bs))"
proof -
  have "valid_rune ((((b - 0xF0) * 64 + (c - 0x80)) * 64 + (d - 0x80)) * 64 + (e - 0x80))"
    if "cont (if b = 0xF0 then 0x90 else 0x80) (if b = 0xF4 then 0x8F else 0xBF) c" "cont 0x80 0xBF d" "cont 0x80 0xBF e" for c d e
    by (rule valid_rune4) (use that assms in \<open>auto simp: cont_def split: if_splits\<close>)
  then show ?thesis by (auto simp: decode4_def split: list.split)
qed

lemma DecodeRune_valid: "valid_rune (fst (DecodeRune b bs))"
  by (simp add: DecodeRune_def decode2_valid decode3_valid decode4_valid) (simp add: valid_rune_def)

lemma decode_all_valid: "list_all valid_rune (decode_all bs)"
proof (induction bs rule: decode_all.induct)
  case (2 b bs)
  then show ?case using DecodeRune_valid [of b bs] by (cases "DecodeRune b bs") simp
qed simp

lemma runes_valid [simp]: "list_all valid_rune (runes s)"
  by (simp add: runes_def decode_all_valid)

text \<open>A text that is well-formed UTF-8.\<close>

definition well_formed :: "string \<Rightarrow> bool" where
  "well_formed s \<longleftrightarrow> of_runes (runes s) = s"

lemma well_formed_of_runes: "list_all valid_rune rs \<Longrightarrow> well_formed (of_runes rs)"
  by (simp add: well_formed_def runes_of_runes)

section \<open>Arguments\<close>

text \<open>\<^verbatim>\<open>LongText.Convert\<close> and \<^verbatim>\<open>Int64.Convert\<close> with the type assertion that follows; the switch on a string that SUBSTRING, LEFT and
  INSTR make instead; slicing, which panics out of range.\<close>

definition to_text :: "genv \<Rightarrow> gval \<Rightarrow> string res" where
  "to_text env v = rbind (sql_convert env LongText v) (\<lambda>x. case x of GString s \<Rightarrow> Ok s | _ \<Rightarrow> Panic)"

definition to_int64 :: "genv \<Rightarrow> gval \<Rightarrow> int res" where
  "to_int64 env v = rbind (sql_convert env Int64 v) (\<lambda>x. case x of GInt64 w \<Rightarrow> Ok (sint w) | _ \<Rightarrow> Panic)"

definition not_nil :: "gval res \<Rightarrow> (gval \<Rightarrow> gval res) \<Rightarrow> gval res" where
  "not_nil m f = rbind m (\<lambda>v. if v = GNil then Ok GNil else f v)"

definition rune_arg :: "gval res \<Rightarrow> (rune list \<Rightarrow> gval res) \<Rightarrow> gval res" where
  "rune_arg m f = rbind m (\<lambda>v. case v of GString s \<Rightarrow> f (runes s) | GBytes s \<Rightarrow> f (runes s) | GNil \<Rightarrow> Ok GNil
     | _ \<Rightarrow> Err (SqlErr ErrInvalidType))"

definition text_result :: "string res \<Rightarrow> gval res" where
  "text_result m = rbind m (\<lambda>s. Ok (GString s))"

definition slice :: "'a list \<Rightarrow> int \<Rightarrow> int \<Rightarrow> 'a list res" where
  "slice xs lo hi = (if 0 \<le> lo \<and> lo \<le> hi \<and> hi \<le> int (length xs) then Ok (take (nat (hi - lo)) (drop (nat lo) xs)) else Panic)"

section \<open>SUBSTRING, LEFT, INSTR\<close>

definition clipped :: "rune list \<Rightarrow> int \<Rightarrow> int \<Rightarrow> string res" where
  "clipped text startIdx n =
     (let runeCount = int (length text);
          n1 = (if wrap64 (startIdx + n) > runeCount then wrap64 (runeCount - startIdx) else n) in
      rbind (slice text startIdx (wrap64 (startIdx + n1))) (\<lambda>rs. Ok (of_runes rs)))"

definition substring :: "rune list \<Rightarrow> int \<Rightarrow> int option \<Rightarrow> string res" where
  "substring text start len =
     (let runeCount = int (length text);
          n = (case len of Some l \<Rightarrow> l | None \<Rightarrow> runeCount);
          startIdx = (if start < 0 then wrap64 (runeCount + start) else wrap64 (start - 1)) in
      if startIdx < 0 \<or> startIdx \<ge> runeCount \<or> n \<le> 0 then Ok []
      else clipped text startIdx n)"

definition Substring_Eval :: "genv \<Rightarrow> gval res \<Rightarrow> gval res \<Rightarrow> gval res option \<Rightarrow> gval res" where
  "Substring_Eval env str start len =
     rune_arg str (\<lambda>text. not_nil start (\<lambda>s. rbind (to_int64 env s) (\<lambda>st. case len of
         None \<Rightarrow> text_result (substring text st None)
       | Some l \<Rightarrow> not_nil l (\<lambda>l1. rbind (to_int64 env l1) (\<lambda>n. text_result (substring text st (Some n)))))))"

definition left_runes :: "rune list \<Rightarrow> int \<Rightarrow> string res" where
  "left_runes text length0 =
     (let n = (if length0 > int (length text) then int (length text) else length0) in
      if n \<le> 0 then Ok [] else rbind (slice text 0 n) (\<lambda>rs. Ok (of_runes rs)))"

definition Left_Eval :: "genv \<Rightarrow> gval res \<Rightarrow> gval res \<Rightarrow> gval res" where
  "Left_Eval env str len =
     rune_arg str (\<lambda>text. not_nil len (\<lambda>l. rbind (to_int64 env l) (\<lambda>n. text_result (left_runes text n))))"

text \<open>The inner loop of \<^verbatim>\<open>findSubsequence\<close> stops at the first difference; it ran through when the runes agree.\<close>

function find_from :: "rune list \<Rightarrow> rune list \<Rightarrow> nat \<Rightarrow> int" where
  "find_from text sub i =
     (if i + length sub \<le> length text
      then if take (length sub) (drop i text) = sub then int i else find_from text sub (i + 1)
      else -1)"
  by pat_completeness auto
termination by (relation "measure (\<lambda>(text, sub, i). Suc (length text) - i)") auto

declare find_from.simps [simp del]

definition findSubsequence :: "rune list \<Rightarrow> rune list \<Rightarrow> int" where
  "findSubsequence text sub = find_from text sub 0"

text \<open>A \<^verbatim>\<open>[]byte\<close> as the second argument: the code converts the variable it is about to set, which is empty.\<close>

definition Instr_Eval :: "gval res \<Rightarrow> gval res \<Rightarrow> gval res" where
  "Instr_Eval str substr =
     rune_arg str (\<lambda>text. rbind substr (\<lambda>v. case v of
         GString s \<Rightarrow> Ok (GInt64 (word_of_int (findSubsequence text (runes s) + 1)))
       | GBytes s \<Rightarrow> Ok (GInt64 (word_of_int (findSubsequence text [] + 1)))
       | GNil \<Rightarrow> Ok GNil
       | _ \<Rightarrow> Err (SqlErr ErrInvalidType)))"

section \<open>SUBSTRING_INDEX, REVERSE, REPEAT, REPLACE\<close>

text \<open>\<^verbatim>\<open>strings.Split\<close> at a separator, and after each UTF-8 sequence when it is empty; \<^verbatim>\<open>strings.Replace\<close> of every occurrence.\<close>

fun cut :: "string \<Rightarrow> string \<Rightarrow> (string \<times> string) option" where
  "cut sep s = (if take (length sep) s = sep then Some ([], drop (length sep) s)
     else case s of [] \<Rightarrow> None | c # cs \<Rightarrow> map_option (\<lambda>(a, b). (c # a, b)) (cut sep cs))"

declare cut.simps [simp del]

lemma cut_Some: "cut sep s = Some (a, b) \<Longrightarrow> s = a @ sep @ b"
proof (induction sep s arbitrary: a rule: cut.induct)
  case (1 sep s)
  show ?case
  proof (cases "take (length sep) s = sep")
    case True
    with 1(2) have "a = []" "b = drop (length sep) s" by (auto simp: cut.simps [of sep s])
    then show ?thesis using append_take_drop_id [of "length sep" s] True by simp
  next
    case False
    with 1(2) obtain c cs a' where "s = c # cs" "cut sep cs = Some (a', b)" "a = c # a'"
      by (auto simp: cut.simps [of sep s] split: list.splits)
    with 1(1) False show ?thesis by auto
  qed
qed

function split_sep :: "string \<Rightarrow> string \<Rightarrow> string list" where
  "split_sep sep s = (if sep = [] then [s] else case cut sep s of None \<Rightarrow> [s] | Some (a, b) \<Rightarrow> a # split_sep sep b)"
  by pat_completeness auto
termination by (relation "measure (\<lambda>(sep, s). length s)") (auto dest: cut_Some)

declare split_sep.simps [simp del]

function explode :: "string \<Rightarrow> string list" where
  "explode [] = []"
| "explode (c # cs) = (let n = snd (DecodeRune (byte c) (map byte cs)) - 1 in (c # take n cs) # explode (drop n cs))"
  by pat_completeness auto
termination by (relation "measure length") auto

definition strings_Split :: "string \<Rightarrow> string \<Rightarrow> string list" where
  "strings_Split s sep = (if sep = [] then explode s else split_sep sep s)"

function strings_Replace :: "string \<Rightarrow> string \<Rightarrow> string \<Rightarrow> string" where
  "strings_Replace old new s =
     (if old = [] then s else case cut old s of None \<Rightarrow> s | Some (a, b) \<Rightarrow> a @ new @ strings_Replace old new b)"
  by pat_completeness auto
termination by (relation "measure (\<lambda>(old, new, s). length s)") (auto dest: cut_Some)

declare strings_Replace.simps [simp del]

definition substring_index :: "string \<Rightarrow> string \<Rightarrow> int \<Rightarrow> string res" where
  "substring_index str delim cnt =
     (let strs = strings_Split str delim; n = int (length strs) in
      if cnt > 0 then rbind (slice strs 0 (if cnt < n then cnt else n)) (\<lambda>ss. Ok (Join delim ss))
      else let c = wrap64 (- cnt) in
        if c < 0 then Ok []
        else rbind (slice strs (if c < n then n - c else 0) n) (\<lambda>ss. Ok (Join delim ss)))"

definition checked_text :: "gval \<Rightarrow> (string \<Rightarrow> gval res) \<Rightarrow> gval res" where
  "checked_text x f = (case x of GString s \<Rightarrow> f s | _ \<Rightarrow> Err (SqlErr ErrInvalidType))"

definition SubstringIndex_Eval :: "genv \<Rightarrow> gval res \<Rightarrow> gval res \<Rightarrow> gval res \<Rightarrow> gval res" where
  "SubstringIndex_Eval env str delim cnt =
     not_nil str (\<lambda>v1. rbind (sql_convert env LongText v1) (\<lambda>x1. checked_text x1 (\<lambda>s.
       not_nil delim (\<lambda>v2. rbind (sql_convert env LongText v2) (\<lambda>x2. checked_text x2 (\<lambda>d.
         not_nil cnt (\<lambda>v3. rbind (sql_convert env Int64 v3) (\<lambda>x3. case x3 of
             GInt64 w \<Rightarrow> text_result (substring_index s d (sint w))
           | _ \<Rightarrow> Err (SqlErr ErrInvalidType)))))))))"

text \<open>The loop of \<^verbatim>\<open>reverseString\<close> exchanges runes from both ends.\<close>

function swap_loop :: "'a list \<Rightarrow> nat \<Rightarrow> nat \<Rightarrow> 'a list" where
  "swap_loop r i j = (if i < j then swap_loop (r[i := r ! j, j := r ! i]) (i + 1) (j - 1) else r)"
  by pat_completeness auto
termination by (relation "measure (\<lambda>(r, i, j). j - i)") auto

declare swap_loop.simps [simp del]

definition reverseString :: "string \<Rightarrow> string" where
  "reverseString s = of_runes (swap_loop (runes s) 0 (length (runes s) - 1))"

definition Reverse_Eval :: "genv \<Rightarrow> gval res \<Rightarrow> gval res" where
  "Reverse_Eval env child = not_nil child (\<lambda>v. rbind (to_text env v) (\<lambda>s. Ok (GString (reverseString s))))"

definition Repeat :: "string \<Rightarrow> nat \<Rightarrow> string" where
  "Repeat s n = concat (replicate n s)"

definition Repeat_Eval :: "genv \<Rightarrow> gval res \<Rightarrow> gval res \<Rightarrow> gval res" where
  "Repeat_Eval env l r =
     not_nil l (\<lambda>v. rbind (to_text env v) (\<lambda>s. not_nil r (\<lambda>c. rbind (sql_convert env (NumberT Int32T) c) (\<lambda>x. case x of
         GInt32 w \<Rightarrow> if sint w < 0 then Err (FuncErr ErrNegativeRepeatCount) else Ok (GString (Repeat s (nat (sint w))))
       | _ \<Rightarrow> Panic))))"

definition Replace_Eval :: "genv \<Rightarrow> gval res \<Rightarrow> gval res \<Rightarrow> gval res \<Rightarrow> gval res" where
  "Replace_Eval env str fromStr toStr =
     not_nil str (\<lambda>v1. rbind (to_text env v1) (\<lambda>s.
       not_nil fromStr (\<lambda>v2. rbind (to_text env v2) (\<lambda>f.
         not_nil toStr (\<lambda>v3. rbind (to_text env v3) (\<lambda>t.
           Ok (GString (if f = [] then s else strings_Replace f t s))))))))"

section \<open>LPAD, RPAD\<close>

definition divmod :: "int \<Rightarrow> int \<Rightarrow> (int \<times> int) res" where
  "divmod a b = (if b = 0 then Err (FuncErr ErrDivisionByZero) else Ok (a div b, a mod b))"

definition padString :: "string \<Rightarrow> int \<Rightarrow> string \<Rightarrow> bool \<Rightarrow> string res" where
  "padString str len padStr lpad =
     (if len \<le> 0 then Ok []
      else if int (length str) \<ge> len then slice str 0 len
      else if padStr = [] then Ok []
      else rbind (divmod (len - int (length str)) (int (length padStr))) (\<lambda>(quo, rem).
        rbind (slice padStr 0 rem) (\<lambda>part.
          if lpad then slice (Repeat padStr (nat quo) @ part @ str) 0 len
          else let result = str @ Repeat padStr (nat quo) @ part in
            slice result (int (length result) - len) (int (length result)))))"

definition Pad_Eval :: "genv \<Rightarrow> bool \<Rightarrow> gval res \<Rightarrow> gval res \<Rightarrow> gval res \<Rightarrow> gval res" where
  "Pad_Eval env lpad str len padStr =
     not_nil str (\<lambda>v1. rbind (case to_text env v1 of Err _ \<Rightarrow> Err (SqlErr ErrInvalidType) | m \<Rightarrow> m) (\<lambda>s.
       not_nil len (\<lambda>v2. rbind (to_int64 env v2) (\<lambda>n.
         not_nil padStr (\<lambda>v3. rbind (to_text env v3) (\<lambda>p. text_result (padString s n p lpad)))))))"

section \<open>CONCAT, CONCAT_WS, LENGTH\<close>

text \<open>An argument of CONCAT is the result of its evaluation with whether its type is an array. An element of an array that is NULL stays
  NULL in the converted array, and the assertion that it is a string panics. (A generator is not one of the values modelled.)\<close>

definition ErrNotArray :: gerror where "ErrNotArray = ErrOther ''value is not an array''"

definition array_strings :: "genv \<Rightarrow> gval \<Rightarrow> string list res" where
  "array_strings env v = (case v of GSlice vs \<Rightarrow>
       rbind (rmap (sql_convert env LongText) vs) (\<lambda>xs. rmap (\<lambda>x. case x of GString s \<Rightarrow> Ok s | _ \<Rightarrow> Panic) xs)
     | _ \<Rightarrow> Err ErrNotArray)"

definition arg_strings :: "genv \<Rightarrow> bool \<Rightarrow> gval \<Rightarrow> string list res" where
  "arg_strings env isArray v = (if isArray then array_strings env v else rbind (to_text env v) (\<lambda>s. Ok [s]))"

fun concat_loop :: "genv \<Rightarrow> string list \<Rightarrow> (bool \<times> gval res) list \<Rightarrow> gval res" where
  "concat_loop env parts [] = Ok (GString (Join [] parts))"
| "concat_loop env parts ((isArray, m) # args) =
     not_nil m (\<lambda>v. rbind (arg_strings env isArray v) (\<lambda>ss. concat_loop env (parts @ ss) args))"

definition Concat_Eval :: "genv \<Rightarrow> (bool \<times> gval res) list \<Rightarrow> gval res" where
  "Concat_Eval env args = concat_loop env [] args"

fun concat_ws_loop :: "genv \<Rightarrow> nat \<Rightarrow> string list \<Rightarrow> (bool \<times> gval res) list \<Rightarrow> gval res" where
  "concat_ws_loop env i parts [] = (case parts of [] \<Rightarrow> Panic | sep # ss \<Rightarrow> Ok (GString (Join sep ss)))"
| "concat_ws_loop env i parts ((isArray, m) # args) =
     rbind m (\<lambda>v. if v = GNil then if i = 0 then Ok GNil else concat_ws_loop env (i + 1) parts args
       else rbind (arg_strings env isArray v) (\<lambda>ss. concat_ws_loop env (i + 1) (parts @ ss) args))"

definition ConcatWithSeparator_Eval :: "genv \<Rightarrow> (bool \<times> gval res) list \<Rightarrow> gval res" where
  "ConcatWithSeparator_Eval env args = concat_ws_loop env 0 [] args"

definition blob_types :: "stype list" where
  "blob_types = map (\<lambda>n. StringT BlobT n Collation_binary) [charBinaryMax, varcharVarbinaryMax, mediumTextBlobMax, longTextBlobMax]"

definition Length_Eval :: "genv \<Rightarrow> bool \<Rightarrow> stype \<Rightarrow> gval res \<Rightarrow> gval res" where
  "Length_Eval env numChars childType child =
     not_nil child (\<lambda>v. rbind (sql_convert env (if childType \<in> set blob_types then LongBlob else LongText) v) (\<lambda>x. case x of
         GString content \<Rightarrow> Ok (GInt32 (word_of_int (int (if numChars then length (runes content) else length content))))
       | _ \<Rightarrow> Panic))"

section \<open>What the loops compute\<close>

lemma wrap64_id: "- (2 ^ 63) \<le> i \<Longrightarrow> i < 2 ^ 63 \<Longrightarrow> wrap64 i = i"
  by (simp add: wrap64_def sint_word_of_int_in_range)

lemma wrap64_over:
  assumes "2 ^ 63 \<le> i" "i < 2 ^ 64"
  shows "wrap64 i = i - 2 ^ 64"
proof -
  have "word_of_int (i - 2 ^ 64) = (word_of_int i :: 64 word)"
    by (simp add: word_of_int_eq_iff take_bit_eq_mod mod_diff_right_eq [symmetric])
  then have "wrap64 i = wrap64 (i - 2 ^ 64)"
    unfolding wrap64_def by (rule arg_cong [where f = sint, symmetric])
  then show ?thesis using assms by (simp add: wrap64_id)
qed

lemma swap_loop_rev: "swap_loop (as @ ms @ bs) (length as) (length as + length ms - 1) = as @ rev ms @ bs"
proof (induction ms arbitrary: as bs rule: length_induct)
  case (1 ms)
  show ?case
  proof (cases "length ms < 2")
    case True
    then have "rev ms = ms" "\<not> length as < length as + length ms - 1" by (cases ms; simp)+
    then show ?thesis by (simp add: swap_loop.simps [of "as @ ms @ bs"])
  next
    case False
    then obtain x ns where "ms = x # ns" "ns \<noteq> []" by (cases ms) auto
    then obtain m y where ms: "ms = x # m @ [y]" using rev_exhaust by metis
    have "swap_loop (as @ ms @ bs) (length as) (length as + length ms - 1) =
      swap_loop (as @ y # m @ x # bs) (length as + 1) (length as + length m)"
      by (subst swap_loop.simps) (simp add: ms nth_append list_update_append)
    also have "\<dots> = swap_loop ((as @ [y]) @ m @ (x # bs)) (length (as @ [y])) (length (as @ [y]) + length m - 1)" by simp
    also have "\<dots> = (as @ [y]) @ rev m @ (x # bs)" using 1 [rule_format, of m "as @ [y]" "x # bs"] ms by simp
    finally show ?thesis by (simp add: ms)
  qed
qed

lemma swap_loop_eq [simp]: "swap_loop r 0 (length r - 1) = rev r"
  using swap_loop_rev [of "[]" r "[]"] by simp

lemma find_from_found:
  assumes "find_from rs sub i = int k"
  shows "i \<le> k \<and> k + length sub \<le> length rs \<and> take (length sub) (drop k rs) = sub \<and>
    (\<forall>m. i \<le> m \<and> m < k \<longrightarrow> take (length sub) (drop m rs) \<noteq> sub)"
  using assms
proof (induction rs sub i rule: find_from.induct)
  case (1 rs sub i)
  show ?case
  proof (cases "i + length sub \<le> length rs \<and> take (length sub) (drop i rs) \<noteq> sub")
    case True
    with 1(2) have "find_from rs sub (i + 1) = int k" by (simp add: find_from.simps [of rs sub i])
    with 1(1) True have IH: "i + 1 \<le> k \<and> k + length sub \<le> length rs \<and> take (length sub) (drop k rs) = sub \<and>
      (\<forall>m. i + 1 \<le> m \<and> m < k \<longrightarrow> take (length sub) (drop m rs) \<noteq> sub)" by blast
    then show ?thesis using True by (metis Suc_eq_plus1 Suc_leD Suc_leI le_neq_implies_less)
  next
    case False
    with 1(2) show ?thesis by (auto simp: find_from.simps [of rs sub i] split: if_splits)
  qed
qed

lemma find_from_missing:
  assumes "find_from rs sub i < 0" "i \<le> m"
  shows "\<not> (m + length sub \<le> length rs \<and> take (length sub) (drop m rs) = sub)"
  using assms
proof (induction rs sub i rule: find_from.induct)
  case (1 rs sub i)
  show ?case
  proof
    assume m: "m + length sub \<le> length rs \<and> take (length sub) (drop m rs) = sub"
    with 1(2,3) have "i \<noteq> m" "find_from rs sub (i + 1) < 0"
      by (auto simp: find_from.simps [of rs sub i] split: if_splits)
    moreover have "i + length sub \<le> length rs" "take (length sub) (drop i rs) \<noteq> sub"
      using m 1(2,3) by (auto simp: find_from.simps [of rs sub i] split: if_splits)
    ultimately show False using 1(1) 1(3) m by auto
  qed
qed

lemma find_from_range: "find_from rs sub i = -1 \<or> (\<exists>k. find_from rs sub i = int k)"
proof (induction rs sub i rule: find_from.induct)
  case (1 rs sub i)
  then show ?case by (auto simp: find_from.simps [of rs sub i])
qed

lemma split_sep_not_Nil [simp]: "split_sep sep s \<noteq> []"
  by (simp add: split_sep.simps [of sep s] split: option.split)

lemma Join_Cons: "ss \<noteq> [] \<Longrightarrow> Join sep (s # ss) = s @ sep @ Join sep ss"
  by (cases ss) simp_all

lemma Join_append: "ss \<noteq> [] \<Longrightarrow> ts \<noteq> [] \<Longrightarrow> Join sep (ss @ ts) = Join sep ss @ sep @ Join sep ts"
  by (induction sep ss rule: Join.induct) (simp_all add: Join_Cons)

lemma Join_split_sep: "Join sep (split_sep sep s) = s"
proof (induction sep s rule: split_sep.induct)
  case (1 sep s)
  show ?case
  proof (cases "sep = [] \<or> cut sep s = None")
    case True
    then show ?thesis by (auto simp: split_sep.simps [of sep s])
  next
    case False
    then obtain a b where c: "cut sep s = Some (a, b)" by auto
    with 1 False have "Join sep (split_sep sep b) = b" by blast
    moreover have "split_sep sep s = a # split_sep sep b" using c False by (simp add: split_sep.simps [of sep s])
    ultimately show ?thesis using cut_Some [OF c] by (simp add: Join_Cons)
  qed
qed

lemma strings_Replace_Join:
  assumes "old \<noteq> []"
  shows "strings_Replace old new s = Join new (split_sep old s)"
  using assms
proof (induction old new s rule: strings_Replace.induct)
  case (1 old new s)
  show ?case
  proof (cases "cut old s")
    case (Some p)
    then obtain a b where "cut old s = Some (a, b)" by (cases p) auto
    with 1 show ?thesis
      by (simp add: strings_Replace.simps [of old new s] split_sep.simps [of old s] Join_Cons)
  qed (use 1 in \<open>simp add: strings_Replace.simps [of old new s] split_sep.simps [of old s]\<close>)
qed

lemma slice_take: "0 \<le> n \<Longrightarrow> n \<le> int (length xs) \<Longrightarrow> slice xs 0 n = Ok (take (nat n) xs)"
  by (simp add: slice_def)

lemma slice_drop: "0 \<le> n \<Longrightarrow> n \<le> int (length xs) \<Longrightarrow> slice xs n (int (length xs)) = Ok (drop (nat n) xs)"
  by (simp add: slice_def nat_diff_distrib)

lemma length_Repeat: "length (Repeat s n) = n * length s"
  by (simp add: Repeat_def length_concat sum_list_replicate)

section \<open>What the functions return\<close>

lemma to_int64_int: "cast_laws env \<Longrightarrow> to_int64 env (GInt64 w) = Ok (sint w)"
  using number_convert_Int64 [of env "GInt64 w" "sint w"] sint_lt [of w] by (simp add: to_int64_def)

lemma to_text_string:
  assumes "cast_laws env" "int (length s) \<le> longTextBlobMax"
  shows "to_text env (GString s) = Ok s"
  using assms by (simp add: to_text_def LongText_def string_convert_def cast_lawsD MaxByteLength_def Collation_Default_def
    coll_maxlen_def longTextBlobMax_def wrap64_id)

definition start_index :: "nat \<Rightarrow> int \<Rightarrow> int" where
  "start_index n start = (if start < 0 then int n + start else start - 1)"

lemma clipped_value:
  assumes "int (length rs) < 2 ^ 62" "0 \<le> i" "i < int (length rs)" "0 < n" "n < 2 ^ 63"
  shows "clipped rs i n = (if i + n < 2 ^ 63 then Ok (of_runes (take (nat n) (drop (nat i) rs))) else Panic)"
proof -
  consider "2 ^ 63 \<le> i + n" | "i + n < 2 ^ 63" "int (length rs) < i + n" | "i + n \<le> int (length rs)" by linarith
  then show ?thesis
  proof cases
    case 1
    then have "wrap64 (i + n) = i + n - 2 ^ 64" using assms by (intro wrap64_over) auto
    then show ?thesis using 1 assms by (simp add: clipped_def slice_def)
  next
    case 2
    then have "take (nat n) (drop (nat i) rs) = drop (nat i) rs" using assms by simp
    then show ?thesis using 2 assms by (simp add: clipped_def wrap64_id slice_drop)
  next
    case 3
    then show ?thesis using assms by (simp add: clipped_def wrap64_id slice_def)
  qed
qed

lemma substring_value:
  assumes "int (length rs) < 2 ^ 62" "- (2 ^ 63) \<le> start" "start < 2 ^ 63" "l < 2 ^ 63"
  defines "i \<equiv> start_index (length rs) start"
  shows "substring rs start (Some l) =
      (if i < 0 \<or> int (length rs) \<le> i \<or> l \<le> 0 then Ok []
       else if i + l < 2 ^ 63 then Ok (of_runes (take (nat l) (drop (nat i) rs))) else Panic)"
    and "substring rs start None = (if i < 0 \<or> int (length rs) \<le> i then Ok [] else Ok (of_runes (drop (nat i) rs)))"
proof -
  have i: "(if start < 0 then wrap64 (int (length rs) + start) else wrap64 (start - 1)) = i"
    using assms(1-3) by (simp add: i_def start_index_def wrap64_id)
  have s: "substring rs start k = (case k of Some n \<Rightarrow> if i < 0 \<or> i \<ge> int (length rs) \<or> n \<le> 0 then Ok [] else clipped rs i n
      | None \<Rightarrow> if i < 0 \<or> i \<ge> int (length rs) then Ok [] else clipped rs i (int (length rs)))" for k
    by (auto simp: substring_def Let_def i split: option.split)
  show "substring rs start (Some l) =
      (if i < 0 \<or> int (length rs) \<le> i \<or> l \<le> 0 then Ok []
       else if i + l < 2 ^ 63 then Ok (of_runes (take (nat l) (drop (nat i) rs))) else Panic)"
    using assms(1,4) by (simp add: s clipped_value)
  show "substring rs start None = (if i < 0 \<or> int (length rs) \<le> i then Ok [] else Ok (of_runes (drop (nat i) rs)))"
    unfolding s using clipped_value [of rs i "int (length rs)"] assms(1) by (cases "rs = []") auto
qed

lemma text_result_simps [simp]:
  "text_result (Ok s) = Ok (GString s)" "text_result Panic = Panic"
  "text_result (if b then m else m') = (if b then text_result m else text_result m')"
  by (simp_all add: text_result_def)

text \<open>(C31) SUBSTRING of a text returns the runes from the given position on, counted from the end when it is negative, as many as asked
  for; it is empty for a position outside the text or a length that is not positive. But when position and length add up to 2^63 or
  more the sum wraps around and the call panics.\<close>

theorem substring_runes:
  assumes "cast_laws env" "int (length (runes s)) < 2 ^ 62"
  shows "(let i = start_index (length (runes s)) (sint a); n = int (length (runes s)) in
    Substring_Eval env (Ok (GString s)) (Ok (GInt64 a)) None =
      Ok (GString (if i < 0 \<or> n \<le> i then [] else of_runes (drop (nat i) (runes s)))) \<and>
    Substring_Eval env (Ok (GString s)) (Ok (GInt64 a)) (Some (Ok (GInt64 b))) =
      (if i < 0 \<or> n \<le> i \<or> sint b \<le> 0 then Ok (GString [])
       else if i + sint b < 2 ^ 63 then Ok (GString (of_runes (take (nat (sint b)) (drop (nat i) (runes s)))))
       else Panic))"
proof -
  have range: "- (2 ^ 63) \<le> sint w" "sint w < 2 ^ 63" for w :: "64 word"
    using sint_ge [of w] sint_lt [of w] by simp_all
  note v = substring_value [OF assms(2) range [of a] range(2) [of b]]
  have "Substring_Eval env (Ok (GString s)) (Ok (GInt64 a)) None = text_result (substring (runes s) (sint a) None)"
    "Substring_Eval env (Ok (GString s)) (Ok (GInt64 a)) (Some (Ok (GInt64 b))) = text_result (substring (runes s) (sint a) (Some (sint b)))"
    using assms(1) by (simp_all add: Substring_Eval_def rune_arg_def not_nil_def to_int64_int)
  then show ?thesis by (simp add: v Let_def)
qed

lemma char_b: "char_of (98 :: nat) = CHR ''b''" and char_c: "char_of (99 :: nat) = CHR ''c''"
  by code_simp+

theorem substring_runes_witness:
  "Substring_Eval cast_env (Ok (GString ''abc'')) (Ok (GInt64 2)) (Some (Ok (GInt64 0x7FFFFFFFFFFFFFFF))) = Panic \<and>
   Substring_Eval cast_env (Ok (GString ''abc'')) (Ok (GInt64 2)) None = Ok (GString ''bc'')"
proof -
  have r: "runes ''abc'' = [97, 98, 99]" by (simp add: runes_def byte_def DecodeRune_def)
  have o: "of_runes [98, 99] = ''bc''"
    by (simp add: of_runes_def EncodeRune_def valid_rune_def char_b char_c)
  show ?thesis
    using substring_runes [OF cast_env_laws, of "''abc''" 2 "0x7FFFFFFFFFFFFFFF"]
    by (simp add: r o start_index_def Let_def)
qed

lemma Repeat_add: "Repeat s (a + b) = Repeat s a @ Repeat s b"
  by (simp add: Repeat_def replicate_add)

lemma Repeat_prefix:
  assumes "q < k \<or> q = k \<and> r = 0"
  shows "prefix (Repeat s q @ take r s) (Repeat s k)"
proof (cases "q < k")
  case True
  then have "Repeat s k = Repeat s q @ Repeat s (Suc (k - q - 1))" by (simp flip: Repeat_add)
  moreover have "Repeat s (Suc n) = take r s @ drop r s @ Repeat s n" for n by (simp add: Repeat_def)
  ultimately show ?thesis by simp
next
  case False
  with assms show ?thesis by simp
qed

lemma pad_length:
  assumes "padStr \<noteq> []" "0 < n" "int (length str) < n"
  obtains fill where "length fill = nat n - length str" "prefix fill (Repeat padStr (length fill))"
    "padString str n padStr True = Ok (fill @ str)" "padString str n padStr False = Ok (str @ fill)"
proof -
  define k m where "k = nat n - length str" and "m = length padStr"
  define fill where "fill = Repeat padStr (k div m) @ take (k mod m) padStr"
  have m: "0 < m" using assms(1) by (simp add: m_def)
  have k: "n - int (length str) = int k" using assms by (simp add: k_def)
  have len: "length fill = k" using m by (simp add: fill_def length_Repeat m_def less_imp_le)
  have d: "divmod (int k) (int m) = Ok (int (k div m), int (k mod m))"
    using m by (simp add: divmod_def zdiv_int zmod_int)
  have part: "slice padStr 0 (int (k mod m)) = Ok (take (k mod m) padStr)"
    using m by (simp add: slice_take m_def less_imp_le)
  have whole: "slice (fill @ str) 0 n = Ok (fill @ str)"
    "slice (str @ fill) (int (length (str @ fill)) - n) (int (length (str @ fill))) = Ok (str @ fill)"
    using k len by (simp_all add: slice_def)
  have "padString str n padStr b = (if b then slice (fill @ str) 0 n
      else slice (str @ fill) (int (length (str @ fill)) - n) (int (length (str @ fill))))" for b
    using assms by (simp add: padString_def k d part fill_def Let_def flip: m_def)
  then have "padString str n padStr True = Ok (fill @ str)" "padString str n padStr False = Ok (str @ fill)"
    using whole by simp_all
  moreover have "k div m < k \<or> k div m = k" using div_le_dividend le_neq_implies_less by blast
  then have "k div m < k \<or> k div m = k \<and> k mod m = 0"
    using div_eq_dividend_iff [of k m] by (cases "k = 0") auto
  then have "prefix fill (Repeat padStr (length fill))"
    unfolding len unfolding fill_def by (rule Repeat_prefix)
  ultimately show ?thesis using that len by (simp add: k_def)
qed

lemma substring_index_parts:
  assumes "delim \<noteq> []" "int (length (split_sep delim s)) < 2 ^ 63" "- (2 ^ 63) < c" "c < 2 ^ 63"
  defines "n \<equiv> int (length (split_sep delim s))"
  shows "substring_index s delim c =
    Ok (Join delim (if 0 < c then take (nat c) (split_sep delim s) else drop (nat (n + c)) (split_sep delim s)))"
proof (cases "0 < c")
  case True
  then show ?thesis using assms
    by (auto simp: substring_index_def strings_Split_def Let_def slice_def)
next
  case False
  then have "wrap64 (- c) = - c" using assms by (intro wrap64_id) auto
  then show ?thesis using False assms
    by (auto simp: substring_index_def strings_Split_def Let_def slice_def nat_diff_distrib)
qed

lemma instr_found:
  assumes "int (length (runes s)) < 2 ^ 62" "runes t \<noteq> []"
  shows "(let p = findSubsequence (runes s) (runes t) in
       if p < 0 then \<not> sublist (runes t) (runes s)
             else left_runes (runes s) p = Ok (of_runes (take (nat p) (runes s))) \<and>
               substring (runes s) (p + 1) (Some (int (length (runes t)))) = Ok (of_runes (runes t)) \<and>
               \<not> (\<exists>q < nat p. take (length (runes t)) (drop q (runes s)) = runes t))"
proof -
  have "find_from (runes s) (runes t) 0 = -1 \<or> (\<exists>p. find_from (runes s) (runes t) 0 = int p)" by (rule find_from_range)
  then show ?thesis
  proof
    assume none: "find_from (runes s) (runes t) 0 = -1"
    have "\<not> sublist (runes t) (runes s)"
    proof
      assume "sublist (runes t) (runes s)"
      then obtain a b where "runes s = a @ runes t @ b" by (auto simp: sublist_def)
      then show False using find_from_missing [of "runes s" "runes t" 0 "length a"] none by simp
    qed
    with none show ?thesis by (simp add: findSubsequence_def)
  next
    assume "\<exists>p. find_from (runes s) (runes t) 0 = int p"
    then obtain p where p: "find_from (runes s) (runes t) 0 = int p" by blast
    note found = find_from_found [OF p]
    have "0 < length (runes t)" using assms(2) by simp
    then have "substring (runes s) (int p + 1) (Some (int (length (runes t)))) = Ok (of_runes (runes t))"
      using substring_value(1) [OF assms(1), of "int p + 1" "int (length (runes t))"] found assms(1)
      by (auto simp: start_index_def)
    moreover have "left_runes (runes s) (int p) = Ok (of_runes (take p (runes s)))"
      using found by (simp add: left_runes_def Let_def slice_take of_runes_def)
    ultimately show ?thesis using found p by (simp add: findSubsequence_def)
  qed
qed

lemma reverseString_rev: "reverseString s = of_runes (rev (runes s))"
  by (simp only: reverseString_def swap_loop_eq)


lemma runes_ab: "runes ''a.b'' = [97, 46, 98]" "runes ''b'' = [98]"
  by (simp_all add: runes_def byte_def DecodeRune_def)

lemma split_ab: "split_sep ''.'' ''a.b'' = [''a'', ''b'']"
  by code_simp


end
