(* ===== verification/Like.thy ===== *)
theory Like
  imports Text_Functions
begin

text \<open>
  LIKE (\<^verbatim>\<open>sql/expression/like.go\<close>): the translation of a pattern to a regular expression, and the evaluation, which keeps the
  regular expression of a pattern without columns in a pool. The regular expressions are those of Go's package \<^verbatim>\<open>regexp\<close>, compiled by the
  engine \<^verbatim>\<open>go\<close> of \<^verbatim>\<open>internal/regex\<close>: the compiler is a parameter, and \<open>regexp_laws\<close> states what the expressions match that are made of
  literals, escaped literals, \<^verbatim>\<open>.\<close> and \<^verbatim>\<open>.*\<close> between \<^verbatim>\<open>(?s)^\<close> and \<^verbatim>\<open>$\<close>.
\<close>

section \<open>Translation\<close>

text \<open>\<^verbatim>\<open>regexp.QuoteMeta\<close> puts a backslash before each of \<^verbatim>\<open>\.+*?()|[]{}^$\<close>; \<^verbatim>\<open>strings.Replace\<close> turns two backslashes into one, from left to
  right.\<close>

definition is_meta :: "rune \<Rightarrow> bool" where
  "is_meta r \<longleftrightarrow> r \<in> {92, 46, 43, 42, 63, 40, 41, 124, 91, 93, 123, 125, 94, 36}"

definition QuoteMeta :: "rune list \<Rightarrow> rune list" where
  "QuoteMeta rs = concat (map (\<lambda>r. if is_meta r then [92, r] else [r]) rs)"

fun halve_backslashes :: "rune list \<Rightarrow> rune list" where
  "halve_backslashes [] = []"
| "halve_backslashes [r] = [r]"
| "halve_backslashes (r # q # rs) =
     (if r = 92 \<and> q = 92 then 92 # halve_backslashes rs else r # halve_backslashes (q # rs))"

text \<open>The loop over the runes, with \<open>_\<close> = 95, \<open>%\<close> = 37 and the backslash = 92.\<close>

fun regex_loop :: "bool \<Rightarrow> rune list \<Rightarrow> rune list" where
  "regex_loop escaped [] = []"
| "regex_loop escaped (r # rs) =
     (if r = 95 then (if escaped then [r] else [46]) @ regex_loop False rs
      else if r = 37 then (if escaped then [r] else [46, 42]) @ regex_loop False rs
      else if r = 92 then (if escaped then [92, 92] @ regex_loop False rs else regex_loop True rs)
      else (if escaped then [92, r] else [r]) @ regex_loop False rs)"

definition patternToGoRegex :: "string \<Rightarrow> string" where
  "patternToGoRegex pattern =
     of_runes ([40, 63, 115, 41, 94] @ regex_loop False (halve_backslashes (QuoteMeta (runes pattern))) @ [36])"

section \<open>Evaluation\<close>

text \<open>The state of the node is the regular expression that the constructor of the pool holds. A pattern that does not compile is an
  error without the pool; with it the constructor returns nil, and the assertion that it is a matcher panics.\<close>

definition bad_regexp :: gerror where "bad_regexp = ErrOther ''error parsing regexp''"

definition pooled_match :: "(string \<Rightarrow> (string \<Rightarrow> bool) option) \<Rightarrow> string \<Rightarrow> string \<Rightarrow> gval res" where
  "pooled_match compile rx text = (case compile rx of None \<Rightarrow> Panic | Some m \<Rightarrow> Ok (GBool (m text)))"

definition fresh_match :: "(string \<Rightarrow> (string \<Rightarrow> bool) option) \<Rightarrow> string \<Rightarrow> string \<Rightarrow> gval res" where
  "fresh_match compile rx text = (case compile rx of None \<Rightarrow> Err bad_regexp | Some m \<Rightarrow> Ok (GBool (m text)))"

definition pattern_regex :: "genv \<Rightarrow> gval res \<Rightarrow> string option res" where
  "pattern_regex env right = rbind right (\<lambda>v. if v = GNil then Ok None else rbind (to_text env v) (\<lambda>p. Ok (Some (patternToGoRegex p))))"

definition Like_Eval :: "(string \<Rightarrow> (string \<Rightarrow> bool) option) \<Rightarrow> genv \<Rightarrow> bool \<Rightarrow> string option \<Rightarrow> gval res \<Rightarrow> gval res \<Rightarrow>
    string option \<times> gval res" where
  "Like_Eval compile env cached pool left right =
     (case rbind left (\<lambda>v. if v = GNil then Ok None else rbind (to_text env v) (\<lambda>s. Ok (Some s))) of
        Panic \<Rightarrow> (pool, Panic)
      | Err e \<Rightarrow> (pool, Err e)
      | Ok None \<Rightarrow> (pool, Ok GNil)
      | Ok (Some text) \<Rightarrow>
          (case (if cached then pool else None) of
             Some rx \<Rightarrow> (pool, pooled_match compile rx text)
           | None \<Rightarrow>
               (case pattern_regex env right of
                  Panic \<Rightarrow> (pool, Panic)
                | Err e \<Rightarrow> (pool, Err e)
                | Ok None \<Rightarrow> (pool, Ok GNil)
                | Ok (Some rx) \<Rightarrow> if cached then (Some rx, pooled_match compile rx text) else (pool, fresh_match compile rx text))))"

section \<open>What the regular expressions match\<close>

datatype (plugins only: code size) token = Lit rune | Any | AnyStar

definition ascii_punct :: "rune \<Rightarrow> bool" where
  "ascii_punct r \<longleftrightarrow> 33 \<le> r \<and> r \<le> 126 \<and> \<not> (48 \<le> r \<and> r \<le> 57) \<and> \<not> (65 \<le> r \<and> r \<le> 90) \<and> \<not> (97 \<le> r \<and> r \<le> 122)"

fun re_tokens :: "rune list \<Rightarrow> token list option" where
  "re_tokens [] = Some []"
| "re_tokens (r # rs) =
     (if r = 92 then (case rs of q # qs \<Rightarrow> if ascii_punct q then map_option ((#) (Lit q)) (re_tokens qs) else None | [] \<Rightarrow> None)
      else if r = 46 then (case rs of q # qs \<Rightarrow> if q = 42 then map_option ((#) AnyStar) (re_tokens qs)
             else map_option ((#) Any) (re_tokens rs) | [] \<Rightarrow> Some [Any])
      else if is_meta r then None
      else map_option ((#) (Lit r)) (re_tokens rs))"

fun re_match :: "token list \<Rightarrow> rune list \<Rightarrow> bool" where
  "re_match [] s = (s = [])"
| "re_match (Lit r # ts) s = (case s of x # xs \<Rightarrow> x = r \<and> re_match ts xs | [] \<Rightarrow> False)"
| "re_match (Any # ts) s = (case s of x # xs \<Rightarrow> re_match ts xs | [] \<Rightarrow> False)"
| "re_match (AnyStar # ts) s = list_ex (\<lambda>n. re_match ts (drop n s)) [0..<Suc (length s)]"

definition regexp_laws :: "(string \<Rightarrow> (string \<Rightarrow> bool) option) \<Rightarrow> bool" where
  "regexp_laws compile \<longleftrightarrow> (\<forall>body ts. list_all valid_rune body \<and> re_tokens body = Some ts \<longrightarrow>
     (\<exists>m. compile (of_runes ([40, 63, 115, 41, 94] @ body @ [36])) = Some m \<and> (\<forall>s. m s = re_match ts (runes s))))"

text \<open>The meaning of LIKE: \<open>%\<close> stands for any runes, \<open>_\<close> for one, and a backslash takes the meaning from the \<open>%\<close>, the \<open>_\<close> or the backslash
  that follows. \<open>plain_pattern\<close> are the patterns in which a backslash is followed by one of them.\<close>

fun like_match :: "rune list \<Rightarrow> rune list \<Rightarrow> bool" where
  "like_match [] s = (s = [])"
| "like_match (r # p) s =
     (if r = 37 then list_ex (\<lambda>n. like_match p (drop n s)) [0..<Suc (length s)]
      else if r = 95 then (case s of x # xs \<Rightarrow> like_match p xs | [] \<Rightarrow> False)
      else if r = 92 then (case p of q # p' \<Rightarrow> (case s of x # xs \<Rightarrow> x = q \<and> like_match p' xs | [] \<Rightarrow> False) | [] \<Rightarrow> False)
      else (case s of x # xs \<Rightarrow> x = r \<and> like_match p xs | [] \<Rightarrow> False))"

fun plain_pattern :: "rune list \<Rightarrow> bool" where
  "plain_pattern [] = True"
| "plain_pattern (r # p) =
     (if r = 92 then (case p of q # p' \<Rightarrow> (q = 37 \<or> q = 95 \<or> q = 92) \<and> plain_pattern p' | [] \<Rightarrow> False) else plain_pattern p)"

lemma plain_pattern_cases [consumes 1, case_names Nil Escaped Plain]:
  assumes "plain_pattern p"
  obtains "p = []"
  | q p' where "p = 92 # q # p'" "q = 37 \<or> q = 95 \<or> q = 92" "plain_pattern p'"
  | r p' where "p = r # p'" "r \<noteq> 92" "plain_pattern p'"
  using assms by (cases p) (auto split: if_splits list.splits)

lemma QuoteMeta_simps [simp]:
  "QuoteMeta [] = []" "QuoteMeta (r # rs) = (if is_meta r then [92, r] else [r]) @ QuoteMeta rs"
  by (simp_all add: QuoteMeta_def)

lemma halve_plain: "r \<noteq> 92 \<Longrightarrow> halve_backslashes (r # rs) = r # halve_backslashes rs"
  by (cases rs) auto

definition body :: "rune list \<Rightarrow> rune list" where
  "body p = regex_loop False (halve_backslashes (QuoteMeta p))"

lemma body_simps:
  "body [] = []"
  "q = 37 \<or> q = 95 \<Longrightarrow> body (92 # q # p) = q # body p"
  "body (92 # 92 # p) = 92 # 92 # body p"
  "body (37 # p) = 46 # 42 # body p"
  "body (95 # p) = 46 # body p"
  "r \<noteq> 92 \<Longrightarrow> is_meta r \<Longrightarrow> body (r # p) = 92 # r # body p"
  "r \<noteq> 37 \<Longrightarrow> r \<noteq> 95 \<Longrightarrow> \<not> is_meta r \<Longrightarrow> body (r # p) = r # body p"
  by (auto simp: body_def is_meta_def halve_plain)

lemma body_no_star:
  assumes "plain_pattern p" "body p = r # rs"
  shows "r \<noteq> 42"
  using assms(1)
proof (cases rule: plain_pattern_cases)
  case (Plain q p')
  consider "q = 37" | "q = 95" | "is_meta q" | "q \<noteq> 37" "q \<noteq> 95" "\<not> is_meta q" by blast
  then show ?thesis
    by cases (use assms(2) Plain in \<open>auto simp: body_simps is_meta_def\<close>)
qed (use assms(2) in \<open>auto simp: body_simps\<close>)

lemma re_tokens_any: "plain_pattern p \<Longrightarrow> re_tokens (46 # body p) = map_option ((#) Any) (re_tokens (body p))"
  using body_no_star [of p] by (cases "body p") auto

lemma meta_punct: "is_meta r \<Longrightarrow> ascii_punct r"
  by (auto simp: is_meta_def ascii_punct_def)

text \<open>One item of the pattern is one token of the expression.\<close>

lemma body_item:
  assumes "plain_pattern p" "p \<noteq> []"
  obtains t p' where "plain_pattern p'" "length p' < length p"
    "re_tokens (body p) = map_option ((#) t) (re_tokens (body p'))"
    "\<And>ts s. (\<And>x. re_match ts x = like_match p' x) \<Longrightarrow> re_match (t # ts) s = like_match p s"
  using assms(1)
proof (cases rule: plain_pattern_cases)
  case Nil
  with assms(2) show ?thesis by simp
next
  case (Escaped q p')
  then have "re_tokens (body p) = map_option ((#) (Lit q)) (re_tokens (body p'))"
    by (auto simp: body_simps is_meta_def ascii_punct_def)
  then show ?thesis using Escaped by (intro that [of p' "Lit q"]) (auto split: list.splits)
next
  case (Plain r p')
  consider "r = 37" | "r = 95" | "is_meta r" | "r \<noteq> 37" "r \<noteq> 95" "\<not> is_meta r" by blast
  then show ?thesis
  proof cases
    case 1
    then show ?thesis using Plain by (intro that [of p' AnyStar]) (auto simp: body_simps)
  next
    case 2
    then have "re_tokens (body p) = map_option ((#) Any) (re_tokens (body p'))"
      using re_tokens_any [OF Plain(3)] Plain(1) by (simp only: body_simps)
    then show ?thesis using 2 Plain by (intro that [of p' Any]) (auto split: list.splits)
  next
    case 3
    then have "r \<noteq> 37" "r \<noteq> 95" by (auto simp: is_meta_def)
    then show ?thesis using 3 Plain
      by (intro that [of p' "Lit r"]) (auto simp: body_simps meta_punct split: list.splits)
  next
    case 4
    then have "r \<noteq> 46" by (auto simp: is_meta_def)
    then show ?thesis using 4 Plain by (intro that [of p' "Lit r"]) (auto simp: body_simps split: list.splits)
  qed
qed

lemma body_tokens:
  assumes "plain_pattern p"
  shows "\<exists>ts. re_tokens (body p) = Some ts \<and> (\<forall>s. re_match ts s = like_match p s)"
  using assms
proof (induction p rule: length_induct)
  case (1 p)
  show ?case
  proof (cases "p = []")
    case True
    then show ?thesis by (simp add: body_simps)
  next
    case False
    from body_item [OF "1.prems" False] obtain t p' where i: "plain_pattern p'" "length p' < length p"
      "re_tokens (body p) = map_option ((#) t) (re_tokens (body p'))"
      "\<And>ts s. (\<And>x. re_match ts x = like_match p' x) \<Longrightarrow> re_match (t # ts) s = like_match p s" by metis
    with 1 obtain ts where ts: "re_tokens (body p') = Some ts" "\<And>s. re_match ts s = like_match p' s" by blast
    have "re_tokens (body p) = Some (t # ts)" using i(3) ts(1) by simp
    moreover have "\<forall>s. re_match (t # ts) s = like_match p s" using i(4) ts(2) by blast
    ultimately show ?thesis by blast
  qed
qed

lemma valid_small: "r \<le> 127 \<Longrightarrow> valid_rune r"
  by (simp add: valid_rune_def)

lemma body_valid:
  assumes "list_all valid_rune p"
  shows "list_all valid_rune (body p)"
proof -
  have "list_all valid_rune (QuoteMeta p)"
    using assms by (induction p) (auto simp: valid_small)
  moreover have "list_all valid_rune rs \<Longrightarrow> list_all valid_rune (halve_backslashes rs)" for rs
    by (induction rs rule: halve_backslashes.induct) auto
  moreover have "list_all valid_rune rs \<Longrightarrow> list_all valid_rune (regex_loop e rs)" for e rs
    by (induction e rs rule: regex_loop.induct) (auto simp: valid_small)
  ultimately show ?thesis by (simp add: body_def)
qed

section \<open>LIKE matches\<close>

lemma compiled_pattern:
  assumes "regexp_laws compile" "plain_pattern (runes p)"
  obtains m where "compile (patternToGoRegex p) = Some m" "\<And>s. m s = like_match (runes p) (runes s)"
proof -
  obtain ts where ts: "re_tokens (body (runes p)) = Some ts" "\<forall>s. re_match ts s = like_match (runes p) s"
    using body_tokens [OF assms(2)] by blast
  moreover have "list_all valid_rune (body (runes p))" by (rule body_valid) simp
  ultimately have "\<exists>m. compile (of_runes ([40, 63, 115, 41, 94] @ body (runes p) @ [36])) = Some m \<and> (\<forall>s. m s = re_match ts (runes s))"
    using assms(1) unfolding regexp_laws_def by blast
  moreover have "patternToGoRegex p = of_runes ([40, 63, 115, 41, 94] @ body (runes p) @ [36])"
    by (simp only: patternToGoRegex_def body_def)
  ultimately show ?thesis using that ts(2) by auto
qed

text \<open>(C29) LIKE evaluates to whether the text matches the pattern, \<open>%\<close> for any runes and \<open>_\<close> for one, when each backslash of the pattern
  stands before a \<open>%\<close>, a \<open>_\<close> or a backslash: with a fresh regular expression, with a new pool, and with the pool of an earlier
  evaluation of the same pattern. The pool only ever holds the expression of the pattern.\<close>

theorem like_matches:
  assumes "regexp_laws compile" "cast_laws env" "plain_pattern (runes p)"
    and "int (length s) \<le> longTextBlobMax" "int (length p) \<le> longTextBlobMax"
    and "pool = None \<or> pool = Some (patternToGoRegex p)"
  shows "Like_Eval compile env cached pool (Ok (GString s)) (Ok (GString p)) =
      (if cached then Some (patternToGoRegex p) else pool, Ok (GBool (like_match (runes p) (runes s)))) \<and>
    Like_Eval compile env cached pool (Ok GNil) (Ok (GString p)) = (pool, Ok GNil) \<and>
    (pool = None \<longrightarrow> Like_Eval compile env cached pool (Ok (GString s)) (Ok GNil) = (pool, Ok GNil))"
proof -
  obtain m where m: "compile (patternToGoRegex p) = Some m" "\<And>s. m s = like_match (runes p) (runes s)"
    using compiled_pattern [OF assms(1,3)] by blast
  have t: "to_text env (GString s) = Ok s" "to_text env (GString p) = Ok p"
    using assms(2,4,5) by (simp_all add: to_text_string)
  show ?thesis
    using assms(6) by (auto simp: Like_Eval_def pattern_regex_def pooled_match_def fresh_match_def t m)
qed

text \<open>A compiler with these laws.\<close>

definition small_regexps :: "string \<Rightarrow> (string \<Rightarrow> bool) option" where
  "small_regexps rx = map_option (\<lambda>ts s. re_match ts (runes s)) (re_tokens (butlast (drop 5 (runes rx))))"

lemma small_regexps_laws: "regexp_laws small_regexps"
proof -
  have "runes (of_runes ([40, 63, 115, 41, 94] @ b @ [36])) = [40, 63, 115, 41, 94] @ b @ [36]" if "list_all valid_rune b" for b
    using that by (intro runes_of_runes) (simp add: valid_small)
  then show ?thesis unfolding regexp_laws_def small_regexps_def by auto
qed

lemma runes_percent: "runes ''%b'' = [37, 98]"
  by (simp add: runes_def byte_def DecodeRune_def)

lemma percent_matches: "like_match [37, 98] [97, 46, 98]"
  by code_simp

theorem like_matches_witness:
  "Like_Eval small_regexps cast_env True None (Ok (GString ''a.b'')) (Ok (GString ''%b'')) =
    (Some (patternToGoRegex ''%b''), Ok (GBool True))"
  using like_matches [OF small_regexps_laws cast_env_laws, of "''%b''" "''a.b''" None True] percent_matches
  by (simp add: runes_ab runes_percent longTextBlobMax_def del: like_match.simps)

text \<open>A backslash before any other rune goes wrong: it makes a meta character of the pattern one of the expression (a point then matches
  any rune after a backslash), and a letter a class of runes or no expression at all.\<close>

lemma like_backslash:
  "body [92, 46] = [92, 92, 46]"
  "c \<noteq> 37 \<Longrightarrow> c \<noteq> 95 \<Longrightarrow> \<not> is_meta c \<Longrightarrow> body [92, c] = [92, c]"
  "re_tokens (body [92, 46]) = Some [Lit 92, Any]"
  by (auto simp: body_def is_meta_def ascii_punct_def)

end
