(* ===== verification/Generate.thy ===== *)
theory Generate
  imports Row_Iters
begin

text \<open>
  The iterators that wrap a row iterator to expand an array into rows (\<^verbatim>\<open>sql/generator.go\<close>, \<^verbatim>\<open>sql/plan/generate.go\<close>) and to notify the
  process list of rows and of the end (\<^verbatim>\<open>trackedRowIter\<close> of \<^verbatim>\<open>sql/plan/process.go\<close>), and what they yield for any child.
\<close>

section \<open>Generators\<close>

text \<open>The only generators among the values are those made of arrays.\<close>

record array_generator =
  ag_array :: "gval list"
  ag_pos :: nat

definition ErrNotGenerator :: gerror where "ErrNotGenerator = ErrOther ''cannot convert value to a generator''"

definition NewArrayGenerator :: "gval list \<Rightarrow> array_generator" where
  "NewArrayGenerator array = \<lparr> ag_array = array, ag_pos = 0 \<rparr>"

definition ToGenerator :: "gval \<Rightarrow> array_generator res" where
  "ToGenerator v = (case v of GSlice vs \<Rightarrow> Ok (NewArrayGenerator vs) | GNil \<Rightarrow> Ok (NewArrayGenerator []) | _ \<Rightarrow> Err ErrNotGenerator)"

definition array_generator_Next :: "array_generator \<Rightarrow> array_generator \<times> gval res" where
  "array_generator_Next g =
     (if ag_pos g \<ge> length (ag_array g) then (g, Err EOF)
      else (g \<lparr> ag_pos := ag_pos g + 1 \<rparr>, Ok (ag_array g ! ag_pos g)))"

definition array_generator_Close :: "array_generator \<Rightarrow> array_generator" where
  "array_generator_Close g = g \<lparr> ag_pos := length (ag_array g) \<rparr>"

record 's generate_iter =
  gi_child :: 's
  gi_gen :: "array_generator option"
  gi_row :: row

text \<open>One round of the loop of \<^verbatim>\<open>Next\<close>: without a generator it takes the next row and makes one; with a generator it takes its next value,
  and drops the generator at its end. An index outside the row panics.\<close>

definition generate_round :: "('s, row) nextfn \<Rightarrow> nat \<Rightarrow> 's generate_iter \<Rightarrow> ('s generate_iter \<times> row res option) option" where
  "generate_round nx idx i =
     (case gi_gen i of
        None \<Rightarrow>
          (case nx (gi_child i) of
             None \<Rightarrow> None
           | Some (c, Err e) \<Rightarrow> Some (i \<lparr> gi_child := c \<rparr>, Some (Err e))
           | Some (c, Panic) \<Rightarrow> Some (i \<lparr> gi_child := c \<rparr>, Some Panic)
           | Some (c, Ok row) \<Rightarrow>
               let i1 = i \<lparr> gi_child := c, gi_row := row \<rparr> in
               (case rbind (slice_at row idx) ToGenerator of
                  Ok g \<Rightarrow> Some (i1 \<lparr> gi_gen := Some g \<rparr>, None)
                | Err e \<Rightarrow> Some (i1, Some (Err e))
                | Panic \<Rightarrow> Some (i1, Some Panic)))
      | Some g \<Rightarrow>
          (case array_generator_Next g of
             (g1, Err e) \<Rightarrow> if e = EOF then Some (i \<lparr> gi_gen := None \<rparr>, None) else Some (i \<lparr> gi_gen := Some g1 \<rparr>, Some (Err e))
           | (g1, Panic) \<Rightarrow> Some (i \<lparr> gi_gen := Some g1 \<rparr>, Some Panic)
           | (g1, Ok v) \<Rightarrow> Some (i \<lparr> gi_gen := Some g1 \<rparr>, Some (Ok ((gi_row i)[idx := v])))))"

definition generate_Next :: "('s, row) nextfn \<Rightarrow> nat \<Rightarrow> ('s generate_iter, row) nextfn" where
  "generate_Next nx idx = go_loop (generate_round nx idx)"

section \<open>Tracked iterators\<close>

text \<open>The callbacks are counted: \<open>tr_armed\<close> is whether \<^verbatim>\<open>onDone\<close> is still set.\<close>

record 's tracked_iter =
  tr_iter :: 's
  tr_armed :: bool
  tr_counts_next :: bool
  tr_done :: nat
  tr_next :: nat

definition tracked_done :: "'s tracked_iter \<Rightarrow> 's tracked_iter" where
  "tracked_done i = (if tr_armed i then i \<lparr> tr_armed := False, tr_done := tr_done i + 1 \<rparr> else i)"

definition tracked_Next :: "('s, row) nextfn \<Rightarrow> ('s tracked_iter, row) nextfn" where
  "tracked_Next nx i =
     (case nx (tr_iter i) of
        None \<Rightarrow> None
      | Some (s, r) \<Rightarrow>
          let i1 = i \<lparr> tr_iter := s \<rparr> in
          Some (case r of
              Err e \<Rightarrow> (if e = EOF then tracked_done i1 else i1, Err e)
            | Panic \<Rightarrow> (i1, Panic)
            | Ok row \<Rightarrow> (if tr_counts_next i1 then i1 \<lparr> tr_next := tr_next i1 + 1 \<rparr> else i1, Ok row)))"

definition tracked_Close :: "'s tracked_iter \<Rightarrow> 's tracked_iter" where
  "tracked_Close i = tracked_done i"

section \<open>What they yield\<close>

fun generated :: "nat \<Rightarrow> row list \<Rightarrow> row res \<Rightarrow> row list \<times> row res" where
  "generated idx [] r = ([], r)"
| "generated idx (x # xs) r =
     (case rbind (slice_at x idx) ToGenerator of
        Ok g \<Rightarrow> (map (\<lambda>v. x[idx := v]) (ag_array g) @ fst (generated idx xs r), snd (generated idx xs r))
      | Err e \<Rightarrow> ([], Err e)
      | Panic \<Rightarrow> ([], Panic))"

lemma ToGenerator_start: "ToGenerator v = Ok g \<Longrightarrow> ag_pos g = 0"
  by (cases v) (auto simp: ToGenerator_def NewArrayGenerator_def)

lemma generate_values:
  assumes "gi_gen i = Some g" "yield_pair (generate_Next nx idx) (i \<lparr> gi_gen := None \<rparr>) p"
  shows "yield_pair (generate_Next nx idx) i
    (map (\<lambda>v. (gi_row i)[idx := v]) (drop (ag_pos g) (ag_array g)) @ fst p, snd p)"
  using assms
proof (induction "length (ag_array g) - ag_pos g" arbitrary: i g)
  case 0
  then have "generate_Next nx idx i = generate_Next nx idx (i \<lparr> gi_gen := None \<rparr>)"
    unfolding generate_Next_def by (intro go_loop_continue) (simp add: generate_round_def array_generator_Next_def)
  with 0 show ?case by (auto intro: yield_pair_same)
next
  case (Suc n)
  let ?g = "g \<lparr> ag_pos := ag_pos g + 1 \<rparr>"
  let ?i = "i \<lparr> gi_gen := Some ?g \<rparr>"
  from Suc.hyps(2) have pos: "ag_pos g < length (ag_array g)" by simp
  have "generate_Next nx idx i = Some (?i, Ok ((gi_row i)[idx := ag_array g ! ag_pos g]))"
    unfolding generate_Next_def using pos Suc.prems(1)
    by (intro go_loop_return) (simp add: generate_round_def array_generator_Next_def)
  moreover have "yield_pair (generate_Next nx idx) ?i
      (map (\<lambda>v. (gi_row ?i)[idx := v]) (drop (ag_pos ?g) (ag_array ?g)) @ fst p, snd p)"
    by (rule Suc.hyps(1)) (use Suc in auto)
  ultimately show ?case
    using yield_pair_step [of "generate_Next nx idx" i ?i] pos by (fastforce simp: Cons_nth_drop_Suc [symmetric])
qed

lemma generate_yields:
  assumes "yields nx s xs r t" "gi_gen i = None" "gi_child i = s"
  shows "yield_pair (generate_Next nx idx) i (generated idx xs r)"
  using assms
proof (induction arbitrary: i rule: yields.induct)
  case (stop s t r)
  then have "generate_Next nx idx i = Some (i \<lparr> gi_child := t \<rparr>, r)"
    unfolding generate_Next_def by (intro go_loop_return) (cases r; simp add: generate_round_def)
  with stop show ?case by (auto intro: yield_pair_stop)
next
  case (step s s' x xs r t)
  let ?i = "i \<lparr> gi_child := s', gi_row := x \<rparr>"
  show ?case
  proof (cases "rbind (slice_at x idx) ToGenerator")
    case (Ok g)
    then have g: "ag_pos g = 0"
      by (cases "slice_at x idx") (auto dest: ToGenerator_start)
    have "generate_Next nx idx i = generate_Next nx idx (?i \<lparr> gi_gen := Some g \<rparr>)"
      unfolding generate_Next_def using step Ok by (intro go_loop_continue) (simp add: generate_round_def Let_def)
    moreover have "yield_pair (generate_Next nx idx) (?i \<lparr> gi_gen := Some g \<rparr>) (generated idx (x # xs) r)"
      using generate_values [of "?i \<lparr> gi_gen := Some g \<rparr>" g nx idx "generated idx xs r"] step.IH [of "?i \<lparr> gi_gen := None \<rparr>"] Ok g
        step.prems by simp
    ultimately show ?thesis by (rule yield_pair_same)
  next
    case (Err e)
    then have "generate_Next nx idx i = Some (?i, Err e)"
      unfolding generate_Next_def using step by (intro go_loop_return) (simp add: generate_round_def Let_def)
    then show ?thesis using Err by (auto intro: yield_pair_stop)
  next
    case Panic
    then have "generate_Next nx idx i = Some (?i, Panic)"
      unfolding generate_Next_def using step by (intro go_loop_return) (simp add: generate_round_def Let_def)
    then show ?thesis using Panic by (auto intro: yield_pair_stop)
  qed
qed

text \<open>A generated column: every row of the child is replaced, in order, by one row for each element of its array, with the element in
  the place of the array; a NULL gives no row, and a value that is no array ends the iteration with an error.\<close>

lemma generate_rows:
  assumes "yields nx s xs r t"
  shows "\<exists>t'. drain (generate_Next nx idx) \<lparr> gi_child = s, gi_gen = None, gi_row = [] \<rparr> [] = Some (t', finish (generated idx xs r))"
  using generate_yields [OF assms] by (intro yield_pair_drain) simp

theorem generate_rows_witness:
  "\<exists>t'. drain (generate_Next slice_Next 1) \<lparr> gi_child = RowsToRowIter [[GInt64 1, GSlice [GInt64 5, GInt64 6]], [GInt64 2, GNil]],
      gi_gen = None, gi_row = [] \<rparr> [] = Some (t', Ok [[GInt64 1, GInt64 5], [GInt64 1, GInt64 6]])"
proof -
  obtain t where "yields slice_Next (RowsToRowIter [[GInt64 1, GSlice [GInt64 5, GInt64 6]], [GInt64 2, GNil]])
      [[GInt64 1, GSlice [GInt64 5, GInt64 6]], [GInt64 2, GNil]] (Err EOF) t"
    by (rule slice_yieldsE)
  from generate_rows [OF this, of 1] show ?thesis
    by (simp add: ToGenerator_def NewArrayGenerator_def)
qed

lemma tracked_yields:
  assumes "yields nx s xs r t" "tr_iter i = s"
  shows "yields (tracked_Next nx) i xs r
    ((if r = Err EOF then tracked_done else id) (i \<lparr> tr_iter := t, tr_next := tr_next i + (if tr_counts_next i then length xs else 0) \<rparr>))"
  using assms
proof (induction arbitrary: i rule: yields.induct)
  case (stop s t r)
  then show ?case by (intro yields.stop) (auto simp: tracked_Next_def Let_def split: res.split)
next
  case (step s s' x xs r t)
  let ?i = "i \<lparr> tr_iter := s', tr_next := tr_next i + (if tr_counts_next i then 1 else 0) \<rparr>"
  have "tracked_Next nx i = Some (?i, Ok x)"
    using step by (auto simp: tracked_Next_def Let_def)
  moreover have "yields (tracked_Next nx) ?i xs r
      ((if r = Err EOF then tracked_done else id) (?i \<lparr> tr_iter := t, tr_next := tr_next ?i + (if tr_counts_next ?i then length xs else 0) \<rparr>))"
    by (rule step.IH) simp
  ultimately show ?case using step.prems by (auto intro!: yields.step)
qed

text \<open>A tracked iterator returns the rows of the wrapped one, counts each of them, and signals its end exactly once, at \<^verbatim>\<open>io.EOF\<close> or at
  \<^verbatim>\<open>Close\<close>, whatever comes first.\<close>

lemma tracked_rows:
  assumes "yields nx s xs r t" "i = \<lparr> tr_iter = s, tr_armed = True, tr_counts_next = True, tr_done = 0, tr_next = 0 \<rparr>"
  shows "\<exists>j. yields (tracked_Next nx) i xs r j \<and> tr_next j = length xs \<and> tr_done j = (if r = Err EOF then 1 else 0) \<and>
    tr_done (tracked_Close j) = 1 \<and> tr_done (tracked_Close (tracked_Close j)) = 1"
proof -
  let ?j = "(if r = Err EOF then tracked_done else id) (i \<lparr> tr_iter := t, tr_next := length xs \<rparr>)"
  have "yields (tracked_Next nx) i xs r ?j"
    using tracked_yields [OF assms(1), of i] assms(2) by simp
  then show ?thesis
    by (rule exI [of _ ?j, OF conjI]) (simp add: tracked_Close_def tracked_done_def assms(2))
qed

end
