(* ===== verification/Resolve_Columns.thy ===== *)
theory Resolve_Columns
  imports Expressions Rows Similar_Text Go_Strings "HOL-Library.AList"
begin

text \<open>
  How the analyzer gives a name a position (\<^verbatim>\<open>sql/analyzer/resolve_columns.go\<close>): \<^verbatim>\<open>qualifyColumns\<close> gives a column its table, from
  the tables and columns below the node, and \<^verbatim>\<open>resolveColumns\<close> replaces a qualified column by the field of the row at its position in the
  schemas of the children. A node is modelled by what the two rules look at.
\<close>

section \<open>Nodes and columns\<close>

text \<open>The expressions of a projection, and of the aggregates of a grouping, that have names.\<close>

datatype (plugins only: code size) item = AliasItem string | FieldItem string string | ColumnItem string string | OtherItem

datatype (plugins only: code size) rnode =
    ResolvedTable string schema
  | SubqueryAlias string schema
  | UnresolvedTable string
  | TableAlias string rnode
  | ProjectNode "item list" rnode
  | GroupByNode "item list" rnode
  | OtherNode "rnode list"

text \<open>\<^verbatim>\<open>*expression.UnresolvedColumn\<close> and \<^verbatim>\<open>*deferredColumn\<close>, with table and name.\<close>

datatype (plugins only: code size) col_ref = UnresolvedColumn string string | DeferredColumn string string

definition ref_table :: "col_ref \<Rightarrow> string" where
  "ref_table c = (case c of UnresolvedColumn t _ \<Rightarrow> t | DeferredColumn t _ \<Rightarrow> t)"

definition ref_name :: "col_ref \<Rightarrow> string" where
  "ref_name c = (case c of UnresolvedColumn _ n \<Rightarrow> n | DeferredColumn _ n \<Rightarrow> n)"

datatype (plugins only: code size) resolve_error =
    TableNotFound string
  | AmbiguousColumnName string "string list"
  | ColumnTableNotFound string string
  | ColumnNotFound string
  | GlobalVariablesNotSupported string string

section \<open>Qualification\<close>

type_synonym column_tables = "string \<Rightarrow> string list"
type_synonym table_names = "(string \<times> string) list"

definition indexCol :: "string \<Rightarrow> string \<Rightarrow> column_tables \<Rightarrow> column_tables" where
  "indexCol table col columns = columns (ToLower col := columns (ToLower col) @ [ToLower table])"

definition indexExpression :: "item \<Rightarrow> column_tables \<Rightarrow> column_tables" where
  "indexExpression e = (case e of AliasItem n \<Rightarrow> indexCol [] n | FieldItem t n \<Rightarrow> indexCol t n | ColumnItem t n \<Rightarrow> indexCol t n
     | OtherItem \<Rightarrow> id)"

definition indexSchema :: "schema \<Rightarrow> column_tables \<Rightarrow> column_tables" where
  "indexSchema sch = fold (\<lambda>c. indexCol (col_Source c) (col_Name c)) sch"

fun node_columns :: "rnode \<Rightarrow> column_tables \<Rightarrow> column_tables"
  and getColumnsInNodes :: "rnode list \<Rightarrow> column_tables \<Rightarrow> column_tables" where
  "node_columns (ResolvedTable n sch) columns = indexSchema sch columns"
| "node_columns (SubqueryAlias n sch) columns = indexSchema sch columns"
| "node_columns (ProjectNode es child) columns = fold indexExpression es columns"
| "node_columns (GroupByNode es child) columns = fold indexExpression es columns"
| "node_columns (UnresolvedTable n) columns = columns"
| "node_columns (TableAlias n child) columns = getColumnsInNodes [child] columns"
| "node_columns (OtherNode cs) columns = getColumnsInNodes cs columns"
| "getColumnsInNodes [] columns = columns"
| "getColumnsInNodes (n # ns) columns = getColumnsInNodes ns (node_columns n columns)"

text \<open>The map of the tables is a list: the order of the list is the order in which an iteration over the map yields its keys.\<close>

fun node_tables :: "rnode \<Rightarrow> table_names \<Rightarrow> table_names"
  and getNodesAvailableTables :: "rnode list \<Rightarrow> table_names \<Rightarrow> table_names" where
  "node_tables (ResolvedTable n sch) tables = AList.update (ToLower n) (ToLower n) tables"
| "node_tables (SubqueryAlias n sch) tables = AList.update (ToLower n) (ToLower n) tables"
| "node_tables (TableAlias a child) tables =
     (case child of
        ResolvedTable n _ \<Rightarrow> AList.update (ToLower n) (ToLower n) (AList.update (ToLower a) (ToLower n) tables)
      | UnresolvedTable n \<Rightarrow> AList.update (ToLower n) (ToLower n) (AList.update (ToLower a) (ToLower n) tables)
      | _ \<Rightarrow> tables)"
| "node_tables (UnresolvedTable n) tables = tables"
| "node_tables (ProjectNode es child) tables = getNodesAvailableTables [child] tables"
| "node_tables (GroupByNode es child) tables = getNodesAvailableTables [child] tables"
| "node_tables (OtherNode cs) tables = getNodesAvailableTables cs tables"
| "getNodesAvailableTables [] tables = tables"
| "getNodesAvailableTables (n # ns) tables = getNodesAvailableTables ns (node_tables n tables)"

definition getNodeAvailableColumns :: "rnode list \<Rightarrow> column_tables" where
  "getNodeAvailableColumns ns = getColumnsInNodes ns (\<lambda>_. [])"

definition getNodeAvailableTables :: "rnode list \<Rightarrow> table_names" where
  "getNodeAvailableTables ns = getNodesAvailableTables ns []"

fun dedup_loop :: "string list \<Rightarrow> string list \<Rightarrow> string list \<Rightarrow> string list" where
  "dedup_loop seen result [] = result"
| "dedup_loop seen result (s # ss) =
     (if s \<in> set seen then dedup_loop seen result ss else dedup_loop (s # seen) (result @ [s]) ss)"

definition dedupStrings :: "string list \<Rightarrow> string list" where
  "dedupStrings ss = dedup_loop [] [] ss"

definition at_at :: string where "at_at = ''@@''"

definition isGlobalOrSessionColumn :: "col_ref \<Rightarrow> bool" where
  "isGlobalOrSessionColumn c \<longleftrightarrow> take 2 (ref_name c) = at_at \<or> take 2 (ref_table c) = at_at"

definition qualifyColumn :: "column_tables \<Rightarrow> table_names \<Rightarrow> col_ref \<Rightarrow> resolve_error + col_ref" where
  "qualifyColumn columns tables c =
     (if isGlobalOrSessionColumn c then Inr c
      else let availableTables = dedupStrings (columns (ToLower (ref_name c))) in
        if ref_table c \<noteq> [] then
          (case map_of tables (ToLower (ref_table c)) of
             None \<Rightarrow> Inl (TableNotFound (if tables = [] then ref_table c else ref_table c @ Find (map fst tables) (ref_table c)))
           | Some table \<Rightarrow> if table \<notin> set availableTables then Inr c else Inr (UnresolvedColumn table (ref_name c)))
        else (case availableTables of
                [] \<Rightarrow> Inr c
              | [t] \<Rightarrow> Inr (UnresolvedColumn t (ref_name c))
              | _ \<Rightarrow> Inl (AmbiguousColumnName (ref_name c) availableTables)))"

definition qualifyStar :: "table_names \<Rightarrow> string \<Rightarrow> resolve_error + string" where
  "qualifyStar tables table =
     (if table = [] then Inr []
      else let real = (case map_of tables (ToLower table) of Some r \<Rightarrow> r | None \<Rightarrow> table) in
        if map_of tables (ToLower real) = None then Inl (TableNotFound real) else Inr real)"

section \<open>Resolution\<close>

type_synonym indexed_columns = "string \<times> string \<Rightarrow> (column \<times> nat) option"

definition column_key :: "column \<Rightarrow> string \<times> string" where
  "column_key c = (ToLower (col_Source c), ToLower (col_Name c))"

fun index_columns :: "nat \<Rightarrow> schema \<Rightarrow> indexed_columns \<Rightarrow> indexed_columns" where
  "index_columns idx [] columns = columns"
| "index_columns idx (c # cs) columns = index_columns (idx + 1) cs (columns(column_key c \<mapsto> (c, idx)))"

fun index_children :: "nat \<Rightarrow> schema list \<Rightarrow> indexed_columns \<Rightarrow> indexed_columns" where
  "index_children idx [] columns = columns"
| "index_children idx (sch # schs) columns = index_children (idx + length sch) schs (index_columns idx sch columns)"

definition findChildIndexedColumns :: "schema list \<Rightarrow> indexed_columns" where
  "findChildIndexedColumns schs = index_children 0 schs Map.empty"

definition resolveColumnExpression :: "indexed_columns \<Rightarrow> col_ref \<Rightarrow> resolve_error + (col_ref + expr)" where
  "resolveColumnExpression columns e =
     (case columns (ToLower (ref_table e), ToLower (ref_name e)) of
        None \<Rightarrow>
          (case e of
             UnresolvedColumn t n \<Rightarrow> Inr (Inl (DeferredColumn t n))
           | DeferredColumn t n \<Rightarrow> Inl (if ToLower t \<noteq> [] then ColumnTableNotFound t n else ColumnNotFound n))
      | Some (c, i) \<Rightarrow> Inr (Inr (GetField (int i) (col_Type c) (col_Source c) (col_Name c) (col_Nullable c))))"

definition trim_prefix :: "string \<Rightarrow> string \<Rightarrow> string" where
  "trim_prefix p s = (if take (length p) s = p then drop (length p) s else s)"

definition resolveGlobalOrSessionColumn :: "(string \<Rightarrow> stype \<times> gval) \<Rightarrow> col_ref \<Rightarrow> resolve_error + expr" where
  "resolveGlobalOrSessionColumn get c =
     (if ref_table c \<noteq> [] \<and> ToLower (ref_table c) \<noteq> ''@@session'' then Inl (GlobalVariablesNotSupported (ref_table c) (ref_name c))
      else let name = trim_prefix ''session.'' (trim_prefix ''global.'' (TrimLeft (CHR ''@'') (ref_name c))) in
        Inr (case get name of (t, v) \<Rightarrow> GetSessionField name t v))"

section \<open>What a name stands for\<close>

lemma index_columns_append: "index_columns n (as @ bs) m = index_columns (n + length as) bs (index_columns n as m)"
  by (induction as arbitrary: n m) simp_all

lemma index_children_concat: "index_children n schs m = index_columns n (concat schs) m"
  by (induction schs arbitrary: n m) (simp_all add: index_columns_append)

lemma index_columns_last:
  "index_columns 0 cs Map.empty k = Some (c, i) \<longleftrightarrow>
     i < length cs \<and> cs ! i = c \<and> column_key c = k \<and> (\<forall>j. i < j \<and> j < length cs \<longrightarrow> column_key (cs ! j) \<noteq> k)"
proof (induction cs rule: rev_induct)
  case (snoc x xs)
  show ?case
  proof (cases "column_key x = k")
    case True
    then have "index_columns 0 (xs @ [x]) Map.empty k = Some (x, length xs)" by (simp add: index_columns_append)
    moreover have "i = length xs" if "i < Suc (length xs)" "\<forall>j. i < j \<and> j < Suc (length xs) \<longrightarrow> column_key ((xs @ [x]) ! j) \<noteq> k"
    proof -
      have "\<not> i < length xs" using that(2) [rule_format, of "length xs"] True by auto
      with that(1) show ?thesis by simp
    qed
    ultimately show ?thesis using True by auto
  next
    case False
    then have "index_columns 0 (xs @ [x]) Map.empty k = index_columns 0 xs Map.empty k" by (simp add: index_columns_append)
    then show ?thesis using snoc False by (auto simp: nth_append less_Suc_eq)
  qed
qed simp

lemma index_columns_None: "index_columns 0 cs Map.empty k = None \<longleftrightarrow> k \<notin> column_key ` set cs"
  by (induction cs rule: rev_induct) (auto simp: index_columns_append)

lemma find_indexed:
  "findChildIndexedColumns schs k = Some (c, i) \<longleftrightarrow>
     i < length (concat schs) \<and> concat schs ! i = c \<and> column_key c = k \<and>
     (\<forall>j. i < j \<and> j < length (concat schs) \<longrightarrow> column_key (concat schs ! j) \<noteq> k)"
  "findChildIndexedColumns schs k = None \<longleftrightarrow> k \<notin> column_key ` set (concat schs)"
  by (simp_all only: findChildIndexedColumns_def index_children_concat index_columns_last index_columns_None)

lemma dedup_loop_set:
  "distinct result \<Longrightarrow> set seen = set result \<Longrightarrow>
   distinct (dedup_loop seen result ss) \<and> set (dedup_loop seen result ss) = set result \<union> set ss"
  by (induction seen result ss rule: dedup_loop.induct) auto

lemma dedupStrings_set [simp]: "distinct (dedupStrings ss)" "set (dedupStrings ss) = set ss"
  using dedup_loop_set [of "[]" "[]" ss] by (simp_all add: dedupStrings_def)

text \<open>(C11) A resolved column is the column it names. Resolving a qualified name against the schemas of the children gives a field exactly
  when some column has this table and name (letter case apart); its position is that of such a column, the last one when there are
  several, its type, name and nullability are those of the column, and evaluating it on a row of that many values returns the value
  there. A name that is not found is deferred once and then is an error.\<close>

theorem resolved_column:
  "let k = (ToLower t, ToLower n); cs = concat schs; columns = findChildIndexedColumns schs in
   if k \<in> column_key ` set cs then
     \<exists>i < length cs. let g = GetField (int i) (col_Type (cs ! i)) (col_Source (cs ! i)) (col_Name (cs ! i)) (col_Nullable (cs ! i)) in
       resolveColumnExpression columns (UnresolvedColumn t n) = Inr (Inr g) \<and>
       resolveColumnExpression columns (DeferredColumn t n) = Inr (Inr g) \<and>
       column_key (cs ! i) = k \<and> (\<forall>j. i < j \<and> j < length cs \<longrightarrow> column_key (cs ! j) \<noteq> k) \<and>
       (\<forall>row. length row = length cs \<longrightarrow> eval env g row = Ok (row ! i))
   else resolveColumnExpression columns (UnresolvedColumn t n) = Inr (Inl (DeferredColumn t n)) \<and>
     (\<exists>err. resolveColumnExpression columns (DeferredColumn t n) = Inl err)"
proof -
  define k cs where "k = (ToLower t, ToLower n)" and "cs = concat schs"
  note refs = resolveColumnExpression_def ref_table_def ref_name_def
  show ?thesis
  proof (cases "findChildIndexedColumns schs k")
    case None
    then have "k \<notin> column_key ` set cs" unfolding find_indexed(2) cs_def .
    with None show ?thesis unfolding k_def cs_def by (simp add: refs Let_def)
  next
    case (Some p)
    then obtain c i where ci: "findChildIndexedColumns schs k = Some (c, i)" by (cases p) auto
    then have i: "i < length cs" "cs ! i = c" "column_key c = k" "\<forall>j. i < j \<and> j < length cs \<longrightarrow> column_key (cs ! j) \<noteq> k"
      unfolding find_indexed(1) cs_def by blast+
    then have "k \<in> column_key ` set cs" by (metis image_eqI nth_mem)
    moreover have "resolveColumnExpression (findChildIndexedColumns schs) e =
        Inr (Inr (GetField (int i) (col_Type c) (col_Source c) (col_Name c) (col_Nullable c)))"
      if "e \<in> {UnresolvedColumn t n, DeferredColumn t n}" for e
      using that ci by (auto simp: refs k_def)
    ultimately show ?thesis using i unfolding k_def [symmetric] cs_def [symmetric] Let_def
      by (simp only: if_True) (intro exI [of _ i]; simp add: GetField_Eval_def)
  qed
qed

definition named_column :: "string \<Rightarrow> string \<Rightarrow> column" where
  "named_column t n = \<lparr> col_Name = n, col_Type = Int64, col_Default = GNil, col_Nullable = False, col_Source = t,
     col_PrimaryKey = False, col_Comment = [] \<rparr>"

theorem resolved_column_witness:
  "resolveColumnExpression (findChildIndexedColumns [[named_column ''t'' ''a''], [named_column ''u'' ''a'']]) (UnresolvedColumn ''u'' ''a'') =
     Inr (Inr (GetField 1 Int64 ''u'' ''a'' False)) \<and>
   eval cast_env (GetField 1 Int64 ''u'' ''a'' False) [GInt64 7, GInt64 8] = Ok (GInt64 8)"
proof -
  have lower: "ToLower ''t'' = ''t''" "ToLower ''u'' = ''u''" "ToLower ''a'' = ''a''" by code_simp+
  from resolved_column [of "''u''" "''a''" "[[named_column ''t'' ''a''], [named_column ''u'' ''a'']]" cast_env] show ?thesis
    by (auto simp: Let_def column_key_def named_column_def lower nth_Cons' GetField_Eval_def le_Suc_eq split: if_splits)
qed

lemma indexSchema_same:
  assumes "\<forall>c \<in> set sch. ToLower (col_Source c) = t" "set (m n) \<subseteq> {t}" "n \<in> (\<lambda>c. ToLower (col_Name c)) ` set sch \<or> t \<in> set (m n)"
  shows "set (indexSchema sch m n) = {t}"
  using assms
proof (induction sch arbitrary: m)
  case Nil
  then show ?case by (auto simp: indexSchema_def)
next
  case (Cons c cs)
  have "indexSchema (c # cs) m = indexSchema cs (indexCol (col_Source c) (col_Name c) m)"
    by (simp add: indexSchema_def)
  moreover have "set (indexSchema cs (indexCol (col_Source c) (col_Name c) m) n) = {t}"
    using Cons.prems by (intro Cons.IH) (auto simp: indexCol_def)
  ultimately show ?case by simp
qed

text \<open>(C38) Two aliases of one table are not told apart: in a join of a table with itself under the names a and b, a column of a and the
  same column of b are both qualified with the name of the table, and both resolve to the column of the second operand.\<close>

theorem self_join_aliases:
  assumes "\<forall>c \<in> set sch. ToLower (col_Source c) = ToLower t" "distinct (map column_key sch)" "k < length sch"
    and "a \<noteq> []" "b \<noteq> []" "take 2 a \<noteq> at_at" "take 2 b \<noteq> at_at" "take 2 (col_Name (sch ! k)) \<noteq> at_at"
  defines "join \<equiv> OtherNode [TableAlias a (ResolvedTable t sch), TableAlias b (ResolvedTable t sch)]"
    and "n \<equiv> col_Name (sch ! k)"
  shows "qualifyColumn (getNodeAvailableColumns [join]) (getNodeAvailableTables [join]) (UnresolvedColumn a n) =
      Inr (UnresolvedColumn (ToLower t) n) \<and>
    qualifyColumn (getNodeAvailableColumns [join]) (getNodeAvailableTables [join]) (UnresolvedColumn b n) =
      Inr (UnresolvedColumn (ToLower t) n) \<and>
    resolveColumnExpression (findChildIndexedColumns [sch @ sch]) (UnresolvedColumn (ToLower t) n) =
      Inr (Inr (GetField (int (length sch + k)) (col_Type (sch ! k)) (col_Source (sch ! k)) n (col_Nullable (sch ! k))))"
proof -
  let ?t = "ToLower t"
  have once: "set (indexSchema sch (\<lambda>_. []) (ToLower n)) = {?t}"
    by (rule indexSchema_same) (use assms(1,3) in \<open>auto simp: n_def\<close>)
  have "set (indexSchema sch (indexSchema sch (\<lambda>_. [])) (ToLower n)) = {?t}"
    by (rule indexSchema_same) (use assms(1) once in auto)
  then have "set (getNodeAvailableColumns [join] (ToLower n)) = {?t}"
    by (simp add: getNodeAvailableColumns_def join_def)
  then have av: "?t \<in> set (dedupStrings (getNodeAvailableColumns [join] (ToLower n)))" by simp
  have tables: "map_of (getNodeAvailableTables [join]) (ToLower a) = Some ?t"
    "map_of (getNodeAvailableTables [join]) (ToLower b) = Some ?t"
    by (simp_all add: getNodeAvailableTables_def join_def update_conv')
  have key: "column_key (sch ! k) = (?t, ToLower n)" using assms(1,3) by (simp add: column_key_def n_def)
  have "column_key ((sch @ sch) ! j) \<noteq> (?t, ToLower n)" if "length sch + k < j" "j < length (sch @ sch)" for j
  proof -
    have "k \<noteq> j - length sch" "j - length sch < length sch" using that by auto
    then have "column_key (sch ! k) \<noteq> column_key (sch ! (j - length sch))"
      using assms(2,3) by (simp add: distinct_conv_nth)
    then show ?thesis using key that by (auto simp: nth_append)
  qed
  then have "findChildIndexedColumns [sch @ sch] (?t, ToLower n) = Some (sch ! k, length sch + k)"
    unfolding find_indexed(1) using key assms(3) by (auto simp: nth_append)
  then show ?thesis
    using assms(4-8) av tables
    by (simp add: qualifyColumn_def resolveColumnExpression_def isGlobalOrSessionColumn_def ref_name_def ref_table_def n_def)
qed

theorem self_join_aliases_witness:
  "qualifyColumn (getNodeAvailableColumns [OtherNode [TableAlias ''a'' (ResolvedTable ''t'' [named_column ''t'' ''x'']),
        TableAlias ''b'' (ResolvedTable ''t'' [named_column ''t'' ''x''])]])
      (getNodeAvailableTables [OtherNode [TableAlias ''a'' (ResolvedTable ''t'' [named_column ''t'' ''x'']),
        TableAlias ''b'' (ResolvedTable ''t'' [named_column ''t'' ''x''])]]) (UnresolvedColumn ''a'' ''x'') =
      Inr (UnresolvedColumn (ToLower ''t'') ''x'') \<and>
    resolveColumnExpression (findChildIndexedColumns [[named_column ''t'' ''x'', named_column ''t'' ''x'']]) (UnresolvedColumn (ToLower ''t'') ''x'') =
      Inr (Inr (GetField 1 Int64 ''t'' ''x'' False))"
  using self_join_aliases [of "[named_column ''t'' ''x'']" "''t''" 0 "''a''" "''b''"]
  by (simp add: named_column_def at_at_def)

end
