(* ===== verification/Spec2Isabelle.thy ===== *)
theory Spec2Isabelle
  imports Joins Group_By Dml Index_Soundness Registry_Locks Catalog Analyzer_Batch Memory_Manager Engine Plan_Rules
    Enum_Set_Types Charset Parse_Statements Exchange Like Generate Resolve_Columns
begin

text \<open>
  A verification library for the SQL engine \<^verbatim>\<open>go_mysql_server\<close>, written in Go. File names are relative to the root of the repository.

  \<^bold>\<open>The program.\<close> A query goes through \<^verbatim>\<open>Engine.Query\<close> (\<^verbatim>\<open>engine.go\<close>): it is parsed (\<^verbatim>\<open>sql/parse\<close>, partly by hand and
  partly by the vitess parser), the permission is checked (\<^verbatim>\<open>auth\<close>), a process is registered (\<^verbatim>\<open>sql/processlist.go\<close>), the analyzer rewrites
  the plan in batches of rules (\<^verbatim>\<open>sql/analyzer\<close>), and the plan returns an iterator of rows (\<^verbatim>\<open>sql/plan\<close>). Iterators evaluate expressions
  (\<^verbatim>\<open>sql/expression\<close>) on rows of dynamically typed values (\<^verbatim>\<open>sql\<close>) and read tables, of which \<^verbatim>\<open>memory\<close> is the one in the
  repository. Catalog, index registry, memory manager and session are shared between queries.

  \<^bold>\<open>Conventions.\<close> An operation that can fail returns \<open>'a res\<close>: \<open>Ok\<close>, \<open>Err\<close> with the error, or \<open>Panic\<close> for a run-time panic of Go
  (nil dereference, failed type assertion, index out of range, division by zero). A row iterator is a function from its state to a new
  state and a result, and \<open>None\<close> when it does not return. Machine integers are words, or integers wrapped where the code computes with
  them; floats are their IEEE bit patterns. Code that is not in the repository (the package \<^verbatim>\<open>cast\<close>, formatting of times, the vitess
  parser, the compiler of regular expressions, hash functions, a table's own index keys) is an argument of the definitions that use it; what
  the code relies on is a named predicate (\<open>cast_laws\<close>, \<open>regexp_laws\<close> and others), for which a witness gives an instance.

  \<^bold>\<open>Foundations.\<close>
  \<^item> \<open>Go_Prelude\<close>: errors, results, slices, loops that may not end, and iterators: what \<open>yields\<close> means, \<^verbatim>\<open>RowIterToRows\<close>, and the locale
    \<open>row_iter\<close> of well-behaved iterators, on which the interpretations of the slice and table iterators rest.
  \<^item> \<open>Go_Values\<close>, \<open>Go_Strings\<close>: interface values, floats, \<^verbatim>\<open>strconv\<close>, \<^verbatim>\<open>strings\<close>, \<^verbatim>\<open>ConvertToBool\<close>, \<^verbatim>\<open>EvaluateCondition\<close>.
  \<^item> \<open>Similar_Text\<close> (\<^verbatim>\<open>internal/similartext\<close>): the edit distance with two rows of the matrix equals the reference recursion and is the
    number of characters outside a longest common subsequence; \<open>Find\<close> lists the names at the least distance.

  \<^bold>\<open>Types and rows.\<close>
  \<^item> \<open>Sql_Types\<close> (\<^verbatim>\<open>sql/numbertype.go\<close>, \<^verbatim>\<open>stringtype.go\<close>, \<^verbatim>\<open>tupletype.go\<close>, \<^verbatim>\<open>type.go\<close>): conversion and comparison; comparison is a
    total preorder (locale \<open>keyed_comparer\<close>), conversion keeps a value in range and rejects any other.
  \<^item> \<open>Enum_Set_Types\<close> (\<^verbatim>\<open>sql/enumtype.go\<close>, \<^verbatim>\<open>settype.go\<close>, \<^verbatim>\<open>bit.go\<close>, \<^verbatim>\<open>yeartype.go\<close>): conversion ends in the type (locale
    \<open>value_type\<close>), members and numbers correspond.
  \<^item> \<open>Charset\<close> (\<^verbatim>\<open>sql/charsetcollation.go\<close>): the tables fit together, and parsing names never panics.
  \<^item> \<open>Rows\<close> (\<^verbatim>\<open>sql/row.go\<close>, \<^verbatim>\<open>schema.go\<close>, \<^verbatim>\<open>column.go\<close>, \<^verbatim>\<open>table_iter.go\<close>): rows, schemas, and the iteration over the partitions of a
    table.

  \<^bold>\<open>Expressions and functions.\<close>
  \<^item> \<open>Expressions\<close> (\<^verbatim>\<open>sql/expression\<close>): the expression tree with type, nullability, evaluation and the generic walks. Three-valued logic,
    complements of comparisons, soundness of \<^verbatim>\<open>IsNullable\<close>, division, and that an evaluation never panics on the expressions of a
    stated class.
  \<^item> \<open>Text_Functions\<close>, \<open>Like\<close> (\<^verbatim>\<open>sql/expression/function\<close>, \<^verbatim>\<open>like.go\<close>): the text functions on UTF-8, and that the regular expression made
    of a pattern matches what LIKE means.
  \<^item> \<open>Aggregation\<close> (\<^verbatim>\<open>sql/expression/function/aggregation\<close>): each aggregate against its definition over the values of a group (locale
    \<open>aggregation\<close>), and what merging partial results gets wrong.

  \<^bold>\<open>Execution.\<close>
  \<^item> \<open>Row_Iters\<close>, \<open>Generate\<close>: LIMIT, OFFSET, filter, projection, UNION, DISTINCT, cross join, generated columns and tracked iterators,
    each for an arbitrary child: the rows up to the first failure, and the failure.
  \<^item> \<open>Sorting\<close> (\<^verbatim>\<open>sort.go\<close>): ORDER BY is the unique stable sort. \<open>Joins\<close> (\<^verbatim>\<open>join.go\<close>): the join of the reference, in every mode and
    wherever memory runs out. \<open>Group_By\<close> (\<^verbatim>\<open>group_by.go\<close>): one row per key in the order of first occurrence.
  \<^item> \<open>Exchange\<close> (\<^verbatim>\<open>exchange.go\<close>): the goroutines as step relations; under every interleaving each row is returned once, every run ends, and
    the tokens bound the partitions that are read at a time.
  \<^item> \<open>Memory_Table\<close> (\<^verbatim>\<open>memory/table.go\<close>): partitions that share backing arrays; the editor implements insertion, deletion and
    replacement on the multiset of rows; scans and index reads. \<open>Dml\<close> (\<^verbatim>\<open>insert.go\<close>, \<^verbatim>\<open>update.go\<close>, \<^verbatim>\<open>delete.go\<close>): the statements on any
    table that meets the contract of the editor, and what happens when the source reads the table that changes.

  \<^bold>\<open>Analyzer.\<close>
  \<^item> \<open>Resolve_Columns\<close> (\<^verbatim>\<open>resolve_columns.go\<close>): from names to positions.
  \<^item> \<open>Optimizer\<close>, \<open>Plan_Rules\<close> (\<^verbatim>\<open>filters.go\<close>, \<^verbatim>\<open>optimization_rules.go\<close>): splitting, moving and folding of conditions keeps the rows;
    a whole SELECT with folded condition, sorting and limits.
  \<^item> \<open>Memory_Index\<close>, \<open>Assign_Indexes\<close>, \<open>Index_Soundness\<close> (\<^verbatim>\<open>memory/*_index.go\<close>, \<^verbatim>\<open>assign_indexes.go\<close>): the lookup chosen for a filter
    returns every row that the filter accepts, for the conditions for which it does.
  \<^item> \<open>Analyzer_Batch\<close> (\<^verbatim>\<open>batch.go\<close>, \<^verbatim>\<open>analyzer.go\<close>): rounds to a fixpoint, at most the limit.

  \<^bold>\<open>Shared state.\<close>
  \<^item> \<open>Index_Registry\<close>, \<open>Registry_Locks\<close> (\<^verbatim>\<open>sql/index.go\<close>): the registry as a state machine with its invariant, deferred deletion, and the
    orders in which operations take the two locks.
  \<^item> \<open>Process_List\<close>, \<open>Memory_Manager\<close>, \<open>Catalog\<close>, \<open>Engine\<close>: processes and their contexts, caches and warnings, databases, views, functions
    and locks, permissions and the query pipeline.

  \<^bold>\<open>Parser.\<close> \<open>Parse_Readers\<close>, \<open>Parse_Statements\<close> (\<^verbatim>\<open>sql/parse\<close>): the readers read back what was written; comments, the statements on
  indexes, locks, warnings and variables, and the regular expressions that choose between them. Characters are one byte long there.

  \<^bold>\<open>Bounds and fuel.\<close> No definition takes fuel: loops that end are total functions with their measure, loops that may not end are partial
  functions whose value \<open>None\<close> is not returning, and that they return is proved (\<open>yields\<close>, \<open>drain\<close>) or, for the join with an empty side,
  refuted. Lengths are assumed below 2^62 where the code adds them as \<^verbatim>\<open>int64\<close>.

  \<^bold>\<open>Not modelled.\<close> The conversion of the vitess syntax tree to a plan (most of \<^verbatim>\<open>parse.go\<close>); the tree of all plan nodes, and with it
  the analyzer rules that only rearrange it (pushdown, pruning, HAVING and ORDER BY resolution, validation); date, time, decimal and JSON
  types and the functions that call one function of \<^verbatim>\<open>time\<close>, \<^verbatim>\<open>math\<close>, \<^verbatim>\<open>unicode\<close> or \<^verbatim>\<open>regexp\<close>; the index driver on pilosa; the
  DDL and SHOW nodes, which format what the catalog returns; the information schema; the server and its sockets. Iterators are not closed:
  the effects of \<^verbatim>\<open>Close\<close> on spans and caches are left out, except in \<open>Exchange\<close> and \<open>Generate\<close>.
\<close>

end
